(* ===== verification/Prelude.thy ===== *)
theory Prelude
  imports Main "HOL-Library.Word"
begin

text \<open>
  Shared ground of the development: the integer conversions of the C sources, flag masks,
  the capacity-doubling loop of the dynamic arrays, positional writes to a file of fixed-size
  records, and list traversals with an early exit.  Outcomes of C functions are modelled as
  \<open>('a \<times> 's) option\<close>: \<open>None\<close> is an aborted process (a failed ASSERT or an access outside an
  array), \<open>Some\<close> carries the C return value and the new state.
\<close>

unbundle bit_operations_syntax

named_theorems entry_simps \<open>field reads of log entries after an update\<close>
named_theorems frame_simps \<open>parts of the state an operation does not touch\<close>

section \<open>Integers of the C sources\<close>

text \<open>Values stored in narrow fields are kept as ints; a store converts as C does.\<close>

definition to_u8 :: "int \<Rightarrow> int" where
  "to_u8 x = x mod 2 ^ 8"

definition to_u16 :: "int \<Rightarrow> int" where
  "to_u16 x = x mod 2 ^ 16"

definition to_s16 :: "int \<Rightarrow> int" where
  "to_s16 x = (x + 2 ^ 15) mod 2 ^ 16 - 2 ^ 15"

definition to_u32 :: "int \<Rightarrow> int" where
  "to_u32 x = x mod 2 ^ 32"

definition c_bool :: "bool \<Rightarrow> int" where
  "c_bool b = (if b then 1 else 0)"

lemma to_u8_id [simp]: "0 \<le> x \<Longrightarrow> x < 256 \<Longrightarrow> to_u8 x = x"
  by (simp add: to_u8_def)

lemma to_u8_range [simp]: "0 \<le> to_u8 x" "to_u8 x < 256"
  by (simp_all add: to_u8_def)

lemma to_u16_id [simp]: "0 \<le> x \<Longrightarrow> x < 65536 \<Longrightarrow> to_u16 x = x"
  by (simp add: to_u16_def)

lemma to_s16_id [simp]: "- 32768 \<le> x \<Longrightarrow> x < 32768 \<Longrightarrow> to_s16 x = x"
  by (simp add: to_s16_def)

lemma to_s16_range: "- 32768 \<le> to_s16 x" "to_s16 x < 32768"
  by (simp_all add: to_s16_def)

lemma to_u32_id [simp]: "0 \<le> x \<Longrightarrow> x < 4294967296 \<Longrightarrow> to_u32 x = x"
  by (simp add: to_u32_def)

text \<open>Four 32-bit words: a run UUID, or the address bytes of an IP.\<close>

type_synonym quad = "32 word \<times> 32 word \<times> 32 word \<times> 32 word"
type_synonym sha1 = "32 word \<times> 32 word \<times> 32 word \<times> 32 word \<times> 32 word"

abbreviation zero_quad :: quad where "zero_quad \<equiv> (0, 0, 0, 0)"
abbreviation zero_sha1 :: sha1 where "zero_sha1 \<equiv> (0, 0, 0, 0, 0)"

fun quad0 :: "quad \<Rightarrow> 32 word" where
  "quad0 (a, b, c, d) = a"

section \<open>Limits (\<open>ej_limits.h\<close>)\<close>

definition EJ_MAX_USER_ID :: int where [simp]: "EJ_MAX_USER_ID = 999999"
definition EJ_MAX_LANG_ID :: int where [simp]: "EJ_MAX_LANG_ID = 999999"
definition EJ_MAX_PROB_ID :: int where [simp]: "EJ_MAX_PROB_ID = 999999"
definition EJ_MAX_SCORE :: int where [simp]: "EJ_MAX_SCORE = 999999"
definition EJ_MAX_VARIANT :: int where [simp]: "EJ_MAX_VARIANT = 255"
definition EJ_MAX_JUDGE_ID :: int where [simp]: "EJ_MAX_JUDGE_ID = 65535"
definition EJ_MAX_LOCALE_ID :: int where [simp]: "EJ_MAX_LOCALE_ID = 127"

section \<open>Flag masks\<close>

type_synonym mask = "32 word"

definition has :: "mask \<Rightarrow> mask \<Rightarrow> bool" where
  "has m f \<longleftrightarrow> m AND f \<noteq> 0"

section \<open>Growing a dynamic array\<close>

text \<open>\<open>while (a < n) a *= 2;\<close> started at a positive capacity.\<close>

function double_upto :: "nat \<Rightarrow> nat \<Rightarrow> nat" where
  "double_upto n a = (if a < n \<and> 0 < a then double_upto n (2 * a) else a)"
  by pat_completeness auto
termination
  by (relation "measure (\<lambda>(n, a). n - a)") auto

declare double_upto.simps [simp del]

lemma double_upto_ge: "0 < a \<Longrightarrow> n \<le> double_upto n a"
proof (induction n a rule: double_upto.induct)
  case (1 n a)
  then show ?case by (cases "a < n") (auto simp: double_upto.simps [of n a])
qed

lemma double_upto_mono: "a \<le> double_upto n a"
proof (induction n a rule: double_upto.induct)
  case (1 n a)
  then show ?case by (cases "a < n \<and> 0 < a") (auto simp: double_upto.simps [of n a])
qed

section \<open>A file of fixed-size records\<close>

text \<open>
  \<open>lseek\<close> to record \<open>off\<close> and write the records \<open>new\<close>.  Seeking past the end leaves a hole, which
  reads back as zero bytes \<open>z\<close>.
\<close>

definition write_at :: "'a \<Rightarrow> nat \<Rightarrow> 'a list \<Rightarrow> 'a list \<Rightarrow> 'a list" where
  "write_at z off new old =
     take off old @ replicate (off - length old) z @ new @ drop (off + length new) old"

text \<open>\<open>ftruncate\<close> to \<open>n\<close> records, which extends a shorter file with zero bytes.\<close>

definition truncate_to :: "'a \<Rightarrow> nat \<Rightarrow> 'a list \<Rightarrow> 'a list" where
  "truncate_to z n old = take n old @ replicate (n - length old) z"

lemma write_at_end [simp]: "write_at z (length xs) ys xs = xs @ ys"
  by (simp add: write_at_def)

lemma write_at_update: "i < length xs \<Longrightarrow> write_at z i [y] xs = xs[i := y]"
  by (simp add: write_at_def upd_conv_take_nth_drop)

lemma write_at_all: "write_at z 0 ys xs = ys @ drop (length ys) xs"
  by (simp add: write_at_def)

lemma length_truncate_to [simp]: "length (truncate_to z n xs) = n"
  by (simp add: truncate_to_def)

lemma truncate_to_take: "n \<le> length xs \<Longrightarrow> truncate_to z n xs = take n xs"
  by (simp add: truncate_to_def)

section \<open>Traversals with an early exit\<close>

datatype 'a ctl = Next 'a | Stop 'a

fun fold_ctl :: "('b \<Rightarrow> 'a \<Rightarrow> 'a ctl) \<Rightarrow> 'b list \<Rightarrow> 'a \<Rightarrow> 'a" where
  "fold_ctl f [] a = a"
| "fold_ctl f (x # xs) a = (case f x a of Stop b \<Rightarrow> b | Next b \<Rightarrow> fold_ctl f xs b)"

lemma fold_ctl_append:
  assumes "\<And>x b. x \<in> set xs \<Longrightarrow> \<exists>c. f x b = Next c"
  shows "fold_ctl f (xs @ ys) a = fold_ctl f ys (fold_ctl f xs a)"
  using assms
proof (induction xs arbitrary: a)
  case Nil
  then show ?case by simp
next
  case (Cons x xs)
  from Cons.prems [of x a] obtain c where "f x a = Next c" by auto
  with Cons show ?case by simp
qed

text \<open>A body that only counts the elements satisfying \<open>P\<close>.\<close>

lemma fold_ctl_count:
  "fold_ctl (\<lambda>x (n :: int). Next (if P x then n + 1 else n)) xs n
     = n + int (length (filter P xs))"
  by (induction xs arbitrary: n) simp_all

text \<open>A body that stops at the first element satisfying \<open>P\<close>.\<close>

lemma fold_ctl_find:
  "fold_ctl (\<lambda>x r. if P x then Stop (g x) else Next r) xs r
     = (case find P xs of None \<Rightarrow> r | Some x \<Rightarrow> g x)"
  by (induction xs) simp_all

section \<open>Lists\<close>

lemma filter_upt_Suc:
  "filter P [0..<Suc n] = (if P n then filter P [0..<n] @ [n] else filter P [0..<n])"
  by simp

lemma filter_upt_mono_split:
  assumes "i \<le> n"
  shows "filter P [0..<n] = filter P [0..<i] @ filter P [i..<n]"
  using assms by (metis filter_append le_add_diff_inverse upt_add_eq_append zero_le)

lemma upt_append_assoc: "i \<le> j \<Longrightarrow> j \<le> k \<Longrightarrow> [i..<j] @ [j..<k] = [i..<k]"
  by (metis le_add_diff_inverse upt_add_eq_append)

lemma take_insert_shift:
  assumes "i \<le> n" "n < length xs"
  shows "take (Suc n) (take i xs @ [x] @ take (n - i) (drop i xs) @ drop (Suc n) xs)
           = take i xs @ [x] @ take (n - i) (drop i xs)"
proof -
  have "length (take i xs @ [x] @ take (n - i) (drop i xs)) = Suc n"
    using assms by simp
  then show ?thesis
    by (metis append.assoc append_eq_conv_conj)
qed

lemma nth_take_insert:
  assumes "i \<le> length xs"
  shows "(take i xs @ x # drop i xs) ! k =
    (if k < i then xs ! k else if k = i then x else xs ! (k - 1))"
  using assms by (auto simp: nth_append nth_Cons' min_def)

end
