(* ===== verification/Run_Status.thy ===== *)
theory Run_Status
  imports Prelude
begin

text \<open>
  Run statuses (\<open>runlog.h\<close>) and the status predicates, names and abbreviations of
  \<open>runlog_static.c\<close> and \<open>xml_utils/unparse_run_status.c\<close>.  A 0/1 table indexed by status is
  modelled by the list of the indices its designated initialisers set to 1.
\<close>

section \<open>The status codes\<close>

definition RUN_OK :: int where [simp]: "RUN_OK = 0"
definition RUN_COMPILE_ERR :: int where [simp]: "RUN_COMPILE_ERR = 1"
definition RUN_RUN_TIME_ERR :: int where [simp]: "RUN_RUN_TIME_ERR = 2"
definition RUN_TIME_LIMIT_ERR :: int where [simp]: "RUN_TIME_LIMIT_ERR = 3"
definition RUN_PRESENTATION_ERR :: int where [simp]: "RUN_PRESENTATION_ERR = 4"
definition RUN_WRONG_ANSWER_ERR :: int where [simp]: "RUN_WRONG_ANSWER_ERR = 5"
definition RUN_CHECK_FAILED :: int where [simp]: "RUN_CHECK_FAILED = 6"
definition RUN_PARTIAL :: int where [simp]: "RUN_PARTIAL = 7"
definition RUN_ACCEPTED :: int where [simp]: "RUN_ACCEPTED = 8"
definition RUN_IGNORED :: int where [simp]: "RUN_IGNORED = 9"
definition RUN_DISQUALIFIED :: int where [simp]: "RUN_DISQUALIFIED = 10"
definition RUN_PENDING :: int where [simp]: "RUN_PENDING = 11"
definition RUN_MEM_LIMIT_ERR :: int where [simp]: "RUN_MEM_LIMIT_ERR = 12"
definition RUN_SECURITY_ERR :: int where [simp]: "RUN_SECURITY_ERR = 13"
definition RUN_STYLE_ERR :: int where [simp]: "RUN_STYLE_ERR = 14"
definition RUN_WALL_TIME_LIMIT_ERR :: int where [simp]: "RUN_WALL_TIME_LIMIT_ERR = 15"
definition RUN_PENDING_REVIEW :: int where [simp]: "RUN_PENDING_REVIEW = 16"
definition RUN_REJECTED :: int where [simp]: "RUN_REJECTED = 17"
definition RUN_SKIPPED :: int where [simp]: "RUN_SKIPPED = 18"
definition RUN_MAX_STATUS :: int where [simp]: "RUN_MAX_STATUS = 18"

definition RUN_PSEUDO_FIRST :: int where [simp]: "RUN_PSEUDO_FIRST = 20"
definition RUN_VIRTUAL_START :: int where [simp]: "RUN_VIRTUAL_START = 20"
definition RUN_VIRTUAL_STOP :: int where [simp]: "RUN_VIRTUAL_STOP = 21"
definition RUN_EMPTY :: int where [simp]: "RUN_EMPTY = 22"
definition RUN_PSEUDO_LAST :: int where [simp]: "RUN_PSEUDO_LAST = 22"

definition RUN_TRANSIENT_FIRST :: int where [simp]: "RUN_TRANSIENT_FIRST = 95"
definition RUN_FULL_REJUDGE :: int where [simp]: "RUN_FULL_REJUDGE = 95"
definition RUN_RUNNING :: int where [simp]: "RUN_RUNNING = 96"
definition RUN_COMPILED :: int where [simp]: "RUN_COMPILED = 97"
definition RUN_COMPILING :: int where [simp]: "RUN_COMPILING = 98"
definition RUN_AVAILABLE :: int where [simp]: "RUN_AVAILABLE = 99"
definition RUN_REJUDGE :: int where [simp]: "RUN_REJUDGE = 99"
definition RUN_TRANSIENT_LAST :: int where [simp]: "RUN_TRANSIENT_LAST = 99"
definition RUN_LAST :: int where [simp]: "RUN_LAST = 99"

section \<open>Status predicates\<close>

definition is_failed_attempt_table :: "int list" where
  "is_failed_attempt_table =
    [RUN_RUN_TIME_ERR, RUN_TIME_LIMIT_ERR, RUN_WALL_TIME_LIMIT_ERR, RUN_PRESENTATION_ERR,
     RUN_WRONG_ANSWER_ERR, RUN_MEM_LIMIT_ERR, RUN_SECURITY_ERR]"

definition run_is_failed_attempt :: "int \<Rightarrow> int" where
  "run_is_failed_attempt status =
    (if status < 0 \<or> status > RUN_LAST then 0 else c_bool (status \<in> set is_failed_attempt_table))"

definition is_valid_test_status_table :: "int list" where
  "is_valid_test_status_table =
    [RUN_OK, RUN_RUN_TIME_ERR, RUN_TIME_LIMIT_ERR, RUN_WALL_TIME_LIMIT_ERR, RUN_PRESENTATION_ERR,
     RUN_WRONG_ANSWER_ERR, RUN_MEM_LIMIT_ERR, RUN_SECURITY_ERR, RUN_CHECK_FAILED, RUN_SKIPPED]"

definition run_is_valid_test_status :: "int \<Rightarrow> int" where
  "run_is_valid_test_status status =
    (if status < 0 \<or> status > RUN_LAST then 0 else c_bool (status \<in> set is_valid_test_status_table))"

definition is_team_report_available_table :: "int list" where
  "is_team_report_available_table =
    [RUN_OK, RUN_COMPILE_ERR, RUN_RUN_TIME_ERR, RUN_TIME_LIMIT_ERR, RUN_WALL_TIME_LIMIT_ERR,
     RUN_PRESENTATION_ERR, RUN_WRONG_ANSWER_ERR, RUN_PARTIAL, RUN_ACCEPTED, RUN_PENDING_REVIEW,
     RUN_MEM_LIMIT_ERR, RUN_SECURITY_ERR, RUN_STYLE_ERR, RUN_REJECTED]"

definition run_is_team_report_available :: "int \<Rightarrow> int" where
  "run_is_team_report_available status =
    (if status < 0 \<or> status > RUN_LAST then 0
     else c_bool (status \<in> set is_team_report_available_table))"

definition is_report_available_table :: "int list" where
  "is_report_available_table =
    [RUN_OK, RUN_COMPILE_ERR, RUN_RUN_TIME_ERR, RUN_TIME_LIMIT_ERR, RUN_WALL_TIME_LIMIT_ERR,
     RUN_PRESENTATION_ERR, RUN_WRONG_ANSWER_ERR, RUN_CHECK_FAILED, RUN_PARTIAL, RUN_ACCEPTED,
     RUN_PENDING_REVIEW, RUN_MEM_LIMIT_ERR, RUN_SECURITY_ERR, RUN_STYLE_ERR, RUN_REJECTED]"

definition run_is_report_available :: "int \<Rightarrow> int" where
  "run_is_report_available status =
    (if status < 0 \<or> status > RUN_LAST then 0 else c_bool (status \<in> set is_report_available_table))"

definition run_valid_statuses :: "int list" where
  "run_valid_statuses =
    [RUN_OK, RUN_COMPILE_ERR, RUN_RUN_TIME_ERR, RUN_TIME_LIMIT_ERR, RUN_PRESENTATION_ERR,
     RUN_WRONG_ANSWER_ERR, RUN_CHECK_FAILED, RUN_PARTIAL, RUN_ACCEPTED, RUN_IGNORED,
     RUN_DISQUALIFIED, RUN_PENDING, RUN_MEM_LIMIT_ERR, RUN_SECURITY_ERR, RUN_STYLE_ERR,
     RUN_WALL_TIME_LIMIT_ERR, RUN_PENDING_REVIEW, RUN_REJECTED, RUN_VIRTUAL_START,
     RUN_VIRTUAL_STOP, RUN_EMPTY, RUN_RUNNING, RUN_COMPILED, RUN_COMPILING, RUN_AVAILABLE]"

definition run_is_valid_status :: "int \<Rightarrow> int" where
  "run_is_valid_status status =
    (if status < 0 \<or> status > RUN_LAST then 0 else c_bool (status \<in> set run_valid_statuses))"

definition run_valid_user_statuses :: "int list" where
  "run_valid_user_statuses =
    [RUN_OK, RUN_COMPILE_ERR, RUN_RUN_TIME_ERR, RUN_TIME_LIMIT_ERR, RUN_PRESENTATION_ERR,
     RUN_WRONG_ANSWER_ERR, RUN_CHECK_FAILED, RUN_PARTIAL, RUN_ACCEPTED, RUN_IGNORED,
     RUN_DISQUALIFIED, RUN_PENDING, RUN_MEM_LIMIT_ERR, RUN_SECURITY_ERR, RUN_STYLE_ERR,
     RUN_WALL_TIME_LIMIT_ERR, RUN_PENDING_REVIEW, RUN_REJECTED, RUN_RUNNING, RUN_COMPILED,
     RUN_COMPILING, RUN_AVAILABLE]"

definition run_is_valid_user_status :: "int \<Rightarrow> int" where
  "run_is_valid_user_status status =
    (if status < 0 \<or> status > RUN_LAST then 0 else c_bool (status \<in> set run_valid_user_statuses))"

definition run_source_available_statuses :: "int list" where
  "run_source_available_statuses =
    [RUN_OK, RUN_COMPILE_ERR, RUN_RUN_TIME_ERR, RUN_TIME_LIMIT_ERR, RUN_PRESENTATION_ERR,
     RUN_WRONG_ANSWER_ERR, RUN_CHECK_FAILED, RUN_PARTIAL, RUN_ACCEPTED, RUN_IGNORED,
     RUN_DISQUALIFIED, RUN_PENDING, RUN_MEM_LIMIT_ERR, RUN_SECURITY_ERR, RUN_STYLE_ERR,
     RUN_WALL_TIME_LIMIT_ERR, RUN_PENDING_REVIEW, RUN_REJECTED, RUN_RUNNING, RUN_COMPILED,
     RUN_COMPILING, RUN_AVAILABLE]"

definition run_is_source_available :: "int \<Rightarrow> int" where
  "run_is_source_available status =
    (if status < 0 \<or> status > RUN_LAST then 0
     else c_bool (status \<in> set run_source_available_statuses))"

text \<open>The statuses under which a run is linked into the index of its user (\<open>runlog.c\<close>).\<close>

definition valid_user_run_statuses :: "int list" where
  "valid_user_run_statuses =
    [RUN_OK, RUN_COMPILE_ERR, RUN_RUN_TIME_ERR, RUN_TIME_LIMIT_ERR, RUN_PRESENTATION_ERR,
     RUN_WRONG_ANSWER_ERR, RUN_CHECK_FAILED, RUN_PARTIAL, RUN_ACCEPTED, RUN_IGNORED,
     RUN_DISQUALIFIED, RUN_PENDING, RUN_MEM_LIMIT_ERR, RUN_SECURITY_ERR, RUN_STYLE_ERR,
     RUN_WALL_TIME_LIMIT_ERR, RUN_PENDING_REVIEW, RUN_REJECTED, RUN_VIRTUAL_START,
     RUN_VIRTUAL_STOP, RUN_RUNNING, RUN_COMPILED, RUN_COMPILING, RUN_AVAILABLE, RUN_REJUDGE,
     RUN_TRANSIENT_LAST]"

definition indexed_status :: "int \<Rightarrow> bool" where
  "indexed_status status \<longleftrightarrow> status \<in> set valid_user_run_statuses"

lemma not_indexed_empty [simp]: "\<not> indexed_status 22"
  by (simp add: indexed_status_def valid_user_run_statuses_def)

lemma indexed_available [simp]: "indexed_status 99"
  by (simp add: indexed_status_def valid_user_run_statuses_def)

lemma indexed_virtual [simp]: "indexed_status 20" "indexed_status 21"
  by (simp_all add: indexed_status_def valid_user_run_statuses_def)

lemma indexed_status_iff:
  "indexed_status st \<longleftrightarrow> 0 \<le> st \<and> st \<le> 17 \<or> st = 20 \<or> st = 21 \<or> 96 \<le> st \<and> st \<le> 99"
  unfolding indexed_status_def valid_user_run_statuses_def by simp presburger

text \<open>The range checks that \<open>run_set_entry\<close>, \<open>runlog_check\<close> and the UUID index share.\<close>

definition transient_status :: "int \<Rightarrow> bool" where
  "transient_status st \<longleftrightarrow> st \<ge> RUN_TRANSIENT_FIRST \<and> st \<le> RUN_TRANSIENT_LAST"

definition bad_status :: "int \<Rightarrow> bool" where
  "bad_status st \<longleftrightarrow> st > RUN_TRANSIENT_LAST
     \<or> (st > RUN_PSEUDO_LAST \<and> st < RUN_TRANSIENT_FIRST)
     \<or> (st > RUN_MAX_STATUS \<and> st < RUN_PSEUDO_FIRST)"

section \<open>Decimal numbers\<close>

text \<open>What \<open>%d\<close> prints.\<close>

fun dec_nat :: "nat \<Rightarrow> string" where
  "dec_nat n = (if n < 10 then [char_of (48 + n)] else dec_nat (n div 10) @ [char_of (48 + n mod 10)])"

declare dec_nat.simps [simp del]

definition dec_int :: "int \<Rightarrow> string" where
  "dec_int x = (if x < 0 then ''-'' @ dec_nat (nat (- x)) else dec_nat (nat x))"

section \<open>Status names\<close>

text \<open>
  \<open>run_status_str\<close>: the parameter \<open>tr\<close> is \<open>gettext\<close>.  \<open>out\<close> is the size of the caller's buffer, or
  \<open>None\<close> when the caller passes no buffer and gets the string itself.
\<close>

definition PROB_TYPE_TESTS :: int where [simp]: "PROB_TYPE_TESTS = 7"

definition status_text :: "(string \<Rightarrow> string) \<Rightarrow> int \<Rightarrow> int \<Rightarrow> int \<Rightarrow> string" where
  "status_text tr status prob_type var_score =
    (if status = RUN_OK then tr ''OK''
     else if status = RUN_COMPILE_ERR then tr ''Compilation error''
     else if status = RUN_RUN_TIME_ERR then tr ''Run-time error''
     else if status = RUN_TIME_LIMIT_ERR then tr ''Time-limit exceeded''
     else if status = RUN_PRESENTATION_ERR then
       (if prob_type \<noteq> 0 \<and> prob_type \<noteq> PROB_TYPE_TESTS then tr ''Wrong output format''
        else tr ''Presentation error'')
     else if status = RUN_WRONG_ANSWER_ERR then tr ''Wrong answer''
     else if status = RUN_CHECK_FAILED then tr ''Check failed''
     else if status = RUN_PARTIAL then
       (if prob_type \<noteq> 0 \<and> var_score = 0 \<and> prob_type \<noteq> PROB_TYPE_TESTS then tr ''Wrong answer''
        else tr ''Partial solution'')
     else if status = RUN_ACCEPTED then tr ''Accepted for testing''
     else if status = RUN_IGNORED then tr ''Ignored''
     else if status = RUN_DISQUALIFIED then tr ''Disqualified''
     else if status = RUN_PENDING then tr ''Pending check''
     else if status = RUN_MEM_LIMIT_ERR then tr ''Memory limit exceeded''
     else if status = RUN_SECURITY_ERR then tr ''Security violation''
     else if status = RUN_STYLE_ERR then tr ''Coding style violation''
     else if status = RUN_REJECTED then tr ''Rejected''
     else if status = RUN_WALL_TIME_LIMIT_ERR then tr ''Wall time-limit exceeded''
     else if status = RUN_SKIPPED then tr ''Skipped''
     else if status = RUN_PENDING_REVIEW then tr ''Pending review''
     else if status = RUN_RUNNING then tr ''Running...''
     else if status = RUN_COMPILED then tr ''Compiled''
     else if status = RUN_COMPILING then tr ''Compiling...''
     else if status = RUN_AVAILABLE then tr ''Available''
     else if status = RUN_VIRTUAL_START then tr ''Virtual start''
     else if status = RUN_VIRTUAL_STOP then tr ''Virtual stop''
     else if status = RUN_EMPTY then tr ''EMPTY''
     else tr ''Unknown: '' @ dec_int status)"

definition run_status_str ::
  "(string \<Rightarrow> string) \<Rightarrow> int \<Rightarrow> int option \<Rightarrow> int \<Rightarrow> int \<Rightarrow> string" where
  "run_status_str tr status out prob_type var_score =
    (let s = status_text tr status prob_type var_score in
     case out of None \<Rightarrow> s
     | Some len \<Rightarrow> if len \<le> 0 then s else take (nat len - 1) s)"

section \<open>Short status names\<close>

definition to_lower :: "char \<Rightarrow> char" where
  "to_lower c = (let n = of_char c :: nat in if 65 \<le> n \<and> n \<le> 90 then char_of (n + 32) else c)"

text \<open>\<open>!strcasecmp(a, b)\<close> in the C locale.\<close>

definition strcaseeq :: "string \<Rightarrow> string \<Rightarrow> bool" where
  "strcaseeq a b \<longleftrightarrow> map to_lower a = map to_lower b"

definition str_to_status_table :: "(string \<times> int) list" where
  "str_to_status_table =
    [(''OK'', RUN_OK), (''CE'', RUN_COMPILE_ERR), (''RT'', RUN_RUN_TIME_ERR),
     (''TL'', RUN_TIME_LIMIT_ERR), (''PE'', RUN_PRESENTATION_ERR), (''WA'', RUN_WRONG_ANSWER_ERR),
     (''CF'', RUN_CHECK_FAILED), (''PT'', RUN_PARTIAL), (''AC'', RUN_ACCEPTED),
     (''IG'', RUN_IGNORED), (''DQ'', RUN_DISQUALIFIED), (''PD'', RUN_PENDING),
     (''ML'', RUN_MEM_LIMIT_ERR), (''SE'', RUN_SECURITY_ERR), (''SV'', RUN_STYLE_ERR),
     (''WT'', RUN_WALL_TIME_LIMIT_ERR), (''PR'', RUN_PENDING_REVIEW), (''RJ'', RUN_REJECTED),
     (''SK'', RUN_SKIPPED), (''RU'', RUN_RUNNING), (''CD'', RUN_COMPILED),
     (''CG'', RUN_COMPILING), (''AV'', RUN_AVAILABLE), (''RJ'', RUN_REJUDGE),
     (''EM'', RUN_EMPTY), (''VS'', RUN_VIRTUAL_START), (''VT'', RUN_VIRTUAL_STOP)]"

text \<open>The loop stops at the terminating entry with the empty name, here the end of the list.\<close>

fun lookup_status :: "(string \<times> int) list \<Rightarrow> string \<Rightarrow> int" where
  "lookup_status [] str = -1"
| "lookup_status ((name, v) # tbl) str = (if strcaseeq str name then v else lookup_status tbl str)"

definition run_str_short_to_status :: "string \<Rightarrow> int" where
  "run_str_short_to_status str = lookup_status str_to_status_table str"

text \<open>
  \<open>tree_result_strs\<close> is an array of arrays: every index up to \<open>RUN_LAST\<close> has a string, empty where
  no initialiser names it.
\<close>

definition tree_result_strs :: "(int \<times> string) list" where
  "tree_result_strs =
    [(RUN_OK, ''OK''), (RUN_COMPILE_ERR, ''CE''), (RUN_RUN_TIME_ERR, ''RT''),
     (RUN_TIME_LIMIT_ERR, ''TL''), (RUN_PRESENTATION_ERR, ''PE''), (RUN_WRONG_ANSWER_ERR, ''WA''),
     (RUN_CHECK_FAILED, ''CF''), (RUN_PARTIAL, ''PT''), (RUN_ACCEPTED, ''AC''),
     (RUN_IGNORED, ''IG''), (RUN_DISQUALIFIED, ''DQ''), (RUN_PENDING, ''PD''),
     (RUN_MEM_LIMIT_ERR, ''ML''), (RUN_SECURITY_ERR, ''SE''), (RUN_STYLE_ERR, ''SV''),
     (RUN_WALL_TIME_LIMIT_ERR, ''WT''), (RUN_PENDING_REVIEW, ''PR''), (RUN_SKIPPED, ''SK''),
     (RUN_REJECTED, ''RJ''), (RUN_VIRTUAL_START, ''VS''), (RUN_VIRTUAL_STOP, ''VT''),
     (RUN_EMPTY, ''EM''), (RUN_RUNNING, ''RU''), (RUN_COMPILED, ''CD''),
     (RUN_COMPILING, ''CG''), (RUN_AVAILABLE, ''AV'')]"

text \<open>
  The result is the text \<open>snprintf\<close> leaves in a buffer of \<open>sz\<close> bytes (\<open>sz > 0\<close>), and its return
  value, the length before truncation.  The test \<open>tree_result_strs[val]\<close> is on the address of an
  array, which is never null.
\<close>

definition run_status_to_str_short :: "nat \<Rightarrow> int \<Rightarrow> string \<times> int" where
  "run_status_to_str_short sz val =
    (let s = (if val \<ge> 0 \<and> val \<le> RUN_LAST
              then (case map_of tree_result_strs val of Some t \<Rightarrow> t | None \<Rightarrow> '''')
              else ''result_'' @ dec_int val)
     in (take (sz - 1) s, int (length s)))"

section \<open>Properties\<close>

lemma to_lower_upper [simp]:
  "to_lower CHR ''A'' = CHR ''a''" "to_lower CHR ''C'' = CHR ''c''" "to_lower CHR ''D'' = CHR ''d''"
  "to_lower CHR ''E'' = CHR ''e''" "to_lower CHR ''F'' = CHR ''f''" "to_lower CHR ''G'' = CHR ''g''"
  "to_lower CHR ''I'' = CHR ''i''" "to_lower CHR ''J'' = CHR ''j''" "to_lower CHR ''K'' = CHR ''k''"
  "to_lower CHR ''L'' = CHR ''l''" "to_lower CHR ''M'' = CHR ''m''" "to_lower CHR ''O'' = CHR ''o''"
  "to_lower CHR ''P'' = CHR ''p''" "to_lower CHR ''Q'' = CHR ''q''" "to_lower CHR ''R'' = CHR ''r''"
  "to_lower CHR ''S'' = CHR ''s''" "to_lower CHR ''T'' = CHR ''t''" "to_lower CHR ''U'' = CHR ''u''"
  "to_lower CHR ''V'' = CHR ''v''" "to_lower CHR ''W'' = CHR ''w''"
  by code_simp+

lemma valid_status_cases:
  "run_is_valid_status st = 1 \<longleftrightarrow> st \<in> set run_valid_statuses"
  by (auto simp: run_is_valid_status_def c_bool_def run_valid_statuses_def)

lemma lookup_status_map_of:
  "lookup_status tbl str =
     (case map_of (map (\<lambda>(name, v). (map to_lower name, v)) tbl) (map to_lower str) of
        None \<Rightarrow> -1 | Some v \<Rightarrow> v)"
  by (induction tbl) (auto simp: strcaseeq_def split: option.splits)

lemma lower_table:
  "map (\<lambda>(name, v). (map to_lower name, v)) str_to_status_table =
    [(''ok'', 0), (''ce'', 1), (''rt'', 2), (''tl'', 3), (''pe'', 4), (''wa'', 5), (''cf'', 6),
     (''pt'', 7), (''ac'', 8), (''ig'', 9), (''dq'', 10), (''pd'', 11), (''ml'', 12), (''se'', 13),
     (''sv'', 14), (''wt'', 15), (''pr'', 16), (''rj'', 17), (''sk'', 18), (''ru'', 96),
     (''cd'', 97), (''cg'', 98), (''av'', 99), (''rj'', 99), (''em'', 22), (''vs'', 20),
     (''vt'', 21)]"
  by (simp add: str_to_status_table_def)

lemma short_names_ok:
  "list_all (\<lambda>st. case map_of tree_result_strs st of None \<Rightarrow> False
      | Some t \<Rightarrow> length t = 2 \<and> run_str_short_to_status t = st)
    (RUN_SKIPPED # run_valid_statuses)"
  by (simp add: run_valid_statuses_def tree_result_strs_def run_str_short_to_status_def
      lookup_status_map_of lower_table)

text \<open>
  The short names are a round trip.  For every status that may stand in the log, and for
  \<open>RUN_SKIPPED\<close>, parsing the abbreviation the program prints gives the status back.
\<close>

lemma short_status_roundtrip:
  assumes "run_is_valid_status st = 1 \<or> st = RUN_SKIPPED" and "sz \<ge> 3"
  shows "run_str_short_to_status (fst (run_status_to_str_short sz st)) = st"
proof -
  have mem: "st \<in> set (RUN_SKIPPED # run_valid_statuses)"
    using assms(1) by (auto simp: valid_status_cases)
  then obtain t where t: "map_of tree_result_strs st = Some t" "length t = 2"
      "run_str_short_to_status t = st"
    using short_names_ok by (fastforce simp: list_all_iff split: option.splits)
  have "0 \<le> st \<and> st \<le> RUN_LAST"
    using mem by (auto simp: run_valid_statuses_def)
  with t assms(2) show ?thesis
    by (simp add: run_status_to_str_short_def)
qed

text \<open>
  Who may see what.  A status with a report for the contestant has a report for the judge, and
  a status with a judge's report has its source available; the statuses that only the judge's
  report covers are exactly the failed checks, and every failed attempt has a report for both.
\<close>

lemma report_visibility:
  "run_is_team_report_available st \<le> run_is_report_available st
   \<and> run_is_report_available st \<le> run_is_source_available st
   \<and> run_is_failed_attempt st \<le> run_is_team_report_available st
   \<and> (run_is_team_report_available st \<noteq> run_is_report_available st \<longleftrightarrow> st = RUN_CHECK_FAILED)"
  by (auto simp: run_is_team_report_available_def run_is_report_available_def
      run_is_source_available_def run_is_failed_attempt_def c_bool_def
      is_team_report_available_table_def is_report_available_table_def
      run_source_available_statuses_def is_failed_attempt_table_def)

text \<open>
  A status code below \<open>RUN_LAST\<close> with no name is printed as the empty string and not as
  \<open>result_N\<close>, since the guard tests the address of an array.
\<close>

lemma unnamed_status_is_empty:
  "fst (run_status_to_str_short sz 19) = ''''"
  by (simp add: run_status_to_str_short_def tree_result_strs_def)

end
