(* ===== verification/Run_Entry.thy ===== *)
theory Run_Entry
  imports Run_Status
begin

text \<open>
  The data of the log (\<open>runlog.h\<close>): \<open>struct run_entry\<close>, \<open>struct run_header\<close> and their field masks,
  the conversions between entry addresses and \<open>ej_ip_t\<close>, and the repair of timestamps after a
  daylight-saving change (\<open>run_fix_runlog_time\<close>).
\<close>

section \<open>Entries and the header\<close>

text \<open>
  The union \<open>a\<close> of an entry is its four 32-bit words: \<open>a.ip\<close> is the first of them.  Fields narrower
  than \<open>int\<close> hold values of their range.
\<close>

record run_entry =
  re_run_id :: int
  re_size :: int
  re_time :: int
  re_nsec :: int
  re_user_id :: int
  re_prob_id :: int
  re_lang_id :: int
  re_a :: quad
  re_sha1 :: sha1
  re_score :: int
  re_test :: int
  re_passed_mode :: int
  re_store_flags :: int
  re_score_adj :: int
  re_locale_id :: int
  re_judge_id :: int
  re_status :: int
  re_is_imported :: int
  re_variant :: int
  re_is_hidden :: int
  re_is_readonly :: int
  re_pages :: int
  re_ipv6_flag :: int
  re_ssl_flag :: int
  re_mime_type :: int
  re_eoln_type :: int
  re_is_marked :: int
  re_run_uuid :: quad
  re_unused2 :: int
  re_saved_score :: int
  re_saved_test :: int
  re_saved_status :: int
  re_is_saved :: int

text \<open>The entry of 128 zero bytes that \<open>memset\<close> leaves.\<close>

definition zero_entry :: run_entry where
  "zero_entry =
    \<lparr>re_run_id = 0, re_size = 0, re_time = 0, re_nsec = 0, re_user_id = 0, re_prob_id = 0,
     re_lang_id = 0, re_a = zero_quad, re_sha1 = zero_sha1, re_score = 0, re_test = 0,
     re_passed_mode = 0, re_store_flags = 0, re_score_adj = 0, re_locale_id = 0, re_judge_id = 0,
     re_status = 0, re_is_imported = 0, re_variant = 0, re_is_hidden = 0, re_is_readonly = 0,
     re_pages = 0, re_ipv6_flag = 0, re_ssl_flag = 0, re_mime_type = 0, re_eoln_type = 0,
     re_is_marked = 0, re_run_uuid = zero_quad, re_unused2 = 0, re_saved_score = 0,
     re_saved_test = 0, re_saved_status = 0, re_is_saved = 0\<rparr>"

record run_header =
  rh_version :: int
  rh_byte_order :: int
  rh_start_time :: int
  rh_sched_time :: int
  rh_duration :: int
  rh_stop_time :: int
  rh_finish_time :: int
  rh_saved_duration :: int
  rh_saved_stop_time :: int
  rh_saved_finish_time :: int

definition zero_header :: run_header where
  "zero_header =
    \<lparr>rh_version = 0, rh_byte_order = 0, rh_start_time = 0, rh_sched_time = 0, rh_duration = 0,
     rh_stop_time = 0, rh_finish_time = 0, rh_saved_duration = 0, rh_saved_stop_time = 0,
     rh_saved_finish_time = 0\<rparr>"

definition RE_SIZE :: mask where "RE_SIZE = 0x00000001"
definition RE_IP :: mask where "RE_IP = 0x00000002"
definition RE_SHA1 :: mask where "RE_SHA1 = 0x00000004"
definition RE_USER_ID :: mask where "RE_USER_ID = 0x00000008"
definition RE_PROB_ID :: mask where "RE_PROB_ID = 0x00000010"
definition RE_LANG_ID :: mask where "RE_LANG_ID = 0x00000020"
definition RE_LOCALE_ID :: mask where "RE_LOCALE_ID = 0x00000040"
definition RE_STATUS :: mask where "RE_STATUS = 0x00000080"
definition RE_TEST :: mask where "RE_TEST = 0x00000100"
definition RE_SCORE :: mask where "RE_SCORE = 0x00000200"
definition RE_IS_IMPORTED :: mask where "RE_IS_IMPORTED = 0x00000400"
definition RE_VARIANT :: mask where "RE_VARIANT = 0x00000800"
definition RE_IS_HIDDEN :: mask where "RE_IS_HIDDEN = 0x00001000"
definition RE_IS_READONLY :: mask where "RE_IS_READONLY = 0x00002000"
definition RE_PAGES :: mask where "RE_PAGES = 0x00004000"
definition RE_SCORE_ADJ :: mask where "RE_SCORE_ADJ = 0x00008000"
definition RE_JUDGE_ID :: mask where "RE_JUDGE_ID = 0x00020000"
definition RE_SSL_FLAG :: mask where "RE_SSL_FLAG = 0x00040000"
definition RE_MIME_TYPE :: mask where "RE_MIME_TYPE = 0x00080000"
definition RE_IS_MARKED :: mask where "RE_IS_MARKED = 0x00400000"
definition RE_IS_SAVED :: mask where "RE_IS_SAVED = 0x00800000"
definition RE_SAVED_STATUS :: mask where "RE_SAVED_STATUS = 0x01000000"
definition RE_SAVED_SCORE :: mask where "RE_SAVED_SCORE = 0x02000000"
definition RE_SAVED_TEST :: mask where "RE_SAVED_TEST = 0x04000000"
definition RE_RUN_UUID :: mask where "RE_RUN_UUID = 0x08000000"
definition RE_PASSED_MODE :: mask where "RE_PASSED_MODE = 0x10000000"
definition RE_EOLN_TYPE :: mask where "RE_EOLN_TYPE = 0x20000000"
definition RE_STORE_FLAGS :: mask where "RE_STORE_FLAGS = 0x40000000"

lemmas mask_defs =
  RE_SIZE_def RE_IP_def RE_SHA1_def RE_USER_ID_def RE_PROB_ID_def RE_LANG_ID_def RE_LOCALE_ID_def
  RE_STATUS_def RE_TEST_def RE_SCORE_def RE_IS_IMPORTED_def RE_VARIANT_def RE_IS_HIDDEN_def
  RE_IS_READONLY_def RE_PAGES_def RE_SCORE_ADJ_def RE_JUDGE_ID_def RE_SSL_FLAG_def
  RE_MIME_TYPE_def RE_IS_MARKED_def RE_IS_SAVED_def RE_SAVED_STATUS_def RE_SAVED_SCORE_def
  RE_SAVED_TEST_def RE_RUN_UUID_def RE_PASSED_MODE_def RE_EOLN_TYPE_def RE_STORE_FLAGS_def

text \<open>The entry a slot reserved for an insertion holds: EMPTY, with its position and its time.\<close>

definition empty_slot :: "int \<Rightarrow> int \<Rightarrow> int \<Rightarrow> run_entry" where
  "empty_slot rid t nsec =
     zero_entry\<lparr>re_run_id := rid, re_status := RUN_EMPTY, re_time := t, re_nsec := nsec\<rparr>"

text \<open>An unused element of the entry array.\<close>

definition spare_entry :: run_entry where
  "spare_entry = zero_entry\<lparr>re_status := RUN_EMPTY\<rparr>"

lemma empty_slot_simps [simp]:
  "re_status (empty_slot r t n) = 22" "re_run_id (empty_slot r t n) = r"
  "re_time (empty_slot r t n) = t" "re_nsec (empty_slot r t n) = n"
  "re_user_id (empty_slot r t n) = 0"
  by (simp_all add: empty_slot_def zero_entry_def)

lemma spare_entry_status [simp]: "re_status spare_entry = 22"
  by (simp add: spare_entry_def)

definition is_empty_entry :: "run_entry \<Rightarrow> bool" where
  [simp]: "is_empty_entry e \<longleftrightarrow> re_status e = RUN_EMPTY"

section \<open>Addresses\<close>

text \<open>
  \<open>ej_ip_t\<close>: a flag and a union of 16 bytes, whose IPv4 member is the \<^emph>\<open>last\<close> of the four words,
  while an entry keeps an IPv4 address in the \<^emph>\<open>first\<close> word of its union.
\<close>

record ej_ip =
  ip_ipv6_flag :: int
  ip_u :: quad

fun quad3 :: "quad \<Rightarrow> 32 word" where
  "quad3 (a, b, c, d) = d"

definition run_entry_to_ipv6 :: "run_entry \<Rightarrow> ej_ip" where
  "run_entry_to_ipv6 re =
    (if re_ipv6_flag re \<noteq> 0 then \<lparr>ip_ipv6_flag = 1, ip_u = re_a re\<rparr>
     else \<lparr>ip_ipv6_flag = 0, ip_u = (0, 0, 0, quad0 (re_a re))\<rparr>)"

definition ipv6_to_run_entry :: "ej_ip option \<Rightarrow> run_entry \<Rightarrow> run_entry" where
  "ipv6_to_run_entry pip re =
    (let re1 = re\<lparr>re_ipv6_flag := 0, re_a := zero_quad\<rparr> in
     case pip of None \<Rightarrow> re1
     | Some ip \<Rightarrow>
         if ip_ipv6_flag ip \<noteq> 0 then re1\<lparr>re_ipv6_flag := 1, re_a := ip_u ip\<rparr>
         else re1\<lparr>re_a := (quad3 (ip_u ip), 0, 0, 0)\<rparr>)"

text \<open>An address as the parsers build it: the flag is 0 or 1 and an IPv4 address is padded with 0.\<close>

definition wf_ip :: "ej_ip \<Rightarrow> bool" where
  "wf_ip ip \<longleftrightarrow> (ip_ipv6_flag ip = 1
     \<or> ip_ipv6_flag ip = 0 \<and> ip_u ip = (0, 0, 0, quad3 (ip_u ip)))"

text \<open>
  Storing an address in an entry and reading it back gives the address, for IPv4 and IPv6 alike,
  although the two layouts keep the IPv4 word at different places.
\<close>

lemma entry_ip_roundtrip:
  assumes "wf_ip ip"
  shows "run_entry_to_ipv6 (ipv6_to_run_entry (Some ip) re) = ip"
  using assms
  by (cases "ip_u ip") (auto simp: wf_ip_def run_entry_to_ipv6_def ipv6_to_run_entry_def)

lemma ipv6_to_run_entry_simps [simp]:
  "re_run_id (ipv6_to_run_entry ip e) = re_run_id e"
  "re_status (ipv6_to_run_entry ip e) = re_status e"
  "re_user_id (ipv6_to_run_entry ip e) = re_user_id e"
  "re_time (ipv6_to_run_entry ip e) = re_time e"
  "re_nsec (ipv6_to_run_entry ip e) = re_nsec e"
  "re_run_uuid (ipv6_to_run_entry ip e) = re_run_uuid e"
  "re_is_hidden (ipv6_to_run_entry ip e) = re_is_hidden e"
  "re_size (ipv6_to_run_entry ip e) = re_size e"
  "re_prob_id (ipv6_to_run_entry ip e) = re_prob_id e"
  by (simp_all add: ipv6_to_run_entry_def Let_def split: option.splits)

section \<open>Assigning a field under a flag\<close>

text \<open>\<open>if (c) de->x = ...;\<close>\<close>

definition apply_if :: "bool \<Rightarrow> ('e \<Rightarrow> 'e) \<Rightarrow> 'e \<Rightarrow> 'e" where
  "apply_if c f e = (if c then f e else e)"

lemma apply_if_keep:
  "(\<And>e. g (f e) = g e) \<Longrightarrow> g (apply_if c f e) = g e"
  by (simp add: apply_if_def)

lemmas apply_if_keeps [simp] =
  apply_if_keep [of re_run_id] apply_if_keep [of re_time] apply_if_keep [of re_nsec]
  apply_if_keep [of re_user_id] apply_if_keep [of re_status] apply_if_keep [of re_run_uuid]
  apply_if_keep [of re_is_hidden] apply_if_keep [of re_prob_id] apply_if_keep [of re_size]
  apply_if_keep [of re_store_flags]

lemma apply_if_hit [simp]:
  "re_user_id (apply_if c (re_user_id_update (\<lambda>_. v)) e) = (if c then v else re_user_id e)"
  "re_status (apply_if c (re_status_update (\<lambda>_. v)) e) = (if c then v else re_status e)"
  "re_run_uuid (apply_if c (re_run_uuid_update (\<lambda>_. q)) e) = (if c then q else re_run_uuid e)"
  "re_is_hidden (apply_if c (re_is_hidden_update (\<lambda>_. v)) e) = (if c then v else re_is_hidden e)"
  "re_prob_id (apply_if c (re_prob_id_update (\<lambda>_. v)) e) = (if c then v else re_prob_id e)"
  "re_size (apply_if c (re_size_update (\<lambda>_. v)) e) = (if c then v else re_size e)"
  "re_store_flags (apply_if c (re_store_flags_update (\<lambda>_. v)) e) = (if c then v else re_store_flags e)"
  by (simp_all add: apply_if_def)

end
