(* ===== verification/Runlog_State.thy ===== *)
theory Runlog_State
  imports Run_Entry
begin

text \<open>
  The state of an open run log (\<open>struct runlog_state\<close> of \<open>runlog_state.h\<close> with the file of the
  default storage plugin, \<open>struct rldb_file_cnts\<close> of \<open>rldb_plugin_file.c\<close>), and the reading of it
  as a list of entries.
\<close>

section \<open>The state\<close>

definition V_REAL_USER :: int where [simp]: "V_REAL_USER = 1"
definition V_VIRTUAL_USER :: int where [simp]: "V_VIRTUAL_USER = 2"
definition RUNLOG_MAX_SIZE :: int where [simp]: "RUNLOG_MAX_SIZE = 2 * 1024 * 1024"

record user_entry =
  ue_status :: int
  ue_start_time :: int
  ue_stop_time :: int
  ue_run_id_valid :: int
  ue_run_id_first :: int
  ue_run_id_last :: int

definition zero_user_entry :: user_entry where
  "zero_user_entry =
    \<lparr>ue_status = 0, ue_start_time = 0, ue_stop_time = 0,
     ue_run_id_valid = 0, ue_run_id_first = 0, ue_run_id_last = 0\<rparr>"

record run_entry_extra =
  prev_user_id :: int
  next_user_id :: int

definition zero_extra :: run_entry_extra where
  "zero_extra = \<lparr>prev_user_id = 0, next_user_id = 0\<rparr>"

record uuid_hash_entry =
  uh_run_id :: int
  uh_uuid :: quad

text \<open>
  Arrays are lists of their allocated length: \<open>length (runs s)\<close> is \<open>run_a\<close>, of which the first
  \<open>run_u\<close> elements are in use; \<open>length (ut_table s)\<close> is \<open>ut_size\<close>, with \<open>None\<close> for a null pointer;
  \<open>length (run_extras s)\<close> is \<open>run_extra_a\<close>; \<open>length (uuid_hash s)\<close> is \<open>uuid_hash_size\<close>.
  \<open>user_flags\<close> is \<open>None\<close> while \<open>nuser\<close> is -1.

  The file of the plugin is its header, absent in an empty file, and its records.  \<open>io\<close> is the
  fault plan of the disk: the outcome of the coming seek-and-write or truncate operations, \<open>True\<close>
  for success, where the empty plan lets all of them succeed.  A failed operation leaves the file
  as it was.
\<close>

record runlog =
  head :: run_header
  runs :: "run_entry list"
  run_u :: nat
  ut_table :: "user_entry option list"
  user_flags :: "int list option"
  max_user_id :: int
  user_count :: int
  run_extra_u :: nat
  run_extras :: "run_entry_extra list"
  uuid_hash_state :: int
  uuid_hash_used :: nat
  uuid_hash :: "uuid_hash_entry list"
  uuid_last_run_id :: int
  uuid_last_index :: int
  run_fd :: int
  disk_head :: "run_header option"
  disk_runs :: "run_entry list"
  io :: "bool list"

text \<open>\<open>run_init\<close>: an unopened log.\<close>

definition run_init :: runlog where
  "run_init =
    \<lparr>head = zero_header, runs = [], run_u = 0, ut_table = [], user_flags = None,
     max_user_id = -1, user_count = -1, run_extra_u = 0, run_extras = [],
     uuid_hash_state = -1, uuid_hash_used = 0, uuid_hash = [],
     uuid_last_run_id = 0, uuid_last_index = 0, run_fd = -1,
     disk_head = None, disk_runs = [], io = []\<rparr>"

section \<open>The log as a list\<close>

definition log :: "runlog \<Rightarrow> run_entry list" where
  "log s = take (run_u s) (runs s)"

definition wf_runs :: "runlog \<Rightarrow> bool" where
  "wf_runs s \<longleftrightarrow> run_u s \<le> length (runs s)"

definition in_log :: "runlog \<Rightarrow> int \<Rightarrow> bool" where
  "in_log s rid \<longleftrightarrow> 0 \<le> rid \<and> rid < int (run_u s)"

text \<open>The file holds what the memory holds.\<close>

definition synced :: "runlog \<Rightarrow> bool" where
  "synced s \<longleftrightarrow> disk_head s = Some (head s) \<and> disk_runs s = log s"

text \<open>Every entry carries its position as its run id.\<close>

definition numbered :: "run_entry list \<Rightarrow> bool" where
  "numbered es \<longleftrightarrow> (\<forall>i < length es. re_run_id (es ! i) = int i)"

lemma length_log [simp]: "wf_runs s \<Longrightarrow> length (log s) = run_u s"
  by (simp add: log_def wf_runs_def)

lemma log_nth [simp]: "i < run_u s \<Longrightarrow> log s ! i = runs s ! i"
  by (simp add: log_def)

lemma in_log_nat: "in_log s rid \<Longrightarrow> nat rid < run_u s"
  by (auto simp: in_log_def)

lemma in_log_int [simp]: "in_log s (int i) \<longleftrightarrow> i < run_u s"
  by (auto simp: in_log_def)

lemma log_update_frame [frame_simps]:
  "log (s\<lparr>head := h\<rparr>) = log s" "log (s\<lparr>ut_table := u\<rparr>) = log s"
  "log (s\<lparr>run_extras := x\<rparr>) = log s" "log (s\<lparr>run_extra_u := k\<rparr>) = log s"
  "log (s\<lparr>disk_head := dh\<rparr>) = log s" "log (s\<lparr>disk_runs := dr\<rparr>) = log s"
  "log (s\<lparr>io := b\<rparr>) = log s" "log (s\<lparr>user_count := c\<rparr>) = log s"
  "log (s\<lparr>max_user_id := c\<rparr>) = log s" "log (s\<lparr>user_flags := uf\<rparr>) = log s"
  "log (s\<lparr>uuid_hash := uh\<rparr>) = log s" "log (s\<lparr>uuid_hash_state := c\<rparr>) = log s"
  "log (s\<lparr>uuid_hash_used := k\<rparr>) = log s" "log (s\<lparr>uuid_last_run_id := c\<rparr>) = log s"
  "log (s\<lparr>uuid_last_index := c\<rparr>) = log s"
  by (simp_all add: log_def)

lemma log_runs_update:
  "log (s\<lparr>runs := (runs s)[i := e]\<rparr>) = (log s)[i := e]"
  by (simp add: log_def take_update_swap)

subsection \<open>Renumbering\<close>

text \<open>\<open>for (j = k; ...; j++) runs[j].run_id = j;\<close>\<close>

fun renumber :: "nat \<Rightarrow> run_entry list \<Rightarrow> run_entry list" where
  "renumber k [] = []"
| "renumber k (e # es) = e\<lparr>re_run_id := int k\<rparr> # renumber (Suc k) es"

lemma length_renumber [simp]: "length (renumber k es) = length es"
  by (induction es arbitrary: k) simp_all

lemma renumber_nth [simp]:
  "i < length es \<Longrightarrow> renumber k es ! i = (es ! i)\<lparr>re_run_id := int (k + i)\<rparr>"
  by (induction es arbitrary: k i) (auto simp: nth_Cons' add.commute)

lemma numbered_renumber: "numbered (renumber 0 es)"
  by (simp add: numbered_def)

lemma renumber_append: "renumber k (xs @ ys) = renumber k xs @ renumber (k + length xs) ys"
  by (induction xs arbitrary: k) simp_all

section \<open>Disk operations\<close>

definition io_next :: "runlog \<Rightarrow> runlog" where
  "io_next s = s\<lparr>io := tl (io s)\<rparr>"

definition disk_op :: "(runlog \<Rightarrow> runlog) \<Rightarrow> runlog \<Rightarrow> bool \<times> runlog" where
  "disk_op f s =
    (if io s \<noteq> [] \<and> \<not> hd (io s) then (False, io_next s) else (True, f (io_next s)))"

text \<open>The disk works: no operation of the plan fails.\<close>

definition io_good :: "runlog \<Rightarrow> bool" where
  "io_good s \<longleftrightarrow> (\<forall>b \<in> set (io s). b)"

lemma disk_op_good: "io_good s \<Longrightarrow> disk_op f s = (True, f (io_next s))"
  by (cases "io s") (auto simp: disk_op_def io_good_def)

lemma io_good_next [simp]: "io_good s \<Longrightarrow> io_good (io_next s)"
  by (cases "io s") (auto simp: io_good_def io_next_def)

lemma io_next_frame [simp, frame_simps]:
  "head (io_next s) = head s" "runs (io_next s) = runs s" "run_u (io_next s) = run_u s"
  "ut_table (io_next s) = ut_table s" "user_flags (io_next s) = user_flags s"
  "max_user_id (io_next s) = max_user_id s" "user_count (io_next s) = user_count s"
  "run_extra_u (io_next s) = run_extra_u s" "run_extras (io_next s) = run_extras s"
  "uuid_hash_state (io_next s) = uuid_hash_state s" "uuid_hash (io_next s) = uuid_hash s"
  "uuid_hash_used (io_next s) = uuid_hash_used s" "run_fd (io_next s) = run_fd s"
  "uuid_last_run_id (io_next s) = uuid_last_run_id s"
  "uuid_last_index (io_next s) = uuid_last_index s"
  "disk_head (io_next s) = disk_head s" "disk_runs (io_next s) = disk_runs s"
  "log (io_next s) = log s" "wf_runs (io_next s) = wf_runs s"
  by (simp_all add: io_next_def log_def wf_runs_def)

lemma io_good_frame [simp]:
  "io_good (s\<lparr>head := h\<rparr>) = io_good s" "io_good (s\<lparr>runs := r\<rparr>) = io_good s"
  "io_good (s\<lparr>run_u := n\<rparr>) = io_good s" "io_good (s\<lparr>disk_runs := d\<rparr>) = io_good s"
  "io_good (s\<lparr>disk_head := dh\<rparr>) = io_good s" "io_good (s\<lparr>ut_table := u\<rparr>) = io_good s"
  "io_good (s\<lparr>run_extras := x\<rparr>) = io_good s" "io_good (s\<lparr>run_extra_u := k\<rparr>) = io_good s"
  "io_good (s\<lparr>user_count := c\<rparr>) = io_good s" "io_good (s\<lparr>max_user_id := c\<rparr>) = io_good s"
  "io_good (s\<lparr>uuid_hash := uh\<rparr>) = io_good s" "io_good (s\<lparr>uuid_hash_state := c\<rparr>) = io_good s"
  "io_good (s\<lparr>uuid_hash_used := k\<rparr>) = io_good s" "io_good (s\<lparr>uuid_last_run_id := c\<rparr>) = io_good s"
  "io_good (s\<lparr>uuid_last_index := c\<rparr>) = io_good s" "io_good (s\<lparr>user_flags := uf\<rparr>) = io_good s"
  by (simp_all add: io_good_def)

end
