(* ===== verification/Rldb_File.thy ===== *)
theory Rldb_File
  imports Runlog_State
begin

text \<open>
  The default storage plugin of the log, \<open>rldb_plugin_file.c\<close>: the entry array in memory and the
  file of fixed-size records behind it.  The functions keep the names of the C functions; a run id
  argument is an \<open>int\<close> as in C.
\<close>

section \<open>Writing to the file\<close>

definition write_entries :: "nat \<Rightarrow> run_entry list \<Rightarrow> runlog \<Rightarrow> bool \<times> runlog" where
  "write_entries off es =
     disk_op (\<lambda>s. s\<lparr>disk_runs := write_at zero_entry off es (disk_runs s)\<rparr>)"

definition do_flush_entry :: "nat \<Rightarrow> runlog \<Rightarrow> int \<times> runlog" where
  "do_flush_entry num s =
    (if run_fd s < 0 then (-1, s)
     else if num \<ge> run_u s then (-1, s)
     else case write_entries num [runs s ! num] s of
       (ok, s') \<Rightarrow> (if ok then int num else -1, s'))"

definition run_flush_header :: "runlog \<Rightarrow> int \<times> runlog" where
  "run_flush_header s =
    (case disk_op (\<lambda>s. s\<lparr>disk_head := Some (head s)\<rparr>) s of (ok, s') \<Rightarrow> (if ok then 0 else -1, s'))"

definition do_truncate :: "runlog \<Rightarrow> int \<times> runlog" where
  "do_truncate s =
    (case disk_op (\<lambda>s. s\<lparr>disk_runs := truncate_to zero_entry (run_u s) (disk_runs s)\<rparr>) s of
       (ok, s') \<Rightarrow> (if ok then 0 else -1, s'))"

text \<open>\<open>flush_func\<close>: \<open>do_write\<close> asserts that there is something to write.\<close>

definition flush_func :: "runlog \<Rightarrow> (int \<times> runlog) option" where
  "flush_func s =
    (if run_fd s < 0 then Some (-1, s)
     else if run_u s = 0 then None
     else case write_entries 0 (log s) s of (ok, s') \<Rightarrow> Some (if ok then 0 else -1, s'))"

section \<open>Opening, clearing and replacing the log\<close>

text \<open>
  \<open>read_runlog\<close> on a file whose size is a whole number of records: an empty file gets a fresh
  header, otherwise the header and the records are read and the expected finish time is adjusted.
\<close>

definition read_runlog :: "int \<Rightarrow> int \<Rightarrow> int \<Rightarrow> runlog \<Rightarrow> int \<times> runlog" where
  "read_runlog init_duration init_sched_time init_finish_time s =
    (case disk_head s of
       None \<Rightarrow>
         (let h = zero_header\<lparr>rh_version := 2, rh_duration := init_duration,
                    rh_sched_time := init_sched_time, rh_finish_time := init_finish_time\<rparr>
          in (0, snd (run_flush_header (s\<lparr>head := h, run_u := 0\<rparr>))))
     | Some h \<Rightarrow>
         if rh_version h \<noteq> 2 then (-1, s\<lparr>head := h\<rparr>)
         else
           (let n = length (disk_runs s);
                a = double_upto n 128;
                s1 = s\<lparr>head := h, run_u := n, runs := disk_runs s @ replicate (a - n) spare_entry\<rparr>
            in if init_finish_time > 0 \<and> rh_finish_time h \<noteq> init_finish_time then
                 (0, snd (run_flush_header (s1\<lparr>head := h\<lparr>rh_finish_time := init_finish_time\<rparr>\<rparr>)))
               else if init_finish_time = -1 \<and> rh_finish_time h > 0 then
                 (0, snd (run_flush_header (s1\<lparr>head := h\<lparr>rh_finish_time := 0\<rparr>\<rparr>)))
               else (0, s1)))"

definition reset_func :: "int \<Rightarrow> int \<Rightarrow> int \<Rightarrow> runlog \<Rightarrow> int \<times> runlog" where
  "reset_func init_duration init_sched_time init_finish_time s =
    (let s1 = s\<lparr>run_u := 0, runs := replicate (length (runs s)) spare_entry,
              head := zero_header\<lparr>rh_version := 2, rh_duration := init_duration,
                        rh_sched_time := init_sched_time, rh_finish_time := init_finish_time\<rparr>\<rparr>
     in case disk_op (\<lambda>s. s\<lparr>disk_head := None, disk_runs := []\<rparr>) s1 of
          (ok, s2) \<Rightarrow> if ok then run_flush_header s2 else (-1, s2))"

text \<open>The result of the write is not looked at; the assertion of \<open>do_write\<close> fails on no entries.\<close>

definition set_runlog_func :: "run_entry list \<Rightarrow> runlog \<Rightarrow> (int \<times> runlog) option" where
  "set_runlog_func entries s =
    (let total = length entries;
         a = (if total > length (runs s)
              then double_upto total (if runs s = [] then 128 else length (runs s))
              else length (runs s));
         s1 = s\<lparr>runs := entries @ replicate (a - total) spare_entry, run_u := total\<rparr>
     in if total = 0 then None
        else Some (do_truncate (snd (write_entries 0 entries s1))))"

section \<open>Reserving a place for a new run\<close>

definition grow_runs :: "runlog \<Rightarrow> runlog" where
  "grow_runs s =
    (if run_u s = length (runs s) then
       (let new_a = (if length (runs s) = 0 then 128 else 2 * length (runs s))
        in s\<lparr>runs := take (run_u s) (runs s) @ replicate (new_a - run_u s) spare_entry\<rparr>)
     else s)"

definition append_to_end :: "int \<Rightarrow> int \<Rightarrow> runlog \<Rightarrow> int \<times> runlog" where
  "append_to_end t nsec s =
    (let nsec' = (if nsec < 0 then 0 else nsec); n = run_u s
     in (int n, s\<lparr>runs := (runs s)[n := empty_slot (int n) t nsec'], run_u := Suc n\<rparr>))"

text \<open>\<open>j = n - 1; while (j >= 0 && runs[j].status == RUN_EMPTY) j--;\<close>\<close>

fun last_used :: "run_entry list \<Rightarrow> nat \<Rightarrow> nat option" where
  "last_used arr 0 = None"
| "last_used arr (Suc j) = (if is_empty_entry (arr ! j) then last_used arr j else Some j)"

definition NSEC_MAX :: int where [simp]: "NSEC_MAX = 999999999"

text \<open>The search with a nanosecond component, from position \<open>i\<close> on.\<close>

fun scan_pos :: "int \<Rightarrow> int \<Rightarrow> int \<Rightarrow> run_entry list \<Rightarrow> nat \<Rightarrow> nat" where
  "scan_pos t uid nsec [] i = i"
| "scan_pos t uid nsec (e # es) i =
    (if is_empty_entry e then scan_pos t uid nsec es (Suc i)
     else if re_time e > t then i
     else if re_time e < t then scan_pos t uid nsec es (Suc i)
     else if re_nsec e > nsec then i
     else if re_nsec e < nsec then scan_pos t uid nsec es (Suc i)
     else if re_user_id e > uid then i
     else scan_pos t uid nsec es (Suc i))"

text \<open>
  The search without one.  The inner loop \<open>while (runs[i].status == RUN_EMPTY || runs[i].time == t) i++;\<close>
  has no bound, so it runs over the unused part of the array and, when nothing stops it, out of the
  array: \<open>None\<close>.  The result is the position with the nanoseconds to store.  A full second
  restarts the first search with a random component (\<open>goto try_with_nsec\<close>).
\<close>

fun skip_same :: "int \<Rightarrow> run_entry list \<Rightarrow> nat \<Rightarrow> nat option" where
  "skip_same t [] i = None"
| "skip_same t (e # es) i =
    (if is_empty_entry e \<or> re_time e = t then skip_same t es (Suc i) else Some i)"

fun scan_neg ::
  "run_entry list \<Rightarrow> nat \<Rightarrow> int \<Rightarrow> int \<Rightarrow> nat \<Rightarrow> run_entry list \<Rightarrow> nat \<Rightarrow> (nat \<times> int) option" where
  "scan_neg arr n t uid rnd [] i = None"
| "scan_neg arr n t uid rnd (e # es) i =
    (if is_empty_entry e then scan_neg arr n t uid rnd es (Suc i)
     else if re_time e > t then Some (i, -1)
     else if re_time e < t then scan_neg arr n t uid rnd es (Suc i)
     else case skip_same t (drop i arr) i of None \<Rightarrow> None
       | Some k \<Rightarrow>
         (case last_used arr k of None \<Rightarrow> None
          | Some j \<Rightarrow>
            if re_nsec (arr ! j) < NSEC_MAX then (if k < n then Some (k, re_nsec (arr ! j) + 1) else None)
            else (let nsec = int rnd mod (NSEC_MAX + 1)
                  in Some (scan_pos t uid nsec (take n arr) 0, nsec))))"

text \<open>\<open>memmove\<close> of the tail, renumbering, the new slot, and the write of the moved part.\<close>

definition insert_slot :: "nat \<Rightarrow> int \<Rightarrow> int \<Rightarrow> runlog \<Rightarrow> int \<times> runlog" where
  "insert_slot i t nsec s =
    (let n = run_u s; arr = runs s;
         nsec' = (if nsec < 0 then 0 else nsec);
         moved = empty_slot (int i) t nsec' # renumber (Suc i) (take (n - i) (drop i arr));
         s1 = s\<lparr>runs := take i arr @ moved @ drop (Suc n) arr, run_u := Suc n\<rparr>
     in case write_entries i moved s1 of (ok, s2) \<Rightarrow> (if ok then int i else -1, s2))"

definition get_insert_run_id :: "nat \<Rightarrow> int \<Rightarrow> int \<Rightarrow> int \<Rightarrow> runlog \<Rightarrow> (int \<times> runlog) option" where
  "get_insert_run_id rnd t uid nsec s0 =
    (if run_u s0 > length (runs s0) then None
     else
       (let s = grow_runs s0; n = run_u s; arr = runs s
        in case last_used arr n of
             None \<Rightarrow> Some (append_to_end t nsec s)
           | Some j \<Rightarrow>
             if t > re_time (arr ! j) then Some (append_to_end t nsec s)
             else if t = re_time (arr ! j) \<and> nsec < 0 \<and> re_nsec (arr ! j) < NSEC_MAX then
               Some (append_to_end t (re_nsec (arr ! j) + 1) s)
             else if t = re_time (arr ! j) \<and> nsec > re_nsec (arr ! j) then
               Some (append_to_end t nsec s)
             else if t = re_time (arr ! j) \<and> nsec = re_nsec (arr ! j)
                     \<and> uid \<ge> re_user_id (arr ! j) then
               Some (append_to_end t nsec s)
             else
               (case (if nsec < 0 then scan_neg arr n t uid rnd (take n arr) 0
                      else Some (scan_pos t uid nsec (take n arr) 0, nsec)) of
                  None \<Rightarrow> None
                | Some (i, nsec') \<Rightarrow>
                    if \<exists>e \<in> set (drop i (take n arr)). transient_status (re_status e)
                    then Some (-1, s)
                    else Some (insert_slot i t nsec' s))))"

section \<open>Filling and changing entries\<close>

definition add_entry_fields :: "mask \<Rightarrow> run_entry \<Rightarrow> run_entry \<Rightarrow> run_entry" where
  "add_entry_fields flags re de =
    fold (\<lambda>(m, f). apply_if (has flags m) f)
      [(RE_SIZE, re_size_update (\<lambda>_. re_size re)),
       (RE_IP, \<lambda>e. e\<lparr>re_a := re_a re, re_ipv6_flag := re_ipv6_flag re\<rparr>),
       (RE_SHA1, re_sha1_update (\<lambda>_. re_sha1 re)),
       (RE_RUN_UUID, re_run_uuid_update (\<lambda>_. re_run_uuid re)),
       (RE_USER_ID, re_user_id_update (\<lambda>_. re_user_id re)),
       (RE_PROB_ID, re_prob_id_update (\<lambda>_. re_prob_id re)),
       (RE_LANG_ID, re_lang_id_update (\<lambda>_. re_lang_id re)),
       (RE_LOCALE_ID, re_locale_id_update (\<lambda>_. re_locale_id re)),
       (RE_STATUS, re_status_update (\<lambda>_. re_status re)),
       (RE_TEST, re_test_update (\<lambda>_. re_test re)),
       (RE_SCORE, re_score_update (\<lambda>_. re_score re)),
       (RE_IS_IMPORTED, re_is_imported_update (\<lambda>_. re_is_imported re)),
       (RE_VARIANT, re_variant_update (\<lambda>_. re_variant re)),
       (RE_IS_HIDDEN, re_is_hidden_update (\<lambda>_. re_is_hidden re)),
       (RE_IS_READONLY, re_is_readonly_update (\<lambda>_. re_is_readonly re)),
       (RE_PAGES, re_pages_update (\<lambda>_. re_pages re)),
       (RE_SCORE_ADJ, re_score_adj_update (\<lambda>_. re_score_adj re)),
       (RE_JUDGE_ID, re_judge_id_update (\<lambda>_. re_judge_id re)),
       (RE_SSL_FLAG, re_ssl_flag_update (\<lambda>_. re_ssl_flag re)),
       (RE_MIME_TYPE, re_mime_type_update (\<lambda>_. re_mime_type re)),
       (RE_IS_MARKED, re_is_marked_update (\<lambda>_. re_is_marked re)),
       (RE_IS_SAVED, re_is_saved_update (\<lambda>_. re_is_saved re)),
       (RE_SAVED_STATUS, re_saved_status_update (\<lambda>_. re_saved_status re)),
       (RE_SAVED_SCORE, re_saved_score_update (\<lambda>_. re_saved_score re)),
       (RE_SAVED_TEST, re_saved_test_update (\<lambda>_. re_saved_test re)),
       (RE_PASSED_MODE, re_passed_mode_update (\<lambda>_. re_passed_mode re)),
       (RE_EOLN_TYPE, re_eoln_type_update (\<lambda>_. re_eoln_type re)),
       (RE_STORE_FLAGS, re_store_flags_update (\<lambda>_. re_store_flags re))] de"

definition add_entry_func :: "int \<Rightarrow> run_entry \<Rightarrow> mask \<Rightarrow> runlog \<Rightarrow> (int \<times> runlog) option" where
  "add_entry_func rid re flags s =
    (if 0 \<le> rid \<and> rid < int (length (runs s)) then
       (let i = nat rid
        in Some (do_flush_entry i
             (s\<lparr>runs := (runs s)[i := add_entry_fields flags re (runs s ! i)]\<rparr>)))
     else None)"

text \<open>The last entry is dropped and the file cut; an entry in the middle is only blanked in memory.\<close>

definition undo_add_entry_func :: "int \<Rightarrow> runlog \<Rightarrow> (int \<times> runlog) option" where
  "undo_add_entry_func rid s =
    (if \<not> in_log s rid then None
     else if nat rid = run_u s - 1 then
       Some (do_truncate (s\<lparr>run_u := nat rid, runs := (runs s)[nat rid := spare_entry]\<rparr>))
     else Some (0, s\<lparr>runs := (runs s)[nat rid := spare_entry\<lparr>re_run_id := rid\<rparr>]\<rparr>))"

definition clear_entry_func :: "int \<Rightarrow> runlog \<Rightarrow> (int \<times> runlog) option" where
  "clear_entry_func rid s =
    (if \<not> in_log s rid then None
     else if nat rid = run_u s - 1 then
       Some (do_truncate (s\<lparr>run_u := nat rid, runs := (runs s)[nat rid := spare_entry]\<rparr>))
     else Some (do_flush_entry (nat rid)
            (s\<lparr>runs := (runs s)[nat rid := spare_entry\<lparr>re_run_id := rid\<rparr>]\<rparr>)))"

text \<open>
  The shape of the operations that rewrite one entry: \<open>ASSERT\<close> the run id, assign fields of
  \<open>runs[run_id]\<close>, \<open>return do_flush_entry(cs, run_id)\<close>.
\<close>

definition update_entry :: "(run_entry \<Rightarrow> run_entry) \<Rightarrow> int \<Rightarrow> runlog \<Rightarrow> (int \<times> runlog) option" where
  "update_entry f rid s =
    (if in_log s rid
     then Some (do_flush_entry (nat rid) (s\<lparr>runs := (runs s)[nat rid := f (runs s ! nat rid)]\<rparr>))
     else None)"

definition change_status_entry :: "int \<Rightarrow> int \<Rightarrow> int \<Rightarrow> int \<Rightarrow> int \<Rightarrow> run_entry \<Rightarrow> run_entry" where
  "change_status_entry st test pmode score judge e =
     e\<lparr>re_status := to_u8 st, re_test := to_s16 test, re_passed_mode := c_bool (pmode \<noteq> 0),
       re_score := score, re_judge_id := to_u16 judge\<rparr>"

definition change_status_func ::
  "int \<Rightarrow> int \<Rightarrow> int \<Rightarrow> int \<Rightarrow> int \<Rightarrow> int \<Rightarrow> runlog \<Rightarrow> (int \<times> runlog) option" where
  "change_status_func st test pmode score judge =
     update_entry (change_status_entry st test pmode score judge)"

definition change_status_2_func ::
  "int \<Rightarrow> int \<Rightarrow> int \<Rightarrow> int \<Rightarrow> int \<Rightarrow> int \<Rightarrow> int \<Rightarrow> runlog \<Rightarrow> (int \<times> runlog) option" where
  "change_status_2_func st test pmode score judge is_marked =
     update_entry (\<lambda>e. (change_status_entry st test pmode score judge e)
       \<lparr>re_is_marked := to_u8 is_marked\<rparr>)"

definition change_status_3_func ::
  "int \<Rightarrow> int \<Rightarrow> int \<Rightarrow> int \<Rightarrow> int \<Rightarrow> int \<Rightarrow> int \<Rightarrow> int \<Rightarrow> int \<Rightarrow> int \<Rightarrow> int \<Rightarrow> runlog
     \<Rightarrow> (int \<times> runlog) option" where
  "change_status_3_func st test pmode score judge is_marked has_user_score user_status
       user_tests_passed user_score =
     update_entry (\<lambda>e. (change_status_entry st test pmode score judge e)
       \<lparr>re_is_marked := to_u8 is_marked, re_is_saved := to_u8 has_user_score,
        re_saved_status := to_u8 user_status, re_saved_test := to_s16 user_tests_passed,
        re_saved_score := user_score\<rparr>)"

definition change_status_4_func :: "int \<Rightarrow> int \<Rightarrow> runlog \<Rightarrow> (int \<times> runlog) option" where
  "change_status_4_func st =
     update_entry (\<lambda>e. e\<lparr>re_status := to_u8 st, re_test := 0, re_score := -1, re_judge_id := 0,
       re_is_marked := 0, re_is_saved := 0, re_saved_status := 0, re_saved_test := 0,
       re_saved_score := 0\<rparr>)"

definition set_status_func :: "int \<Rightarrow> int \<Rightarrow> runlog \<Rightarrow> (int \<times> runlog) option" where
  "set_status_func st = update_entry (\<lambda>e. e\<lparr>re_status := to_u8 st\<rparr>)"

definition set_hidden_func :: "int \<Rightarrow> int \<Rightarrow> runlog \<Rightarrow> (int \<times> runlog) option" where
  "set_hidden_func h = update_entry (\<lambda>e. e\<lparr>re_is_hidden := to_u8 h\<rparr>)"

definition set_judge_id_func :: "int \<Rightarrow> int \<Rightarrow> runlog \<Rightarrow> (int \<times> runlog) option" where
  "set_judge_id_func j = update_entry (\<lambda>e. e\<lparr>re_judge_id := to_u16 j\<rparr>)"

definition set_pages_func :: "int \<Rightarrow> int \<Rightarrow> runlog \<Rightarrow> (int \<times> runlog) option" where
  "set_pages_func p = update_entry (\<lambda>e. e\<lparr>re_pages := to_u8 p\<rparr>)"

definition set_entry_func :: "run_entry \<Rightarrow> int \<Rightarrow> runlog \<Rightarrow> (int \<times> runlog) option" where
  "set_entry_func new = update_entry (\<lambda>_. new)"

section \<open>The header\<close>

definition start_func :: "int \<Rightarrow> runlog \<Rightarrow> int \<times> runlog" where
  "start_func t s = run_flush_header (s\<lparr>head := (head s)\<lparr>rh_start_time := t, rh_sched_time := 0\<rparr>\<rparr>)"

definition stop_func :: "int \<Rightarrow> runlog \<Rightarrow> int \<times> runlog" where
  "stop_func t s = run_flush_header (s\<lparr>head := (head s)\<lparr>rh_stop_time := t\<rparr>\<rparr>)"

definition set_duration_func :: "int \<Rightarrow> runlog \<Rightarrow> int \<times> runlog" where
  "set_duration_func d s = run_flush_header (s\<lparr>head := (head s)\<lparr>rh_duration := d\<rparr>\<rparr>)"

definition schedule_func :: "int \<Rightarrow> runlog \<Rightarrow> int \<times> runlog" where
  "schedule_func t s = run_flush_header (s\<lparr>head := (head s)\<lparr>rh_sched_time := t\<rparr>\<rparr>)"

definition set_finish_time_func :: "int \<Rightarrow> runlog \<Rightarrow> int \<times> runlog" where
  "set_finish_time_func t s = run_flush_header (s\<lparr>head := (head s)\<lparr>rh_finish_time := t\<rparr>\<rparr>)"

definition save_times_func :: "runlog \<Rightarrow> int \<times> runlog" where
  "save_times_func s =
     run_flush_header (s\<lparr>head := (head s)\<lparr>rh_saved_duration := rh_duration (head s),
       rh_saved_stop_time := rh_stop_time (head s), rh_saved_finish_time := rh_finish_time (head s)\<rparr>\<rparr>)"

section \<open>Removing the EMPTY entries\<close>

text \<open>
  The body of the compaction loop on the array, the next free position \<open>j\<close> and the first position
  written to.
\<close>

definition squeeze_step ::
  "nat \<Rightarrow> run_entry list \<times> nat \<times> nat option \<Rightarrow> run_entry list \<times> nat \<times> nat option" where
  "squeeze_step i st =
    (case st of (arr, j, first_moved) \<Rightarrow>
       if is_empty_entry (arr ! i) then st
       else if i \<noteq> j then
         (arr[j := (arr ! i)\<lparr>re_run_id := int j\<rparr>], Suc j,
          if first_moved = None then Some j else first_moved)
       else (arr, Suc j, first_moved))"

text \<open>\<open>memset\<close> of the freed tail leaves zero entries there, not EMPTY ones.\<close>

definition squeeze_func :: "runlog \<Rightarrow> int \<times> runlog" where
  "squeeze_func s =
    (case fold squeeze_step [0..<run_u s] (runs s, 0, None) of (arr, j, first_moved) \<Rightarrow>
       if run_u s = j then (0, s\<lparr>runs := arr\<rparr>)
       else
         (let retval = int (run_u s) - int j;
              s1 = s\<lparr>runs := take j arr @ replicate (length arr - j) zero_entry, run_u := j\<rparr>
          in case do_truncate s1 of (r, s2) \<Rightarrow>
               if r < 0 then (-1, s2)
               else (case first_moved of None \<Rightarrow> (retval, s2)
                 | Some fm \<Rightarrow>
                   (case write_entries fm (drop fm (take j arr)) s2 of
                      (ok, s3) \<Rightarrow> (if ok then retval else -1, s3)))))"

end
