(* ===== verification/Rldb_Laws.thy ===== *)
theory Rldb_Laws
  imports Rldb_File
begin

text \<open>
  What the storage plugin promises to the run log: which parts of the state its operations touch,
  what they do to the log read as a list, and that the file follows the memory.
\<close>

section \<open>Frame\<close>

text \<open>Everything the plugin never writes.\<close>

definition side where
  "side s = (ut_table s, user_flags s, max_user_id s, user_count s, run_extra_u s, run_extras s,
     uuid_hash_state s, uuid_hash_used s, uuid_hash s, uuid_last_run_id s, uuid_last_index s,
     run_fd s)"

lemma sideD:
  assumes "side s' = side s"
  shows "ut_table s' = ut_table s" "user_flags s' = user_flags s" "max_user_id s' = max_user_id s"
    "user_count s' = user_count s" "run_extra_u s' = run_extra_u s" "run_extras s' = run_extras s"
    "uuid_hash_state s' = uuid_hash_state s" "uuid_hash_used s' = uuid_hash_used s"
    "uuid_hash s' = uuid_hash s" "uuid_last_run_id s' = uuid_last_run_id s"
    "uuid_last_index s' = uuid_last_index s" "run_fd s' = run_fd s"
  using assms by (simp_all add: side_def)

lemma side_frame [simp]:
  "side (s\<lparr>runs := r\<rparr>) = side s" "side (s\<lparr>run_u := n\<rparr>) = side s" "side (s\<lparr>head := h\<rparr>) = side s"
  "side (s\<lparr>disk_runs := d\<rparr>) = side s" "side (s\<lparr>disk_head := dh\<rparr>) = side s"
  "side (io_next s) = side s"
  by (simp_all add: side_def)

lemma disk_op_cases:
  assumes "disk_op f s = (ok, s')"
  obtains "ok" "s' = f (io_next s)" | "\<not> ok" "s' = io_next s"
  using assms by (auto simp: disk_op_def split: if_splits)

lemma do_flush_entry_frame:
  "do_flush_entry i s = (r, s') \<Longrightarrow> side s' = side s \<and> head s' = head s \<and> runs s' = runs s
     \<and> run_u s' = run_u s \<and> disk_head s' = disk_head s \<and> (r = int i \<or> r = -1)"
  unfolding do_flush_entry_def write_entries_def
  by (auto split: if_splits prod.splits elim!: disk_op_cases)

lemma do_truncate_frame:
  "do_truncate s = (r, s') \<Longrightarrow> side s' = side s \<and> head s' = head s \<and> runs s' = runs s
     \<and> run_u s' = run_u s \<and> disk_head s' = disk_head s"
  unfolding do_truncate_def by (auto split: if_splits prod.splits elim!: disk_op_cases)

lemma run_flush_header_frame:
  "run_flush_header s = (r, s') \<Longrightarrow> side s' = side s \<and> head s' = head s \<and> runs s' = runs s
     \<and> run_u s' = run_u s \<and> disk_runs s' = disk_runs s"
  unfolding run_flush_header_def by (auto split: if_splits prod.splits elim!: disk_op_cases)

lemma write_entries_frame:
  "write_entries i es s = (ok, s') \<Longrightarrow> side s' = side s \<and> head s' = head s \<and> runs s' = runs s
     \<and> run_u s' = run_u s \<and> disk_head s' = disk_head s"
  unfolding write_entries_def by (auto elim!: disk_op_cases)

lemma log_cong: "runs s' = runs s \<Longrightarrow> run_u s' = run_u s \<Longrightarrow> log s' = log s"
  by (simp add: log_def)

lemma wf_runs_cong: "runs s' = runs s \<Longrightarrow> run_u s' = run_u s \<Longrightarrow> wf_runs s' = wf_runs s"
  by (simp add: wf_runs_def)

text \<open>With a working disk every write succeeds.\<close>

lemma write_entries_good:
  "io_good s \<Longrightarrow> write_entries i es s
     = (True, (io_next s)\<lparr>disk_runs := write_at zero_entry i es (disk_runs s)\<rparr>)"
  by (simp add: write_entries_def disk_op_good)

lemma do_flush_entry_good:
  assumes "io_good s" "run_fd s \<ge> 0" "i < run_u s"
  shows "do_flush_entry i s
     = (int i, (io_next s)\<lparr>disk_runs := write_at zero_entry i [runs s ! i] (disk_runs s)\<rparr>)"
  using assms by (simp add: do_flush_entry_def write_entries_good)

lemma do_truncate_good:
  "io_good s \<Longrightarrow> do_truncate s
     = (0, (io_next s)\<lparr>disk_runs := truncate_to zero_entry (run_u s) (disk_runs s)\<rparr>)"
  by (simp add: do_truncate_def disk_op_good)

lemma run_flush_header_good:
  "io_good s \<Longrightarrow> run_flush_header s = (0, (io_next s)\<lparr>disk_head := Some (head s)\<rparr>)"
  by (simp add: run_flush_header_def disk_op_good)

lemmas disk_good = write_entries_good do_flush_entry_good do_truncate_good run_flush_header_good

section \<open>Operations that rewrite one entry\<close>

text \<open>
  The contract of the operations on one entry: they stop the process only for a run id outside of
  the log, apply \<open>f\<close> to the entry, leave everything else in memory alone, and carry the change to
  the file.
\<close>

locale entry_writer =
  fixes op :: "int \<Rightarrow> runlog \<Rightarrow> (int \<times> runlog) option"
    and f :: "run_entry \<Rightarrow> run_entry"
  assumes op_total: "in_log s rid \<Longrightarrow> \<exists>r s'. op rid s = Some (r, s')"
    and op_in_log: "op rid s = Some (r, s') \<Longrightarrow> in_log s rid"
    and op_frame: "op rid s = Some (r, s') \<Longrightarrow> side s' = side s \<and> head s' = head s
          \<and> run_u s' = run_u s \<and> disk_head s' = disk_head s"
    and op_runs: "op rid s = Some (r, s') \<Longrightarrow> runs s' = (runs s)[nat rid := f (runs s ! nat rid)]"
    and op_disk: "op rid s = Some (r, s') \<Longrightarrow> io_good s \<Longrightarrow> run_fd s \<ge> 0 \<Longrightarrow> wf_runs s \<Longrightarrow>
          r = rid \<and> io_good s'
          \<and> disk_runs s' = write_at zero_entry (nat rid) [f (runs s ! nat rid)] (disk_runs s)"
begin

lemma op_log:
  assumes "op rid s = Some (r, s')"
  shows "log s' = (log s)[nat rid := f (log s ! nat rid)]"
  using op_frame [OF assms] op_runs [OF assms] op_in_log [OF assms]
  by (auto simp: log_def take_update_swap in_log_def)

lemma op_other:
  assumes "op rid s = Some (r, s')" "i \<noteq> nat rid"
  shows "runs s' ! i = runs s ! i"
  using op_runs [OF assms(1)] assms(2) by simp

lemma op_this:
  assumes "op rid s = Some (r, s')" "wf_runs s"
  shows "runs s' ! nat rid = f (runs s ! nat rid)"
  using op_runs [OF assms(1)] op_in_log [OF assms(1)] assms(2)
  by (auto simp: wf_runs_def in_log_def)

lemma op_wf: "op rid s = Some (r, s') \<Longrightarrow> wf_runs s' = wf_runs s"
  using op_frame op_runs by (simp add: wf_runs_def)

lemma op_synced:
  assumes "op rid s = Some (r, s')" "io_good s" "run_fd s \<ge> 0" "wf_runs s" "synced s"
  shows "synced s'"
proof -
  have lt: "nat rid < run_u s" using op_in_log [OF assms(1)] by (rule in_log_nat)
  have "disk_runs s' = (log s)[nat rid := f (runs s ! nat rid)]"
    using op_disk [OF assms(1-4)] assms(4,5) lt
    by (simp add: synced_def write_at_update)
  then show ?thesis
    using op_log [OF assms(1)] op_frame [OF assms(1)] assms(5) lt by (simp add: synced_def)
qed

lemma op_numbered:
  assumes "op rid s = Some (r, s')" "numbered (log s)" "\<And>e. re_run_id (f e) = re_run_id e"
  shows "numbered (log s')"
  unfolding numbered_def op_log [OF assms(1)] length_list_update
proof (intro allI impI)
  fix i assume "i < length (log s)"
  then show "re_run_id ((log s)[nat rid := f (log s ! nat rid)] ! i) = int i"
    using assms(2,3) by (cases "i = nat rid") (auto simp: numbered_def)
qed

end

lemma update_entry_writer: "entry_writer (update_entry f) f"
proof
  fix rid s r s'
  show "in_log s rid \<Longrightarrow> \<exists>r s'. update_entry f rid s = Some (r, s')"
    by (auto simp: update_entry_def)
  show "update_entry f rid s = Some (r, s') \<Longrightarrow> in_log s rid"
    by (auto simp: update_entry_def split: if_splits)
  show "update_entry f rid s = Some (r, s') \<Longrightarrow> side s' = side s \<and> head s' = head s
          \<and> run_u s' = run_u s \<and> disk_head s' = disk_head s"
    by (auto simp: update_entry_def split: if_splits dest!: do_flush_entry_frame)
  show "update_entry f rid s = Some (r, s') \<Longrightarrow> runs s' = (runs s)[nat rid := f (runs s ! nat rid)]"
    by (auto simp: update_entry_def split: if_splits dest!: do_flush_entry_frame)
  show "update_entry f rid s = Some (r, s') \<Longrightarrow> io_good s \<Longrightarrow> run_fd s \<ge> 0 \<Longrightarrow> wf_runs s \<Longrightarrow>
          r = rid \<and> io_good s'
          \<and> disk_runs s' = write_at zero_entry (nat rid) [f (runs s ! nat rid)] (disk_runs s)"
    by (auto simp: update_entry_def in_log_def do_flush_entry_good wf_runs_def split: if_splits)
qed

interpretation change_status: entry_writer "change_status_func st test pm sc j"
    "change_status_entry st test pm sc j" for st test pm sc j
  unfolding change_status_func_def by (rule update_entry_writer)

interpretation change_status_2: entry_writer "change_status_2_func st test pm sc j mk"
    "\<lambda>e. (change_status_entry st test pm sc j e)\<lparr>re_is_marked := to_u8 mk\<rparr>" for st test pm sc j mk
  unfolding change_status_2_func_def by (rule update_entry_writer)

interpretation change_status_3:
  entry_writer "change_status_3_func st test pm sc j mk hu us ut usc"
    "\<lambda>e. (change_status_entry st test pm sc j e)\<lparr>re_is_marked := to_u8 mk, re_is_saved := to_u8 hu,
        re_saved_status := to_u8 us, re_saved_test := to_s16 ut, re_saved_score := usc\<rparr>"
    for st test pm sc j mk hu us ut usc
  unfolding change_status_3_func_def by (rule update_entry_writer)

interpretation change_status_4: entry_writer "change_status_4_func st"
    "\<lambda>e. e\<lparr>re_status := to_u8 st, re_test := 0, re_score := -1, re_judge_id := 0,
       re_is_marked := 0, re_is_saved := 0, re_saved_status := 0, re_saved_test := 0,
       re_saved_score := 0\<rparr>" for st
  unfolding change_status_4_func_def by (rule update_entry_writer)

interpretation set_status: entry_writer "set_status_func st" "\<lambda>e. e\<lparr>re_status := to_u8 st\<rparr>" for st
  unfolding set_status_func_def by (rule update_entry_writer)

interpretation set_hidden: entry_writer "set_hidden_func h" "\<lambda>e. e\<lparr>re_is_hidden := to_u8 h\<rparr>" for h
  unfolding set_hidden_func_def by (rule update_entry_writer)

interpretation set_judge_id: entry_writer "set_judge_id_func j" "\<lambda>e. e\<lparr>re_judge_id := to_u16 j\<rparr>" for j
  unfolding set_judge_id_func_def by (rule update_entry_writer)

interpretation set_pages: entry_writer "set_pages_func p" "\<lambda>e. e\<lparr>re_pages := to_u8 p\<rparr>" for p
  unfolding set_pages_func_def by (rule update_entry_writer)

interpretation set_entry: entry_writer "set_entry_func new" "\<lambda>_. new" for new
  unfolding set_entry_func_def by (rule update_entry_writer)

section \<open>Reserving a place\<close>

text \<open>
  The order of the log: \<open>before e t nsec uid\<close> says that an entry stands before a run with that key,
  and \<open>log_sorted\<close> that the entries in use stand in the order of their keys.
\<close>

definition before :: "run_entry \<Rightarrow> int \<Rightarrow> int \<Rightarrow> int \<Rightarrow> bool" where
  "before e t nsec uid \<longleftrightarrow> re_time e < t \<or> re_time e = t \<and>
     (re_nsec e < nsec \<or> re_nsec e = nsec \<and> re_user_id e \<le> uid)"

definition entry_le :: "run_entry \<Rightarrow> run_entry \<Rightarrow> bool" where
  "entry_le a b \<longleftrightarrow> before a (re_time b) (re_nsec b) (re_user_id b)"

definition used :: "run_entry list \<Rightarrow> run_entry list" where
  "used es = filter (\<lambda>e. \<not> is_empty_entry e) es"

definition log_sorted :: "run_entry list \<Rightarrow> bool" where
  "log_sorted es \<longleftrightarrow> sorted_wrt entry_le (used es)"

text \<open>The weaker order that survives every change of the entries: by time alone.\<close>

definition time_sorted :: "run_entry list \<Rightarrow> bool" where
  "time_sorted es \<longleftrightarrow> sorted_wrt (\<lambda>a b. re_time a \<le> re_time b) (used es)"

lemma used_append: "used (xs @ ys) = used xs @ used ys"
  by (simp add: used_def)

lemma set_used: "set (used es) = {e \<in> set es. \<not> is_empty_entry e}"
  by (auto simp: used_def)

lemma used_renumber: "map (\<lambda>e. e\<lparr>re_run_id := 0\<rparr>) (used (renumber k es))
    = map (\<lambda>e. e\<lparr>re_run_id := 0\<rparr>) (used es)"
  by (induction es arbitrary: k) (auto simp: used_def)

lemma entry_le_trans: "entry_le a b \<Longrightarrow> before b t nsec uid \<Longrightarrow> before a t nsec uid"
  by (auto simp: entry_le_def before_def)

lemma before_total: "\<not> before e t nsec uid \<Longrightarrow> t = re_time x \<Longrightarrow> nsec = re_nsec x \<Longrightarrow>
    uid = re_user_id x \<Longrightarrow> entry_le x e"
  by (auto simp: entry_le_def before_def)

lemma entry_le_renumber [simp]:
  "entry_le (a\<lparr>re_run_id := r\<rparr>) b = entry_le a b" "entry_le a (b\<lparr>re_run_id := r\<rparr>) = entry_le a b"
  by (simp_all add: entry_le_def before_def)

lemma sorted_renumber: "log_sorted (renumber k es) = log_sorted es"
proof -
  have m: "sorted_wrt entry_le xs
      = sorted_wrt entry_le (map (\<lambda>e. e\<lparr>re_run_id := 0\<rparr>) xs)" for xs
    by (simp add: sorted_wrt_map)
  show ?thesis unfolding log_sorted_def by (subst (1 2) m) (simp add: used_renumber)
qed

subsection \<open>The search\<close>

lemma last_used_None: "last_used arr n = None \<Longrightarrow> \<forall>i < n. is_empty_entry (arr ! i)"
  by (induction n) (auto simp: less_Suc_eq split: if_splits)

lemma last_used_Some:
  "last_used arr n = Some j \<Longrightarrow> j < n \<and> \<not> is_empty_entry (arr ! j)
     \<and> (\<forall>i. j < i \<and> i < n \<longrightarrow> is_empty_entry (arr ! i))"
  by (induction n) (auto simp: less_Suc_eq split: if_splits)

lemma last_used_take: "n \<le> m \<Longrightarrow> last_used (take m arr) n = last_used arr n"
  by (induction n) auto

text \<open>
  \<open>scan_pos\<close> skips a prefix whose used entries all stand before the key and stops at an entry that
  does not.
\<close>

lemma scan_pos_spec:
  "\<exists>k \<le> length es. scan_pos t uid nsec es i = i + k
     \<and> (\<forall>e \<in> set (used (take k es)). before e t nsec uid)
     \<and> (k < length es \<longrightarrow> \<not> is_empty_entry (es ! k) \<and> \<not> before (es ! k) t nsec uid)"
proof (induction es arbitrary: i)
  case Nil
  then show ?case by (simp add: used_def)
next
  case (Cons e es)
  obtain k where k: "k \<le> length es" "scan_pos t uid nsec es (Suc i) = Suc i + k"
    "\<forall>x \<in> set (used (take k es)). before x t nsec uid"
    "k < length es \<longrightarrow> \<not> is_empty_entry (es ! k) \<and> \<not> before (es ! k) t nsec uid"
    using Cons.IH [of "Suc i"] by blast
  show ?case
  proof (cases "is_empty_entry e \<or> before e t nsec uid")
    case True
    then have "scan_pos t uid nsec (e # es) i = Suc i + k"
      using k(2) by (auto simp: before_def)
    moreover have "\<forall>x \<in> set (used (take (Suc k) (e # es))). before x t nsec uid"
      using True k(3) by (auto simp: used_def)
    ultimately show ?thesis using k(1,4) by (intro exI [of _ "Suc k"]) auto
  next
    case False
    then have "scan_pos t uid nsec (e # es) i = i" by (auto simp: before_def)
    then show ?thesis using False by (intro exI [of _ 0]) (auto simp: used_def)
  qed
qed

lemma used_from:
  assumes "sorted_wrt R (used es)" "k < length es" "\<not> is_empty_entry (es ! k)"
    "e \<in> set (used (drop k es))"
  shows "e = es ! k \<or> R (es ! k) e"
proof -
  have d: "drop k es = es ! k # drop (Suc k) es" using assms(2) by (simp add: Cons_nth_drop_Suc)
  have "used es = used (take k es) @ used (drop k es)"
    by (metis append_take_drop_id used_append)
  moreover have "used (drop k es) = es ! k # used (drop (Suc k) es)"
    using assms(3) d by (simp add: used_def)
  ultimately have "used es = used (take k es) @ es ! k # used (drop (Suc k) es)" by simp
  then have "sorted_wrt R (es ! k # used (drop (Suc k) es))"
    using assms(1) by (simp add: sorted_wrt_append)
  then show ?thesis using assms(4) d assms(3) by (auto simp: used_def)
qed

lemma used_in_sorted_after:
  assumes "log_sorted es" "k < length es" "\<not> is_empty_entry (es ! k)"
    "\<not> before (es ! k) t nsec uid" "e \<in> set (used (drop k es))"
  shows "\<not> before e t nsec uid"
  using used_from [OF assms(1) [unfolded log_sorted_def] assms(2,3,5)] assms(4) entry_le_trans by blast

lemma used_in_time_after:
  assumes "time_sorted es" "k < length es" "\<not> is_empty_entry (es ! k)"
    "\<not> before (es ! k) t nsec uid" "e \<in> set (used (drop k es))"
  shows "t \<le> re_time e"
  using used_from [OF assms(1) [unfolded time_sorted_def] assms(2,3,5)] assms(4)
  by (auto simp: before_def)

subsection \<open>The steps of an insertion\<close>

lemma grow_runs_props:
  assumes "wf_runs s"
  shows "log (grow_runs s) = log s" "run_u (grow_runs s) = run_u s" "wf_runs (grow_runs s)"
    "run_u s < length (runs (grow_runs s))" "side (grow_runs s) = side s"
    "head (grow_runs s) = head s" "disk_runs (grow_runs s) = disk_runs s"
    "disk_head (grow_runs s) = disk_head s" "io_good (grow_runs s) = io_good s"
  using assms by (auto simp: grow_runs_def log_def wf_runs_def Let_def)

lemma append_to_end_props:
  assumes "append_to_end t nsec s = (r, s')" "run_u s < length (runs s)" "nsec \<ge> 0"
  shows "r = int (run_u s)" "log s' = log s @ [empty_slot (int (run_u s)) t nsec]"
    "run_u s' = Suc (run_u s)" "wf_runs s'" "side s' = side s" "head s' = head s"
    "disk_runs s' = disk_runs s" "disk_head s' = disk_head s" "io_good s' = io_good s"
  using assms by (auto simp: append_to_end_def log_def wf_runs_def take_Suc_conv_app_nth Let_def)

lemma insert_slot_log:
  assumes "insert_slot i t nsec s = (r, s')" "i \<le> run_u s" "run_u s < length (runs s)" "nsec \<ge> 0"
  shows "log s' = take i (log s) @ empty_slot (int i) t nsec # renumber (Suc i) (drop i (log s))"
    and "run_u s' = Suc (run_u s)" and "wf_runs s'" and "side s' = side s" and "head s' = head s"
    and "disk_head s' = disk_head s"
proof -
  let ?m = "empty_slot (int i) t nsec # renumber (Suc i) (take (run_u s - i) (drop i (runs s)))"
  let ?a = "take i (runs s) @ ?m @ drop (Suc (run_u s)) (runs s)"
  have s': "runs s' = ?a \<and> run_u s' = Suc (run_u s) \<and> side s' = side s \<and> head s' = head s
      \<and> disk_head s' = disk_head s"
    using assms(1,4) unfolding insert_slot_def
    by (auto simp: Let_def split: prod.splits if_splits dest!: write_entries_frame)
  have len: "length (take i (runs s) @ ?m) = Suc (run_u s)" using assms(2,3) by simp
  have "take (Suc (run_u s)) ?a = take i (runs s) @ ?m"
    using len by (metis append.assoc append_eq_conv_conj)
  then show "log s' = take i (log s) @ empty_slot (int i) t nsec # renumber (Suc i) (drop i (log s))"
    using s' assms(2) by (simp add: log_def min_def drop_take)
  have "Suc (run_u s) \<le> length ?a" using len by (metis append.assoc le_add1 length_append)
  then show "wf_runs s'" using s' by (simp only: wf_runs_def)
qed (use assms(1,4) in \<open>auto simp: insert_slot_def Let_def split: prod.splits if_splits
        dest!: write_entries_frame\<close>)

lemma insert_slot_disk:
  assumes "insert_slot i t nsec s = (r, s')" "i \<le> run_u s" "run_u s < length (runs s)" "nsec \<ge> 0"
    "io_good s" "disk_runs s = log s"
  shows "r = int i" "disk_runs s' = log s'" "io_good s'"
proof -
  let ?m = "empty_slot (int i) t nsec # renumber (Suc i) (take (run_u s - i) (drop i (runs s)))"
  have *: "r = int i \<and> io_good s' \<and> disk_runs s' = write_at zero_entry i ?m (disk_runs s)"
    using assms(1,4,5) unfolding insert_slot_def
    by (auto simp: Let_def write_entries_good split: prod.splits if_splits)
  then show "r = int i" "io_good s'" by auto
  have "wf_runs s" using assms(3) by (simp add: wf_runs_def)
  then have "write_at zero_entry i ?m (log s) = take i (log s) @ ?m"
    using assms(2,3) by (auto simp: write_at_def min_def)
  moreover have "take (run_u s - i) (drop i (runs s)) = drop i (log s)"
    by (simp add: log_def drop_take)
  ultimately show "disk_runs s' = log s'"
    using * insert_slot_log(1) [OF assms(1-4)] assms(6) by simp
qed

text \<open>
  A failed reservation changes nothing but the capacity of the array; a successful one puts an EMPTY
  slot at \<open>i\<close>, behind every run that stands before the key and ahead of all others, and moves no
  transient run.
\<close>

definition reserved :: "int \<Rightarrow> int \<Rightarrow> int \<Rightarrow> runlog \<Rightarrow> nat \<Rightarrow> runlog \<Rightarrow> bool" where
  "reserved t nsec uid s i s' \<longleftrightarrow> i \<le> run_u s
     \<and> log s' = take i (log s) @ empty_slot (int i) t nsec # renumber (Suc i) (drop i (log s))
     \<and> run_u s' = Suc (run_u s) \<and> wf_runs s' \<and> side s' = side s \<and> head s' = head s
     \<and> disk_head s' = disk_head s
     \<and> (\<forall>e \<in> set (drop i (log s)). \<not> transient_status (re_status e))
     \<and> (log_sorted (log s) \<longrightarrow>
          (\<forall>e \<in> set (used (take i (log s))). before e t nsec uid) \<and>
          (\<forall>e \<in> set (used (drop i (log s))). \<not> before e t nsec uid))
     \<and> (time_sorted (log s) \<longrightarrow>
          (\<forall>e \<in> set (used (take i (log s))). re_time e \<le> t) \<and>
          (\<forall>e \<in> set (used (drop i (log s))). t \<le> re_time e))"

lemma used_upto_last:
  assumes "sorted_wrt R (used es)" "last_used es (length es) = Some j" "e \<in> set (used es)"
  shows "e = es ! j \<or> R e (es ! j)"
proof -
  from last_used_Some [OF assms(2)] have j: "j < length es" "\<not> is_empty_entry (es ! j)"
    and later: "\<forall>i. j < i \<and> i < length es \<longrightarrow> is_empty_entry (es ! i)" by auto
  have "used (drop (Suc j) es) = []"
    using later by (auto simp: used_def filter_empty_conv in_set_conv_nth)
  then have u: "used es = used (take j es) @ [es ! j]"
    using j by (metis (no_types, lifting) Cons_nth_drop_Suc append_take_drop_id filter.simps(2)
        used_append used_def)
  then show ?thesis using assms(1,3) by (auto simp: sorted_wrt_append)
qed

lemma all_before_last:
  assumes "log_sorted es" "last_used es (length es) = Some j" "before (es ! j) t nsec uid"
    "e \<in> set (used es)"
  shows "before e t nsec uid"
  using used_upto_last [OF assms(1) [unfolded log_sorted_def] assms(2,4)] assms(3) entry_le_trans by blast

lemma all_times_last:
  assumes "time_sorted es" "last_used es (length es) = Some j" "before (es ! j) t nsec uid"
    "e \<in> set (used es)"
  shows "re_time e \<le> t"
  using used_upto_last [OF assms(1) [unfolded time_sorted_def] assms(2,4)] assms(3)
  by (auto simp: before_def)

lemma append_reserved:
  assumes "append_to_end t nsec (grow_runs s) = (r, s')" "wf_runs s" "nsec \<ge> 0"
    and "log_sorted (log s) \<Longrightarrow> \<forall>e \<in> set (used (log s)). before e t nsec uid"
    and "time_sorted (log s) \<Longrightarrow> \<forall>e \<in> set (used (log s)). re_time e \<le> t"
  shows "r = int (run_u s)" "reserved t nsec uid s (run_u s) s'" "disk_runs s' = disk_runs s"
    "io_good s' = io_good s"
proof -
  note g = grow_runs_props [OF assms(2)]
  have lt: "run_u (grow_runs s) < length (runs (grow_runs s))" using g by simp
  note a = append_to_end_props [OF assms(1) lt assms(3)]
  show "r = int (run_u s)" "disk_runs s' = disk_runs s" "io_good s' = io_good s"
    using a g by simp_all
  show "reserved t nsec uid s (run_u s) s'"
    unfolding reserved_def using a g assms(2,4,5) by (auto simp: used_def)
qed

text \<open>The branches of the search for a key with a nanosecond component.\<close>

lemma get_insert_cases [consumes 3, case_names append blocked insert]:
  assumes "get_insert_run_id rnd t uid nsec s = Some (r, s')" "wf_runs s" "nsec \<ge> 0"
  obtains
    (append) "append_to_end t nsec (grow_runs s) = (r, s')"
      "log_sorted (log s) \<Longrightarrow> \<forall>e \<in> set (used (log s)). before e t nsec uid"
      "time_sorted (log s) \<Longrightarrow> \<forall>e \<in> set (used (log s)). re_time e \<le> t"
  | (blocked) "r = -1" "s' = grow_runs s"
      "\<exists>e \<in> set (drop (scan_pos t uid nsec (log s) 0) (log s)). transient_status (re_status e)"
  | (insert) "insert_slot (scan_pos t uid nsec (log s) 0) t nsec (grow_runs s) = (r, s')"
      "\<forall>e \<in> set (drop (scan_pos t uid nsec (log s) 0) (log s)). \<not> transient_status (re_status e)"
proof -
  let ?g = "grow_runs s"
  note g = grow_runs_props [OF assms(2)]
  have lg: "take (run_u ?g) (runs ?g) = log s" using g(1) by (simp add: log_def)
  have wf: "\<not> length (runs s) < run_u s" using assms(2) by (simp add: wf_runs_def)
  show thesis
  proof (cases "last_used (runs ?g) (run_u ?g)")
    case None
    have "\<forall>i < run_u s. log s ! i = runs ?g ! i" using lg g(2) by (metis nth_take)
    then have "used (log s) = []"
      using last_used_None [OF None] g(2) assms(2)
      by (auto simp: used_def filter_empty_conv in_set_conv_nth)
    moreover have "append_to_end t nsec ?g = (r, s')"
      using assms(1) None wf by (simp add: get_insert_run_id_def Let_def)
    ultimately show thesis by (intro append) auto
  next
    case (Some j)
    have lu: "last_used (log s) (length (log s)) = Some j"
      using Some g(1,2) assms(2) last_used_take [of "run_u s" "run_u s" "runs ?g"] lg by simp
    have jn: "j < run_u s" using last_used_Some [OF lu] assms(2) by simp
    have ej: "runs ?g ! j = log s ! j" using lg jn g(2) by (metis nth_take)
    show thesis
    proof (cases "before (log s ! j) t nsec uid")
      case True
      then have "append_to_end t nsec ?g = (r, s')"
        using assms(1,3) Some wf ej unfolding get_insert_run_id_def before_def
        by (auto simp: Let_def split: if_splits)
      then show thesis using all_before_last [OF _ lu True] all_times_last [OF _ lu True] by (intro append) auto
    next
      case False
      let ?i = "scan_pos t uid nsec (log s) 0"
      have "Some (r, s') = (if \<exists>e \<in> set (drop ?i (log s)). transient_status (re_status e)
               then Some (-1, ?g) else Some (insert_slot ?i t nsec ?g))"
        using assms(1,3) Some wf ej lg False unfolding get_insert_run_id_def before_def
        by (auto simp: Let_def split: if_splits)
      then show thesis using blocked insert by (auto split: if_splits)
    qed
  qed
qed

lemma get_insert_total:
  assumes "wf_runs s" "nsec \<ge> 0"
  shows "\<exists>r s'. get_insert_run_id rnd t uid nsec s = Some (r, s')"
  using assms
  by (auto simp: get_insert_run_id_def wf_runs_def Let_def split: option.splits)

lemma scan_pos_log:
  assumes "wf_runs s" "i = scan_pos t uid nsec (log s) 0"
  shows "i \<le> run_u s"
    and "log_sorted (log s) \<longrightarrow>
          (\<forall>e \<in> set (used (take i (log s))). before e t nsec uid) \<and>
          (\<forall>e \<in> set (used (drop i (log s))). \<not> before e t nsec uid)"
    and "time_sorted (log s) \<longrightarrow>
          (\<forall>e \<in> set (used (take i (log s))). re_time e \<le> t) \<and>
          (\<forall>e \<in> set (used (drop i (log s))). t \<le> re_time e)"
proof -
  obtain k where k: "k \<le> length (log s)" "scan_pos t uid nsec (log s) 0 = 0 + k"
    "\<forall>e \<in> set (used (take k (log s))). before e t nsec uid"
    "k < length (log s) \<longrightarrow> \<not> is_empty_entry (log s ! k) \<and> \<not> before (log s ! k) t nsec uid"
    using scan_pos_spec [of "log s" t uid nsec 0] by blast
  then have ik: "i = k" using assms(2) by simp
  show "i \<le> run_u s" using k(1) assms(1) ik by simp
  show "log_sorted (log s) \<longrightarrow>
          (\<forall>e \<in> set (used (take i (log s))). before e t nsec uid) \<and>
          (\<forall>e \<in> set (used (drop i (log s))). \<not> before e t nsec uid)"
  proof (intro impI conjI)
    assume srt: "log_sorted (log s)"
    show "\<forall>e \<in> set (used (take i (log s))). before e t nsec uid" using k(3) ik by simp
    show "\<forall>e \<in> set (used (drop i (log s))). \<not> before e t nsec uid"
    proof (cases "k < length (log s)")
      case True
      then show ?thesis using used_in_sorted_after [OF srt True] k(4) ik by blast
    next
      case False
      then show ?thesis using ik by (simp add: used_def)
    qed
  qed
  show "time_sorted (log s) \<longrightarrow>
          (\<forall>e \<in> set (used (take i (log s))). re_time e \<le> t) \<and>
          (\<forall>e \<in> set (used (drop i (log s))). t \<le> re_time e)"
  proof (intro impI conjI)
    assume srt: "time_sorted (log s)"
    show "\<forall>e \<in> set (used (take i (log s))). re_time e \<le> t" using k(3) ik by (auto simp: before_def)
    show "\<forall>e \<in> set (used (drop i (log s))). t \<le> re_time e"
    proof (cases "k < length (log s)")
      case True
      then show ?thesis using used_in_time_after [OF srt True] k(4) ik by blast
    next
      case False
      then show ?thesis using ik by (simp add: used_def)
    qed
  qed
qed

lemma get_insert_reserved:
  assumes "get_insert_run_id rnd t uid nsec s = Some (r, s')" "wf_runs s" "nsec \<ge> 0" "r \<ge> 0"
  shows "reserved t nsec uid s (nat r) s'"
  using assms(1-3)
proof (cases rule: get_insert_cases)
  case append
  then show ?thesis using append_reserved [OF append(1) assms(2,3) append(2,3)] by auto
next
  case blocked
  then show ?thesis using assms(4) by simp
next
  case insert
  let ?i = "scan_pos t uid nsec (log s) 0"
  note g = grow_runs_props [OF assms(2)]
  note sp = scan_pos_log [OF assms(2) refl, of t uid nsec]
  have le: "?i \<le> run_u (grow_runs s)" and lt: "run_u (grow_runs s) < length (runs (grow_runs s))"
    using sp(1) g by simp_all
  have "r = int ?i"
    using insert(1) assms(4)
    by (auto simp: insert_slot_def Let_def split: prod.splits if_splits)
  then show ?thesis
    unfolding reserved_def
    using insert_slot_log [OF insert(1) le lt assms(3)] g sp insert(2) by auto
qed

lemma get_insert_blocked:
  assumes "get_insert_run_id rnd t uid nsec s = Some (r, s')" "wf_runs s" "nsec \<ge> 0" "r < 0"
    "io_good s" "disk_runs s = log s"
  shows "log s' = log s \<and> (\<exists>e \<in> set (log s). transient_status (re_status e))"
  using assms(1-3)
proof (cases rule: get_insert_cases)
  case append
  then show ?thesis using append_reserved(1) [OF append(1) assms(2,3) append(2,3)] assms(4) by auto
next
  case blocked
  then show ?thesis using grow_runs_props(1) [OF assms(2)] by (auto dest: in_set_dropD)
next
  case insert
  note g = grow_runs_props [OF assms(2)]
  have "scan_pos t uid nsec (log s) 0 \<le> run_u (grow_runs s)"
    using scan_pos_log(1) [OF assms(2) refl] g by simp
  then have "r = int (scan_pos t uid nsec (log s) 0)"
    using insert_slot_disk(1) [OF insert(1)] g assms(2,3,5,6) by simp
  then show ?thesis using assms(4) by simp
qed

lemma get_insert_disk:
  assumes "get_insert_run_id rnd t uid nsec s = Some (r, s')" "wf_runs s" "nsec \<ge> 0" "r \<ge> 0"
    "io_good s" "disk_runs s = log s"
  shows "io_good s' \<and> (disk_runs s' = log s' \<or> nat r = run_u s \<and> disk_runs s' = log s)"
  using assms(1-3)
proof (cases rule: get_insert_cases)
  case append
  then show ?thesis using append_reserved [OF append(1) assms(2,3) append(2,3)] assms(5,6) by auto
next
  case blocked
  then show ?thesis using assms(4) by simp
next
  case insert
  note g = grow_runs_props [OF assms(2)]
  have "scan_pos t uid nsec (log s) 0 \<le> run_u (grow_runs s)"
    using scan_pos_log(1) [OF assms(2) refl] g by simp
  then show ?thesis
    using insert_slot_disk [OF insert(1)] g assms(2,3,5,6) by simp
qed

section \<open>Filling the slot, undoing and clearing\<close>

lemma add_entry_is_update:
  "in_log s rid \<Longrightarrow> wf_runs s \<Longrightarrow>
     add_entry_func rid re flags s = update_entry (add_entry_fields flags re) rid s"
  by (auto simp: add_entry_func_def update_entry_def in_log_def wf_runs_def Let_def)

lemma add_entry_fields_keep [simp]:
  "re_run_id (add_entry_fields m re de) = re_run_id de"
  "re_time (add_entry_fields m re de) = re_time de"
  "re_nsec (add_entry_fields m re de) = re_nsec de"
  by (simp_all add: add_entry_fields_def)

lemma add_entry_fields_get:
  "re_user_id (add_entry_fields m re de) = (if has m RE_USER_ID then re_user_id re else re_user_id de)"
  "re_status (add_entry_fields m re de) = (if has m RE_STATUS then re_status re else re_status de)"
  "re_run_uuid (add_entry_fields m re de) = (if has m RE_RUN_UUID then re_run_uuid re else re_run_uuid de)"
  "re_is_hidden (add_entry_fields m re de) = (if has m RE_IS_HIDDEN then re_is_hidden re else re_is_hidden de)"
  "re_prob_id (add_entry_fields m re de) = (if has m RE_PROB_ID then re_prob_id re else re_prob_id de)"
  "re_size (add_entry_fields m re de) = (if has m RE_SIZE then re_size re else re_size de)"
  "re_store_flags (add_entry_fields m re de)
     = (if has m RE_STORE_FLAGS then re_store_flags re else re_store_flags de)"
  by (simp_all add: add_entry_fields_def)

text \<open>Dropping the last entry, in memory and in the file.\<close>

lemma drop_last_props:
  assumes "do_truncate (s\<lparr>run_u := n, runs := (runs s)[n := spare_entry]\<rparr>) = (r, s')"
    "run_u s = Suc n" "wf_runs s"
  shows "log s' = butlast (log s)" "run_u s' = n" "wf_runs s'" "side s' = side s" "head s' = head s"
    "disk_head s' = disk_head s"
    "io_good s \<Longrightarrow> r = 0 \<and> io_good s'" "io_good s \<Longrightarrow> synced s \<Longrightarrow> synced s'"
proof -
  note f = do_truncate_frame [OF assms(1)]
  show l: "log s' = butlast (log s)"
    using f assms(2,3) by (simp add: log_def wf_runs_def butlast_take)
  show "run_u s' = n" "wf_runs s'" "side s' = side s" "head s' = head s"
    "disk_head s' = disk_head s" using f assms(2,3) by (auto simp: wf_runs_def)
  show "io_good s \<Longrightarrow> r = 0 \<and> io_good s'" using assms(1) by (auto simp: do_truncate_good)
  assume "io_good s" "synced s"
  then have "disk_runs s' = take n (log s)" "disk_head s' = Some (head s)"
    using assms by (auto simp: do_truncate_good synced_def truncate_to_take)
  then show "synced s'" using l f assms(2,3) by (simp add: synced_def butlast_conv_take)
qed

lemma undo_last:
  assumes "undo_add_entry_func rid s = Some (r, s')" "nat rid = run_u s - 1" "wf_runs s"
  shows "log s' = butlast (log s)" "wf_runs s'" "side s' = side s" "head s' = head s"
    "run_u s' = run_u s - 1" "disk_head s' = disk_head s"
    "io_good s \<Longrightarrow> r = 0 \<and> io_good s'" "io_good s \<Longrightarrow> synced s \<Longrightarrow> synced s'"
proof -
  have n: "run_u s = Suc (run_u s - 1)"
    using assms(1,2) by (auto simp: undo_add_entry_func_def in_log_def split: if_splits)
  have d: "do_truncate (s\<lparr>run_u := run_u s - 1, runs := (runs s)[run_u s - 1 := spare_entry]\<rparr>) = (r, s')"
    using assms(1,2) by (auto simp: undo_add_entry_func_def split: if_splits)
  show "log s' = butlast (log s)" "wf_runs s'" "side s' = side s" "head s' = head s"
    "run_u s' = run_u s - 1" "disk_head s' = disk_head s"
    "io_good s \<Longrightarrow> r = 0 \<and> io_good s'" "io_good s \<Longrightarrow> synced s \<Longrightarrow> synced s'"
    using drop_last_props [OF d n assms(3)] by blast+
qed

lemma undo_middle:
  assumes "undo_add_entry_func rid s = Some (r, s')" "nat rid \<noteq> run_u s - 1"
  shows "r = 0" "s' = s\<lparr>runs := (runs s)[nat rid := spare_entry\<lparr>re_run_id := rid\<rparr>]\<rparr>"
    "log s' = (log s)[nat rid := spare_entry\<lparr>re_run_id := rid\<rparr>]" "disk_runs s' = disk_runs s"
  using assms
  by (auto simp: undo_add_entry_func_def log_def take_update_swap split: if_splits)

lemma clear_last:
  assumes "clear_entry_func rid s = Some (r, s')" "nat rid = run_u s - 1" "wf_runs s"
  shows "log s' = butlast (log s)" "wf_runs s'" "side s' = side s" "head s' = head s"
    "run_u s' = run_u s - 1" "disk_head s' = disk_head s"
    "io_good s \<Longrightarrow> r = 0 \<and> io_good s'" "io_good s \<Longrightarrow> synced s \<Longrightarrow> synced s'"
proof -
  have n: "run_u s = Suc (run_u s - 1)"
    using assms(1,2) by (auto simp: clear_entry_func_def in_log_def split: if_splits)
  have d: "do_truncate (s\<lparr>run_u := run_u s - 1, runs := (runs s)[run_u s - 1 := spare_entry]\<rparr>) = (r, s')"
    using assms(1,2) by (auto simp: clear_entry_func_def split: if_splits)
  show "log s' = butlast (log s)" "wf_runs s'" "side s' = side s" "head s' = head s"
    "run_u s' = run_u s - 1" "disk_head s' = disk_head s"
    "io_good s \<Longrightarrow> r = 0 \<and> io_good s'" "io_good s \<Longrightarrow> synced s \<Longrightarrow> synced s'"
    using drop_last_props [OF d n assms(3)] by blast+
qed

lemma clear_middle:
  "in_log s rid \<Longrightarrow> nat rid \<noteq> run_u s - 1 \<Longrightarrow>
     clear_entry_func rid s = update_entry (\<lambda>_. spare_entry\<lparr>re_run_id := rid\<rparr>) rid s"
  by (simp add: clear_entry_func_def update_entry_def)

section \<open>Compaction\<close>

lemma squeeze_step_apply:
  "squeeze_step i (arr, j, fm) =
     (if is_empty_entry (arr ! i) then (arr, j, fm)
      else if i \<noteq> j then (arr[j := (arr ! i)\<lparr>re_run_id := int j\<rparr>], Suc j,
          if fm = None then Some j else fm)
      else (arr, Suc j, fm))"
  by (simp add: squeeze_step_def)

lemma squeeze_loop:
  assumes "i \<le> length arr0" "numbered (take i arr0)"
  shows "\<exists>arr j fm. fold squeeze_step [0..<i] (arr0, 0, None) = (arr, j, fm)
     \<and> j \<le> i \<and> length arr = length arr0 \<and> drop i arr = drop i arr0
     \<and> take j arr = renumber 0 (used (take i arr0)) \<and> j = length (used (take i arr0))
     \<and> (case fm of None \<Rightarrow> take j arr = take j arr0
         | Some m \<Rightarrow> m < j \<and> take m arr = take m arr0)"
  using assms
proof (induction i)
  case 0
  then show ?case by (simp add: used_def)
next
  case (Suc i)
  have "numbered (take i arr0)" using Suc.prems by (auto simp: numbered_def)
  then obtain arr j fm where IH: "fold squeeze_step [0..<i] (arr0, 0, None) = (arr, j, fm)"
    "j \<le> i" "length arr = length arr0" "drop i arr = drop i arr0"
    "take j arr = renumber 0 (used (take i arr0))" "j = length (used (take i arr0))"
    "case fm of None \<Rightarrow> take j arr = take j arr0 | Some m \<Rightarrow> m < j \<and> take m arr = take m arr0"
    using Suc.IH Suc.prems by fastforce
  have i: "i < length arr0" "i < length arr" using Suc.prems IH(3) by simp_all
  have ai: "arr ! i = arr0 ! i" using IH(4) i by (metis hd_drop_conv_nth)
  have dS: "drop (Suc i) arr = drop (Suc i) arr0" using IH(4) by (metis drop_Suc tl_drop)
  have u: "used (take (Suc i) arr0)
      = used (take i arr0) @ (if is_empty_entry (arr0 ! i) then [] else [arr0 ! i])"
    using i by (simp add: take_Suc_conv_app_nth used_def)
  have id: "re_run_id (arr0 ! i) = int i" using Suc.prems by (auto simp: numbered_def)
  consider "is_empty_entry (arr ! i)" | "\<not> is_empty_entry (arr ! i)" "i = j"
    | "\<not> is_empty_entry (arr ! i)" "i \<noteq> j" by blast
  then show ?case
  proof cases
    case 1
    then have "fold squeeze_step [0..<Suc i] (arr0, 0, None) = (arr, j, fm)"
      using IH(1) by (simp add: squeeze_step_apply)
    moreover have "used (take (Suc i) arr0) = used (take i arr0)" using 1 ai u by simp
    ultimately show ?thesis using IH(2,3,5-7) dS by auto
  next
    case 2
    have uS: "used (take (Suc i) arr0) = used (take i arr0) @ [arr0 ! i]" using 2(1) ai u by simp
    have lS: "Suc j = length (used (take (Suc i) arr0))" using uS IH(6) by simp
    have jle: "Suc j \<le> Suc i" using IH(2) by simp
    have a: "fold squeeze_step [0..<Suc i] (arr0, 0, None) = (arr, Suc j, fm)"
      using IH(1) 2 by (simp add: squeeze_step_apply)
    have b: "take (Suc j) arr = take j arr @ [arr0 ! i]"
      using 2(2) i(2) ai by (simp add: take_Suc_conv_app_nth)
    have c: "take (Suc j) arr = renumber 0 (used (take (Suc i) arr0))"
    proof -
      have "(arr0 ! i)\<lparr>re_run_id := int j\<rparr> = arr0 ! i" using id 2(2) by simp
      then show ?thesis using b uS IH(5) IH(6) [symmetric] by (simp add: renumber_append)
    qed
    have d: "case fm of None \<Rightarrow> take (Suc j) arr = take (Suc j) arr0
        | Some m \<Rightarrow> m < Suc j \<and> take m arr = take m arr0"
    proof (cases fm)
      case None
      then have "take j arr = take j arr0" using IH(7) by simp
      moreover have "take (Suc j) arr0 = take j arr0 @ [arr0 ! i]"
        using 2(2) i(1) by (simp add: take_Suc_conv_app_nth)
      ultimately show ?thesis using None b by simp
    next
      case (Some m)
      then show ?thesis using IH(7) by simp
    qed
    show ?thesis using a c d lS dS IH(3) jle by blast
  next
    case 3
    let ?e = "(arr0 ! i)\<lparr>re_run_id := int j\<rparr>" and ?fm = "if fm = None then Some j else fm"
    let ?a = "arr[j := ?e]"
    have ji: "j < i" using 3(2) IH(2) by simp
    have uS: "used (take (Suc i) arr0) = used (take i arr0) @ [arr0 ! i]" using 3(1) ai u by simp
    have lS: "Suc j = length (used (take (Suc i) arr0))" using uS IH(6) by simp
    have a: "fold squeeze_step [0..<Suc i] (arr0, 0, None) = (?a, Suc j, ?fm)"
      using IH(1) 3 ai by (simp add: squeeze_step_apply)
    have "take (Suc j) ?a = take j arr @ [?e]"
      using ji i(2) by (simp add: take_Suc_conv_app_nth)
    then have c: "take (Suc j) ?a = renumber 0 (used (take (Suc i) arr0))"
      using uS IH(5) IH(6) [symmetric] by (simp add: renumber_append)
    have d: "case ?fm of None \<Rightarrow> take (Suc j) ?a = take (Suc j) arr0
        | Some m \<Rightarrow> m < Suc j \<and> take m ?a = take m arr0"
      using IH(7) by (auto split: option.splits)
    have e: "drop (Suc i) ?a = drop (Suc i) arr0" using dS ji by simp
    have f: "length ?a = length arr0" using IH(3) by simp
    have jle: "Suc j \<le> Suc i" using ji by simp
    show ?thesis using a c d lS e f jle by blast
  qed
qed

lemma used_id: "length (used es) = length es \<Longrightarrow> used es = es"
  by (metis filter_id_conv length_filter_less less_irrefl used_def)

lemma renumber_numbered: "numbered es \<Longrightarrow> renumber 0 es = es"
  by (rule nth_equalityI) (auto simp: numbered_def)

lemma squeeze_props:
  assumes "squeeze_func s = (r, s')" "wf_runs s" "numbered (log s)" "io_good s"
  shows "log s' = renumber 0 (used (log s))" "r = int (run_u s) - int (run_u s')"
    "wf_runs s'" "side s' = side s" "head s' = head s" "synced s \<Longrightarrow> synced s'"
    "io_good s'"
proof -
  have n: "run_u s \<le> length (runs s)" using assms(2) by (simp add: wf_runs_def)
  have lg: "take (run_u s) (runs s) = log s" by (simp add: log_def)
  have nb: "numbered (take (run_u s) (runs s))" using assms(3) lg by simp
  obtain arr j fm where L: "fold squeeze_step [0..<run_u s] (runs s, 0, None) = (arr, j, fm)"
    "j \<le> run_u s" "length arr = length (runs s)" "drop (run_u s) arr = drop (run_u s) (runs s)"
    "take j arr = renumber 0 (used (log s))" "j = length (used (log s))"
    "case fm of None \<Rightarrow> take j arr = take j (runs s) | Some m \<Rightarrow> m < j \<and> take m arr = take m (runs s)"
    using squeeze_loop [OF n nb, unfolded lg] by blast
  have main: "log s' = renumber 0 (used (log s)) \<and> r = int (run_u s) - int (run_u s') \<and> wf_runs s'
      \<and> side s' = side s \<and> head s' = head s \<and> (synced s \<longrightarrow> synced s') \<and> io_good s'"
  proof (cases "run_u s = j")
    case True
    then have s': "r = 0" "s' = s\<lparr>runs := arr\<rparr>" using assms(1) L(1) by (auto simp: squeeze_func_def)
    have u: "used (log s) = log s" using True L(6) assms(2) by (intro used_id) simp
    then have "take j arr = log s" using L(5) assms(3) by (simp add: renumber_numbered)
    then have lg': "log s' = log s" using s' True by (simp add: log_def)
    moreover have "renumber 0 (used (log s)) = log s" using u assms(3) by (simp add: renumber_numbered)
    ultimately show ?thesis using s' L(3) n assms(4) by (auto simp: wf_runs_def synced_def)
  next
    case False
    let ?s1 = "s\<lparr>runs := take j arr @ replicate (length arr - j) zero_entry, run_u := j\<rparr>"
    have j: "j < run_u s" "j \<le> length arr" using False L(2,3) n by auto
    have t: "do_truncate ?s1
        = (0, (io_next ?s1)\<lparr>disk_runs := truncate_to zero_entry j (disk_runs s)\<rparr>)"
      using assms(4) by (simp add: do_truncate_good)
    have res: "r = int (run_u s) - int j \<and> runs s' = runs ?s1 \<and> run_u s' = j \<and> side s' = side s
        \<and> head s' = head s \<and> disk_head s' = disk_head s \<and> disk_runs s' =
          (case fm of None \<Rightarrow> truncate_to zero_entry j (disk_runs s)
           | Some m \<Rightarrow> write_at zero_entry m (drop m (take j arr)) (truncate_to zero_entry j (disk_runs s)))
        \<and> io_good s'"
      using assms(1,4) L(1) False t
      by (auto simp: squeeze_func_def Let_def write_entries_good split: option.splits)
    have lg': "log s' = take j arr" using res j by (simp add: log_def)
    have "disk_runs s' = take j arr" if sy: "synced s"
    proof -
      have tr: "truncate_to zero_entry j (disk_runs s) = take j (runs s)"
        using sy j assms(2) by (simp add: synced_def truncate_to_take log_def wf_runs_def min_def)
      show ?thesis
      proof (cases fm)
        case None
        then show ?thesis using res tr L(7) by simp
      next
        case (Some m)
        then have m: "m < j" "take m arr = take m (runs s)" using L(7) by simp_all
        have "write_at zero_entry m (drop m (take j arr)) (take j (runs s))
            = take m arr @ drop m (take j arr)"
          using m j L(3) by (simp add: write_at_def min_def)
        also have "\<dots> = take j arr"
          using m by (metis append_take_drop_id less_imp_le min.absorb1 take_take)
        finally show ?thesis using res tr Some by simp
      qed
    qed
    moreover have "wf_runs s'" using res j by (simp add: wf_runs_def)
    ultimately show ?thesis using lg' L(5) res by (auto simp: synced_def)
  qed
  then show "log s' = renumber 0 (used (log s))" "r = int (run_u s) - int (run_u s')"
    "wf_runs s'" "side s' = side s" "head s' = head s" "synced s \<Longrightarrow> synced s'"
    "io_good s'"
    by blast+
qed

end
