(* ===== verification/User_Index.thy ===== *)
theory User_Index
  imports Rldb_Laws
begin

text \<open>
  The per-user index of \<open>runlog.c\<close>: the table of users, the doubly linked lists that thread the runs
  of one user through \<open>run_extras\<close>, and their lazy rebuilding (\<open>get_user_entry\<close>).  Clients traverse
  the lists; the locale \<open>user_index\<close> is what they rely on: however the lists are kept, a traversal
  visits exactly the indexed runs of the user, in order.
\<close>

section \<open>The table of users\<close>

definition ut_lookup :: "runlog \<Rightarrow> int \<Rightarrow> user_entry option" where
  "ut_lookup s uid =
    (if 0 \<le> uid \<and> uid < int (length (ut_table s)) then ut_table s ! nat uid else None)"

definition ut_store :: "int \<Rightarrow> user_entry \<Rightarrow> runlog \<Rightarrow> runlog" where
  "ut_store uid ue s = s\<lparr>ut_table := (ut_table s)[nat uid := Some ue]\<rparr>"

definition try_user_entry :: "runlog \<Rightarrow> int \<Rightarrow> user_entry option" where
  "try_user_entry s uid =
    (if uid \<le> 0 \<or> uid \<ge> int (length (ut_table s)) then None else ut_table s ! nat uid)"

text \<open>\<open>if ((ue = try_user_entry(state, user_id))) ue->run_id_valid = 0;\<close>\<close>

definition invalidate_user :: "int \<Rightarrow> runlog \<Rightarrow> runlog" where
  "invalidate_user uid s =
    (case try_user_entry s uid of None \<Rightarrow> s
     | Some ue \<Rightarrow> ut_store uid (ue\<lparr>ue_run_id_valid := 0\<rparr>) s)"

definition extend_run_extras :: "runlog \<Rightarrow> runlog" where
  "extend_run_extras s =
    (if run_extra_u s = run_u s then s
     else if run_extra_u s > run_u s then s\<lparr>run_extra_u := run_u s\<rparr>
     else if run_u s \<le> length (run_extras s) then s\<lparr>run_extra_u := run_u s\<rparr>
     else
       (let new_a = double_upto (run_u s)
              (if length (run_extras s) * 2 = 0 then 32 else length (run_extras s) * 2)
        in s\<lparr>run_extras := take (run_extra_u s) (run_extras s)
               @ replicate (new_a - run_extra_u s) zero_extra,
             run_extra_u := run_u s\<rparr>))"

section \<open>Rebuilding the list of one user\<close>

definition rebuild_step ::
  "int \<Rightarrow> run_entry list \<Rightarrow> nat \<Rightarrow> run_entry_extra list \<times> int \<times> int
     \<Rightarrow> run_entry_extra list \<times> int \<times> int" where
  "rebuild_step uid arr i st =
    (case st of (ext, first, lst) \<Rightarrow>
       if indexed_status (re_status (arr ! i)) \<and> re_user_id (arr ! i) = uid then
         (let ext1 = ext[i := \<lparr>prev_user_id = lst, next_user_id = -1\<rparr>];
              first1 = (if first < 0 then int i else first);
              ext2 = (if lst \<ge> 0
                      then ext1[nat lst := (ext1 ! nat lst)\<lparr>next_user_id := int i\<rparr>] else ext1)
          in (ext2, first1, int i))
       else (ext, first, lst))"

definition grow_ut_table :: "int \<Rightarrow> runlog \<Rightarrow> runlog" where
  "grow_ut_table uid s =
    (if uid \<ge> int (length (ut_table s)) then
       (let size = double_upto (nat uid + 1) (if ut_table s = [] then 16 else length (ut_table s))
        in s\<lparr>ut_table := ut_table s @ replicate (size - length (ut_table s)) None\<rparr>)
     else s)"

definition ensure_user :: "int \<Rightarrow> runlog \<Rightarrow> runlog" where
  "ensure_user uid s =
    (case ut_lookup s uid of None \<Rightarrow> ut_store uid zero_user_entry s | Some _ \<Rightarrow> s)"

text \<open>
  \<open>get_user_entry\<close> returns the pointer into the table: here the entry itself, which is also what the
  table of the new state holds.
\<close>

definition get_user_entry :: "int \<Rightarrow> runlog \<Rightarrow> (user_entry \<times> runlog) option" where
  "get_user_entry uid s =
    (if uid \<le> 0 then None
     else
       (let s1 = ensure_user uid (grow_ut_table uid s)
        in case ut_lookup s1 uid of None \<Rightarrow> None
        | Some ue \<Rightarrow>
          if ue_run_id_valid ue \<le> 0 then
            (let s2 = (if run_extra_u s1 \<noteq> run_u s1 then extend_run_extras s1 else s1)
             in case fold (rebuild_step uid (runs s2)) [0..<run_u s2] (run_extras s2, -1, -1) of
                  (ext, first, lst) \<Rightarrow>
                    (let ue' = ue\<lparr>ue_run_id_first := first, ue_run_id_last := lst,
                                  ue_run_id_valid := 1\<rparr>
                     in Some (ue', ut_store uid ue' (s2\<lparr>run_extras := ext\<rparr>))))
          else Some (ue, s1)))"

section \<open>Lists threaded through \<open>run_extras\<close>\<close>

text \<open>The runs a user's list has to hold.\<close>

definition user_ids :: "runlog \<Rightarrow> int \<Rightarrow> nat list" where
  "user_ids s uid =
    filter (\<lambda>i. indexed_status (re_status (runs s ! i)) \<and> re_user_id (runs s ! i) = uid) [0..<run_u s]"

definition first_id :: "nat list \<Rightarrow> int" where
  "first_id xs = (case xs of [] \<Rightarrow> -1 | x # _ \<Rightarrow> int x)"

definition last_id :: "nat list \<Rightarrow> int" where
  "last_id xs = (if xs = [] then -1 else int (last xs))"

fun seg :: "run_entry_extra list \<Rightarrow> int \<Rightarrow> nat list \<Rightarrow> bool" where
  "seg ext p [] = True"
| "seg ext p (x # xs) =
    (x < length ext \<and> prev_user_id (ext ! x) = p \<and> next_user_id (ext ! x) = first_id xs
     \<and> seg ext (int x) xs)"

definition linked :: "runlog \<Rightarrow> nat list \<Rightarrow> user_entry \<Rightarrow> bool" where
  "linked s xs ue \<longleftrightarrow> seg (run_extras s) (-1) xs \<and> ue_run_id_first ue = first_id xs
     \<and> ue_run_id_last ue = last_id xs"

text \<open>The invariant of the index: a list marked valid is the list of the user's indexed runs.\<close>

definition user_ok :: "runlog \<Rightarrow> int \<Rightarrow> user_entry \<Rightarrow> bool" where
  "user_ok s uid ue \<longleftrightarrow> linked s (user_ids s uid) ue \<and> (\<forall>x \<in> set (user_ids s uid). x < run_extra_u s)"

definition index_inv :: "runlog \<Rightarrow> bool" where
  "index_inv s \<longleftrightarrow> wf_runs s \<and> run_extra_u s \<le> length (run_extras s)
     \<and> (\<forall>uid ue. ut_lookup s uid = Some ue \<and> ue_run_id_valid ue > 0 \<longrightarrow> user_ok s uid ue)"

lemma first_id_simps [simp]: "first_id [] = -1" "first_id (x # xs) = int x"
  by (simp_all add: first_id_def)

lemma last_id_simps [simp]: "last_id [] = -1" "last_id (xs @ [x]) = int x"
  by (simp_all add: last_id_def)

lemma user_ids_lt: "x \<in> set (user_ids s uid) \<Longrightarrow> x < run_u s"
  by (auto simp: user_ids_def)

lemma user_ids_user: "x \<in> set (user_ids s uid) \<Longrightarrow> re_user_id (runs s ! x) = uid"
  by (auto simp: user_ids_def)

lemma distinct_user_ids [simp]: "distinct (user_ids s uid)"
  by (simp add: user_ids_def)

lemma user_ids_disjoint: "u \<noteq> v \<Longrightarrow> x \<in> set (user_ids s u) \<Longrightarrow> x \<notin> set (user_ids s v)"
  by (auto simp: user_ids_def)

lemma user_ids_cong: "runs s' = runs s \<Longrightarrow> run_u s' = run_u s \<Longrightarrow> user_ids s' uid = user_ids s uid"
  by (simp add: user_ids_def)

lemma seg_frame:
  "seg ext p xs \<Longrightarrow> (\<And>x. x \<in> set xs \<Longrightarrow> x < length ext' \<and> ext' ! x = ext ! x) \<Longrightarrow> seg ext' p xs"
  by (induction xs arbitrary: p) auto

lemma seg_lt: "seg ext p xs \<Longrightarrow> x \<in> set xs \<Longrightarrow> x < length ext"
  by (induction xs arbitrary: p) auto

text \<open>Appending a run to a list, as the rebuilding and \<open>run_add_record\<close> do.\<close>

definition link_last :: "run_entry_extra list \<Rightarrow> int \<Rightarrow> nat \<Rightarrow> run_entry_extra list" where
  "link_last ext lst i =
    (let ext1 = ext[i := \<lparr>prev_user_id = lst, next_user_id = -1\<rparr>]
     in if lst \<ge> 0 then ext1[nat lst := (ext1 ! nat lst)\<lparr>next_user_id := int i\<rparr>] else ext1)"

lemma length_link_last [simp]: "length (link_last ext l i) = length ext"
  by (simp add: link_last_def Let_def)

lemma link_last_other: "x \<noteq> i \<Longrightarrow> int x \<noteq> l \<Longrightarrow> link_last ext l i ! x = ext ! x"
  by (auto simp: link_last_def Let_def)

lemma seg_snoc_gen:
  assumes "seg ext p xs" "distinct xs" "i \<notin> set xs" "i < length ext"
  shows "seg (link_last ext (if xs = [] then p else int (last xs)) i) p (xs @ [i])
     \<or> (xs = [] \<and> p \<ge> 0)"
  using assms
proof (induction xs arbitrary: p)
  case Nil
  then show ?case by (auto simp: link_last_def)
next
  case (Cons x xs)
  have x: "x < length ext" "prev_user_id (ext ! x) = p" "next_user_id (ext ! x) = first_id xs"
    "seg ext (int x) xs" "x \<noteq> i" "x \<notin> set xs" using Cons.prems by auto
  show ?case
  proof (cases "xs = []")
    case True
    then show ?thesis using x Cons.prems by (auto simp: link_last_def Let_def)
  next
    case False
    let ?e = "link_last ext (int (last xs)) i"
    have "seg ?e (int x) (xs @ [i])"
      using Cons.IH [OF x(4)] Cons.prems False by auto
    moreover have "int x \<noteq> int (last xs)" using x(6) False by auto
    then have "?e ! x = ext ! x" using x(5) link_last_other by metis
    moreover have "first_id (xs @ [i]) = first_id xs" using False by (cases xs) auto
    ultimately show ?thesis using x False by simp
  qed
qed

lemma seg_snoc:
  assumes "seg ext (-1) xs" "distinct xs" "i \<notin> set xs" "i < length ext"
  shows "seg (link_last ext (last_id xs) i) (-1) (xs @ [i])"
  using seg_snoc_gen [OF assms] by (auto simp: last_id_def split: if_splits)

lemma rebuild_step_apply:
  "rebuild_step uid arr i (ext, first, lst) =
    (if indexed_status (re_status (arr ! i)) \<and> re_user_id (arr ! i) = uid
     then (link_last ext lst i, if first < 0 then int i else first, int i)
     else (ext, first, lst))"
  by (simp add: rebuild_step_def link_last_def Let_def)

lemma rebuild_loop:
  fixes arr :: "run_entry list" and uid :: int
  assumes "n \<le> length ext0"
  defines "ids \<equiv> filter (\<lambda>i. indexed_status (re_status (arr ! i)) \<and> re_user_id (arr ! i) = uid) [0..<n]"
  shows "\<exists>ext. fold (rebuild_step uid arr) [0..<n] (ext0, -1, -1) = (ext, first_id ids, last_id ids)
     \<and> seg ext (-1) ids \<and> length ext = length ext0 \<and> (\<forall>x. x \<notin> set ids \<longrightarrow> ext ! x = ext0 ! x)"
  using assms(1) unfolding ids_def
proof (induction n)
  case 0
  then show ?case by simp
next
  case (Suc n)
  let ?P = "\<lambda>i. indexed_status (re_status (arr ! i)) \<and> re_user_id (arr ! i) = uid"
  let ?ids = "filter ?P [0..<n]"
  obtain ext where IH: "fold (rebuild_step uid arr) [0..<n] (ext0, -1, -1)
      = (ext, first_id ?ids, last_id ?ids)" "seg ext (-1) ?ids" "length ext = length ext0"
    "\<forall>x. x \<notin> set ?ids \<longrightarrow> ext ! x = ext0 ! x"
    using Suc by (auto simp del: set_filter)
  show ?case
  proof (cases "?P n")
    case False
    then show ?thesis using IH by (auto simp: rebuild_step_apply)
  next
    case True
    have s: "seg (link_last ext (last_id ?ids) n) (-1) (?ids @ [n])"
      using seg_snoc [OF IH(2), of n] Suc.prems IH(3) by simp
    have f: "first_id (?ids @ [n]) = (if first_id ?ids < 0 then int n else first_id ?ids)"
      by (cases ?ids) auto
    have o: "link_last ext (last_id ?ids) n ! x = ext0 ! x" if "x \<notin> set (?ids @ [n])" for x
    proof -
      have "int x \<noteq> last_id ?ids"
        using that last_in_set [of ?ids] by (auto simp: last_id_def simp del: set_filter)
      then show ?thesis using that IH(4) link_last_other [of x n] by simp
    qed
    show ?thesis using IH(1,3) True s f o by (auto simp: rebuild_step_apply simp del: set_filter)
  qed
qed

section \<open>The entry of a user\<close>

lemma ut_lookup_cong: "ut_table s' = ut_table s \<Longrightarrow> ut_lookup s' uid = ut_lookup s uid"
  by (simp add: ut_lookup_def)

lemma user_ids_frame [simp]:
  "user_ids (s\<lparr>run_extras := x\<rparr>) uid = user_ids s uid"
  "user_ids (s\<lparr>run_extra_u := k\<rparr>) uid = user_ids s uid"
  "user_ids (s\<lparr>ut_table := t\<rparr>) uid = user_ids s uid"
  by (simp_all add: user_ids_def)

lemma ut_lookup_frame [simp]:
  "ut_lookup (s\<lparr>run_extras := x\<rparr>) uid = ut_lookup s uid"
  "ut_lookup (s\<lparr>run_extra_u := k\<rparr>) uid = ut_lookup s uid"
  "ut_lookup (s\<lparr>runs := r\<rparr>) uid = ut_lookup s uid"
  "ut_lookup (s\<lparr>max_user_id := c\<rparr>) uid = ut_lookup s uid"
  "ut_lookup (s\<lparr>user_count := c\<rparr>) uid = ut_lookup s uid"
  "ut_lookup (s\<lparr>uuid_last_index := c\<rparr>) uid = ut_lookup s uid"
  "ut_lookup (s\<lparr>uuid_last_run_id := c\<rparr>) uid = ut_lookup s uid"
  by (simp_all add: ut_lookup_def)

lemma ut_lookup_store:
  "ut_lookup (ut_store u ue s) v =
    (if v = u \<and> 0 \<le> u \<and> u < int (length (ut_table s)) then Some ue
     else if u < 0 \<and> v = 0 \<and> ut_table s \<noteq> [] then Some ue
     else ut_lookup s v)"
  by (auto simp: ut_lookup_def ut_store_def nth_list_update nat_eq_iff)

lemma ut_store_frame [simp]:
  "runs (ut_store u ue s) = runs s" "run_u (ut_store u ue s) = run_u s"
  "head (ut_store u ue s) = head s" "run_extras (ut_store u ue s) = run_extras s"
  "run_extra_u (ut_store u ue s) = run_extra_u s" "wf_runs (ut_store u ue s) = wf_runs s"
  "log (ut_store u ue s) = log s" "user_ids (ut_store u ue s) v = user_ids s v"
  "length (ut_table (ut_store u ue s)) = length (ut_table s)"
  "uuid_hash_state (ut_store u ue s) = uuid_hash_state s" "uuid_hash (ut_store u ue s) = uuid_hash s"
  "uuid_hash_used (ut_store u ue s) = uuid_hash_used s"
  "disk_runs (ut_store u ue s) = disk_runs s" "disk_head (ut_store u ue s) = disk_head s"
  "io (ut_store u ue s) = io s" "run_fd (ut_store u ue s) = run_fd s"
  "user_ok (ut_store u ue s) v w = user_ok s v w"
  by (simp_all add: ut_store_def wf_runs_def log_def user_ids_def user_ok_def linked_def)

text \<open>What the index code leaves alone.\<close>

type_synonym base = "run_header \<times> run_entry list \<times> nat \<times> int list option \<times> int \<times> int \<times> int \<times> nat
  \<times> uuid_hash_entry list \<times> int \<times> int \<times> int \<times> run_header option \<times> run_entry list \<times> bool list"

definition base :: "runlog \<Rightarrow> base" where
  "base s = (head s, runs s, run_u s, user_flags s, max_user_id s, user_count s, uuid_hash_state s,
     uuid_hash_used s, uuid_hash s, uuid_last_run_id s, uuid_last_index s, run_fd s, disk_head s,
     disk_runs s, io s)"

lemma baseD:
  assumes "base s' = base s"
  shows "head s' = head s" "runs s' = runs s" "run_u s' = run_u s" "user_flags s' = user_flags s"
    "max_user_id s' = max_user_id s" "user_count s' = user_count s"
    "uuid_hash_state s' = uuid_hash_state s" "uuid_hash_used s' = uuid_hash_used s"
    "uuid_hash s' = uuid_hash s" "uuid_last_run_id s' = uuid_last_run_id s"
    "uuid_last_index s' = uuid_last_index s" "run_fd s' = run_fd s" "disk_head s' = disk_head s"
    "disk_runs s' = disk_runs s" "io s' = io s" "log s' = log s" "wf_runs s' = wf_runs s"
    "user_ids s' u = user_ids s u" "synced s' = synced s" "io_good s' = io_good s"
  using assms
  by (simp_all add: base_def log_def wf_runs_def user_ids_def synced_def io_good_def)

lemma base_frame [simp]:
  "base (s\<lparr>ut_table := t\<rparr>) = base s" "base (s\<lparr>run_extras := x\<rparr>) = base s"
  "base (s\<lparr>run_extra_u := k\<rparr>) = base s" "base (ut_store u ue s) = base s"
  by (simp_all add: base_def ut_store_def)

lemma base_extend [simp]: "base (extend_run_extras s) = base s"
  by (simp add: extend_run_extras_def Let_def)

lemma ut_table_extend [simp]: "ut_table (extend_run_extras s) = ut_table s"
  by (simp add: extend_run_extras_def Let_def)

text \<open>The contest state of a user, 0 for a user without an entry.\<close>

definition virt :: "runlog \<Rightarrow> int \<Rightarrow> int \<times> int \<times> int" where
  "virt s uid = (case ut_lookup s uid of None \<Rightarrow> (0, 0, 0)
     | Some ue \<Rightarrow> (ue_status ue, ue_start_time ue, ue_stop_time ue))"

lemma extend_run_extras_props:
  assumes "run_extra_u s \<le> length (run_extras s)"
  shows "run_extra_u (extend_run_extras s) = run_u s"
    "run_u s \<le> length (run_extras (extend_run_extras s))"
    "x < run_extra_u s \<Longrightarrow> x < run_u s \<Longrightarrow>
      x < length (run_extras (extend_run_extras s)) \<and> run_extras (extend_run_extras s) ! x = run_extras s ! x"
proof -
  let ?c = "if length (run_extras s) * 2 = 0 then 32 else length (run_extras s) * 2"
  have "run_u s \<le> double_upto (run_u s) ?c" by (rule double_upto_ge) simp
  then show "run_extra_u (extend_run_extras s) = run_u s"
    "run_u s \<le> length (run_extras (extend_run_extras s))"
    "x < run_extra_u s \<Longrightarrow> x < run_u s \<Longrightarrow>
      x < length (run_extras (extend_run_extras s)) \<and> run_extras (extend_run_extras s) ! x = run_extras s ! x"
    using assms by (auto simp: extend_run_extras_def Let_def nth_append)
qed

lemma user_ok_extend:
  assumes "user_ok s uid ue" "run_extra_u s \<le> length (run_extras s)"
  shows "user_ok (extend_run_extras s) uid ue"
proof -
  note b = baseD [OF base_extend [of s]]
  note e = extend_run_extras_props [OF assms(2)]
  have "\<forall>x \<in> set (user_ids s uid). x < run_extra_u s \<and> x < run_u s"
    using assms(1) user_ids_lt by (auto simp: user_ok_def)
  then have "seg (run_extras (extend_run_extras s)) (-1) (user_ids s uid)"
    using assms(1) e(3) by (auto simp: user_ok_def linked_def intro: seg_frame)
  then show ?thesis using assms(1) b e(1) user_ids_lt by (auto simp: user_ok_def linked_def)
qed

lemma ensure_user_props:
  fixes s :: runlog
  assumes "uid > 0"
  defines "s1 \<equiv> ensure_user uid (grow_ut_table uid s)"
  shows "base s1 = base s" "run_extras s1 = run_extras s" "run_extra_u s1 = run_extra_u s"
    "uid < int (length (ut_table s1))"
    "ut_lookup s1 v = (if v = uid \<and> ut_lookup s v = None then Some zero_user_entry else ut_lookup s v)"
proof -
  let ?g = "grow_ut_table uid s"
  let ?d = "double_upto (nat uid + 1) (if ut_table s = [] then 16 else length (ut_table s))"
  have d: "nat uid + 1 \<le> ?d" by (rule double_upto_ge) simp
  have g: "base ?g = base s" "run_extras ?g = run_extras s" "run_extra_u ?g = run_extra_u s"
    by (simp_all add: grow_ut_table_def Let_def)
  have len: "uid < int (length (ut_table ?g))"
    using d assms(1) by (auto simp: grow_ut_table_def Let_def)
  have lk: "ut_lookup ?g v = ut_lookup s v" for v
    by (auto simp: ut_lookup_def grow_ut_table_def Let_def nth_append)
  show "base s1 = base s" "run_extras s1 = run_extras s" "run_extra_u s1 = run_extra_u s"
    "uid < int (length (ut_table s1))"
    unfolding s1_def ensure_user_def using g len by (auto split: option.splits)
  show "ut_lookup s1 v = (if v = uid \<and> ut_lookup s v = None then Some zero_user_entry else ut_lookup s v)"
    unfolding s1_def ensure_user_def using len lk assms(1)
    by (auto simp: ut_lookup_store split: option.splits)
qed

text \<open>
  The contract of \<open>get_user_entry\<close>: it cannot fail, returns the entry the table now holds, with a
  valid list, and keeps the index, the log and the contest state of every user.
\<close>

text \<open>The rebuilding of one list, once the user has an entry.\<close>

definition rebuild_list :: "int \<Rightarrow> user_entry \<Rightarrow> runlog \<Rightarrow> user_entry \<times> runlog" where
  "rebuild_list uid ue s =
    (case fold (rebuild_step uid (runs s)) [0..<run_u s] (run_extras s, -1, -1) of
       (ext, first, lst) \<Rightarrow>
         (let ue' = ue\<lparr>ue_run_id_first := first, ue_run_id_last := lst, ue_run_id_valid := 1\<rparr>
          in (ue', ut_store uid ue' (s\<lparr>run_extras := ext\<rparr>))))"

lemma rebuild_list_ok:
  assumes "index_inv s" "ut_lookup s uid = Some ue" "uid > 0" "run_u s \<le> length (run_extras s)"
    "run_extra_u s = run_u s" "rebuild_list uid ue s = (ue', s')"
  shows "index_inv s'" "base s' = base s" "ut_lookup s' uid = Some ue'" "ue_run_id_valid ue' > 0"
    "user_ok s' uid ue'" "virt s' = virt s" "run_extra_u s' = run_u s"
proof -
  have len: "uid < int (length (ut_table s))" using assms(2) by (auto simp: ut_lookup_def split: if_splits)
  obtain ext where L: "fold (rebuild_step uid (runs s)) [0..<run_u s] (run_extras s, -1, -1)
      = (ext, first_id (user_ids s uid), last_id (user_ids s uid))"
    "seg ext (-1) (user_ids s uid)" "length ext = length (run_extras s)"
    "\<forall>x. x \<notin> set (user_ids s uid) \<longrightarrow> ext ! x = run_extras s ! x"
    using rebuild_loop [OF assms(4), of uid "runs s"] unfolding user_ids_def by blast
  have ue': "ue' = ue\<lparr>ue_run_id_first := first_id (user_ids s uid),
      ue_run_id_last := last_id (user_ids s uid), ue_run_id_valid := 1\<rparr>"
    and s': "s' = ut_store uid ue' (s\<lparr>run_extras := ext\<rparr>)"
    using assms(6) L(1) by (auto simp: rebuild_list_def Let_def)
  show b: "base s' = base s" by (simp add: s')
  note bD = baseD [OF b]
  have lk: "ut_lookup s' v = (if v = uid then Some ue' else ut_lookup s v)" for v
    unfolding s' ut_lookup_store using len assms(3) by simp
  show "ut_lookup s' uid = Some ue'" "ue_run_id_valid ue' > 0" "run_extra_u s' = run_u s"
    using lk assms(5) by (simp_all add: ue' s')
  have xt: "run_extras s' = ext" "run_extra_u s' = run_extra_u s" by (simp_all add: s')
  show ok: "user_ok s' uid ue'"
    using L(2) user_ids_lt [of _ s uid] assms(5)
    by (auto simp: user_ok_def linked_def bD xt ue')
  have other: "user_ok s' v w" if "v \<noteq> uid" "user_ok s v w" for v w
  proof -
    have sg: "seg (run_extras s) (-1) (user_ids s v)" using that(2) by (simp add: user_ok_def linked_def)
    have "seg ext (-1) (user_ids s v)"
    proof (rule seg_frame [OF sg])
      fix x assume x: "x \<in> set (user_ids s v)"
      then show "x < length ext \<and> ext ! x = run_extras s ! x"
        using seg_lt [OF sg x] L(3,4) user_ids_disjoint [OF that(1) x] by simp
    qed
    then show ?thesis using that(2) by (simp add: user_ok_def linked_def bD xt)
  qed
  show "index_inv s'"
    unfolding index_inv_def
  proof (intro conjI allI impI)
    show "wf_runs s'" "run_extra_u s' \<le> length (run_extras s')"
      using bD assms(1,4,5) L(3) by (simp_all add: index_inv_def xt)
    fix v w assume "ut_lookup s' v = Some w \<and> 0 < ue_run_id_valid w"
    then show "user_ok s' v w"
      using ok other assms(1) by (cases "v = uid") (auto simp: lk index_inv_def)
  qed
  show "virt s' = virt s"
    by (rule ext) (auto simp: virt_def lk assms(2) ue')
qed

lemma get_user_entry_rebuild:
  "get_user_entry uid s =
    (if uid \<le> 0 then None
     else
       (let s1 = ensure_user uid (grow_ut_table uid s)
        in case ut_lookup s1 uid of None \<Rightarrow> None
        | Some ue \<Rightarrow> if ue_run_id_valid ue \<le> 0 then Some (rebuild_list uid ue (extend_run_extras s1))
          else Some (ue, s1)))"
  by (auto simp: get_user_entry_def rebuild_list_def Let_def extend_run_extras_def split: option.splits prod.splits)

lemma index_inv_extend:
  assumes "index_inv s" shows "index_inv (extend_run_extras s)"
proof -
  have le: "run_extra_u s \<le> length (run_extras s)" using assms by (simp add: index_inv_def)
  note x = extend_run_extras_props [OF le] and b = baseD [OF base_extend [of s]]
  show ?thesis
    unfolding index_inv_def
    using x(1,2) assms user_ok_extend [OF _ le] ut_lookup_cong [OF ut_table_extend]
    by (simp add: index_inv_def b)
qed

lemma get_user_entry_ok:
  assumes "index_inv s" "uid > 0"
  obtains ue s' where "get_user_entry uid s = Some (ue, s')" "index_inv s'" "base s' = base s"
    "ut_lookup s' uid = Some ue" "ue_run_id_valid ue > 0" "user_ok s' uid ue"
    "virt s' = virt s" "run_extra_u s' = run_extra_u s \<or> run_extra_u s' = run_u s"
proof -
  let ?s1 = "ensure_user uid (grow_ut_table uid s)"
  note e = ensure_user_props [OF assms(2), of s]
  note b1 = baseD [OF e(1)]
  obtain ue where ue: "ut_lookup ?s1 uid = Some ue" using e(5) [of uid] by (cases "ut_lookup s uid") auto
  have v1: "virt ?s1 = virt s"
    by (rule ext) (auto simp: virt_def e(5) zero_user_entry_def split: option.splits)
  have ok1: "user_ok ?s1 v w = user_ok s v w" for v w
    using e(2,3) b1 by (simp add: user_ok_def linked_def)
  have i1: "index_inv ?s1"
    unfolding index_inv_def ok1 e(2,3) b1
    using assms(1) by (auto simp: index_inv_def e(5) zero_user_entry_def split: if_splits)
  show thesis
  proof (cases "ue_run_id_valid ue \<le> 0")
    case False
    then have "get_user_entry uid s = Some (ue, ?s1)"
      using ue assms(2) by (simp add: get_user_entry_def Let_def)
    moreover have "user_ok ?s1 uid ue" using i1 ue False by (simp add: index_inv_def)
    ultimately show thesis using that i1 e(1,3) ue False v1 by simp
  next
    case True
    let ?s2 = "extend_run_extras ?s1"
    have le: "run_extra_u ?s1 \<le> length (run_extras ?s1)" using i1 by (simp add: index_inv_def)
    note x = extend_run_extras_props [OF le] and b2 = baseD [OF base_extend [of ?s1]]
    have lk2: "ut_lookup ?s2 v = ut_lookup ?s1 v" for v by (rule ut_lookup_cong) simp
    obtain ue' s' where r: "rebuild_list uid ue ?s2 = (ue', s')" by fastforce
    note R = rebuild_list_ok [OF index_inv_extend [OF i1] _ assms(2) _ _ r]
    have pre: "ut_lookup ?s2 uid = Some ue" "run_u ?s2 \<le> length (run_extras ?s2)"
      "run_extra_u ?s2 = run_u ?s2"
      using ue x(1,2) by (simp_all add: lk2 b2)
    have "get_user_entry uid s = Some (ue', s')"
      using ue True assms(2) r by (simp add: get_user_entry_rebuild Let_def)
    moreover have "virt ?s2 = virt s"
      unfolding v1 [symmetric] by (rule ext) (simp add: virt_def lk2)
    ultimately show thesis
      using that [of ue' s'] R [OF pre] e(1) b1 b2 by simp
  qed
qed

section \<open>Traversing a list\<close>

text \<open>
  \<open>for (i = start; i >= 0; i = next(i)) body\<close>.  The chain is followed wherever it leads, so the loop
  need not end; \<open>None\<close> stands for a failed \<open>ASSERT\<close>, an access out of the array, or no end.  The
  result holds the final value of the loop variable, which some callers assert to be -1.
\<close>

partial_function (option) chain_loop ::
  "(int \<Rightarrow> int option) \<Rightarrow> (int \<Rightarrow> 'a \<Rightarrow> 'a ctl option) \<Rightarrow> int \<Rightarrow> 'a \<Rightarrow> ('a \<times> int) option" where
  "chain_loop nxt body i a =
    (if i < 0 then Some (a, i)
     else Option.bind (body i a) (\<lambda>c. case c of
            Stop b \<Rightarrow> Some (b, i)
          | Next b \<Rightarrow> Option.bind (nxt i) (\<lambda>j. chain_loop nxt body j b)))"

definition extra_at :: "runlog \<Rightarrow> int \<Rightarrow> run_entry_extra option" where
  "extra_at s i = (if 0 \<le> i \<and> i < int (length (run_extras s)) then Some (run_extras s ! nat i) else None)"

definition next_run :: "runlog \<Rightarrow> int \<Rightarrow> int option" where
  "next_run s i = map_option next_user_id (extra_at s i)"

definition prev_run :: "runlog \<Rightarrow> int \<Rightarrow> int option" where
  "prev_run s i = map_option prev_user_id (extra_at s i)"

text \<open>\<open>ASSERT(i < state->run_u); ASSERT(state->runs[i].user_id == user_id)\<close>.\<close>

definition own_run :: "runlog \<Rightarrow> int \<Rightarrow> int \<Rightarrow> run_entry option" where
  "own_run s uid i =
    (if i < int (run_u s) \<and> re_user_id (runs s ! nat i) = uid then Some (runs s ! nat i) else None)"

definition own :: "runlog \<Rightarrow> int \<Rightarrow> (int \<Rightarrow> run_entry \<Rightarrow> 'a \<Rightarrow> 'a ctl) \<Rightarrow> int \<Rightarrow> 'a \<Rightarrow> 'a ctl option" where
  "own s uid f i a = map_option (\<lambda>re. f i re a) (own_run s uid i)"

lemma own_simp [simp]:
  "x < run_u s \<Longrightarrow> re_user_id (runs s ! x) = uid \<Longrightarrow> own s uid f (int x) a = Some (f (int x) (runs s ! x) a)"
  by (simp add: own_def own_run_def)

text \<open>\<open>ue = get_user_entry(state, user_id); ASSERT(ue); ASSERT(ue->run_id_valid > 0);\<close>\<close>

definition with_user ::
  "(int \<Rightarrow> runlog \<Rightarrow> (user_entry \<times> runlog) option) \<Rightarrow> int \<Rightarrow> runlog
     \<Rightarrow> (user_entry \<Rightarrow> runlog \<Rightarrow> 'a option) \<Rightarrow> 'a option" where
  "with_user acquire uid s k =
    (case acquire uid s of None \<Rightarrow> None
     | Some (ue, s') \<Rightarrow> if ue_run_id_valid ue > 0 then k ue s' else None)"

definition scan_first where
  "scan_first acquire uid body a s = with_user acquire uid s (\<lambda>ue s'.
     map_option (\<lambda>r. (r, s')) (chain_loop (next_run s') (body s') (ue_run_id_first ue) a))"

definition scan_last where
  "scan_last acquire uid body a s = with_user acquire uid s (\<lambda>ue s'.
     map_option (\<lambda>r. (r, s')) (chain_loop (prev_run s') (body s') (ue_run_id_last ue) a))"

text \<open>The same loop on a list of run ids.\<close>

fun fold_at :: "(nat \<Rightarrow> 'a \<Rightarrow> 'a ctl) \<Rightarrow> nat list \<Rightarrow> 'a \<Rightarrow> 'a \<times> int" where
  "fold_at f [] a = (a, -1)"
| "fold_at f (x # xs) a = (case f x a of Stop b \<Rightarrow> (b, int x) | Next b \<Rightarrow> fold_at f xs b)"

lemma fold_at_ge: "snd (fold_at f xs a) \<ge> -1"
  by (induction xs arbitrary: a) (auto split: ctl.splits)

lemma fold_at_next:
  "(\<And>x b. x \<in> set xs \<Longrightarrow> f x b = Next (g x b)) \<Longrightarrow> fold_at f xs a = (fold g xs a, -1)"
  by (induction xs arbitrary: a) auto

lemma fold_at_count:
  "fold_at (\<lambda>x n. Next (if P x then n + 1 else n)) xs n = (n + int (length (filter P xs)), -1)"
  by (induction xs arbitrary: n) simp_all

lemma fold_at_find:
  "fold_at (\<lambda>x r. if P x then Stop (g x) else Next r) xs r =
    (case find P xs of None \<Rightarrow> (r, -1) | Some x \<Rightarrow> (g x, int x))"
  by (induction xs) simp_all

lemma chain_nil [simp]: "chain_loop nxt body (-1) a = Some (a, -1)"
  by (simp add: chain_loop.simps)

lemma chain_step:
  "body (int x) a = Some c \<Longrightarrow> chain_loop nxt body (int x) a =
    (case c of Stop b \<Rightarrow> Some (b, int x)
     | Next b \<Rightarrow> Option.bind (nxt (int x)) (\<lambda>j. chain_loop nxt body j b))"
  by (subst chain_loop.simps) simp

lemma chain_seg:
  assumes "seg (run_extras s) p xs" "\<And>x b. x \<in> set xs \<Longrightarrow> body (int x) b = Some (f x b)"
  shows "chain_loop (next_run s) body (first_id xs) a = Some (fold_at f xs a)"
  using assms
proof (induction xs arbitrary: p a)
  case Nil
  then show ?case by simp
next
  case (Cons x xs)
  have n: "next_run s (int x) = Some (first_id xs)"
    using Cons.prems(1) by (simp add: next_run_def extra_at_def)
  have "seg (run_extras s) (int x) xs" using Cons.prems(1) by simp
  then have "chain_loop (next_run s) body (first_id xs) b = Some (fold_at f xs b)" for b
    using Cons.IH Cons.prems(2) by simp
  moreover have "body (int x) a = Some (f x a)" using Cons.prems(2) by simp
  ultimately show ?case by (simp add: chain_step n split: ctl.splits)
qed

lemma seg_prev:
  assumes "seg ext p (xs @ y # ys)"
  shows "y < length ext \<and> prev_user_id (ext ! y) = (if xs = [] then p else int (last xs))"
  using assms
proof (induction xs arbitrary: p)
  case (Cons x xs)
  then show ?case by (cases xs) auto
qed auto

lemma chain_back:
  assumes "seg (run_extras s) (-1) (xs @ ys)" "\<And>x b. x \<in> set xs \<Longrightarrow> body (int x) b = Some (f x b)"
  shows "chain_loop (prev_run s) body (last_id xs) a = Some (fold_at f (rev xs) a)"
  using assms
proof (induction xs arbitrary: a ys rule: rev_induct)
  case Nil
  then show ?case by simp
next
  case (snoc x xs)
  have n: "prev_run s (int x) = Some (last_id xs)"
    using seg_prev [of "run_extras s" "-1" xs x ys] snoc.prems(1)
    by (auto simp: prev_run_def extra_at_def last_id_def split: if_splits)
  have "chain_loop (prev_run s) body (last_id xs) b = Some (fold_at f (rev xs) b)" for b
    using snoc.IH [of "x # ys"] snoc.prems by simp
  moreover have "body (int x) a = Some (f x a)" using snoc.prems(2) by simp
  ultimately show ?case by (simp add: chain_step n split: ctl.splits)
qed

section \<open>The interface of the index\<close>

text \<open>
  What the queries of \<open>runlog.c\<close> need of the index: a lookup that does not fail and returns the
  user's entry, whose list is the list of the runs \<open>ids\<close>, and that changes nothing but the index.
\<close>

locale user_index =
  fixes inv :: "runlog \<Rightarrow> bool"
    and acquire :: "int \<Rightarrow> runlog \<Rightarrow> (user_entry \<times> runlog) option"
    and ids :: "runlog \<Rightarrow> int \<Rightarrow> nat list"
  assumes acquire_ok: "inv s \<Longrightarrow> uid > 0 \<Longrightarrow> \<exists>ue s'. acquire uid s = Some (ue, s') \<and> inv s'
      \<and> base s' = base s \<and> virt s' = virt s \<and> ut_lookup s' uid = Some ue
      \<and> ue_run_id_valid ue > 0 \<and> linked s' (ids s uid) ue"
    and ids_ok: "inv s \<Longrightarrow> x \<in> set (ids s uid) \<Longrightarrow> x < run_u s \<and> re_user_id (runs s ! x) = uid"
begin

lemma ids_base:
  assumes "inv s" "base s' = base s" "x \<in> set (ids s uid)"
  shows "x < run_u s' \<and> re_user_id (runs s' ! x) = uid"
  using ids_ok [OF assms(1,3)] baseD [OF assms(2)] by simp

lemma scan_first:
  assumes "inv s" "uid > 0"
    "\<And>s' x b. base s' = base s \<Longrightarrow> x \<in> set (ids s uid) \<Longrightarrow> body s' (int x) b = Some (f x b)"
  shows "\<exists>s'. scan_first acquire uid body a s = Some (fold_at f (ids s uid) a, s')
    \<and> inv s' \<and> base s' = base s \<and> virt s' = virt s"
proof -
  obtain ue s' where u: "acquire uid s = Some (ue, s')" "ue_run_id_valid ue > 0"
    "inv s'" "base s' = base s" "virt s' = virt s" "linked s' (ids s uid) ue"
    using acquire_ok [OF assms(1,2)] by auto
  have "chain_loop (next_run s') (body s') (first_id (ids s uid)) a = Some (fold_at f (ids s uid) a)"
    by (rule chain_seg [of s' "-1"]) (use u(4,6) assms(3) in \<open>simp_all add: linked_def\<close>)
  then have "scan_first acquire uid body a s = Some (fold_at f (ids s uid) a, s')"
    using u(1,2,6) by (simp add: scan_first_def with_user_def linked_def)
  then show ?thesis using u(3-5) by blast
qed

lemma scan_last:
  assumes "inv s" "uid > 0"
    "\<And>s' x b. base s' = base s \<Longrightarrow> x \<in> set (ids s uid) \<Longrightarrow> body s' (int x) b = Some (f x b)"
  shows "\<exists>s'. scan_last acquire uid body a s = Some (fold_at f (rev (ids s uid)) a, s')
    \<and> inv s' \<and> base s' = base s \<and> virt s' = virt s"
proof -
  obtain ue s' where u: "acquire uid s = Some (ue, s')" "ue_run_id_valid ue > 0"
    "inv s'" "base s' = base s" "virt s' = virt s" "linked s' (ids s uid) ue"
    using acquire_ok [OF assms(1,2)] by auto
  have "chain_loop (prev_run s') (body s') (last_id (ids s uid)) a = Some (fold_at f (rev (ids s uid)) a)"
    by (rule chain_back [of s' _ "[]"]) (use u(4,6) assms(3) in \<open>simp_all add: linked_def\<close>)
  then have "scan_last acquire uid body a s = Some (fold_at f (rev (ids s uid)) a, s')"
    using u(1,2,6) by (simp add: scan_last_def with_user_def linked_def)
  then show ?thesis using u(3-5) by blast
qed

text \<open>Walking backwards from a run of the list visits the runs before it.\<close>

lemma chain_before:
  assumes "linked s' (ids s uid) ue" "ids s uid = xs @ x # ys"
    "\<And>y b. y \<in> set xs \<Longrightarrow> body (int y) b = Some (f y b)"
  shows "Option.bind (prev_run s' (int x)) (\<lambda>i. chain_loop (prev_run s') body i a)
    = Some (fold_at f (rev xs) a)"
proof -
  have sg: "seg (run_extras s') (-1) (xs @ x # ys)" using assms(1,2) by (simp add: linked_def)
  then have "prev_run s' (int x) = Some (last_id xs)"
    using seg_prev [OF sg] by (auto simp: prev_run_def extra_at_def last_id_def)
  then show ?thesis using chain_back [OF sg, of body f a] assms(3) by simp
qed

lemma own_ids:
  assumes "inv s" "base s' = base s" "x \<in> set (ids s uid)"
  shows "own s' uid f (int x) b = Some (f (int x) (runs s ! x) b)"
  using ids_base [OF assms] baseD(2) [OF assms(2)] by simp

lemma scan_first_own:
  assumes "inv s" "uid > 0"
  shows "\<exists>s'. scan_first acquire uid (\<lambda>s'. own s' uid f) a s
      = Some (fold_at (\<lambda>x. f (int x) (runs s ! x)) (ids s uid) a, s')
    \<and> inv s' \<and> base s' = base s \<and> virt s' = virt s"
  by (rule scan_first [OF assms]) (rule own_ids [OF assms(1)])

lemma scan_last_own:
  assumes "inv s" "uid > 0"
  shows "\<exists>s'. scan_last acquire uid (\<lambda>s'. own s' uid f) a s
      = Some (fold_at (\<lambda>x. f (int x) (runs s ! x)) (rev (ids s uid)) a, s')
    \<and> inv s' \<and> base s' = base s \<and> virt s' = virt s"
  by (rule scan_last [OF assms]) (rule own_ids [OF assms(1)])

end

interpretation idx: user_index index_inv get_user_entry user_ids
proof unfold_locales
  fix s uid
  assume "index_inv s" "uid > (0 :: int)"
  then obtain ue s' where g: "get_user_entry uid s = Some (ue, s')" "index_inv s'" "base s' = base s"
    "ut_lookup s' uid = Some ue" "ue_run_id_valid ue > 0" "user_ok s' uid ue" "virt s' = virt s"
    using get_user_entry_ok by metis
  moreover have "linked s' (user_ids s uid) ue"
    using g(6) baseD(18) [OF g(3)] by (simp add: user_ok_def)
  ultimately show "\<exists>ue s'. get_user_entry uid s = Some (ue, s') \<and> index_inv s' \<and> base s' = base s
      \<and> virt s' = virt s \<and> ut_lookup s' uid = Some ue \<and> ue_run_id_valid ue > 0
      \<and> linked s' (user_ids s uid) ue" by blast
next
  fix s x uid
  assume "index_inv s" "x \<in> set (user_ids s uid)"
  then show "x < run_u s \<and> re_user_id (runs s ! x) = uid" using user_ids_lt user_ids_user by auto
qed

section \<open>Keeping the index\<close>

text \<open>A change of the log that leaves every list as it is.\<close>

lemma index_inv_keep:
  assumes "index_inv s" "\<And>uid. user_ids s' uid = user_ids s uid" "ut_table s' = ut_table s"
    "run_extras s' = run_extras s" "run_extra_u s' = run_extra_u s" "wf_runs s'"
  shows "index_inv s'"
proof -
  have "user_ok s' v w = user_ok s v w" for v w
    unfolding user_ok_def linked_def assms(2,4,5) by (rule refl)
  moreover have "ut_lookup s' v = ut_lookup s v" for v by (rule ut_lookup_cong) (rule assms(3))
  ultimately show ?thesis using assms(1,4-6) unfolding index_inv_def by simp
qed

text \<open>A change of the log that moves runs of one user, whose list is marked stale.\<close>

lemma ut_lookup_invalidate:
  assumes "uid > 0"
  shows "ut_lookup (invalidate_user uid s) v =
    (if v = uid then map_option (\<lambda>ue. ue\<lparr>ue_run_id_valid := 0\<rparr>) (ut_lookup s v) else ut_lookup s v)"
proof -
  have "try_user_entry s uid = ut_lookup s uid"
    using assms by (simp add: try_user_entry_def ut_lookup_def)
  then show ?thesis
  proof (cases "ut_lookup s uid")
    case None
    then show ?thesis using \<open>try_user_entry s uid = _\<close> by (simp add: invalidate_user_def)
  next
    case (Some ue)
    then have "uid < int (length (ut_table s))" by (simp add: ut_lookup_def split: if_splits)
    then show ?thesis
      using Some \<open>try_user_entry s uid = _\<close> assms by (simp add: invalidate_user_def ut_lookup_store)
  qed
qed

lemma invalidate_frame [simp]:
  "base (invalidate_user uid s) = base s" "run_extras (invalidate_user uid s) = run_extras s"
  "run_extra_u (invalidate_user uid s) = run_extra_u s" "log (invalidate_user uid s) = log s"
  "runs (invalidate_user uid s) = runs s" "run_u (invalidate_user uid s) = run_u s"
  "wf_runs (invalidate_user uid s) = wf_runs s"
  "user_ids (invalidate_user uid s) v = user_ids s v" "user_ok (invalidate_user uid s) v w = user_ok s v w"
  by (auto simp: invalidate_user_def split: option.splits)

lemma index_inv_invalidate:
  assumes "index_inv s" "uid > 0" "\<And>v. v \<noteq> uid \<Longrightarrow> user_ids s' v = user_ids s v"
    "ut_table s' = ut_table s" "run_extras s' = run_extras s" "run_extra_u s' = run_extra_u s" "wf_runs s'"
  shows "index_inv (invalidate_user uid s')"
proof -
  have "user_ok s' v w = user_ok s v w" if "v \<noteq> uid" for v w
    using assms(3) [OF that] assms(5,6) by (simp add: user_ok_def linked_def)
  then show ?thesis
    using assms ut_lookup_cong [OF assms(4)]
    by (auto simp: index_inv_def ut_lookup_invalidate split: if_splits)
qed

lemma index_inv_run_init: "index_inv run_init"
  by (auto simp: index_inv_def run_init_def wf_runs_def ut_lookup_def)

end
