(* ===== verification/Run_Queries.thy ===== *)
theory Run_Queries
  imports User_Index
begin

text \<open>
  The questions \<open>runlog.c\<close> answers about the log: usage and attempts of a user, duplicates, accepted
  problems, previous successes of other users, searches and statistics.  \<open>None\<close> is a failed
  \<open>ASSERT\<close> or an access out of an array; an error return is the value -1, as in C.
\<close>

section \<open>Bounds\<close>

definition EJ_MAX_MIME_TYPE :: int where [simp]: "EJ_MAX_MIME_TYPE = 32767"
definition RUN_TOO_MANY :: int where [simp]: "RUN_TOO_MANY = 100000"

definition virtual_status :: "int \<Rightarrow> bool" where
  "virtual_status st \<longleftrightarrow> st = RUN_VIRTUAL_START \<or> st = RUN_VIRTUAL_STOP"

section \<open>Counting the runs of a user\<close>

definition run_get_team_usage :: "int \<Rightarrow> runlog \<Rightarrow> ((int \<times> int) \<times> runlog) option" where
  "run_get_team_usage uid s =
     map_option (\<lambda>((r, i), s'). (r, s'))
       (scan_first get_user_entry uid (\<lambda>s'. own s' uid (\<lambda>i re (n, sz).
          Next (if virtual_status (re_status re) then (n, sz) else (n + 1, sz + re_size re)))) (0, 0) s)"

definition attempts_step :: "int \<Rightarrow> run_entry \<Rightarrow> int \<Rightarrow> int \<Rightarrow> run_entry \<Rightarrow> int \<times> int \<Rightarrow> (int \<times> int) ctl" where
  "attempts_step rid sample skip_ce i re nm =
    (case nm of (n, m) \<Rightarrow>
      if i \<ge> rid then Stop (n, m)
      else if virtual_status (re_status re) then Next (n, m)
      else if re_prob_id re \<noteq> re_prob_id sample then Next (n, m)
      else if (re_status re = RUN_COMPILE_ERR \<or> re_status re = RUN_STYLE_ERR
               \<or> re_status re = RUN_REJECTED) \<and> skip_ce \<noteq> 0 then Next (n, m)
      else if re_status re = RUN_IGNORED then Next (n, m)
      else if re_is_hidden re \<noteq> 0 then Next (n, m)
      else if re_status re = RUN_DISQUALIFIED then Next (n, m + 1)
      else Next (n + 1, m))"

text \<open>The result, the attempts and the disqualified attempts.\<close>

definition run_get_attempts :: "int \<Rightarrow> int \<Rightarrow> runlog \<Rightarrow> ((int \<times> int \<times> int) \<times> runlog) option" where
  "run_get_attempts rid skip_ce s =
    (if rid < 0 \<or> rid \<ge> int (run_u s) then Some ((-1, 0, 0), s)
     else
       (let sample = runs s ! nat rid in
        if re_status sample \<ge> RUN_PSEUDO_FIRST \<and> re_status sample \<le> RUN_PSEUDO_LAST
        then Some ((0, 0, 0), s)
        else
          map_option (\<lambda>(((n, m), i), s'). ((0, n, m), s'))
            (scan_first get_user_entry (re_user_id sample)
               (\<lambda>s'. own s' (re_user_id sample) (attempts_step rid sample skip_ce)) (0, 0) s)))"

text \<open>\<open>ASSERT(i == -1)\<close> after the loop.\<close>

definition assert_end :: "('a \<times> int) \<times> runlog \<Rightarrow> ('a \<times> runlog) option" where
  "assert_end r = (case r of ((a, i), s) \<Rightarrow> if i = -1 then Some (a, s) else None)"

definition run_count_all_attempts :: "int \<Rightarrow> int \<Rightarrow> runlog \<Rightarrow> (int \<times> runlog) option" where
  "run_count_all_attempts uid prob_id s =
     Option.bind
       (scan_first get_user_entry uid (\<lambda>s'. own s' uid (\<lambda>i re n.
          if re_status re > RUN_MAX_STATUS \<and> re_status re < RUN_TRANSIENT_FIRST then Next n
          else if prob_id \<le> 0 \<or> re_prob_id re = prob_id then Next (n + 1) else Next n)) 0 s)
       assert_end"

definition run_count_all_attempts_2 :: "int \<Rightarrow> int \<Rightarrow> mask \<Rightarrow> runlog \<Rightarrow> (int \<times> runlog) option" where
  "run_count_all_attempts_2 uid prob_id ignored_set s =
     Option.bind
       (scan_first get_user_entry uid (\<lambda>s'. own s' uid (\<lambda>i re n.
          if re_status re > RUN_MAX_STATUS \<and> re_status re < RUN_TRANSIENT_FIRST then Next n
          else if re_status re \<le> RUN_MAX_STATUS
                  \<and> has (push_bit (nat (re_status re)) 1) ignored_set then Next n
          else if prob_id \<le> 0 \<or> re_prob_id re = prob_id then Next (n + 1) else Next n)) 0 s)
       assert_end"

section \<open>Duplicates and accepted problems\<close>

definition same_submit :: "run_entry \<Rightarrow> run_entry \<Rightarrow> bool" where
  "same_submit p q \<longleftrightarrow> re_size p = re_size q \<and> quad0 (re_a p) = quad0 (re_a q)
     \<and> re_sha1 p = re_sha1 q \<and> re_prob_id p = re_prob_id q \<and> re_lang_id p = re_lang_id q
     \<and> re_variant p = re_variant q"

definition run_check_duplicate :: "int \<Rightarrow> runlog \<Rightarrow> (int \<times> runlog) option" where
  "run_check_duplicate rid s =
    (if rid < 0 \<or> rid \<ge> int (run_u s) then Some (-1, s)
     else
       (let p = runs s ! nat rid in
        with_user get_user_entry (re_user_id p) s (\<lambda>ue s'.
          Option.bind (Option.bind (prev_run s' rid) (\<lambda>i0.
              chain_loop (prev_run s') (own s' (re_user_id p) (\<lambda>i q u.
                if virtual_status (re_status q) then Next u
                else if same_submit p q then Stop u else Next u)) i0 ()))
            (\<lambda>(u, i).
               if i < -1 then None
               else if i < 0 then Some (0, s')
               else map_option (\<lambda>(r, s''). (if r < 0 then -1 else i + 1, s''))
                      (set_status_func RUN_IGNORED rid s')))))"

definition run_find_duplicate ::
  "int \<Rightarrow> int \<Rightarrow> int \<Rightarrow> int \<Rightarrow> int \<Rightarrow> sha1 \<Rightarrow> runlog \<Rightarrow> (int \<times> runlog) option" where
  "run_find_duplicate uid prob_id lang_id variant sz sha s =
    (if run_u s = 0 then Some (-1, s)
     else Option.bind
       (scan_last get_user_entry uid (\<lambda>s'. own s' uid (\<lambda>i q r.
          if virtual_status (re_status q) then Next r
          else if re_prob_id q = prob_id \<and> re_variant q = variant then
            (if re_lang_id q = lang_id \<and> re_size q = sz \<and> re_sha1 q = sha then Stop i else Stop (-1))
          else Next r)) (-1) s)
       (\<lambda>((r, i), s'). if i \<ge> -1 then Some (r, s') else None))"

text \<open>\<open>acc_set\<close> is the caller's array; an index past its end is an access out of the array.\<close>

definition run_get_accepted_set ::
  "int \<Rightarrow> int \<Rightarrow> int \<Rightarrow> int list \<Rightarrow> runlog \<Rightarrow> (int list \<times> runlog) option" where
  "run_get_accepted_set uid accepting_mode max_prob acc_set s =
     Option.bind
       (scan_first get_user_entry uid (\<lambda>s'. own s' uid (\<lambda>i q acc.
          if (if accepting_mode \<noteq> 0
              then re_status q = RUN_OK \<or> re_status q = RUN_ACCEPTED \<or> re_status q = RUN_PARTIAL
              else re_status q = RUN_OK)
             \<and> re_prob_id q > 0 \<and> re_prob_id q \<le> max_prob
          then Next (acc[nat (re_prob_id q) := 1]) else Next acc)) acc_set s)
       assert_end"

section \<open>Transient runs and virtual contests\<close>

definition run_has_transient_user_runs :: "int \<Rightarrow> runlog \<Rightarrow> (int \<times> runlog) option" where
  "run_has_transient_user_runs uid s =
     Option.bind
       (scan_first get_user_entry uid (\<lambda>s'. own s' uid (\<lambda>i re r.
          if re_status re = RUN_EMPTY then Next r
          else if re_status re = RUN_VIRTUAL_START then Stop 0
          else if transient_status (re_status re) then Stop 1
          else Next r)) 0 s)
       (\<lambda>((r, i), s'). if i \<ge> -1 then Some (r, s') else None)"

text \<open>The count, the start and stop runs found so far, and whether one of them was found twice.\<close>

definition virtual_info_step ::
  "int \<Rightarrow> run_entry \<Rightarrow> int \<times> int \<times> int \<times> bool \<Rightarrow> (int \<times> int \<times> int \<times> bool) ctl" where
  "virtual_info_step i re st =
    (case st of (count, rstart, rend, twice) \<Rightarrow>
      if re_status re = RUN_EMPTY then Next st
      else if transient_status (re_status re) then Next (count + 1, rstart, rend, twice)
      else if re_status re = RUN_VIRTUAL_START then
        (if rstart \<ge> 0 then Stop (count, rstart, rend, True) else Next (count, i, rend, twice))
      else if re_status re = RUN_VIRTUAL_STOP then
        (if rend \<ge> 0 then Stop (count, rstart, rend, True) else Next (count, rstart, i, twice))
      else Next st)"

definition run_get_virtual_info ::
  "int \<Rightarrow> runlog \<Rightarrow> ((int \<times> (run_entry \<times> run_entry) option) \<times> runlog) option" where
  "run_get_virtual_info uid s =
     map_option
       (\<lambda>(((count, rstart, rend, twice), i), s').
          (if twice \<or> rstart < 0 \<or> rend < 0 then (-1, None)
           else (count, Some (runs s' ! nat rstart, runs s' ! nat rend)), s'))
       (scan_last get_user_entry uid (\<lambda>s'. own s' uid virtual_info_step) (0, -1, -1, False) s)"

definition run_get_virtual_start_entry :: "int \<Rightarrow> runlog \<Rightarrow> int" where
  "run_get_virtual_start_entry uid s =
    (case find (\<lambda>i. re_status (runs s ! i) = RUN_VIRTUAL_START \<and> re_user_id (runs s ! i) = uid)
            [0..<run_u s] of
       None \<Rightarrow> -1 | Some i \<Rightarrow> int i)"

section \<open>Searching\<close>

definition clamp_run :: "nat \<Rightarrow> int \<Rightarrow> int" where
  "clamp_run n i =
    (let i1 = (if i < 0 then int n + i else i);
         i2 = (if i1 < 0 then 0 else i1)
     in if i2 \<ge> int n then int n - 1 else i2)"

definition run_matches :: "int \<Rightarrow> int \<Rightarrow> run_entry \<Rightarrow> bool" where
  "run_matches prob_id lang_id re \<longleftrightarrow>
     (prob_id = 0 \<or> prob_id = re_prob_id re) \<and> (lang_id = 0 \<or> lang_id = re_lang_id re)"

text \<open>The body of the indexed searches: \<open>out i\<close> ends the loop, \<open>skip i\<close> continues it.\<close>

definition find_body ::
  "(int \<Rightarrow> bool) \<Rightarrow> (int \<Rightarrow> bool) \<Rightarrow> int \<Rightarrow> int \<Rightarrow> runlog \<Rightarrow> int \<Rightarrow> int \<Rightarrow> int ctl option" where
  "find_body out skip prob_id lang_id s i r =
    (if out i then Some (Stop r)
     else if skip i then Some (Next r)
     else if i < int (length (runs s)) then
       Some (if run_matches prob_id lang_id (runs s ! nat i) then Stop i else Next r)
     else None)"

definition run_find_linear :: "nat list \<Rightarrow> int \<Rightarrow> int \<Rightarrow> runlog \<Rightarrow> int" where
  "run_find_linear is prob_id lang_id s =
     fold_ctl (\<lambda>i r. if run_matches prob_id lang_id (runs s ! i) then Stop (int i) else Next r) is (-1)"

text \<open>The run found, with its uuid and storage flags.\<close>

definition run_find ::
  "int \<Rightarrow> int \<Rightarrow> int \<Rightarrow> int \<Rightarrow> int \<Rightarrow> runlog \<Rightarrow> ((int \<times> (quad \<times> int) option) \<times> runlog) option" where
  "run_find first0 last0 team_id prob_id lang_id s =
    (if run_u s = 0 then Some ((-1, None), s)
     else
       (let first = clamp_run (run_u s) first0; lst = clamp_run (run_u s) last0
        in map_option (\<lambda>(i, s'). ((i, if i < 0 then None
                else Some (re_run_uuid (runs s' ! nat i), re_store_flags (runs s' ! nat i))), s'))
            (if team_id > 0 then
               (if first \<le> lst then
                  map_option (\<lambda>((r, i), s'). (r, s'))
                    (scan_first get_user_entry team_id
                       (find_body (\<lambda>i. i > lst) (\<lambda>i. i < first) prob_id lang_id) (-1) s)
                else
                  map_option (\<lambda>((r, i), s'). (r, s'))
                    (scan_last get_user_entry team_id
                       (find_body (\<lambda>i. i < lst) (\<lambda>i. i > first) prob_id lang_id) (-1) s))
             else if first \<le> lst then
               Some (run_find_linear [nat first..<Suc (nat lst)] prob_id lang_id s, s)
             else Some (run_find_linear (rev [nat lst..<Suc (nat first)]) prob_id lang_id s, s))))"

section \<open>Statistics\<close>

text \<open>The arrays of the caller have \<open>size\<close> elements each.\<close>

definition run_get_all_statistics :: "int list \<Rightarrow> int list \<Rightarrow> runlog \<Rightarrow> int list \<times> int list" where
  "run_get_all_statistics counts sizes s =
     fold (\<lambda>p (cs, zs).
         if re_status p \<noteq> RUN_EMPTY \<and> re_user_id p \<ge> 1 \<and> re_user_id p < int (length counts)
         then (cs[nat (re_user_id p) := cs ! nat (re_user_id p) + 1],
               zs[nat (re_user_id p) := zs ! nat (re_user_id p) + re_size p])
         else (cs, zs))
       (log s) (counts, sizes)"

definition run_get_max_user_id :: "runlog \<Rightarrow> int \<times> runlog" where
  "run_get_max_user_id s =
    (if max_user_id s < 0 then
       (let m = fold (\<lambda>p m. if re_status p \<noteq> RUN_EMPTY \<and> re_user_id p > 0 \<and> re_user_id p > m
                            then re_user_id p else m) (log s) 0
        in (m, s\<lparr>max_user_id := m\<rparr>))
     else (max_user_id s, s))"

definition run_get_total_users :: "runlog \<Rightarrow> int \<times> runlog" where
  "run_get_total_users s0 =
    (if user_count s0 < 0 then
       (case run_get_max_user_id s0 of (mx, s) \<Rightarrow>
          (let bound = mx + 1;
               count =
                 (if bound > 1 then
                    (let map = fold (\<lambda>p map.
                           if re_status p \<noteq> RUN_EMPTY \<and> re_user_id p > 0 \<and> re_user_id p < bound
                           then map[nat (re_user_id p) := 1] else map)
                         (log s) (replicate (nat bound) (0 :: int))
                     in fold (\<lambda>u n. n + map ! u) [1..<nat bound] 0)
                  else 0)
           in (count, s\<lparr>user_count := count\<rparr>)))
     else (user_count s0, s0))"

definition run_get_total_pages :: "int \<Rightarrow> runlog \<Rightarrow> int" where
  "run_get_total_pages uid s =
    (if uid \<le> 0 \<or> uid > EJ_MAX_USER_ID then -1
     else fold (\<lambda>re total.
         if virtual_status (re_status re) \<or> re_status re = RUN_EMPTY then total
         else if re_user_id re \<noteq> uid then total
         else total + re_pages re) (log s) 0)"

section \<open>The flags of the users\<close>

definition TEAM_BANNED :: mask where "TEAM_BANNED = 1"
definition TEAM_INVISIBLE :: mask where "TEAM_INVISIBLE = 2"
definition TEAM_LOCKED :: mask where "TEAM_LOCKED = 4"
definition TEAM_INCOMPLETE :: mask where "TEAM_INCOMPLETE = 8"
definition TEAM_DISQUALIFIED :: mask where "TEAM_DISQUALIFIED = 16"

definition USERLIST_UC_INVISIBLE :: mask where "USERLIST_UC_INVISIBLE = 1"
definition USERLIST_UC_BANNED :: mask where "USERLIST_UC_BANNED = 2"
definition USERLIST_UC_LOCKED :: mask where "USERLIST_UC_LOCKED = 4"
definition USERLIST_UC_INCOMPLETE :: mask where "USERLIST_UC_INCOMPLETE = 8"
definition USERLIST_UC_DISQUALIFIED :: mask where "USERLIST_UC_DISQUALIFIED = 16"

text \<open>
  The user database (\<open>teamdb.c\<close>): the size of the user map and, per user id, the flags of its
  registration, where \<open>u_contests\<close> is a null pointer until a user is registered.  Refreshing it from
  the server is the parameter \<open>refresh\<close>.
\<close>

record teamdb =
  tdb_disabled :: bool
  tdb_user_map_size :: int
  tdb_u_contests :: "mask option list option"

definition team_flags :: "mask \<Rightarrow> int" where
  "team_flags old =
     uint ((if has old USERLIST_UC_INVISIBLE then TEAM_INVISIBLE else 0)
       OR (if has old USERLIST_UC_BANNED then TEAM_BANNED else 0)
       OR (if has old USERLIST_UC_LOCKED then TEAM_LOCKED else 0)
       OR (if has old USERLIST_UC_INCOMPLETE then TEAM_INCOMPLETE else 0)
       OR (if has old USERLIST_UC_DISQUALIFIED then TEAM_DISQUALIFIED else 0))"

text \<open>\<open>None\<close>: \<open>u_contests\<close> is read while it is a null pointer.\<close>

definition teamdb_get_user_status_map ::
  "(teamdb \<Rightarrow> teamdb option) \<Rightarrow> teamdb \<Rightarrow> (int \<times> int list \<times> teamdb) option" where
  "teamdb_get_user_status_map refresh tdb =
    (if tdb_disabled tdb then Some (0, [], tdb)
     else case refresh tdb of
       None \<Rightarrow> Some (-1, [], tdb)
     | Some t \<Rightarrow>
       if tdb_user_map_size t \<le> 0 then Some (0, [], t)
       else if tdb_user_map_size t = 1 then Some (1, [0], t)
       else (case tdb_u_contests t of
         None \<Rightarrow> None
       | Some us \<Rightarrow>
         Some (1, 0 # map (\<lambda>i. case us ! i of None \<Rightarrow> -1 | Some uc \<Rightarrow> team_flags uc)
                        [1..<nat (tdb_user_map_size t)], t)))"

definition update_user_flags ::
  "(teamdb \<Rightarrow> teamdb option) \<Rightarrow> teamdb option \<Rightarrow> runlog \<Rightarrow> (int \<times> teamdb option \<times> runlog) option" where
  "update_user_flags refresh tdb s =
    (case tdb of
       None \<Rightarrow> Some (0, tdb, s)
     | Some t \<Rightarrow>
       (case user_flags s of
          Some f \<Rightarrow> Some (0, tdb, s)
        | None \<Rightarrow>
          (case teamdb_get_user_status_map refresh t of
             None \<Rightarrow> None
           | Some (r, flags, t') \<Rightarrow>
             if r < 0 then Some (-1, Some t', s)
             else Some (1, Some t', s\<lparr>user_flags := Some flags\<rparr>))))"

text \<open>The registered user database tells the log of a change.\<close>

definition teamdb_update_callback :: "runlog \<Rightarrow> runlog" where
  "teamdb_update_callback s = s\<lparr>user_flags := None\<rparr>"

text \<open>A user whose successes do not count: unknown, unregistered, banned or invisible.\<close>

definition user_shown :: "int list option \<Rightarrow> int \<Rightarrow> bool" where
  "user_shown uf uid =
    (let flags = (case uf of None \<Rightarrow> [] | Some f \<Rightarrow> f)
     in \<not> (uid \<le> 0 \<or> uid \<ge> int (length flags) \<or> flags ! nat uid < 0
           \<or> has (word_of_int (flags ! nat uid)) TEAM_BANNED
           \<or> has (word_of_int (flags ! nat uid)) TEAM_INVISIBLE))"

definition prev_successes_step ::
  "int list option \<Rightarrow> run_entry list \<Rightarrow> nat \<Rightarrow> nat \<Rightarrow> int \<times> int list \<Rightarrow> (int \<times> int list) ctl" where
  "prev_successes_step uf arr rid i st =
    (case st of (successes, has_success) \<Rightarrow>
      if re_status (arr ! i) \<noteq> RUN_OK then Next st
      else if re_is_hidden (arr ! i) \<noteq> 0 then Next st
      else if re_prob_id (arr ! i) \<noteq> re_prob_id (arr ! rid) then Next st
      else
        (let cur = re_user_id (arr ! i) in
         if \<not> user_shown uf cur then Next st
         else if cur = re_user_id (arr ! rid) then Stop st
         else if has_success ! nat cur \<noteq> 0 then Next st
         else Next (successes + 1, has_success[nat cur := 1])))"

definition run_get_prev_successes ::
  "(teamdb \<Rightarrow> teamdb option) \<Rightarrow> int \<Rightarrow> teamdb option \<times> runlog \<Rightarrow> (int \<times> teamdb option \<times> runlog) option" where
  "run_get_prev_successes refresh rid st =
    (case st of (tdb, s) \<Rightarrow>
      if rid < 0 \<or> rid \<ge> int (run_u s) then Some (-1, st)
      else if re_status (runs s ! nat rid) \<noteq> RUN_OK then Some (-1, st)
      else if re_is_hidden (runs s ! nat rid) \<noteq> 0 then Some (RUN_TOO_MANY, st)
      else case update_user_flags refresh tdb s of
        None \<Rightarrow> None
      | Some (r, tdb', s') \<Rightarrow>
        if r < 0 then Some (-1, tdb', s')
        else if \<not> user_shown (user_flags s') (re_user_id (runs s' ! nat rid))
        then Some (RUN_TOO_MANY, tdb', s')
        else
          Some (fst (fold_ctl (prev_successes_step (user_flags s') (runs s') (nat rid)) [0..<nat rid]
                  (0, replicate (length (the (user_flags s'))) 0)), tdb', s'))"

end
