(* ===== verification/Query_Laws.thy ===== *)
theory Query_Laws
  imports Run_Queries
begin

text \<open>
  What the queries answer, in terms of the log: every query through the index of a user is a count,
  a search or a test over the runs of that user in the log, and leaves the log alone.
\<close>

section \<open>A small log\<close>

text \<open>Five runs of two users, for the concrete instances below.\<close>

definition ex_run :: "int \<Rightarrow> int \<Rightarrow> int \<Rightarrow> int \<Rightarrow> run_entry" where
  "ex_run rid uid prob st =
     zero_entry\<lparr>re_run_id := rid, re_time := 100 + rid, re_user_id := uid, re_prob_id := prob,
       re_status := st, re_size := 10\<rparr>"

definition ex_log :: runlog where
  "ex_log = run_init\<lparr>run_u := 5, runs :=
     [ex_run 0 1 1 RUN_WRONG_ANSWER_ERR, ex_run 1 2 1 RUN_OK, ex_run 2 1 1 RUN_DISQUALIFIED,
      ex_run 3 1 2 RUN_OK, ex_run 4 1 1 RUN_OK]\<rparr>"

lemma index_inv_fresh:
  "ut_table s = [] \<Longrightarrow> wf_runs s \<Longrightarrow> run_extra_u s \<le> length (run_extras s) \<Longrightarrow> index_inv s"
  by (auto simp: index_inv_def ut_lookup_def)

lemma ex_log_inv: "index_inv ex_log"
  by (rule index_inv_fresh) (simp_all add: ex_log_def run_init_def wf_runs_def)

lemma ex_run_simps [simp]:
  "re_run_id (ex_run r u p st) = r" "re_user_id (ex_run r u p st) = u" "re_prob_id (ex_run r u p st) = p"
  "re_status (ex_run r u p st) = st" "re_size (ex_run r u p st) = 10" "re_is_hidden (ex_run r u p st) = 0"
  "re_time (ex_run r u p st) = 100 + r" "re_lang_id (ex_run r u p st) = 0" "re_sha1 (ex_run r u p st) = zero_sha1"
  "re_a (ex_run r u p st) = zero_quad" "re_variant (ex_run r u p st) = 0"
  "re_run_uuid (ex_run r u p st) = zero_quad" "re_store_flags (ex_run r u p st) = 0"
  by (simp_all add: ex_run_def zero_entry_def)

lemma ex_log_runs:
  "runs ex_log = [ex_run 0 1 1 RUN_WRONG_ANSWER_ERR, ex_run 1 2 1 RUN_OK, ex_run 2 1 1 RUN_DISQUALIFIED,
      ex_run 3 1 2 RUN_OK, ex_run 4 1 1 RUN_OK]" "run_u ex_log = 5"
  by (simp_all add: ex_log_def run_init_def)

lemma upt_five: "[0..<5] = [0, 1, 2, 3, 4 :: nat]"
  by (simp add: upt_rec_numeral upt_rec)

lemmas ex_log_simps = ex_log_runs ex_log_inv in_log_def upt_five indexed_status_iff

section \<open>Counting over the index\<close>

abbreviation user_run :: "runlog \<Rightarrow> int \<Rightarrow> nat \<Rightarrow> bool" where
  "user_run s uid i \<equiv> i < run_u s \<and> re_user_id (runs s ! i) = uid \<and> indexed_status (re_status (runs s ! i))"

lemma length_filter_upt: "length (filter P [0..<n]) = card {i. i < n \<and> P i}"
proof -
  have "length (filter P [0..<n]) = card (set (filter P [0..<n]))"
    by (rule distinct_card [symmetric]) simp
  also have "set (filter P [0..<n]) = {i. i < n \<and> P i}" by auto
  finally show ?thesis .
qed

lemma count_user_ids:
  "length (filter P (user_ids s uid)) = card {i. user_run s uid i \<and> P i}"
  unfolding user_ids_def filter_filter length_filter_upt by (rule arg_cong [where f = card]) auto

lemma sorted_user_ids [simp]: "sorted_wrt (<) (user_ids s uid)"
  by (simp add: user_ids_def sorted_wrt_filter)

lemma set_user_ids: "set (user_ids s uid) = {i. user_run s uid i}"
  by (auto simp: user_ids_def)

lemma user_run_filter:
  "{i. user_run s uid i \<and> P i} = set (filter (\<lambda>i. re_user_id (runs s ! i) = uid
     \<and> indexed_status (re_status (runs s ! i)) \<and> P i) [0..<run_u s])"
  by auto

lemma fold_at_until:
  assumes "sorted_wrt (<) xs"
  shows "fst (fold_at (\<lambda>x a. if int x \<ge> r then Stop a else Next (g x a)) xs a)
    = fold g (filter (\<lambda>x. int x < r) xs) a"
  using assms
proof (induction xs arbitrary: a)
  case Nil
  then show ?case by simp
next
  case (Cons x xs)
  show ?case
  proof (cases "int x \<ge> r")
    case True
    then have "filter (\<lambda>x. int x < r) xs = []" using Cons.prems by (auto simp: filter_empty_conv)
    then show ?thesis using True by simp
  next
    case False
    then show ?thesis using Cons by simp
  qed
qed

lemma fold_count2:
  "fold (\<lambda>x (n, m). if P x then (n, m) else if Q x then (n, m + 1) else (n + 1, m)) xs (n :: int, m :: int)
    = (n + int (length (filter (\<lambda>x. \<not> P x \<and> \<not> Q x) xs)), m + int (length (filter (\<lambda>x. \<not> P x \<and> Q x) xs)))"
  by (induction xs arbitrary: n m) auto

section \<open>Attempts\<close>

text \<open>Which earlier runs of the same user and problem are attempts before run \<open>rid\<close>.\<close>

definition counts_as_attempt :: "int \<Rightarrow> run_entry \<Rightarrow> run_entry \<Rightarrow> bool" where
  "counts_as_attempt skip_ce sample re \<longleftrightarrow>
     re_prob_id re = re_prob_id sample \<and> \<not> virtual_status (re_status re)
     \<and> re_status re \<noteq> RUN_IGNORED \<and> re_is_hidden re = 0
     \<and> (skip_ce \<noteq> 0 \<longrightarrow> re_status re \<notin> {RUN_COMPILE_ERR, RUN_STYLE_ERR, RUN_REJECTED})"

lemma attempts_step_eq:
  "attempts_step rid sample skip_ce i re nm =
    (if i \<ge> rid then Stop nm
     else Next ((\<lambda>(n, m). if \<not> counts_as_attempt skip_ce sample re then (n, m)
       else if re_status re = RUN_DISQUALIFIED then (n, m + 1) else (n + 1, m)) nm))"
  by (cases nm) (auto simp: attempts_step_def counts_as_attempt_def)

text \<open>
  C19: the attempts and the disqualified attempts that \<open>run_get_attempts\<close> reports for a run are the
  numbers of the user's earlier runs on the same problem that count as attempts, whatever the state of
  the user's index (stale or valid) was; the log is unchanged and the index stays consistent.
\<close>

theorem run_get_attempts_count:
  fixes s :: runlog and skip_ce rid :: int
  assumes "index_inv s" "in_log s rid" "re_user_id (runs s ! nat rid) > 0"
    "re_status (runs s ! nat rid) \<notin> {20, 21, 22}"
  defines "sample \<equiv> runs s ! nat rid"
  defines "A \<equiv> {i. user_run s (re_user_id sample) i \<and> int i < rid \<and> counts_as_attempt skip_ce sample (runs s ! i)}"
  shows "\<exists>s'. run_get_attempts rid skip_ce s =
      Some ((0, int (card {i \<in> A. re_status (runs s ! i) \<noteq> RUN_DISQUALIFIED}),
             int (card {i \<in> A. re_status (runs s ! i) = RUN_DISQUALIFIED})), s')
    \<and> index_inv s' \<and> base s' = base s"
proof -
  let ?u = "re_user_id sample" and ?f = "attempts_step rid sample skip_ce"
  let ?P = "\<lambda>x. \<not> counts_as_attempt skip_ce sample (runs s ! x)"
  let ?Q = "\<lambda>x. re_status (runs s ! x) = RUN_DISQUALIFIED"
  obtain s' where s': "scan_first get_user_entry ?u (\<lambda>s'. own s' ?u ?f) (0, 0) s
      = Some (fold_at (\<lambda>x. ?f (int x) (runs s ! x)) (user_ids s ?u) (0, 0), s')" "index_inv s'" "base s' = base s"
    using idx.scan_first_own [OF assms(1), of ?u ?f "(0, 0)"] assms(3) unfolding sample_def by blast
  have "fst (fold_at (\<lambda>x. ?f (int x) (runs s ! x)) (user_ids s ?u) (0, 0))
      = fold (\<lambda>x (n, m). if ?P x then (n, m) else if ?Q x then (n, m + 1) else (n + 1, m))
          (filter (\<lambda>x. int x < rid) (user_ids s ?u)) (0, 0)"
    unfolding attempts_step_eq by (rule fold_at_until) simp
  also have "\<dots> = (int (card {i \<in> A. \<not> ?Q i}), int (card {i \<in> A. ?Q i}))"
    unfolding fold_count2 filter_filter count_user_ids A_def
    by simp
  finally have f: "fst (fold_at (\<lambda>x. ?f (int x) (runs s ! x)) (user_ids s ?u) (0, 0))
      = (int (card {i \<in> A. \<not> ?Q i}), int (card {i \<in> A. ?Q i}))" .
  have "run_get_attempts rid skip_ce s = Some ((0, int (card {i \<in> A. \<not> ?Q i}), int (card {i \<in> A. ?Q i})), s')"
    using s'(1) f assms(2,4) unfolding run_get_attempts_def Let_def sample_def [symmetric]
    by (cases "fold_at (\<lambda>x. ?f (int x) (runs s ! x)) (user_ids s ?u) (0, 0)")
      (auto simp: in_log_def sample_def)
  then show ?thesis using s'(2,3) by blast
qed

theorem run_get_attempts_count_witness:
  "\<exists>s'. run_get_attempts 4 0 ex_log = Some ((0, 1, 1), s') \<and> index_inv s'"
proof -
  let ?A = "{i. user_run ex_log (re_user_id (runs ex_log ! nat 4)) i \<and> int i < 4
     \<and> counts_as_attempt 0 (runs ex_log ! nat 4) (runs ex_log ! i)}"
  have A: "?A = {0, 2}"
    unfolding user_run_filter by (simp add: ex_log_simps counts_as_attempt_def virtual_status_def)
  have "{i \<in> {0, 2 :: nat}. re_status (runs ex_log ! i) \<noteq> RUN_DISQUALIFIED} = {0}"
    "{i \<in> {0, 2 :: nat}. re_status (runs ex_log ! i) = RUN_DISQUALIFIED} = {2}"
    by (auto simp: ex_log_runs)
  moreover have "in_log ex_log 4" "re_user_id (runs ex_log ! nat 4) > 0"
    "re_status (runs ex_log ! nat 4) \<notin> {20, 21, 22}"
    by (simp_all add: in_log_def ex_log_runs)
  ultimately show ?thesis
    using run_get_attempts_count [OF ex_log_inv, of 4 0] unfolding A by auto
qed

section \<open>Counts\<close>

lemma fold_at_count_if:
  assumes "\<And>x (b :: int). x \<in> set xs \<Longrightarrow> f x b = Next (if P x then b + 1 else b)"
  shows "fold_at f xs n = (n + int (length (filter P xs)), -1)"
  using assms by (induction xs arbitrary: n) auto

text \<open>
  \<open>run_count_all_attempts\<close> is the number of indexed runs of the user that are not virtual start or
  stop events, restricted to the problem when one is given.
\<close>

theorem run_count_all_attempts_card:
  assumes "index_inv s" "uid > 0"
  shows "\<exists>s'. run_count_all_attempts uid prob_id s =
      Some (int (card {i. user_run s uid i \<and> re_status (runs s ! i) \<notin> {20, 21}
        \<and> (prob_id \<le> 0 \<or> re_prob_id (runs s ! i) = prob_id)}), s') \<and> index_inv s' \<and> base s' = base s"
proof -
  let ?f = "\<lambda>i re (n :: int).
      if re_status re > RUN_MAX_STATUS \<and> re_status re < RUN_TRANSIENT_FIRST then Next n
      else if prob_id \<le> 0 \<or> re_prob_id re = prob_id then Next (n + 1) else Next n"
  let ?P = "\<lambda>i. re_status (runs s ! i) \<notin> {20, 21} \<and> (prob_id \<le> 0 \<or> re_prob_id (runs s ! i) = prob_id)"
  obtain s' where s': "scan_first get_user_entry uid (\<lambda>s'. own s' uid ?f) 0 s
      = Some (fold_at (\<lambda>x. ?f (int x) (runs s ! x)) (user_ids s uid) 0, s')" "index_inv s'" "base s' = base s"
    using idx.scan_first_own [OF assms, of ?f 0] by blast
  have "fold_at (\<lambda>x. ?f (int x) (runs s ! x)) (user_ids s uid) 0
      = (0 + int (length (filter ?P (user_ids s uid))), -1)"
    by (rule fold_at_count_if) (auto simp: set_user_ids indexed_status_iff)
  then show ?thesis
    using s' by (simp add: run_count_all_attempts_def assert_end_def count_user_ids)
qed

theorem run_count_all_attempts_card_witness:
  "\<exists>s'. run_count_all_attempts 1 1 ex_log = Some (3, s') \<and> index_inv s'"
proof -
  have X: "{i. user_run ex_log 1 i \<and> re_status (runs ex_log ! i) \<notin> {20, 21}
        \<and> ((1 :: int) \<le> 0 \<or> re_prob_id (runs ex_log ! i) = 1)} = {0, 2, 4}"
    unfolding user_run_filter by (simp add: ex_log_simps)
  show ?thesis using run_count_all_attempts_card [OF ex_log_inv, of 1 1] unfolding X by auto
qed

lemma fold_sum2:
  "fold (\<lambda>x (n, z). if P x then (n, z) else (n + 1, z + g x)) xs (n :: int, z :: int)
    = (n + int (length (filter (\<lambda>x. \<not> P x) xs)), z + (\<Sum>x\<leftarrow>filter (\<lambda>x. \<not> P x) xs. g x))"
  by (induction xs arbitrary: n z) auto

text \<open>
  \<open>run_get_team_usage\<close> reports the number of the user's submits and the sum of their sizes.
\<close>

theorem run_get_team_usage_sum:
  assumes "index_inv s" "uid > 0"
  defines "A \<equiv> {i. user_run s uid i \<and> re_status (runs s ! i) \<notin> {20, 21}}"
  shows "\<exists>s'. run_get_team_usage uid s =
      Some ((int (card A), \<Sum>i \<in> A. re_size (runs s ! i)), s') \<and> index_inv s' \<and> base s' = base s"
proof -
  let ?V = "\<lambda>x. virtual_status (re_status (runs s ! x))"
  let ?f = "\<lambda>(i :: int) re (n :: int, sz :: int).
      Next (if virtual_status (re_status re) then (n, sz) else (n + 1, sz + re_size re))"
  let ?ids = "filter (\<lambda>x. \<not> ?V x) (user_ids s uid)"
  obtain s' where s': "scan_first get_user_entry uid (\<lambda>s'. own s' uid ?f) (0, 0) s
      = Some (fold_at (\<lambda>x. ?f (int x) (runs s ! x)) (user_ids s uid) (0, 0), s')" "index_inv s'" "base s' = base s"
    using idx.scan_first_own [OF assms(1,2), of ?f "(0, 0)"] by blast
  have "fold_at (\<lambda>x. ?f (int x) (runs s ! x)) (user_ids s uid) (0, 0)
      = (fold (\<lambda>x (n, z). if ?V x then (n, z) else (n + 1, z + re_size (runs s ! x))) (user_ids s uid) (0, 0), -1)"
    by (rule fold_at_next) auto
  also have "\<dots> = ((int (length ?ids), \<Sum>x\<leftarrow>?ids. re_size (runs s ! x)), -1)"
    unfolding fold_sum2 by simp
  also have "length ?ids = card A"
    unfolding count_user_ids A_def by (rule arg_cong [where f = card]) (auto simp: virtual_status_def)
  also have "(\<Sum>x\<leftarrow>?ids. re_size (runs s ! x)) = (\<Sum>i \<in> A. re_size (runs s ! i))"
  proof -
    have "set ?ids = A" by (auto simp: set_user_ids A_def virtual_status_def)
    then show ?thesis by (subst sum_list_distinct_conv_sum_set) simp_all
  qed
  finally show ?thesis using s' by (simp add: run_get_team_usage_def)
qed

theorem run_get_team_usage_sum_witness:
  "\<exists>s'. run_get_team_usage 1 ex_log = Some ((4, 40), s') \<and> index_inv s'"
proof -
  have X: "{i. user_run ex_log 1 i \<and> re_status (runs ex_log ! i) \<notin> {20, 21}} = {0, 2, 3, 4}"
    unfolding user_run_filter by (simp add: ex_log_simps)
  have S: "(\<Sum>i \<in> {0, 2, 3, 4 :: nat}. re_size (runs ex_log ! i)) = 40" by (simp add: ex_log_runs)
  show ?thesis using run_get_team_usage_sum [OF ex_log_inv, of 1] unfolding X S by auto
qed

section \<open>Searches\<close>

lemma find_rev_max:
  assumes "sorted_wrt (<) xs" "find P (rev xs) = Some (x :: nat)"
  shows "x \<in> set xs \<and> P x \<and> (\<forall>y \<in> set xs. P y \<longrightarrow> y \<le> x)"
  using assms
proof (induction xs rule: rev_induct)
  case Nil
  then show ?case by simp
next
  case (snoc a xs)
  have "\<forall>y \<in> set xs. y < a" "sorted_wrt (<) xs" using snoc.prems by (auto simp: sorted_wrt_append)
  then show ?case using snoc.IH snoc.prems(2) by (cases "P a") auto
qed

text \<open>The runs of the same user that run \<open>rid\<close> duplicates.\<close>

definition duplicates :: "runlog \<Rightarrow> nat \<Rightarrow> nat set" where
  "duplicates s rid = {i. user_run s (re_user_id (runs s ! rid)) i \<and> i < rid
     \<and> re_status (runs s ! i) \<notin> {20, 21} \<and> same_submit (runs s ! rid) (runs s ! i)}"

text \<open>
  C20: \<open>run_check_duplicate\<close> on an indexed run finds exactly the latest earlier run of the user with the
  same size, address word, hash, problem, language and variant: it answers 0 and changes nothing when
  there is none, and otherwise marks the run IGNORED through the storage plugin and answers that run's
  id plus one (or -1 when the write fails).
\<close>

theorem run_check_duplicate_search:
  assumes "index_inv s" "user_run s (re_user_id (runs s ! rid)) rid" "re_user_id (runs s ! rid) > 0"
  defines "D \<equiv> duplicates s rid"
  shows "\<exists>s'. index_inv s' \<and> base s' = base s \<and> run_check_duplicate (int rid) s =
    (if D = {} then Some (0, s')
     else map_option (\<lambda>(r, s''). (if r < 0 then -1 else int (Max D) + 1, s''))
            (set_status_func RUN_IGNORED (int rid) s'))"
proof -
  let ?u = "re_user_id (runs s ! rid)"
  let ?f = "\<lambda>(i :: int) q (u :: unit). if virtual_status (re_status q) then Next u
                else if same_submit (runs s ! rid) q then Stop u else Next u"
  let ?P = "\<lambda>i. \<not> virtual_status (re_status (runs s ! i)) \<and> same_submit (runs s ! rid) (runs s ! i)"
  obtain ue s' where u: "get_user_entry ?u s = Some (ue, s')" "ue_run_id_valid ue > 0" "index_inv s'"
    "base s' = base s" "linked s' (user_ids s ?u) ue"
    using idx.acquire_ok [OF assms(1,3)] by blast
  have "rid \<in> set (user_ids s ?u)" using assms(2) by (simp add: set_user_ids)
  then obtain xs ys where xs: "user_ids s ?u = xs @ rid # ys" by (meson split_list)
  have mem: "x \<in> set (user_ids s ?u)" if "x \<in> set xs" for x using that xs by simp
  have srt: "sorted_wrt (<) (xs @ rid # ys)" using sorted_user_ids [of s ?u] unfolding xs .
  have xs_set: "set xs = {i. user_run s ?u i \<and> i < rid}"
  proof -
    have "set (xs @ rid # ys) = {i. user_run s ?u i}" unfolding xs [symmetric] by (rule set_user_ids)
    moreover have "\<forall>x \<in> set xs. x < rid" "\<forall>y \<in> set ys. rid < y" using srt by (auto simp: sorted_wrt_append)
    ultimately show ?thesis
      by (metis (no_types, lifting) Collect_cong Un_iff insert_iff list.simps(15) mem_Collect_eq
          not_less_iff_gr_or_eq set_append Collect_mem_eq)
  qed
  have D: "D = {i \<in> set xs. ?P i}" unfolding D_def duplicates_def xs_set by (auto simp: virtual_status_def)
  have "Option.bind (prev_run s' (int rid)) (\<lambda>i0. chain_loop (prev_run s') (own s' ?u ?f) i0 ())
      = Some (fold_at (\<lambda>x. ?f (int x) (runs s ! x)) (rev xs) ())"
    by (rule idx.chain_before [OF u(5) xs]) (rule idx.own_ids [OF assms(1) u(4) mem])
  also have "(\<lambda>x. ?f (int x) (runs s ! x)) = (\<lambda>x r. if ?P x then Stop () else Next r)"
    by (intro ext) auto
  also have "fold_at \<dots> (rev xs) () = (case find ?P (rev xs) of None \<Rightarrow> ((), -1) | Some x \<Rightarrow> ((), int x))"
    by (rule fold_at_find)
  finally have c: "Option.bind (prev_run s' (int rid)) (\<lambda>i0. chain_loop (prev_run s') (own s' ?u ?f) i0 ())
      = Some (case find ?P (rev xs) of None \<Rightarrow> ((), -1) | Some x \<Rightarrow> ((), int x))" .
  have r: "runs s' = runs s" "run_u s' = run_u s" using baseD(2,3) [OF u(4)] by auto
  have R: "run_check_duplicate (int rid) s =
      Option.bind (Some (case find ?P (rev xs) of None \<Rightarrow> ((), -1) | Some x \<Rightarrow> ((), int x))) (\<lambda>(u, i).
               if i < -1 then None
               else if i < 0 then Some (0, s')
               else map_option (\<lambda>(r, s''). (if r < 0 then -1 else i + 1, s''))
                      (set_status_func RUN_IGNORED (int rid) s'))"
    using assms(2) u(1,2) unfolding run_check_duplicate_def Let_def with_user_def nat_int c [symmetric] by simp
  show ?thesis
  proof (cases "find ?P (rev xs)")
    case None
    then have "D = {}" unfolding D find_None_iff by auto
    then show ?thesis using R None u(3,4) by auto
  next
    case (Some x)
    have x: "x \<in> D" "\<forall>y \<in> D. y \<le> x"
      using find_rev_max [of xs ?P x] srt Some D by (auto simp: sorted_wrt_append)
    have "finite D" unfolding D by simp
    then have "Max D = x" using x by (intro Max_eqI) auto
    then show ?thesis using R Some x u(3,4) by auto
  qed
qed

lemma fold_at_window:
  assumes "sorted_wrt R xs" "\<And>x y. R x y \<Longrightarrow> out (int x) \<Longrightarrow> out (int y)"
  shows "fst (fold_at (\<lambda>x r. if out (int x) then Stop r else if skip (int x) then Next r
        else if m x then Stop (int x) else Next r) xs r)
    = (case find (\<lambda>x. \<not> out (int x) \<and> \<not> skip (int x) \<and> m x) xs of None \<Rightarrow> r | Some x \<Rightarrow> int x)"
  using assms(1)
proof (induction xs)
  case Nil
  then show ?case by simp
next
  case (Cons x xs)
  have "\<forall>y \<in> set xs. out (int y)" if "out (int x)" using that Cons.prems assms(2) by auto
  then have "find (\<lambda>x. \<not> out (int x) \<and> \<not> skip (int x) \<and> m x) xs = None" if "out (int x)"
    using that by (auto simp: find_None_iff)
  then show ?case using Cons by auto
qed

lemma find_min:
  assumes "sorted_wrt (<) xs" "find P xs = Some (x :: nat)"
  shows "x \<in> set xs \<and> P x \<and> (\<forall>y \<in> set xs. P y \<longrightarrow> x \<le> y)"
  using assms by (induction xs) (auto split: if_splits)

lemma find_Min_Max:
  assumes "sorted_wrt (<) (xs :: nat list)"
  shows "(case find P xs of None \<Rightarrow> -1 | Some x \<Rightarrow> int x)
      = (if {x \<in> set xs. P x} = {} then -1 else int (Min {x \<in> set xs. P x}))"
    "(case find P (rev xs) of None \<Rightarrow> -1 | Some x \<Rightarrow> int x)
      = (if {x \<in> set xs. P x} = {} then -1 else int (Max {x \<in> set xs. P x}))"
proof -
  show "(case find P xs of None \<Rightarrow> -1 | Some x \<Rightarrow> int x)
      = (if {x \<in> set xs. P x} = {} then -1 else int (Min {x \<in> set xs. P x}))"
  proof (cases "find P xs")
    case None
    then have "{x \<in> set xs. P x} = {}" by (auto simp: find_None_iff)
    then show ?thesis using None by simp
  next
    case (Some x)
    then have x: "x \<in> set xs \<and> P x \<and> (\<forall>y \<in> set xs. P y \<longrightarrow> x \<le> y)" by (rule find_min [OF assms])
    then have "Min {x \<in> set xs. P x} = x" by (intro Min_eqI) auto
    then show ?thesis using Some x by auto
  qed
  show "(case find P (rev xs) of None \<Rightarrow> -1 | Some x \<Rightarrow> int x)
      = (if {x \<in> set xs. P x} = {} then -1 else int (Max {x \<in> set xs. P x}))"
  proof (cases "find P (rev xs)")
    case None
    then have "{x \<in> set xs. P x} = {}" by (auto simp: find_None_iff)
    then show ?thesis using None by simp
  next
    case (Some x)
    then have x: "x \<in> set xs \<and> P x \<and> (\<forall>y \<in> set xs. P y \<longrightarrow> y \<le> x)" by (rule find_rev_max [OF assms])
    then have "Max {x \<in> set xs. P x} = x" by (intro Max_eqI) auto
    then show ?thesis using Some x by auto
  qed
qed

theorem run_check_duplicate_search_witness:
  "\<exists>s'. index_inv s' \<and> runs s' = runs ex_log \<and> run_check_duplicate (int 4) ex_log =
     map_option (\<lambda>(r, s''). (if r < 0 then -1 else 3, s'')) (set_status_func RUN_IGNORED (int 4) s')"
proof -
  have D: "duplicates ex_log 4 = {0, 2}"
    unfolding duplicates_def user_run_filter by (simp add: ex_log_simps same_submit_def)
  have "user_run ex_log (re_user_id (runs ex_log ! 4)) 4" "re_user_id (runs ex_log ! 4) > 0"
    by (simp_all add: ex_log_simps)
  note W = this
  have M: "int (Max {0, 2 :: nat}) + 1 = 3" by simp
  note W = run_check_duplicate_search [OF ex_log_inv W, unfolded D M]
  obtain s' where s': "index_inv s'" "base s' = base ex_log" "run_check_duplicate (int 4) ex_log =
     map_option (\<lambda>(r, s''). (if r < 0 then -1 else 3, s'')) (set_status_func RUN_IGNORED (int 4) s')"
    using W by auto
  then show ?thesis using baseD(2) [OF s'(2)] by auto
qed

definition window :: "int \<Rightarrow> int \<Rightarrow> nat set" where
  "window a b = {i. min a b \<le> int i \<and> int i \<le> max a b}"

text \<open>The runs a search of one user looks for.\<close>

definition hits :: "runlog \<Rightarrow> int \<Rightarrow> int \<Rightarrow> int \<Rightarrow> int \<Rightarrow> int \<Rightarrow> nat set" where
  "hits s first0 last0 uid prob_id lang_id =
     {i \<in> window (clamp_run (run_u s) first0) (clamp_run (run_u s) last0).
        user_run s uid i \<and> run_matches prob_id lang_id (runs s ! i)}"

definition nearest :: "int \<Rightarrow> int \<Rightarrow> nat set \<Rightarrow> int" where
  "nearest a b H = (if H = {} then -1 else if a \<le> b then int (Min H) else int (Max H))"

lemma find_body_ids:
  assumes "index_inv s" "base s' = base s" "x \<in> set (user_ids s uid)"
  shows "find_body out skip prob_id lang_id s' (int x) r =
    Some (if out (int x) then Stop r else if skip (int x) then Next r
        else if run_matches prob_id lang_id (runs s ! x) then Stop (int x) else Next r)"
proof -
  have "x < length (runs s)" using user_ids_lt [OF assms(3)] assms(1) by (simp add: index_inv_def wf_runs_def)
  then show ?thesis using baseD(2) [OF assms(2)] by (simp add: find_body_def)
qed

text \<open>
  C7: \<open>run_find\<close> for one user, on a range given forwards or backwards with negative ends counted from
  the end of the log, returns the matching run of the user that is nearest to the start of the range,
  with its uuid and storage flags, or -1 when the range holds none.
\<close>

theorem run_find_user_scan:
  assumes "index_inv s" "uid > 0" "run_u s > 0"
  shows "\<exists>s' i. run_find first0 last0 uid prob_id lang_id s =
      Some ((i, if i < 0 then None else Some (re_run_uuid (runs s ! nat i), re_store_flags (runs s ! nat i))), s')
    \<and> i = nearest (clamp_run (run_u s) first0) (clamp_run (run_u s) last0) (hits s first0 last0 uid prob_id lang_id)
    \<and> index_inv s' \<and> base s' = base s"
proof -
  let ?a = "clamp_run (run_u s) first0" and ?b = "clamp_run (run_u s) last0"
  let ?m = "\<lambda>x. run_matches prob_id lang_id (runs s ! x)"
  let ?f = "\<lambda>out skip x r. if out (int x) then Stop r else if skip (int x) then Next r
        else if ?m x then Stop (int x) else Next r"
  let ?ids = "user_ids s uid"
  show ?thesis
  proof (cases "?a \<le> ?b")
    case True
    let ?out = "\<lambda>i. i > ?b" and ?skip = "\<lambda>i. i < ?a"
    have "\<exists>s'. scan_first get_user_entry uid (find_body ?out ?skip prob_id lang_id) (-1) s
        = Some (fold_at (?f ?out ?skip) ?ids (-1), s') \<and> index_inv s' \<and> base s' = base s \<and> virt s' = virt s"
      by (rule idx.scan_first [OF assms(1,2)]) (rule find_body_ids [OF assms(1)])
    then obtain s' where s': "scan_first get_user_entry uid (find_body ?out ?skip prob_id lang_id) (-1) s
        = Some (fold_at (?f ?out ?skip) ?ids (-1), s')" "index_inv s'" "base s' = base s" by blast
    have "fst (fold_at (?f ?out ?skip) ?ids (-1)) =
        (case find (\<lambda>x. \<not> ?out (int x) \<and> \<not> ?skip (int x) \<and> ?m x) ?ids of None \<Rightarrow> -1 | Some x \<Rightarrow> int x)"
      by (rule fold_at_window [where R = "(<)"]) auto
    also have "{x \<in> set ?ids. \<not> ?out (int x) \<and> \<not> ?skip (int x) \<and> ?m x} = hits s first0 last0 uid prob_id lang_id"
      using True unfolding hits_def window_def set_user_ids by auto
    then have "(case find (\<lambda>x. \<not> ?out (int x) \<and> \<not> ?skip (int x) \<and> ?m x) ?ids of None \<Rightarrow> -1 | Some x \<Rightarrow> int x)
        = nearest ?a ?b (hits s first0 last0 uid prob_id lang_id)"
      unfolding find_Min_Max(1) [OF sorted_user_ids] nearest_def using True by simp
    finally show ?thesis
      using s' assms(2,3) True baseD(2) [OF s'(3)]
      by (cases "fold_at (?f ?out ?skip) ?ids (-1)") (simp add: run_find_def Let_def)
  next
    case False
    let ?out = "\<lambda>i. i < ?b" and ?skip = "\<lambda>i. i > ?a"
    have "\<exists>s'. scan_last get_user_entry uid (find_body ?out ?skip prob_id lang_id) (-1) s
        = Some (fold_at (?f ?out ?skip) (rev ?ids) (-1), s') \<and> index_inv s' \<and> base s' = base s \<and> virt s' = virt s"
      by (rule idx.scan_last [OF assms(1,2)]) (rule find_body_ids [OF assms(1)])
    then obtain s' where s': "scan_last get_user_entry uid (find_body ?out ?skip prob_id lang_id) (-1) s
        = Some (fold_at (?f ?out ?skip) (rev ?ids) (-1), s')" "index_inv s'" "base s' = base s" by blast
    have "fst (fold_at (?f ?out ?skip) (rev ?ids) (-1)) =
        (case find (\<lambda>x. \<not> ?out (int x) \<and> \<not> ?skip (int x) \<and> ?m x) (rev ?ids) of None \<Rightarrow> -1 | Some x \<Rightarrow> int x)"
      by (rule fold_at_window [where R = "(>)"]) (auto simp: sorted_wrt_rev)
    also have "{x \<in> set ?ids. \<not> ?out (int x) \<and> \<not> ?skip (int x) \<and> ?m x} = hits s first0 last0 uid prob_id lang_id"
      using False unfolding hits_def window_def set_user_ids by auto
    then have "(case find (\<lambda>x. \<not> ?out (int x) \<and> \<not> ?skip (int x) \<and> ?m x) (rev ?ids) of None \<Rightarrow> -1 | Some x \<Rightarrow> int x)
        = nearest ?a ?b (hits s first0 last0 uid prob_id lang_id)"
      unfolding find_Min_Max(2) [OF sorted_user_ids] nearest_def using False by simp
    finally show ?thesis
      using s' assms(2,3) False baseD(2) [OF s'(3)]
      by (cases "fold_at (?f ?out ?skip) (rev ?ids) (-1)") (simp add: run_find_def Let_def)
  qed
qed

theorem run_find_user_scan_witness:
  "\<exists>s'. run_find (-1) 0 1 1 0 ex_log = Some ((4, Some (zero_quad, 0)), s') \<and> index_inv s'"
proof -
  have c: "clamp_run (run_u ex_log) (-1) = 4" "clamp_run (run_u ex_log) 0 = 0"
    by (simp_all add: clamp_run_def ex_log_runs)
  have "hits ex_log (-1) 0 1 1 0 = {0, 2, 4}"
  proof -
    have "hits ex_log (-1) 0 1 1 0 = {i. user_run ex_log 1 i \<and> 0 \<le> int i \<and> int i \<le> 4
        \<and> run_matches 1 0 (runs ex_log ! i)}"
      unfolding hits_def window_def c by auto
    then show ?thesis unfolding user_run_filter by (simp add: ex_log_simps run_matches_def)
  qed
  then have "nearest 4 0 (hits ex_log (-1) 0 1 1 0) = 4" by (simp add: nearest_def)
  then show ?thesis
    using run_find_user_scan [OF ex_log_inv, of 1 "-1" 0 1 0] unfolding c by (auto simp: ex_log_runs)
qed

section \<open>Previous successes\<close>

text \<open>A success that counts on the problem of run \<open>rid\<close>.\<close>

definition shown_success :: "int list option \<Rightarrow> run_entry list \<Rightarrow> nat \<Rightarrow> nat \<Rightarrow> bool" where
  "shown_success uf arr rid i \<longleftrightarrow> re_status (arr ! i) = RUN_OK \<and> re_is_hidden (arr ! i) = 0
     \<and> re_prob_id (arr ! i) = re_prob_id (arr ! rid) \<and> user_shown uf (re_user_id (arr ! i))"

lemma prev_successes_step_eq:
  "prev_successes_step uf arr rid i (n, hs) =
    (if \<not> shown_success uf arr rid i then Next (n, hs)
     else if re_user_id (arr ! i) = re_user_id (arr ! rid) then Stop (n, hs)
     else if hs ! nat (re_user_id (arr ! i)) \<noteq> 0 then Next (n, hs)
     else Next (n + 1, hs[nat (re_user_id (arr ! i)) := 1]))"
  by (auto simp: prev_successes_step_def shown_success_def Let_def)

lemma prev_successes_loop:
  assumes "finite S" "length hs = length (the uf)"
    "\<And>u. user_shown uf u \<Longrightarrow> hs ! nat u \<noteq> 0 \<longleftrightarrow> u \<in> S"
  shows "fst (fold_ctl (prev_successes_step uf arr rid) xs (int (card S), hs)) =
    int (card (S \<union> (\<lambda>i. re_user_id (arr ! i)) `
      {i \<in> set (takeWhile (\<lambda>i. \<not> (shown_success uf arr rid i \<and> re_user_id (arr ! i) = re_user_id (arr ! rid))) xs).
         shown_success uf arr rid i}))"
  using assms
proof (induction xs arbitrary: S hs)
  case Nil
  then show ?case by simp
next
  case (Cons i xs)
  let ?u = "re_user_id (arr ! i)" and ?own = "re_user_id (arr ! rid)"
  let ?A = "\<lambda>xs. {i \<in> set (takeWhile (\<lambda>i. \<not> (shown_success uf arr rid i \<and> re_user_id (arr ! i) = ?own)) xs).
         shown_success uf arr rid i}"
  consider "\<not> shown_success uf arr rid i" | "shown_success uf arr rid i" "?u = ?own"
    | "shown_success uf arr rid i" "?u \<noteq> ?own" "?u \<in> S"
    | "shown_success uf arr rid i" "?u \<noteq> ?own" "?u \<notin> S" by blast
  then show ?case
  proof cases
    case 1
    then have "?A (i # xs) = ?A xs" by auto
    then show ?thesis using Cons.IH [OF Cons.prems] 1 by (simp add: prev_successes_step_eq)
  next
    case 2
    then show ?thesis by (simp add: prev_successes_step_eq)
  next
    case 3
    have sh: "user_shown uf ?u" using 3(1) by (simp add: shown_success_def)
    have "S \<union> (\<lambda>i. re_user_id (arr ! i)) ` ?A (i # xs) = S \<union> (\<lambda>i. re_user_id (arr ! i)) ` ?A xs"
      using 3 by auto
    then show ?thesis using Cons.IH [OF Cons.prems] 3 Cons.prems(3) [OF sh] by (simp add: prev_successes_step_eq)
  next
    case 4
    have sh: "user_shown uf ?u" using 4(1) by (simp add: shown_success_def)
    have len: "0 < ?u" "?u < int (length hs)"
      using sh Cons.prems(2) by (auto simp: user_shown_def Let_def split: option.splits)
    have "hs[nat ?u := 1] ! nat u \<noteq> 0 \<longleftrightarrow> u \<in> insert ?u S" if "user_shown uf u" for u
    proof -
      have "0 < u" using that by (simp add: user_shown_def Let_def)
      then have "nat ?u = nat u \<longleftrightarrow> u = ?u" using len by auto
      then show ?thesis using len Cons.prems(3) [OF that] by (auto simp: nth_list_update nat_less_iff)
    qed
    then have IH: "fst (fold_ctl (prev_successes_step uf arr rid) xs (int (card (insert ?u S)), hs[nat ?u := 1]))
        = int (card (insert ?u S \<union> (\<lambda>i. re_user_id (arr ! i)) ` ?A xs))"
      using Cons.prems(1,2) by (intro Cons.IH) auto
    have "S \<union> (\<lambda>i. re_user_id (arr ! i)) ` ?A (i # xs) = insert ?u S \<union> (\<lambda>i. re_user_id (arr ! i)) ` ?A xs"
      using 4 by auto
    moreover have "int (card (insert ?u S)) = int (card S) + 1" using 4(3) Cons.prems(1) by simp
    ultimately show ?thesis using IH 4 Cons.prems(3) [OF sh] by (simp add: prev_successes_step_eq)
  qed
qed

lemma set_takeWhile_upt: "set (takeWhile P [0..<n]) = {i. i < n \<and> (\<forall>j \<le> i. P j)}"
proof (induction n)
  case (Suc n)
  show ?case
  proof (cases "\<forall>j < n. P j")
    case True
    then have "takeWhile P [0..<Suc n] = [0..<n] @ takeWhile P [n]" by (simp add: takeWhile_append)
    then show ?thesis using True by (auto simp: less_Suc_eq le_less)
  next
    case False
    then obtain j where "j \<in> set [0..<n]" "\<not> P j" by auto
    then have "takeWhile P [0..<Suc n] = takeWhile P [0..<n]"
      unfolding upt_Suc_append [OF le0] by (rule takeWhile_append1)
    then show ?thesis using Suc False by (auto simp: less_Suc_eq)
  qed
qed simp

lemma update_user_flags_log:
  "update_user_flags refresh tdb s = Some (r, tdb', s') \<Longrightarrow> runs s' = runs s \<and> run_u s' = run_u s"
  by (auto simp: update_user_flags_def split: option.splits if_splits)



section \<open>Users\<close>

definition log_users :: "runlog \<Rightarrow> int set" where
  "log_users s = {re_user_id e | e. e \<in> set (log s) \<and> re_status e \<noteq> RUN_EMPTY \<and> re_user_id e > 0}"

lemma log_users_image:
  "log_users s = re_user_id ` set (filter (\<lambda>e. re_status e \<noteq> RUN_EMPTY \<and> re_user_id e > 0) (log s))"
  by (auto simp: log_users_def)

lemma finite_log_users [simp]: "finite (log_users s)"
  unfolding log_users_image by simp

lemma Max_insert_max:
  "finite G \<Longrightarrow> Max (insert m (insert b G)) = Max (insert (max m b) (G :: int set))"
  by (cases "G = {}") (simp_all add: max.assoc)

lemma fold_max:
  fixes m :: int
  assumes "m \<ge> 0"
  shows "fold (\<lambda>p m. if P p \<and> g p > 0 \<and> g p > m then g p else m) xs m
    = Max (insert m (g ` {p \<in> set xs. P p \<and> g p > 0}))"
  using assms
proof (induction xs arbitrary: m)
  case Nil
  then show ?case by simp
next
  case (Cons x xs)
  let ?G = "g ` {p \<in> set xs. P p \<and> g p > 0}"
  have fin: "finite ?G" by simp
  show ?case
  proof (cases "P x \<and> g x > 0")
    case True
    then have G: "g ` {p \<in> set (x # xs). P p \<and> g p > 0} = insert (g x) ?G" by auto
    have "Max (insert m (insert (g x) ?G)) = Max (insert (max m (g x)) ?G)"
      using fin by (rule Max_insert_max)
    moreover have "(if g x > m then g x else m) = max m (g x)" by simp
    ultimately show ?thesis using Cons.IH [of "max m (g x)"] Cons.prems True unfolding G by simp
  next
    case False
    then have "g ` {p \<in> set (x # xs). P p \<and> g p > 0} = ?G" by auto
    then show ?thesis using False Cons by auto
  qed
qed

lemma run_get_max_user_id_fresh:
  assumes "max_user_id s < 0"
  shows "run_get_max_user_id s = (Max (insert 0 (log_users s)), s\<lparr>max_user_id := Max (insert 0 (log_users s))\<rparr>)"
proof -
  have "log_users s = re_user_id ` {p \<in> set (log s). re_status p \<noteq> RUN_EMPTY \<and> re_user_id p > 0}"
    by (auto simp: log_users_def)
  then show ?thesis using assms by (simp add: run_get_max_user_id_def Let_def fold_max)
qed

text \<open>The cache of the largest user id is right or empty; the cached count of users likewise.\<close>

definition caches_ok :: "runlog \<Rightarrow> bool" where
  "caches_ok s \<longleftrightarrow> (max_user_id s \<ge> 0 \<longrightarrow> max_user_id s = Max (insert 0 (log_users s)))
     \<and> (user_count s \<ge> 0 \<longrightarrow> user_count s = int (card (log_users s)))"

lemma mark_loop:
  assumes "\<And>p. p \<in> set ps \<Longrightarrow> P p \<Longrightarrow> nat (g p) < length m"
  shows "fold (\<lambda>p m. if P p then m[nat (g p) := (1 :: int)] else m) ps m
    = map (\<lambda>u. if \<exists>p \<in> set ps. P p \<and> nat (g p) = u then 1 else m ! u) [0..<length m]"
  using assms
proof (induction ps arbitrary: m)
  case Nil
  then show ?case by (simp add: map_nth)
next
  case (Cons p ps)
  show ?case
  proof (cases "P p")
    case True
    then have "nat (g p) < length m" using Cons.prems [of p] by simp
    then show ?thesis using True Cons by (auto simp: nth_list_update)
  next
    case False
    then show ?thesis using Cons by auto
  qed
qed

lemma fold_add_sum: "fold (\<lambda>u n. n + f u) xs (n :: int) = n + sum_list (map f xs)"
  by (induction xs arbitrary: n) simp_all

lemma count_indicator: "sum_list (map (\<lambda>u. if P u then 1 else 0 :: int) xs) = int (length (filter P xs))"
  by (induction xs) simp_all

text \<open>
  C8: \<open>run_get_total_users\<close>, with the count not cached, returns the number of distinct users with a
  non-EMPTY run, and leaves both caches right; the log is not changed.
\<close>

theorem run_get_total_users_count:
  assumes "user_count s < 0" "max_user_id s \<ge> 0 \<longrightarrow> max_user_id s = Max (insert 0 (log_users s))"
  shows "\<exists>s'. run_get_total_users s = (int (card (log_users s)), s') \<and> caches_ok s' \<and> log s' = log s"
proof -
  let ?mx = "Max (insert 0 (log_users s))"
  obtain s1 where s1: "run_get_max_user_id s = (?mx, s1)" "log s1 = log s" "max_user_id s1 = ?mx"
    using assms(2) run_get_max_user_id_fresh [of s]
    by (cases "max_user_id s < 0") (auto simp: run_get_max_user_id_def log_update_frame)
  have mx: "0 \<le> ?mx" "u \<in> log_users s \<Longrightarrow> u \<le> ?mx" for u by simp_all
  let ?P = "\<lambda>p. re_status p \<noteq> RUN_EMPTY \<and> re_user_id p > 0 \<and> re_user_id p < ?mx + 1"
  let ?n = "nat (?mx + 1)"
  let ?map = "fold (\<lambda>p map. if ?P p then map[nat (re_user_id p) := 1] else map) (log s) (replicate ?n (0 :: int))"
  have map: "?map = map (\<lambda>u. if \<exists>p \<in> set (log s). ?P p \<and> nat (re_user_id p) = u then 1 else 0) [0..<?n]"
    by (subst mark_loop) (auto intro!: map_cong)
  have users: "(\<exists>p \<in> set (log s). ?P p \<and> nat (re_user_id p) = u) \<longleftrightarrow> int u \<in> log_users s" for u
  proof
    assume "\<exists>p \<in> set (log s). ?P p \<and> nat (re_user_id p) = u"
    then obtain p where "p \<in> set (log s)" "?P p" "int u = re_user_id p" by auto
    then show "int u \<in> log_users s" unfolding log_users_def by blast
  next
    assume u: "int u \<in> log_users s"
    then obtain p where p: "p \<in> set (log s)" "int u = re_user_id p" "re_status p \<noteq> RUN_EMPTY" "re_user_id p > 0"
      unfolding log_users_def by blast
    moreover have "re_user_id p < ?mx + 1" using mx(2) [OF u] p(2) by linarith
    moreover have "nat (re_user_id p) = u" using p(2) by linarith
    ultimately show "\<exists>p \<in> set (log s). ?P p \<and> nat (re_user_id p) = u" by blast
  qed
  have "fold (\<lambda>u n. n + ?map ! u) [1..<?n] (0 :: int) = int (length (filter (\<lambda>u. int u \<in> log_users s) [1..<?n]))"
    unfolding map users fold_add_sum count_indicator [symmetric] add_0
    by (intro arg_cong [where f = sum_list] map_cong) auto
  also have "length (filter (\<lambda>u. int u \<in> log_users s) [1..<?n]) = card (log_users s)"
  proof -
    have "length (filter (\<lambda>u. int u \<in> log_users s) [1..<?n]) = card {u. 1 \<le> u \<and> u < ?n \<and> int u \<in> log_users s}"
      by (subst distinct_card [symmetric]) (auto intro!: arg_cong [where f = card])
    also have "\<dots> = card (int ` {u. 1 \<le> u \<and> u < ?n \<and> int u \<in> log_users s})"
      by (rule card_image [symmetric]) simp
    also have "int ` {u. 1 \<le> u \<and> u < ?n \<and> int u \<in> log_users s} = log_users s"
    proof
      show "log_users s \<subseteq> int ` {u. 1 \<le> u \<and> u < ?n \<and> int u \<in> log_users s}"
      proof
        fix u assume u: "u \<in> log_users s"
        then have "0 < u" "u \<le> ?mx" using mx(2) by (auto simp: log_users_def)
        then show "u \<in> int ` {u. 1 \<le> u \<and> u < ?n \<and> int u \<in> log_users s}"
          using u by (intro image_eqI [of _ _ "nat u"]) auto
      qed
    qed auto
    finally show ?thesis .
  qed
  finally have cnt: "fold (\<lambda>u n. n + ?map ! u) [1..<?n] (0 :: int) = int (card (log_users s))" .
  have zero: "card (log_users s) = 0" if "\<not> ?mx + 1 > 1"
  proof -
    have "u \<notin> log_users s" for u
    proof
      assume u: "u \<in> log_users s"
      then have "u > 0" by (auto simp: log_users_def)
      then show False using mx(2) [OF u] that by linarith
    qed
    then have "log_users s = {}" by blast
    then show ?thesis by simp
  qed
  have "run_get_total_users s = (int (card (log_users s)), s1\<lparr>user_count := int (card (log_users s))\<rparr>)"
    using assms(1) cnt zero unfolding run_get_total_users_def s1(1) Let_def
    by (auto simp: s1(2))
  moreover have "log_users (s1\<lparr>user_count := c\<rparr>) = log_users s" for c
    by (simp add: log_users_def s1(2) log_update_frame)
  ultimately show ?thesis using s1 by (auto simp: caches_ok_def log_update_frame)
qed

theorem run_get_total_users_count_witness:
  "\<exists>s'. run_get_total_users ex_log = (2, s') \<and> caches_ok s'"
proof -
  have "log_users ex_log = {1, 2}"
    unfolding log_users_image by (auto simp: log_def ex_log_runs)
  moreover have "user_count ex_log < 0" "max_user_id ex_log < 0" by (simp_all add: ex_log_def run_init_def)
  ultimately show ?thesis using run_get_total_users_count [of ex_log] by auto
qed

end
