(* ===== verification/Uuid_Hash.thy ===== *)
theory Uuid_Hash
  imports Query_Laws
begin

text \<open>
  The index of runs by UUID of \<open>runlog.c\<close>: an open-addressing hash table with linear probing, its
  size one of a list of primes, rebuilt from the log when it is absent or half full.
\<close>

section \<open>Probing\<close>

definition primes :: "int list" where
  "primes = [4099, 8209, 16411, 32771, 65537, 131101, 262147, 524309, 1048583, 2097169, 4194319,
     8388617, 16777259, 0]"

type_synonym uuid_hash = "uuid_hash_entry list"

definition uuid_home :: "quad \<Rightarrow> uuid_hash \<Rightarrow> nat" where
  "uuid_home q h = unat (quad0 q) mod length h"

text \<open>
  \<open>while (hash[index].run_id >= 0) { if (uuid matches) ...; index = (index + 1) % size; }\<close>: the slot
  where the loop is left, either a free one or the one that holds the UUID.
\<close>

partial_function (option) uuid_probe :: "quad \<Rightarrow> uuid_hash \<Rightarrow> nat \<Rightarrow> nat option" where
  "uuid_probe q h i =
    (if length h \<le> i then None
     else if uh_run_id (h ! i) < 0 then Some i
     else if uh_uuid (h ! i) = q then Some i
     else uuid_probe q h (Suc i mod length h))"

definition uuid_locate :: "quad \<Rightarrow> uuid_hash \<Rightarrow> nat option" where
  "uuid_locate q h = (if h = [] then None else uuid_probe q h (uuid_home q h))"

definition run_find_run_id_by_uuid :: "quad \<Rightarrow> runlog \<Rightarrow> int option" where
  "run_find_run_id_by_uuid q s =
    (if uuid_hash_state s \<le> 0 then Some (-1)
     else case uuid_locate q (uuid_hash s) of
       None \<Rightarrow> None
     | Some i \<Rightarrow>
         Some (if uh_run_id (uuid_hash s ! i) \<ge> 0 then uh_run_id (uuid_hash s ! i) else -1))"

definition run_drop_uuid_hash :: "runlog \<Rightarrow> runlog" where
  "run_drop_uuid_hash s =
    (if uuid_hash_state s < 0 then s
     else s\<lparr>uuid_hash_state := 0, uuid_hash_used := 0, uuid_hash := []\<rparr>)"

definition run_get_uuid_hash_state :: "runlog \<Rightarrow> int" where
  "run_get_uuid_hash_state s = uuid_hash_state s"

section \<open>Building the table\<close>

definition hashed_status :: "int \<Rightarrow> bool" where
  "hashed_status st \<longleftrightarrow>
     \<not> (st < 0 \<or> (st > RUN_MAX_STATUS \<and> st < RUN_TRANSIENT_FIRST) \<or> st > RUN_LAST)"

fun pick_prime :: "int list \<Rightarrow> int \<Rightarrow> int" where
  "pick_prime [] n = 0"
| "pick_prime (p # ps) n = (if p > 0 \<and> 2 * n \<ge> p then pick_prime ps n else p)"

definition free_slot :: uuid_hash_entry where
  "free_slot = \<lparr>uh_run_id = -1, uh_uuid = zero_quad\<rparr>"

definition uuid_put :: "nat \<Rightarrow> quad \<Rightarrow> int \<Rightarrow> uuid_hash \<Rightarrow> uuid_hash" where
  "uuid_put j q rid h = h[j := \<lparr>uh_run_id = rid, uh_uuid = q\<rparr>]"

text \<open>
  The filling loop: the outer \<open>None\<close> is a probe that does not end, the inner one a UUID collision.
\<close>

fun fill_hash ::
  "(quad \<Rightarrow> uuid_hash \<Rightarrow> nat option) \<Rightarrow> run_entry list \<Rightarrow> nat list \<Rightarrow> uuid_hash \<times> nat
     \<Rightarrow> (uuid_hash \<times> nat) option option" where
  "fill_hash locate arr [] hc = Some (Some hc)"
| "fill_hash locate arr (i # is) (h, c) =
    (if \<not> hashed_status (re_status (arr ! i)) then fill_hash locate arr is (h, c)
     else case locate (re_run_uuid (arr ! i)) h of
       None \<Rightarrow> None
     | Some j \<Rightarrow>
         if uh_run_id (h ! j) \<ge> 0 then Some None
         else fill_hash locate arr is (uuid_put j (re_run_uuid (arr ! i)) (int i) h, Suc c))"

definition build_uuid_hash :: "int \<Rightarrow> runlog \<Rightarrow> runlog option" where
  "build_uuid_hash incr s0 =
    (let s = s0\<lparr>uuid_hash_state := -1, uuid_hash_used := 0, uuid_hash := []\<rparr>;
         es = filter (\<lambda>e. hashed_status (re_status e)) (log s)
     in if \<exists>e \<in> set es. re_run_uuid e = zero_quad then Some s
        else
          (let hash_size = pick_prime primes (int (length es) + incr)
           in if hash_size \<le> 0 then Some s
              else
                (case fill_hash uuid_locate (runs s) [0..<run_u s] (replicate (nat hash_size) free_slot, 0) of
                   None \<Rightarrow> None
                 | Some None \<Rightarrow> Some s
                 | Some (Some (h, c)) \<Rightarrow>
                     if c = length es then
                       Some (s\<lparr>uuid_hash_state := 1, uuid_hash_used := c, uuid_hash := h\<rparr>)
                     else None)))"

definition find_free_uuid_hash_index :: "quad \<Rightarrow> runlog \<Rightarrow> (int \<times> runlog) option" where
  "find_free_uuid_hash_index q s =
    (if uuid_hash_state s < 0 then Some (-1, s)
     else
       (case (if uuid_hash_state s = 0
                 \<or> 2 * (int (uuid_hash_used s) + 1) \<ge> int (length (uuid_hash s))
              then build_uuid_hash 1 s else Some s) of
          None \<Rightarrow> None
        | Some s' \<Rightarrow>
            if uuid_hash_state s' < 0 then Some (-1, s')
            else (case uuid_locate q (uuid_hash s') of
                    None \<Rightarrow> None
                  | Some j \<Rightarrow> Some (if uh_run_id (uuid_hash s' ! j) \<ge> 0 then -1 else int j, s'))))"

section \<open>The interface of the table\<close>

text \<open>A table that holds exactly the runs of \<open>I\<close> with a hashed status, by their UUID.\<close>

definition indexes ::
  "(uuid_hash \<Rightarrow> quad \<Rightarrow> int option) \<Rightarrow> run_entry list \<Rightarrow> nat set \<Rightarrow> uuid_hash \<Rightarrow> bool" where
  "indexes content arr I h \<longleftrightarrow> (\<forall>q r. content h q = Some r \<longleftrightarrow>
     0 \<le> r \<and> nat r \<in> I \<and> hashed_status (re_status (arr ! nat r)) \<and> re_run_uuid (arr ! nat r) = q)"

lemma indexesD:
  "indexes content arr I h \<Longrightarrow> content h q = Some r \<longleftrightarrow>
     0 \<le> r \<and> nat r \<in> I \<and> hashed_status (re_status (arr ! nat r)) \<and> re_run_uuid (arr ! nat r) = q"
  unfolding indexes_def by blast

lemma indexesI:
  "(\<And>q r. content h q = Some r \<longleftrightarrow>
     0 \<le> r \<and> nat r \<in> I \<and> hashed_status (re_status (arr ! nat r)) \<and> re_run_uuid (arr ! nat r) = q)
   \<Longrightarrow> indexes content arr I h"
  unfolding indexes_def by blast

text \<open>
  What the index relies on: a known UUID is located at its slot, a new one at a free slot, and storing
  it there adds exactly it, as long as another slot stays free.
\<close>

locale uuid_table =
  fixes good :: "uuid_hash \<Rightarrow> bool"
    and content :: "uuid_hash \<Rightarrow> quad \<Rightarrow> int option"
    and locate :: "quad \<Rightarrow> uuid_hash \<Rightarrow> nat option"
    and room :: "uuid_hash \<Rightarrow> nat"
  assumes locate_known: "good h \<Longrightarrow> content h q = Some r
      \<Longrightarrow> \<exists>j. locate q h = Some j \<and> j < length h \<and> uh_run_id (h ! j) = r \<and> 0 \<le> r"
    and locate_new: "good h \<Longrightarrow> content h q = None
      \<Longrightarrow> \<exists>j. locate q h = Some j \<and> j < length h \<and> uh_run_id (h ! j) < 0"
    and put_new: "good h \<Longrightarrow> content h q = None \<Longrightarrow> locate q h = Some j \<Longrightarrow> room h > 1 \<Longrightarrow> 0 \<le> r
      \<Longrightarrow> good (uuid_put j q r h) \<and> content (uuid_put j q r h) = (content h)(q \<mapsto> r)
          \<and> Suc (room (uuid_put j q r h)) = room h"
begin

lemma fill_total:
  assumes "good h" "length (filter (\<lambda>i. hashed_status (re_status (arr ! i))) is) < room h"
  shows "fill_hash locate arr is (h, c) \<noteq> None"
  using assms
proof (induction "is" arbitrary: h c)
  case Nil
  then show ?case by simp
next
  case (Cons i "is")
  let ?q = "re_run_uuid (arr ! i)"
  show ?case
  proof (cases "hashed_status (re_status (arr ! i))")
    case False
    then show ?thesis using Cons by simp
  next
    case True
    show ?thesis
    proof (cases "content h ?q")
      case None
      then obtain j where j: "locate ?q h = Some j" "uh_run_id (h ! j) < 0"
        using locate_new Cons.prems(1) by blast
      then show ?thesis
        using True Cons.prems put_new [OF Cons.prems(1) None j(1), of "int i"]
          Cons.IH [of "uuid_put j ?q (int i) h" "Suc c"] by auto
    next
      case (Some r)
      then obtain j where "locate ?q h = Some j" "uh_run_id (h ! j) \<ge> 0"
        using locate_known [OF Cons.prems(1)] by blast
      then show ?thesis using True by simp
    qed
  qed
qed

lemma indexes_put:
  assumes "indexes content arr I h" "content (uuid_put j (re_run_uuid (arr ! i)) (int i) h)
      = (content h)(re_run_uuid (arr ! i) \<mapsto> int i)" "content h (re_run_uuid (arr ! i)) = None"
    "hashed_status (re_status (arr ! i))"
  shows "indexes content arr (insert i I) (uuid_put j (re_run_uuid (arr ! i)) (int i) h)"
proof (rule indexesI)
  fix q r
  show "content (uuid_put j (re_run_uuid (arr ! i)) (int i) h) q = Some r \<longleftrightarrow>
     0 \<le> r \<and> nat r \<in> insert i I \<and> hashed_status (re_status (arr ! nat r)) \<and> re_run_uuid (arr ! nat r) = q"
  proof (cases "q = re_run_uuid (arr ! i)")
    case True
    have "\<not> (0 \<le> r \<and> nat r \<in> I \<and> hashed_status (re_status (arr ! nat r)) \<and> re_run_uuid (arr ! nat r) = q)"
      using indexesD [OF assms(1), of q r] assms(3) True by simp
    moreover have "int i = r \<longleftrightarrow> 0 \<le> r \<and> nat r = i" by auto
    ultimately show ?thesis using assms(2,4) True by auto
  next
    case False
    then have "content (uuid_put j (re_run_uuid (arr ! i)) (int i) h) q = content h q" using assms(2) by simp
    then show ?thesis using indexesD [OF assms(1), of q r] False by (cases "nat r = i") auto
  qed
qed

lemma fill_indexes:
  assumes "good h" "indexes content arr I h" "fill_hash locate arr is (h, c) = Some (Some (h', c'))"
    "length (filter (\<lambda>i. hashed_status (re_status (arr ! i))) is) < room h"
  shows "good h' \<and> indexes content arr (I \<union> set is) h'
    \<and> c' = c + length (filter (\<lambda>i. hashed_status (re_status (arr ! i))) is)
    \<and> room h' + length (filter (\<lambda>i. hashed_status (re_status (arr ! i))) is) = room h"
  using assms
proof (induction "is" arbitrary: I h c)
  case Nil
  then show ?case by simp
next
  case (Cons i "is")
  let ?q = "re_run_uuid (arr ! i)"
  note g = Cons.prems(1)
  show ?case
  proof (cases "hashed_status (re_status (arr ! i))")
    case False
    have "indexes content arr (insert i I) h"
      using indexesD [OF Cons.prems(2)] False by (intro indexesI) auto
    then show ?thesis using Cons.IH [of h "insert i I" c] Cons.prems False by simp
  next
    case True
    then obtain j where j: "locate ?q h = Some j" "uh_run_id (h ! j) < 0"
      "fill_hash locate arr is (uuid_put j ?q (int i) h, Suc c) = Some (Some (h', c'))"
      using Cons.prems(3) by (auto split: option.splits if_splits)
    have new: "content h ?q = None"
      using locate_known [OF g, of ?q] j(1,2) by (cases "content h ?q") auto
    note p = put_new [OF g new j(1), of "int i"]
    have rm: "room h > 1" using Cons.prems(4) True by simp
    have "indexes content arr (insert i I) (uuid_put j ?q (int i) h)"
      using p rm by (intro indexes_put [OF Cons.prems(2) _ new True]) simp
    then show ?thesis
      using Cons.IH [of "uuid_put j ?q (int i) h" "insert i I" "Suc c"] j(3) p rm Cons.prems(4) True by simp
  qed
qed

text \<open>Two runs with one UUID stop the filling.\<close>

lemma fill_distinct:
  assumes "good h" "indexes content arr I h" "fill_hash locate arr is (h, c) = Some (Some (h', c'))"
    "length (filter (\<lambda>i. hashed_status (re_status (arr ! i))) is) < room h" "distinct is" "set is \<inter> I = {}"
    "a \<in> I \<union> set is" "b \<in> I \<union> set is" "hashed_status (re_status (arr ! a))"
    "hashed_status (re_status (arr ! b))" "re_run_uuid (arr ! a) = re_run_uuid (arr ! b)"
  shows "a = b"
proof -
  have x: "indexes content arr (I \<union> set is) h'" using fill_indexes [OF assms(1-4)] by simp
  have "content h' (re_run_uuid (arr ! a)) = Some (int a)" "content h' (re_run_uuid (arr ! a)) = Some (int b)"
    using indexesD [OF x, of _ "int a"] indexesD [OF x, of _ "int b"] assms(7-11) by auto
  then show ?thesis by simp
qed

text \<open>Without such a pair the filling succeeds.\<close>

lemma fill_succeeds:
  assumes "good h" "indexes content arr I h"
    "length (filter (\<lambda>i. hashed_status (re_status (arr ! i))) is) < room h"
    "inj_on (\<lambda>i. re_run_uuid (arr ! i)) {i \<in> I \<union> set is. hashed_status (re_status (arr ! i))}"
    "distinct is" "set is \<inter> I = {}"
  shows "\<exists>h' c'. fill_hash locate arr is (h, c) = Some (Some (h', c'))"
  using assms
proof (induction "is" arbitrary: I h c)
  case Nil
  then show ?case by simp
next
  case (Cons i "is")
  let ?q = "re_run_uuid (arr ! i)"
  note g = Cons.prems(1)
  have dis: "distinct is" "set is \<inter> insert i I = {}" "i \<notin> I"
    "insert i I \<union> set is = I \<union> set (i # is)" using Cons.prems(5,6) by auto
  show ?case
  proof (cases "hashed_status (re_status (arr ! i))")
    case False
    have "indexes content arr (insert i I) h"
      using indexesD [OF Cons.prems(2)] False by (intro indexesI) auto
    then show ?thesis using Cons.IH [of h "insert i I" c] Cons.prems(1,3,4) False dis by simp
  next
    case True
    have new: "content h ?q = None"
    proof (rule ccontr)
      assume "content h ?q \<noteq> None"
      then obtain r where "0 \<le> r" "nat r \<in> I" "hashed_status (re_status (arr ! nat r))" "re_run_uuid (arr ! nat r) = ?q"
        using indexesD [OF Cons.prems(2)] by blast
      then have "nat r = i" using inj_onD [OF Cons.prems(4), of "nat r" i] True by auto
      then show False using \<open>nat r \<in> I\<close> dis(3) by simp
    qed
    then obtain j where j: "locate ?q h = Some j" "uh_run_id (h ! j) < 0"
      using locate_new [OF g] by blast
    note p = put_new [OF g new j(1), of "int i"]
    have rm: "room h > 1" using Cons.prems(3) True by simp
    have "indexes content arr (insert i I) (uuid_put j ?q (int i) h)"
      using p rm by (intro indexes_put [OF Cons.prems(2) _ new True]) simp
    then show ?thesis
      using Cons.IH [of "uuid_put j ?q (int i) h" "insert i I" "Suc c"] p rm j Cons.prems(3,4) True dis by simp
  qed
qed

lemma lookup:
  assumes "good h" "indexes content arr I h" "i \<in> I" "hashed_status (re_status (arr ! i))"
  shows "\<exists>j. locate (re_run_uuid (arr ! i)) h = Some j \<and> j < length h \<and> uh_run_id (h ! j) = int i"
proof -
  have "content h (re_run_uuid (arr ! i)) = Some (int i)"
    using indexesD [OF assms(2), of _ "int i"] assms(3,4) by simp
  then show ?thesis using locate_known [OF assms(1)] by blast
qed

lemma lookup_absent:
  assumes "good h" "indexes content arr I h"
    "\<And>i. i \<in> I \<Longrightarrow> hashed_status (re_status (arr ! i)) \<Longrightarrow> re_run_uuid (arr ! i) \<noteq> q"
  shows "\<exists>j. locate q h = Some j \<and> j < length h \<and> uh_run_id (h ! j) < 0"
proof -
  have "content h q = None"
  proof (cases "content h q")
    case (Some r)
    then show ?thesis using indexesD [OF assms(2), of q r] assms(3) [of "nat r"] by simp
  qed
  then show ?thesis using locate_new [OF assms(1)] by blast
qed

end

section \<open>Linear probing\<close>

definition occupied :: "uuid_hash \<Rightarrow> nat \<Rightarrow> bool" where
  "occupied h i \<longleftrightarrow> i < length h \<and> uh_run_id (h ! i) \<ge> 0"

definition room :: "uuid_hash \<Rightarrow> nat" where
  "room h = length (filter (\<lambda>e. uh_run_id e < 0) h)"

text \<open>Slot \<open>i\<close> is reached from the home of its UUID over slots that hold other UUIDs.\<close>

definition reached :: "uuid_hash \<Rightarrow> quad \<Rightarrow> nat \<Rightarrow> bool" where
  "reached h q i \<longleftrightarrow> (\<exists>k. i = (uuid_home q h + k) mod length h
     \<and> (\<forall>l < k. occupied h ((uuid_home q h + l) mod length h)
          \<and> uh_uuid (h ! ((uuid_home q h + l) mod length h)) \<noteq> q))"

definition good_hash :: "uuid_hash \<Rightarrow> bool" where
  "good_hash h \<longleftrightarrow> room h > 0 \<and> (\<forall>i. occupied h i \<longrightarrow> reached h (uh_uuid (h ! i)) i)"

definition hash_content :: "uuid_hash \<Rightarrow> quad \<Rightarrow> int option" where
  "hash_content h q =
    (case find (\<lambda>e. uh_run_id e \<ge> 0 \<and> uh_uuid e = q) h of None \<Rightarrow> None | Some e \<Rightarrow> Some (uh_run_id e))"

lemma uuid_probe_walk:
  assumes "h \<noteq> []" "\<And>l. l < k \<Longrightarrow> occupied h ((i + l) mod length h) \<and> uh_uuid (h ! ((i + l) mod length h)) \<noteq> q"
    "\<not> (occupied h ((i + k) mod length h) \<and> uh_uuid (h ! ((i + k) mod length h)) \<noteq> q)"
  shows "uuid_probe q h (i mod length h) = Some ((i + k) mod length h)"
  using assms(2,3)
proof (induction k arbitrary: i)
  case 0
  have "\<not> length h \<le> i mod length h" using assms(1) by (simp add: not_le)
  then show ?case using 0 by (subst uuid_probe.simps) (auto simp: occupied_def)
next
  case (Suc k)
  have "uuid_probe q h (Suc i mod length h) = Some ((Suc i + k) mod length h)"
  proof (rule Suc.IH)
    fix l assume "l < k"
    then show "occupied h ((Suc i + l) mod length h) \<and> uh_uuid (h ! ((Suc i + l) mod length h)) \<noteq> q"
      using Suc.prems(1) [of "Suc l"] by simp
  qed (use Suc.prems(2) in simp)
  moreover have "occupied h (i mod length h)" "uh_uuid (h ! (i mod length h)) \<noteq> q"
    using Suc.prems(1) [of 0] by auto
  moreover have "Suc (i mod length h) mod length h = Suc i mod length h" by (rule mod_Suc_eq)
  ultimately show ?case by (subst uuid_probe.simps) (auto simp: occupied_def)
qed

lemma room_pos: "room h > 0 \<longleftrightarrow> (\<exists>i < length h. \<not> occupied h i)"
  by (force simp: room_def occupied_def in_set_conv_nth filter_empty_conv)

text \<open>Some slot stops the probe, so the loop ends.\<close>

lemma probe_stops:
  assumes "room h > 0"
  shows "\<exists>k. \<not> (occupied h ((i + k) mod length h) \<and> uh_uuid (h ! ((i + k) mod length h)) \<noteq> q)"
proof -
  obtain f where f: "f < length h" "\<not> occupied h f" using assms room_pos by blast
  have "i \<le> length h * Suc i" using f(1) by (cases "length h") auto
  then have "i + (f + (length h * Suc i - i)) = f + length h * Suc i" by simp
  then have "(i + (f + (length h * Suc i - i))) mod length h = f"
    using f(1) by (simp only: mod_mult_self2 mod_less)
  then show ?thesis using f(2) by metis
qed

lemma uuid_locate_stop:
  assumes "room h > 0"
  obtains k where "uuid_locate q h = Some ((uuid_home q h + k) mod length h)"
    "\<And>l. l < k \<Longrightarrow> occupied h ((uuid_home q h + l) mod length h) \<and> uh_uuid (h ! ((uuid_home q h + l) mod length h)) \<noteq> q"
    "\<not> (occupied h ((uuid_home q h + k) mod length h) \<and> uh_uuid (h ! ((uuid_home q h + k) mod length h)) \<noteq> q)"
proof -
  let ?P = "\<lambda>k. \<not> (occupied h ((uuid_home q h + k) mod length h) \<and> uh_uuid (h ! ((uuid_home q h + k) mod length h)) \<noteq> q)"
  have ne: "h \<noteq> []" using assms by (auto simp: room_def)
  obtain k where k: "?P k" "\<And>l. l < k \<Longrightarrow> \<not> ?P l"
    using probe_stops [OF assms, of "uuid_home q h" q] exists_least_iff [of ?P] by auto
  have "uuid_probe q h (uuid_home q h mod length h) = Some ((uuid_home q h + k) mod length h)"
    by (rule uuid_probe_walk) (use ne k in auto)
  then have "uuid_locate q h = Some ((uuid_home q h + k) mod length h)"
    using ne by (simp add: uuid_locate_def uuid_home_def)
  then show ?thesis using that k by blast
qed

lemma hash_content_Some:
  assumes "hash_content h q = Some r"
  shows "\<exists>i. occupied h i \<and> uh_uuid (h ! i) = q \<and> uh_run_id (h ! i) = r"
proof -
  obtain e where "find (\<lambda>e. uh_run_id e \<ge> 0 \<and> uh_uuid e = q) h = Some e" "uh_run_id e = r"
    using assms by (auto simp: hash_content_def split: option.splits)
  then show ?thesis by (auto simp: find_Some_iff occupied_def)
qed

lemma hash_content_None:
  "hash_content h q = None \<longleftrightarrow> (\<forall>i. occupied h i \<longrightarrow> uh_uuid (h ! i) \<noteq> q)"
proof -
  have "hash_content h q = None \<longleftrightarrow> find (\<lambda>e. uh_run_id e \<ge> 0 \<and> uh_uuid e = q) h = None"
    by (simp add: hash_content_def split: option.split)
  then show ?thesis by (auto simp: find_None_iff occupied_def in_set_conv_nth)
qed

text \<open>An occupied slot with UUID \<open>q\<close> is where the probe for \<open>q\<close> stops.\<close>

lemma locate_occupied:
  assumes "good_hash h" "occupied h i" "uh_uuid (h ! i) = q"
  shows "uuid_locate q h = Some i"
proof -
  obtain k where k: "i = (uuid_home q h + k) mod length h"
    "\<forall>l < k. occupied h ((uuid_home q h + l) mod length h) \<and> uh_uuid (h ! ((uuid_home q h + l) mod length h)) \<noteq> q"
    using assms by (auto simp: good_hash_def reached_def)
  have ne: "h \<noteq> []" using assms(2) by (auto simp: occupied_def)
  have "uuid_probe q h (uuid_home q h mod length h) = Some ((uuid_home q h + k) mod length h)"
    by (rule uuid_probe_walk) (use ne k assms(2,3) in auto)
  then show ?thesis using ne k(1) by (simp add: uuid_locate_def uuid_home_def)
qed

lemma good_occupied_unique:
  assumes "good_hash h" "occupied h i" "occupied h j" "uh_uuid (h ! i) = uh_uuid (h ! j)"
  shows "i = j"
  using locate_occupied [OF assms(1,2,4)] locate_occupied [OF assms(1,3) refl] by simp

lemma hash_content_at:
  assumes "good_hash h" "occupied h i"
  shows "hash_content h (uh_uuid (h ! i)) = Some (uh_run_id (h ! i))"
proof (cases "hash_content h (uh_uuid (h ! i))")
  case None
  then show ?thesis using assms(2) hash_content_None by blast
next
  case (Some r)
  then obtain j where j: "occupied h j" "uh_uuid (h ! j) = uh_uuid (h ! i)" "uh_run_id (h ! j) = r"
    using hash_content_Some by blast
  then have "j = i" using good_occupied_unique [OF assms(1) j(1) assms(2)] by simp
  then show ?thesis using Some j(3) by simp
qed

lemma uuid_home_put [simp]: "uuid_home q (uuid_put j p r h) = uuid_home q h"
  and length_uuid_put [simp]: "length (uuid_put j p r h) = length h"
  by (simp_all add: uuid_home_def uuid_put_def)

lemma room_card: "room h = card {i. i < length h \<and> \<not> occupied h i}"
  unfolding room_def length_filter_conv_card by (rule arg_cong [where f = card]) (auto simp: occupied_def)

lemma locate_new_slot:
  assumes "good_hash h" "hash_content h q = None"
  obtains k where "uuid_locate q h = Some ((uuid_home q h + k) mod length h)"
    "\<not> occupied h ((uuid_home q h + k) mod length h)" "(uuid_home q h + k) mod length h < length h"
    "\<And>l. l < k \<Longrightarrow> occupied h ((uuid_home q h + l) mod length h) \<and> uh_uuid (h ! ((uuid_home q h + l) mod length h)) \<noteq> q"
proof -
  have r: "room h > 0" using assms(1) by (simp add: good_hash_def)
  then have "h \<noteq> []" by (auto simp: room_def)
  then have "(uuid_home q h + k) mod length h < length h" for k by simp
  then show ?thesis using uuid_locate_stop [OF r, of q] assms(2) that unfolding hash_content_None by metis
qed

lemma occupied_put:
  "j < length h \<Longrightarrow> 0 \<le> r \<Longrightarrow> occupied (uuid_put j q r h) i \<longleftrightarrow> i = j \<or> occupied h i"
  by (auto simp: occupied_def uuid_put_def nth_list_update)

lemma good_put:
  assumes "good_hash h" "hash_content h q = None" "uuid_locate q h = Some j" "room h > 1" "0 \<le> r"
  shows "good_hash (uuid_put j q r h)" "hash_content (uuid_put j q r h) = (hash_content h)(q \<mapsto> r)"
    "Suc (room (uuid_put j q r h)) = room h"
proof -
  let ?h = "uuid_put j q r h"
  obtain k where k: "j = (uuid_home q h + k) mod length h" "\<not> occupied h j" "j < length h"
    "\<And>l. l < k \<Longrightarrow> occupied h ((uuid_home q h + l) mod length h) \<and> uh_uuid (h ! ((uuid_home q h + l) mod length h)) \<noteq> q"
    using locate_new_slot [OF assms(1,2)] assms(3) by (metis option.inject)
  note occ = occupied_put [OF k(3) assms(5), of q]
  have at: "?h ! j = \<lparr>uh_run_id = r, uh_uuid = q\<rparr>" "i \<noteq> j \<Longrightarrow> ?h ! i = h ! i" for i
    using k(3) by (simp_all add: uuid_put_def)
  have "{i. i < length h \<and> \<not> occupied h i} = insert j {i. i < length h \<and> \<not> occupied ?h i}"
    using k(2,3) occ by auto
  moreover have "j \<notin> {i. i < length h \<and> \<not> occupied ?h i}" using occ by simp
  ultimately show rm: "Suc (room ?h) = room h" by (simp add: room_card)
  have step: "reached ?h p i" if ex: "\<exists>k. i = (uuid_home p h + k) mod length h \<and> (\<forall>l < k.
      occupied h ((uuid_home p h + l) mod length h) \<and> uh_uuid (h ! ((uuid_home p h + l) mod length h)) \<noteq> p)" for p i
  proof -
    obtain k' where k': "i = (uuid_home p h + k') mod length h" "\<forall>l < k'.
      occupied h ((uuid_home p h + l) mod length h) \<and> uh_uuid (h ! ((uuid_home p h + l) mod length h)) \<noteq> p"
      using ex by blast
    have "occupied ?h ((uuid_home p h + l) mod length h) \<and> uh_uuid (?h ! ((uuid_home p h + l) mod length h)) \<noteq> p"
      if "l < k'" for l
    proof -
      have o: "occupied h ((uuid_home p h + l) mod length h)" using k'(2) that by blast
      then have "(uuid_home p h + l) mod length h \<noteq> j" using k(2) by auto
      then show ?thesis using o occ at(2) k'(2) that by simp
    qed
    then show ?thesis using k'(1) unfolding reached_def by auto
  qed
  show good: "good_hash ?h"
    unfolding good_hash_def
  proof (intro conjI allI impI)
    show "room ?h > 0" using rm assms(4) by simp
    fix i assume i: "occupied ?h i"
    show "reached ?h (uh_uuid (?h ! i)) i"
    proof (cases "i = j")
      case True
      then show ?thesis using k at(1) by (intro step) auto
    next
      case False
      then have "reached h (uh_uuid (h ! i)) i" using i occ assms(1) by (simp add: good_hash_def)
      then show ?thesis using at(2) [OF False] by (intro step) (simp add: reached_def)
    qed
  qed
  show "hash_content ?h = (hash_content h)(q \<mapsto> r)"
  proof
    fix p
    have jr: "hash_content ?h q = Some r" using hash_content_at [OF good, of j] occ at(1) by simp
    show "hash_content ?h p = ((hash_content h)(q \<mapsto> r)) p"
    proof (cases "hash_content h p")
      case None
      show ?thesis
      proof (cases "p = q")
        case False
        have "uh_uuid (?h ! i) \<noteq> p" if i: "occupied ?h i" for i
        proof (cases "i = j")
          case True
          then show ?thesis using at(1) False by auto
        next
          case ne: False
          then have "occupied h i" using i occ by simp
          then show ?thesis using None hash_content_None at(2) [OF ne] by auto
        qed
        then have "hash_content ?h p = None" using hash_content_None by blast
        then show ?thesis using None False by simp
      qed (use jr in simp)
    next
      case (Some t)
      then obtain i where i: "occupied h i" "uh_uuid (h ! i) = p" "uh_run_id (h ! i) = t"
        using hash_content_Some by blast
      then have "i \<noteq> j" "p \<noteq> q" using k(2) Some assms(2) by auto
      then show ?thesis using hash_content_at [OF good, of i] occ i at(2) [OF \<open>i \<noteq> j\<close>] Some by simp
    qed
  qed
qed

interpretation tab: uuid_table good_hash hash_content uuid_locate room
proof unfold_locales
  fix h q r assume g: "good_hash h" and c: "hash_content h q = Some r"
  then obtain i where i: "occupied h i" "uh_uuid (h ! i) = q" "uh_run_id (h ! i) = r"
    using hash_content_Some by blast
  then show "\<exists>j. uuid_locate q h = Some j \<and> j < length h \<and> uh_run_id (h ! j) = r \<and> 0 \<le> r"
    using locate_occupied [OF g i(1,2)] by (auto simp: occupied_def)
next
  fix h q assume g: "good_hash h" and c: "hash_content h q = None"
  then show "\<exists>j. uuid_locate q h = Some j \<and> j < length h \<and> uh_run_id (h ! j) < 0"
    by (rule locate_new_slot) (auto simp: occupied_def)
next
  fix h q j r
  assume "good_hash h" "hash_content h q = None" "uuid_locate q h = Some j" "room h > 1" "0 \<le> (r :: int)"
  then show "good_hash (uuid_put j q r h) \<and> hash_content (uuid_put j q r h) = (hash_content h)(q \<mapsto> r)
      \<and> Suc (room (uuid_put j q r h)) = room h"
    using good_put by blast
qed

section \<open>The table of a log\<close>

text \<open>A table that is in use holds exactly the runs of the log with a hashed status, and is at most
  half full.\<close>

definition uuid_index_ok :: "runlog \<Rightarrow> bool" where
  "uuid_index_ok s \<longleftrightarrow> (uuid_hash_state s > 0 \<longrightarrow> good_hash (uuid_hash s)
     \<and> indexes hash_content (runs s) {0..<run_u s} (uuid_hash s)
     \<and> room (uuid_hash s) + uuid_hash_used s = length (uuid_hash s)
     \<and> 2 * uuid_hash_used s < length (uuid_hash s))"

definition hashed_runs :: "runlog \<Rightarrow> nat set" where
  "hashed_runs s = {i. i < run_u s \<and> hashed_status (re_status (runs s ! i))}"

lemma find_uuid_known:
  assumes "uuid_index_ok s" "uuid_hash_state s > 0" "i \<in> hashed_runs s"
  shows "run_find_run_id_by_uuid (re_run_uuid (runs s ! i)) s = Some (int i)"
proof -
  have "good_hash (uuid_hash s)" "indexes hash_content (runs s) {0..<run_u s} (uuid_hash s)"
    "i \<in> {0..<run_u s}" "hashed_status (re_status (runs s ! i))"
    using assms by (auto simp: uuid_index_ok_def hashed_runs_def)
  from tab.lookup [OF this] show ?thesis
    using assms(2) by (auto simp: run_find_run_id_by_uuid_def)
qed

lemma find_uuid_absent:
  assumes "uuid_index_ok s" "uuid_hash_state s > 0" "\<And>i. i \<in> hashed_runs s \<Longrightarrow> re_run_uuid (runs s ! i) \<noteq> q"
  shows "run_find_run_id_by_uuid q s = Some (-1)"
proof -
  have "good_hash (uuid_hash s)" "indexes hash_content (runs s) {0..<run_u s} (uuid_hash s)"
    "\<And>i. i \<in> {0..<run_u s} \<Longrightarrow> hashed_status (re_status (runs s ! i)) \<Longrightarrow> re_run_uuid (runs s ! i) \<noteq> q"
    using assms by (auto simp: uuid_index_ok_def hashed_runs_def)
  from tab.lookup_absent [OF this] show ?thesis
    using assms(2) by (auto simp: run_find_run_id_by_uuid_def)
qed

lemma pick_prime_ge: "pick_prime ps n > 0 \<Longrightarrow> 2 * n < pick_prime ps n"
  by (induction ps) (auto split: if_splits)

lemma pick_prime_primes: "2 * n < 16777259 \<Longrightarrow> pick_prime primes n > 0"
  by (simp add: primes_def)

lemma empty_table:
  assumes "n > 0"
  shows "good_hash (replicate n free_slot)" "room (replicate n free_slot) = n"
    "indexes hash_content arr {} (replicate n free_slot)"
proof -
  show r: "room (replicate n free_slot) = n" by (simp add: room_def free_slot_def)
  have o: "\<not> occupied (replicate n free_slot) i" for i by (auto simp: occupied_def free_slot_def)
  show "good_hash (replicate n free_slot)" using assms o r by (simp add: good_hash_def)
  have "hash_content (replicate n free_slot) q = None" for q using o hash_content_None by blast
  then show "indexes hash_content arr {} (replicate n free_slot)" by (intro indexesI) simp
qed

lemma in_set_log: "wf_runs s \<Longrightarrow> e \<in> set (log s) \<longleftrightarrow> (\<exists>i < run_u s. runs s ! i = e)"
  by (metis in_set_conv_nth length_log log_nth)

lemma fill_length: "fill_hash locate arr is (h, c) = Some (Some (h', c')) \<Longrightarrow> length h' = length h"
  by (induction "is" arbitrary: h c) (auto split: if_splits option.splits)

lemma filter_log_length:
  "wf_runs s \<Longrightarrow> length (filter (\<lambda>e. P e) (log s)) = length (filter (\<lambda>i. P (runs s ! i)) [0..<run_u s])"
proof -
  assume "wf_runs s"
  then have "log s = map ((!) (runs s)) [0..<run_u s]"
    by (intro nth_equalityI) simp_all
  then show ?thesis by (simp add: filter_map comp_def)
qed

text \<open>What the rebuilding needs of the log: UUIDs that are set and differ, and not too many runs.\<close>

definition can_index :: "int \<Rightarrow> runlog \<Rightarrow> bool" where
  "can_index incr s \<longleftrightarrow> (\<forall>i \<in> hashed_runs s. re_run_uuid (runs s ! i) \<noteq> zero_quad)
     \<and> inj_on (\<lambda>i. re_run_uuid (runs s ! i)) (hashed_runs s)
     \<and> pick_prime primes (int (card (hashed_runs s)) + incr) > 0"

abbreviation hash_count :: "runlog \<Rightarrow> nat" where
  "hash_count s \<equiv> length (filter (\<lambda>i. hashed_status (re_status (runs s ! i))) [0..<run_u s])"

lemma hash_count_card: "hash_count s = card (hashed_runs s)"
  unfolding length_filter_upt hashed_runs_def by simp

lemma hashed_log:
  assumes "wf_runs s"
  shows "length (filter (\<lambda>e. hashed_status (re_status e)) (log s)) = hash_count s"
    "(\<exists>e \<in> set (filter (\<lambda>e. hashed_status (re_status e)) (log s)). re_run_uuid e = zero_quad) \<longleftrightarrow>
      \<not> (\<forall>i \<in> hashed_runs s. re_run_uuid (runs s ! i) \<noteq> zero_quad)"
proof -
  show "length (filter (\<lambda>e. hashed_status (re_status e)) (log s)) = hash_count s"
    by (rule filter_log_length [OF assms])
  show "(\<exists>e \<in> set (filter (\<lambda>e. hashed_status (re_status e)) (log s)). re_run_uuid e = zero_quad) \<longleftrightarrow>
      \<not> (\<forall>i \<in> hashed_runs s. re_run_uuid (runs s ! i) \<noteq> zero_quad)"
    (is "?L \<longleftrightarrow> ?R")
  proof
    assume ?L
    then obtain e where e: "e \<in> set (log s)" "hashed_status (re_status e)" "re_run_uuid e = zero_quad"
      unfolding set_filter by blast
    then obtain i where "i < run_u s" "runs s ! i = e" using in_set_log [OF assms] by blast
    then show ?R using e(2,3) unfolding hashed_runs_def by blast
  next
    assume ?R
    then obtain i where "i < run_u s" "hashed_status (re_status (runs s ! i))" "re_run_uuid (runs s ! i) = zero_quad"
      unfolding hashed_runs_def by blast
    moreover from this have "runs s ! i \<in> set (log s)" using in_set_log [OF assms] by blast
    ultimately show ?L unfolding set_filter by blast
  qed
qed

definition fresh_table :: "int \<Rightarrow> runlog \<Rightarrow> uuid_hash" where
  "fresh_table incr s = replicate (nat (pick_prime primes (int (hash_count s) + incr))) free_slot"

definition unbuilt :: "runlog \<Rightarrow> runlog" where
  "unbuilt s = s\<lparr>uuid_hash_state := -1, uuid_hash_used := 0, uuid_hash := []\<rparr>"

lemma build_uuid_hash_eq:
  assumes "wf_runs s"
  shows "build_uuid_hash incr s =
    (if \<not> (\<forall>i \<in> hashed_runs s. re_run_uuid (runs s ! i) \<noteq> zero_quad)
        \<or> pick_prime primes (int (hash_count s) + incr) \<le> 0 then Some (unbuilt s)
     else case fill_hash uuid_locate (runs s) [0..<run_u s] (fresh_table incr s, 0) of
         None \<Rightarrow> None
       | Some None \<Rightarrow> Some (unbuilt s)
       | Some (Some (h, c)) \<Rightarrow>
           if c = hash_count s then
             Some (s\<lparr>uuid_hash_state := 1, uuid_hash_used := c, uuid_hash := h\<rparr>)
           else None)"
  unfolding build_uuid_hash_def Let_def log_update_frame hashed_log [OF assms] fresh_table_def unbuilt_def
  by (simp split: option.split)

lemma half_bound: "2 * (int a + b) < int c \<Longrightarrow> 0 \<le> b \<Longrightarrow> a < c"
  by presburger

lemma fresh_table_ok:
  assumes "0 \<le> incr" "pick_prime primes (int (hash_count s) + incr) > 0"
  shows "good_hash (fresh_table incr s)" "indexes hash_content (runs s) {} (fresh_table incr s)"
    "hash_count s < room (fresh_table incr s)" "room (fresh_table incr s) = length (fresh_table incr s)"
    "2 * (int (hash_count s) + incr) < int (length (fresh_table incr s))"
proof -
  let ?p = "pick_prime primes (int (hash_count s) + incr)"
  note t = empty_table [of "nat ?p"]
  show "good_hash (fresh_table incr s)" "indexes hash_content (runs s) {} (fresh_table incr s)"
    "room (fresh_table incr s) = length (fresh_table incr s)"
    using t assms(2) by (simp_all add: fresh_table_def)
  show "2 * (int (hash_count s) + incr) < int (length (fresh_table incr s))"
    using pick_prime_ge [OF assms(2)] by (simp add: fresh_table_def)
  then have "hash_count s < length (fresh_table incr s)"
    using assms(1) half_bound by blast
  then show "hash_count s < room (fresh_table incr s)"
    using \<open>room (fresh_table incr s) = _\<close> by (simp only:)
qed

lemma fill_log_succeeds:
  assumes "0 \<le> incr" "can_index incr s"
  shows "\<exists>h c. fill_hash uuid_locate (runs s) [0..<run_u s] (fresh_table incr s, 0) = Some (Some (h, c))"
proof (rule tab.fill_succeeds [where I = "{}"])
  have p: "pick_prime primes (int (hash_count s) + incr) > 0"
    using assms(2) by (simp only: can_index_def hash_count_card)
  note t = fresh_table_ok [OF assms(1) p]
  show "good_hash (fresh_table incr s)" "indexes hash_content (runs s) {} (fresh_table incr s)"
    "hash_count s < room (fresh_table incr s)" using t by blast+
  have "{i \<in> {} \<union> set [0..<run_u s]. hashed_status (re_status (runs s ! i))} = hashed_runs s"
    by (auto simp: hashed_runs_def)
  then show "inj_on (\<lambda>i. re_run_uuid (runs s ! i))
      {i \<in> {} \<union> set [0..<run_u s]. hashed_status (re_status (runs s ! i))}"
    using assms(2) by (simp add: can_index_def)
qed simp_all

lemma build_works:
  assumes "wf_runs s" "0 \<le> incr" "can_index incr s"
  obtains h where "build_uuid_hash incr s =
      Some (s\<lparr>uuid_hash_state := 1, uuid_hash_used := card (hashed_runs s), uuid_hash := h\<rparr>)"
    "uuid_index_ok (s\<lparr>uuid_hash_state := 1, uuid_hash_used := card (hashed_runs s), uuid_hash := h\<rparr>)"
    "2 * (int (card (hashed_runs s)) + incr) < int (length h)"
proof -
  have p: "pick_prime primes (int (hash_count s) + incr) > 0"
    and u: "\<forall>i \<in> hashed_runs s. re_run_uuid (runs s ! i) \<noteq> zero_quad"
    using assms(3) unfolding can_index_def hash_count_card by blast+
  note t = fresh_table_ok [OF assms(2) p]
  obtain h c where F: "fill_hash uuid_locate (runs s) [0..<run_u s] (fresh_table incr s, 0) = Some (Some (h, c))"
    using fill_log_succeeds [OF assms(2,3)] by blast
  have R: "good_hash h" "indexes hash_content (runs s) {0..<run_u s} h" "c = hash_count s"
    "room h + hash_count s = length h"
    using tab.fill_indexes [OF t(1,2) F t(3)] fill_length [OF F] t(4) by simp_all
  have len: "2 * (int (card (hashed_runs s)) + incr) < int (length h)"
    using t(5) fill_length [OF F] unfolding hash_count_card by simp
  let ?s' = "s\<lparr>uuid_hash_state := 1, uuid_hash_used := card (hashed_runs s), uuid_hash := h\<rparr>"
  have "build_uuid_hash incr s = Some ?s'"
    using u p F R(3) by (simp add: build_uuid_hash_eq [OF assms(1)] hash_count_card not_le)
  moreover have "uuid_index_ok ?s'"
    using R(1,2,4) len assms(2) unfolding hash_count_card by (simp add: uuid_index_ok_def)
  ultimately show thesis using that len by blast
qed

lemma build_fails:
  assumes "wf_runs s" "0 \<le> incr" "\<not> can_index incr s"
  shows "build_uuid_hash incr s = Some (unbuilt s)"
proof (cases "\<not> (\<forall>i \<in> hashed_runs s. re_run_uuid (runs s ! i) \<noteq> zero_quad)
        \<or> pick_prime primes (int (hash_count s) + incr) \<le> 0")
  case True
  then show ?thesis by (simp only: build_uuid_hash_eq [OF assms(1)] if_True)
next
  case False
  then have p: "pick_prime primes (int (hash_count s) + incr) > 0" by simp
  note t = fresh_table_ok [OF assms(2) p]
  let ?F = "fill_hash uuid_locate (runs s) [0..<run_u s] (fresh_table incr s, 0)"
  have tot: "?F \<noteq> None" by (rule tab.fill_total) (use t in auto)
  have "?F \<noteq> Some (Some (h, c))" for h c
  proof
    assume F: "?F = Some (Some (h, c))"
    have "a = b" if ab: "a \<in> hashed_runs s" "b \<in> hashed_runs s" "re_run_uuid (runs s ! a) = re_run_uuid (runs s ! b)" for a b
      using tab.fill_distinct [OF t(1,2) F t(3), of a b] ab by (auto simp: hashed_runs_def)
    then have "can_index incr s"
      using False p unfolding can_index_def hash_count_card by (auto intro!: inj_onI)
    then show False using assms(3) by simp
  qed
  then have "?F = Some None" using tot by (cases ?F) (auto, metis option.exhaust surj_pair)
  then show ?thesis using False by (simp only: build_uuid_hash_eq [OF assms(1)] if_False option.case)
qed

section \<open>Finding and reserving\<close>

lemma uuid_index_ok_frame:
  "uuid_hash_state s' = uuid_hash_state s \<Longrightarrow> uuid_hash s' = uuid_hash s
   \<Longrightarrow> uuid_hash_used s' = uuid_hash_used s \<Longrightarrow> runs s' = runs s \<Longrightarrow> run_u s' = run_u s
   \<Longrightarrow> uuid_index_ok s' = uuid_index_ok s"
  by (simp add: uuid_index_ok_def)

text \<open>What a reservation gives: a table in use with room for one more run, and the free slot of \<open>q\<close>.\<close>

definition uuid_reserved :: "quad \<Rightarrow> nat \<Rightarrow> runlog \<Rightarrow> bool" where
  "uuid_reserved q j s \<longleftrightarrow> uuid_hash_state s > 0 \<and> uuid_index_ok s
     \<and> 2 * (uuid_hash_used s + 1) < length (uuid_hash s)
     \<and> uuid_locate q (uuid_hash s) = Some j \<and> hash_content (uuid_hash s) q = None"

lemma locate_reserved:
  assumes "uuid_hash_state s > 0" "uuid_index_ok s" "2 * (uuid_hash_used s + 1) < length (uuid_hash s)"
  obtains j where "uuid_locate q (uuid_hash s) = Some j"
    "uh_run_id (uuid_hash s ! j) < 0 \<Longrightarrow> uuid_reserved q j s"
    "uh_run_id (uuid_hash s ! j) \<ge> 0 \<Longrightarrow> q \<in> (\<lambda>i. re_run_uuid (runs s ! i)) ` hashed_runs s"
proof -
  have ok: "good_hash (uuid_hash s)" "indexes hash_content (runs s) {0..<run_u s} (uuid_hash s)"
    using assms(1,2) by (simp_all add: uuid_index_ok_def)
  show thesis
  proof (cases "hash_content (uuid_hash s) q")
    case None
    then show thesis using that tab.locate_new [OF ok(1) None] assms by (auto simp: uuid_reserved_def)
  next
    case (Some r)
    have "nat r \<in> hashed_runs s" "re_run_uuid (runs s ! nat r) = q"
      using indexesD [OF ok(2), of q r] Some by (auto simp: hashed_runs_def)
    then have "q \<in> (\<lambda>i. re_run_uuid (runs s ! i)) ` hashed_runs s" by blast
    then show thesis using that tab.locate_known [OF ok(1) Some] by auto
  qed
qed

lemma find_free_ok:
  assumes "wf_runs s" "uuid_index_ok s" "uuid_hash_state s \<ge> 0"
  obtains j s' where "find_free_uuid_hash_index q s = Some (j, s')"
    "\<exists>st u h. s' = s\<lparr>uuid_hash_state := st, uuid_hash_used := u, uuid_hash := h\<rparr>"
    "uuid_index_ok s'" "0 \<le> j \<Longrightarrow> uuid_reserved q (nat j) s'"
    "j < 0 \<Longrightarrow> q \<in> (\<lambda>i. re_run_uuid (runs s ! i)) ` hashed_runs s \<or> uuid_hash_state s' = -1"
proof -
  let ?full = "uuid_hash_state s = 0 \<or> 2 * (int (uuid_hash_used s) + 1) \<ge> int (length (uuid_hash s))"
  have hr: "hashed_runs (s\<lparr>uuid_hash_state := st, uuid_hash_used := u, uuid_hash := h\<rparr>) = hashed_runs s" for st u h
    by (simp add: hashed_runs_def)
  show thesis
  proof (cases "?full \<and> \<not> can_index 1 s")
    case True
    then have "find_free_uuid_hash_index q s = Some (-1, unbuilt s)"
      using build_fails [OF assms(1), of 1] assms(3) by (simp add: find_free_uuid_hash_index_def unbuilt_def)
    moreover have "uuid_index_ok (unbuilt s)" by (simp add: uuid_index_ok_def unbuilt_def)
    moreover have "\<exists>st u h. unbuilt s = s\<lparr>uuid_hash_state := st, uuid_hash_used := u, uuid_hash := h\<rparr>"
      unfolding unbuilt_def by blast
    moreover have "uuid_hash_state (unbuilt s) = -1" by (simp add: unbuilt_def)
    ultimately show thesis by (intro that [of "-1" "unbuilt s"]) simp_all
  next
    case False
    have "\<exists>s1. (if ?full then build_uuid_hash 1 s else Some s) = Some s1 \<and> uuid_hash_state s1 > 0 \<and> uuid_index_ok s1
        \<and> 2 * (uuid_hash_used s1 + 1) < length (uuid_hash s1)
        \<and> (\<exists>st u h. s1 = s\<lparr>uuid_hash_state := st, uuid_hash_used := u, uuid_hash := h\<rparr>)"
    proof (cases ?full)
      case True
      then have can: "can_index 1 s" using False by blast
      obtain h where "build_uuid_hash 1 s =
          Some (s\<lparr>uuid_hash_state := 1, uuid_hash_used := card (hashed_runs s), uuid_hash := h\<rparr>)"
        "uuid_index_ok (s\<lparr>uuid_hash_state := 1, uuid_hash_used := card (hashed_runs s), uuid_hash := h\<rparr>)"
        "2 * (int (card (hashed_runs s)) + 1) < int (length h)"
        by (rule build_works [OF assms(1) zero_le_one can])
      then show ?thesis using True by auto
    next
      case nf: False
      have "s = s\<lparr>uuid_hash_state := uuid_hash_state s, uuid_hash_used := uuid_hash_used s, uuid_hash := uuid_hash s\<rparr>"
        by simp
      then have "\<exists>st u h. s = s\<lparr>uuid_hash_state := st, uuid_hash_used := u, uuid_hash := h\<rparr>" by blast
      then show ?thesis using nf assms(2,3) by (intro exI [of _ s] conjI) auto
    qed
    then obtain s1 st u h where s1: "(if ?full then build_uuid_hash 1 s else Some s) = Some s1"
      "uuid_hash_state s1 > 0" "uuid_index_ok s1" "2 * (uuid_hash_used s1 + 1) < length (uuid_hash s1)"
      "s1 = s\<lparr>uuid_hash_state := st, uuid_hash_used := u, uuid_hash := h\<rparr>" by blast
    obtain j where j: "uuid_locate q (uuid_hash s1) = Some j"
      "uh_run_id (uuid_hash s1 ! j) < 0 \<Longrightarrow> uuid_reserved q j s1"
      "uh_run_id (uuid_hash s1 ! j) \<ge> 0 \<Longrightarrow> q \<in> (\<lambda>i. re_run_uuid (runs s1 ! i)) ` hashed_runs s1"
      by (rule locate_reserved [OF s1(2-4)]) (use that in blast)
    have "find_free_uuid_hash_index q s =
        Some (if uh_run_id (uuid_hash s1 ! j) \<ge> 0 then -1 else int j, s1)"
      using s1(1,2) j(1) assms(3) unfolding find_free_uuid_hash_index_def by simp
    moreover have "(\<lambda>i. re_run_uuid (runs s1 ! i)) ` hashed_runs s1 = (\<lambda>i. re_run_uuid (runs s ! i)) ` hashed_runs s"
      unfolding s1(5) hr by simp
    moreover have "\<exists>st u h. s1 = s\<lparr>uuid_hash_state := st, uuid_hash_used := u, uuid_hash := h\<rparr>"
      using s1(5) by blast
    ultimately show thesis
      using s1(3) j(2,3) by (intro that [of "if uh_run_id (uuid_hash s1 ! j) \<ge> 0 then -1 else int j" s1])
        (simp_all split: if_splits)
  qed
qed

lemma uuid_locate_total: "good_hash h \<Longrightarrow> \<exists>j. uuid_locate q h = Some j"
  using tab.locate_known [of h q] tab.locate_new [of h q] by (cases "hash_content h q") auto

lemma build_total:
  assumes "wf_runs s" "0 \<le> incr"
  obtains s' where "build_uuid_hash incr s = Some s'" "uuid_hash_state s' \<noteq> 0"
    "uuid_hash_state s' > 0 \<longrightarrow> good_hash (uuid_hash s')"
proof (cases "can_index incr s")
  case True
  show ?thesis by (rule build_works [OF assms True], rule that) (auto simp: uuid_index_ok_def)
next
  case False
  show ?thesis by (rule that [OF build_fails [OF assms False]]) (simp_all add: unbuilt_def)
qed

text \<open>The probes end as long as the table is good, even when it lags behind the log.\<close>

lemma find_free_total:
  assumes "wf_runs s" "uuid_hash_state s > 0 \<longrightarrow> good_hash (uuid_hash s)"
  shows "\<exists>j s'. find_free_uuid_hash_index q s = Some (j, s')"
proof (cases "uuid_hash_state s < 0")
  case True
  then show ?thesis by (simp add: find_free_uuid_hash_index_def)
next
  case False
  let ?full = "uuid_hash_state s = 0 \<or> 2 * (int (uuid_hash_used s) + 1) \<ge> int (length (uuid_hash s))"
  obtain s1 where s1: "(if ?full then build_uuid_hash 1 s else Some s) = Some s1"
    "uuid_hash_state s1 \<noteq> 0" "uuid_hash_state s1 > 0 \<longrightarrow> good_hash (uuid_hash s1)"
  proof (cases ?full)
    case True
    show thesis by (rule build_total [OF assms(1), of 1]) (use that True in auto)
  next
    case nf: False
    show thesis by (rule that [of s]) (use nf assms(2) in auto)
  qed
  show ?thesis
  proof (cases "uuid_hash_state s1 < 0")
    case True
    then show ?thesis using s1(1) False unfolding find_free_uuid_hash_index_def by auto
  next
    case pos: False
    then obtain j where "uuid_locate q (uuid_hash s1) = Some j"
      using s1(2,3) uuid_locate_total [of "uuid_hash s1" q] by auto
    then show ?thesis using s1(1) pos False unfolding find_free_uuid_hash_index_def by auto
  qed
qed

text \<open>Storing the reserved run after it was appended to the log.\<close>

lemma uuid_index_append:
  assumes "uuid_reserved q j s" "runs s' = (runs s)[run_u s := e]" "run_u s < length (runs s)"
    "run_u s' = Suc (run_u s)" "uuid_hash s' = uuid_put j q (int (run_u s)) (uuid_hash s)"
    "uuid_hash_used s' = Suc (uuid_hash_used s)" "re_run_uuid e = q" "hashed_status (re_status e)"
  shows "uuid_index_ok s'"
proof -
  let ?n = "run_u s"
  have r: "good_hash (uuid_hash s)" "indexes hash_content (runs s) {0..<?n} (uuid_hash s)"
    "room (uuid_hash s) + uuid_hash_used s = length (uuid_hash s)"
    "2 * (uuid_hash_used s + 1) < length (uuid_hash s)"
    "uuid_locate q (uuid_hash s) = Some j" "hash_content (uuid_hash s) q = None"
    using assms(1) by (auto simp: uuid_reserved_def uuid_index_ok_def)
  have n: "runs s' ! ?n = e" "i < ?n \<Longrightarrow> runs s' ! i = runs s ! i" for i using assms(2,3) by auto
  note p = tab.put_new [OF r(1,6,5), of "int ?n"]
  have rm: "room (uuid_hash s) > 1" using r(3,4) by arith
  have "indexes hash_content (runs s') {0..<?n} (uuid_hash s)"
    using indexesD [OF r(2)] n(2) by (intro indexesI) auto
  then have "indexes hash_content (runs s') (insert ?n {0..<?n}) (uuid_put j (re_run_uuid (runs s' ! ?n)) (int ?n) (uuid_hash s))"
    using p rm r(6) n(1) assms(7,8) by (intro tab.indexes_put) simp_all
  moreover have "insert ?n {0..<?n} = {0..<Suc ?n}" by auto
  ultimately have i: "indexes hash_content (runs s') {0..<run_u s'} (uuid_hash s')"
    using n(1) assms(4,5,7) by simp
  show ?thesis
    using i p rm r(3,4) assms(5,6) by (simp add: uuid_index_ok_def)
qed

text \<open>
  C12: after \<open>build_uuid_hash\<close> on a log whose hashed runs have UUIDs that are set and all different, and
  are few enough for the table of primes, looking up the UUID of such a run gives its id and any other
  UUID gives -1; every probe of the build and of the lookups ends.
\<close>

theorem uuid_lookup_after_build:
  assumes "wf_runs s" "0 \<le> incr" "can_index incr s"
  shows "\<exists>s'. build_uuid_hash incr s = Some s' \<and> uuid_hash_state s' = 1
    \<and> (\<forall>i \<in> hashed_runs s. run_find_run_id_by_uuid (re_run_uuid (runs s ! i)) s' = Some (int i))
    \<and> (\<forall>q. q \<notin> (\<lambda>i. re_run_uuid (runs s ! i)) ` hashed_runs s \<longrightarrow> run_find_run_id_by_uuid q s' = Some (-1))"
proof -
  obtain h where h: "build_uuid_hash incr s =
      Some (s\<lparr>uuid_hash_state := 1, uuid_hash_used := card (hashed_runs s), uuid_hash := h\<rparr>)"
    "uuid_index_ok (s\<lparr>uuid_hash_state := 1, uuid_hash_used := card (hashed_runs s), uuid_hash := h\<rparr>)"
    by (rule build_works [OF assms])
  let ?s' = "s\<lparr>uuid_hash_state := 1, uuid_hash_used := card (hashed_runs s), uuid_hash := h\<rparr>"
  have hr: "hashed_runs ?s' = hashed_runs s" by (simp add: hashed_runs_def)
  have st: "uuid_hash_state ?s' > 0" by simp
  have "run_find_run_id_by_uuid (re_run_uuid (runs s ! i)) ?s' = Some (int i)" if "i \<in> hashed_runs s" for i
    using find_uuid_known [OF h(2) st, of i] that unfolding hr by simp
  moreover have "run_find_run_id_by_uuid q ?s' = Some (-1)"
    if "q \<notin> (\<lambda>i. re_run_uuid (runs s ! i)) ` hashed_runs s" for q
    using find_uuid_absent [OF h(2) st, of q] that unfolding hr by auto
  ultimately show ?thesis using h(1) by auto
qed

theorem uuid_lookup_after_build_witness:
  "\<exists>s'. build_uuid_hash 0 (ex_log\<lparr>run_u := 2, runs := [ex_run 0 1 1 0\<lparr>re_run_uuid := (7, 0, 0, 1)\<rparr>,
        ex_run 1 2 1 0\<lparr>re_run_uuid := (4106, 0, 0, 2)\<rparr>]\<rparr>) = Some s'
    \<and> run_find_run_id_by_uuid (4106, 0, 0, 2) s' = Some 1 \<and> run_find_run_id_by_uuid (7, 0, 0, 2) s' = Some (-1)"
proof -
  let ?s = "ex_log\<lparr>run_u := 2, runs := [ex_run 0 1 1 0\<lparr>re_run_uuid := (7, 0, 0, 1)\<rparr>,
        ex_run 1 2 1 0\<lparr>re_run_uuid := (4106, 0, 0, 2)\<rparr>]\<rparr>"
  have "[0..<2] = [0, 1 :: nat]" by (simp add: upt_rec_numeral upt_rec)
  moreover have "{i. i < 2 \<and> P i} = set (filter P [0..<2 :: nat])" for P by auto
  ultimately have two: "{i. i < 2 \<and> P i} = set (filter P [0, 1 :: nat])" for P by simp
  have hr: "hashed_runs ?s = {0, 1}" by (auto simp: hashed_runs_def hashed_status_def two)
  have "wf_runs ?s" by (simp add: wf_runs_def)
  moreover have "can_index 0 ?s"
    unfolding can_index_def hr by (simp add: inj_on_def primes_def)
  ultimately show ?thesis
    using uuid_lookup_after_build [of ?s 0] unfolding hr by auto
qed

end
