(* ===== verification/Runlog.thy ===== *)
theory Runlog
  imports Uuid_Hash
begin

text \<open>
  The operations of \<open>runlog.c\<close> that change the log, on top of the storage plugin, the index of users
  and the index of UUIDs.  Results are \<open>(C return value, state) option\<close> with \<open>None\<close> for a failed
  \<open>ASSERT\<close>.
\<close>

section \<open>Adding a run\<close>

record add_args =
  aa_time :: int
  aa_nsec :: int
  aa_size :: int
  aa_sha1 :: "sha1 option"
  aa_uuid :: "quad option"
  aa_ip :: "ej_ip option"
  aa_ssl :: int
  aa_locale :: int
  aa_team :: int
  aa_problem :: int
  aa_language :: int
  aa_eoln :: int
  aa_variant :: int
  aa_hidden :: int
  aa_mime :: int
  aa_store :: int

definition invalid_bool :: "int \<Rightarrow> bool" where
  "invalid_bool v \<longleftrightarrow> v < 0 \<or> v > 1"

definition invalid_bool_2 :: "int \<Rightarrow> bool" where
  "invalid_bool_2 v \<longleftrightarrow> v > 1"

definition add_record_valid :: "add_args \<Rightarrow> run_header \<Rightarrow> bool" where
  "add_record_valid a h \<longleftrightarrow>
     \<not> aa_time a \<le> 0
     \<and> (aa_hidden a = 0 \<longrightarrow> rh_start_time h \<noteq> 0 \<and> \<not> aa_time a < rh_start_time h)
     \<and> \<not> (aa_locale a < -1 \<or> aa_locale a > EJ_MAX_LOCALE_ID)
     \<and> \<not> (aa_team a \<le> 0 \<or> aa_team a > EJ_MAX_USER_ID)
     \<and> \<not> (aa_language a < 0 \<or> aa_language a > EJ_MAX_LANG_ID)
     \<and> \<not> (aa_problem a \<le> 0 \<or> aa_problem a > EJ_MAX_PROB_ID)
     \<and> \<not> (aa_variant a < 0 \<or> aa_variant a > EJ_MAX_VARIANT)
     \<and> \<not> invalid_bool (aa_hidden a)
     \<and> \<not> (aa_nsec a < 0 \<or> aa_nsec a > NSEC_MAX)
     \<and> \<not> (aa_mime a < 0 \<or> aa_mime a > EJ_MAX_MIME_TYPE)
     \<and> \<not> invalid_bool (aa_ssl a)"

text \<open>
  The time window of a visible run: the user's own contest for a virtual participant, the contest
  otherwise.  \<open>None\<close> is a rejected run.
\<close>

definition add_record_window :: "add_args \<Rightarrow> run_header \<Rightarrow> user_entry \<Rightarrow> user_entry option" where
  "add_record_window a h ue =
    (if aa_hidden a \<noteq> 0 then Some ue
     else if ue_status ue = V_VIRTUAL_USER then
       (if ue_start_time ue = 0 then None
        else if aa_time a < ue_start_time ue then None
        else
          (let stop_time = (if ue_stop_time ue = 0 \<and> rh_duration h \<noteq> 0
                            then ue_start_time ue + rh_duration h else ue_stop_time ue)
           in if stop_time \<noteq> 0 \<and> aa_time a > stop_time then None else Some ue))
     else
       (let stop_time = (if rh_stop_time h = 0 \<and> rh_duration h \<noteq> 0
                         then rh_start_time h + rh_duration h else rh_stop_time h)
        in if stop_time \<noteq> 0 \<and> aa_time a > stop_time then None
           else Some (ue\<lparr>ue_status := V_REAL_USER\<rparr>)))"

definition add_record_mask :: mask where
  "add_record_mask = RE_SIZE OR RE_LOCALE_ID OR RE_USER_ID OR RE_LANG_ID OR RE_PROB_ID OR RE_STATUS
     OR RE_TEST OR RE_SCORE OR RE_IP OR RE_SSL_FLAG OR RE_VARIANT OR RE_IS_HIDDEN OR RE_MIME_TYPE
     OR RE_EOLN_TYPE OR RE_STORE_FLAGS"

text \<open>
  The entry and its mask.  \<open>gen\<close> is the UUID that the UUID library would generate, \<open>None\<close> in a build
  without that library, where neither a given nor a generated UUID is stored.
\<close>

definition add_record_entry :: "quad option \<Rightarrow> add_args \<Rightarrow> run_entry \<times> mask" where
  "add_record_entry gen a =
    (let re = ipv6_to_run_entry (aa_ip a)
           (zero_entry\<lparr>re_size := to_u32 (aa_size a), re_locale_id := aa_locale a,
              re_user_id := aa_team a, re_lang_id := aa_language a, re_eoln_type := to_u8 (aa_eoln a),
              re_prob_id := aa_problem a, re_status := 99, re_test := 0, re_score := -1\<rparr>);
         re1 = re\<lparr>re_ssl_flag := aa_ssl a, re_variant := aa_variant a, re_is_hidden := aa_hidden a,
                  re_mime_type := aa_mime a, re_store_flags := to_u8 (aa_store a)\<rparr>;
         (re2, flags2) = (case aa_sha1 a of None \<Rightarrow> (re1, add_record_mask)
                          | Some h \<Rightarrow> (re1\<lparr>re_sha1 := h\<rparr>, add_record_mask OR RE_SHA1))
     in case gen of None \<Rightarrow> (re2, flags2)
        | Some u \<Rightarrow>
            (re2\<lparr>re_run_uuid := (case aa_uuid a of None \<Rightarrow> u | Some q \<Rightarrow> q)\<rparr>, flags2 OR RE_RUN_UUID))"

text \<open>
  The place for the UUID: \<open>Some None\<close> is an error return, \<open>Some (Some (-1))\<close> a log without a UUID
  index.
\<close>

definition reserve_uuid :: "quad \<Rightarrow> runlog \<Rightarrow> (int option \<times> runlog) option" where
  "reserve_uuid q s =
    (if uuid_hash_state s < 0 then Some (Some (-1), s)
     else if q = zero_quad then Some (None, s)
     else case find_free_uuid_hash_index q s of
       None \<Rightarrow> None
     | Some (i, s') \<Rightarrow> Some (if i < 0 then None else Some i, s'))"

definition raise_max_user_id :: "int \<Rightarrow> runlog \<Rightarrow> runlog" where
  "raise_max_user_id uid s =
    (if max_user_id s \<ge> 0 \<and> uid > max_user_id s then s\<lparr>max_user_id := uid\<rparr> else s)"

text \<open>
  \<open>for (int i = 0; i < size; ++i) if (hash[i].run_id >= i) ++hash[i].run_id;\<close>: the loop variable
  hides the position of the new run.
\<close>

definition bump_uuid_hash :: "uuid_hash \<Rightarrow> uuid_hash" where
  "bump_uuid_hash h =
     map (\<lambda>(k, e). if uh_run_id e \<ge> int k then e\<lparr>uh_run_id := uh_run_id e + 1\<rparr> else e) (enumerate 0 h)"

definition index_new_run :: "nat \<Rightarrow> int \<Rightarrow> user_entry \<Rightarrow> runlog \<Rightarrow> runlog" where
  "index_new_run i uid ue s0 =
    (let s = extend_run_extras s0 in
     if i = run_u s - 1 then
       ut_store uid
         (ue\<lparr>ue_run_id_first := (if ue_run_id_last ue < 0 then int i else ue_run_id_first ue),
             ue_run_id_last := int i\<rparr>)
         (s\<lparr>run_extras := link_last (run_extras s) (ue_run_id_last ue) i\<rparr>)
     else
       (let s1 = ut_store uid (ue\<lparr>ue_run_id_valid := 0\<rparr>)
              (s\<lparr>run_extras := (run_extras s)[i := \<lparr>prev_user_id = -1, next_user_id = -1\<rparr>]\<rparr>)
        in if uuid_hash_state s1 > 0 then s1\<lparr>uuid_hash := bump_uuid_hash (uuid_hash s1)\<rparr> else s1))"

definition store_uuid :: "int \<Rightarrow> quad \<Rightarrow> nat \<Rightarrow> runlog \<Rightarrow> runlog" where
  "store_uuid hix q i s =
    (if hix \<ge> 0 then
       s\<lparr>uuid_hash := uuid_put (nat hix) q (int i) (uuid_hash s), uuid_last_index := hix,
         uuid_last_run_id := int i, uuid_hash_used := Suc (uuid_hash_used s)\<rparr>
     else s)"

text \<open>\<open>gen\<close> and \<open>rnd\<close> are the UUID generator and the random number of the plugin.\<close>

definition run_add_record :: "quad option \<Rightarrow> nat \<Rightarrow> add_args \<Rightarrow> runlog \<Rightarrow> (int \<times> runlog) option" where
  "run_add_record gen rnd a s00 =
    (let s0 = s00\<lparr>uuid_last_index := -1, uuid_last_run_id := -1\<rparr> in
     if \<not> add_record_valid a (head s0) then Some (-1, s0)
     else with_user get_user_entry (aa_team a) s0 (\<lambda>ue s1.
       case add_record_window a (head s1) ue of
         None \<Rightarrow> Some (-1, s1)
       | Some ue1 \<Rightarrow>
         (case get_insert_run_id rnd (aa_time a) (aa_team a) (aa_nsec a) (ut_store (aa_team a) ue1 s1) of
            None \<Rightarrow> None
          | Some (i, s2) \<Rightarrow>
            if i < 0 then Some (-1, s2)
            else (case add_record_entry gen a of (re, flags) \<Rightarrow>
              (case reserve_uuid (re_run_uuid re) s2 of
                 None \<Rightarrow> None
               | Some (None, s3) \<Rightarrow> Some (-1, s3)
               | Some (Some hix, s3) \<Rightarrow>
                 (case add_entry_func i re flags
                         ((raise_max_user_id (re_user_id re) s3)\<lparr>user_count := -1\<rparr>) of
                    None \<Rightarrow> None
                  | Some (r, s4) \<Rightarrow>
                    if r < 0 then Some (-1, s4)
                    else Some (i, store_uuid hix (re_run_uuid re) (nat i)
                           (index_new_run (nat i) (aa_team a) ue1 s4))))))))"

definition run_undo_add_record :: "int \<Rightarrow> runlog \<Rightarrow> (int \<times> runlog) option" where
  "run_undo_add_record rid s =
    (if rid < 0 \<or> rid \<ge> int (run_u s) then Some (-1, s)
     else
       (let s1 = invalidate_user (re_user_id (runs s ! nat rid)) (s\<lparr>user_count := -1\<rparr>);
            s2 = (if uuid_hash_state s1 > 0 then
                    (let s2 = (if uuid_last_run_id s1 = rid
                               then s1\<lparr>uuid_hash := (uuid_hash s1)[nat (uuid_last_index s1) := free_slot],
                                       uuid_hash_used := uuid_hash_used s1 - 1\<rparr>
                               else run_drop_uuid_hash s1)
                     in s2\<lparr>uuid_last_run_id := -1, uuid_last_index := -1\<rparr>)
                  else s1)
        in undo_add_entry_func rid s2))"

section \<open>Changing the status of a run\<close>

text \<open>The checks that the four variants share.\<close>

definition may_change_status :: "int \<Rightarrow> int \<Rightarrow> runlog \<Rightarrow> bool" where
  "may_change_status rid newstatus s \<longleftrightarrow>
     \<not> (rid < 0 \<or> rid \<ge> int (run_u s))
     \<and> \<not> (newstatus < 0 \<or> newstatus > 255)
     \<and> \<not> (newstatus = RUN_VIRTUAL_START \<or> newstatus = RUN_VIRTUAL_STOP)
     \<and> newstatus \<noteq> RUN_EMPTY
     \<and> \<not> (re_status (runs s ! nat rid) = RUN_VIRTUAL_START
           \<or> re_status (runs s ! nat rid) = RUN_VIRTUAL_STOP
           \<or> re_status (runs s ! nat rid) = RUN_EMPTY)
     \<and> re_is_readonly (runs s ! nat rid) = 0"

definition valid_result :: "int \<Rightarrow> int \<Rightarrow> int \<Rightarrow> bool" where
  "valid_result newtest newscore judge_id \<longleftrightarrow>
     \<not> newtest < -1 \<and> \<not> (newscore < -1 \<or> newscore > EJ_MAX_SCORE)
     \<and> \<not> (judge_id < 0 \<or> judge_id > EJ_MAX_JUDGE_ID)"

definition run_change_status ::
  "int \<Rightarrow> int \<Rightarrow> int \<Rightarrow> int \<Rightarrow> int \<Rightarrow> int \<Rightarrow> runlog \<Rightarrow> (int \<times> runlog) option" where
  "run_change_status rid newstatus newtest newpassedmode newscore judge_id s =
    (if may_change_status rid newstatus s \<and> valid_result newtest newscore judge_id
     then change_status_func newstatus newtest newpassedmode newscore judge_id rid s
     else Some (-1, s))"

definition run_change_status_2 ::
  "int \<Rightarrow> int \<Rightarrow> int \<Rightarrow> int \<Rightarrow> int \<Rightarrow> int \<Rightarrow> int \<Rightarrow> runlog \<Rightarrow> (int \<times> runlog) option" where
  "run_change_status_2 rid newstatus newtest newpassedmode newscore judge_id is_marked s =
    (if may_change_status rid newstatus s \<and> valid_result newtest newscore judge_id
     then change_status_2_func newstatus newtest newpassedmode newscore judge_id is_marked rid s
     else Some (-1, s))"

definition run_change_status_3 ::
  "int \<Rightarrow> int \<Rightarrow> int \<Rightarrow> int \<Rightarrow> int \<Rightarrow> int \<Rightarrow> int \<Rightarrow> int \<Rightarrow> int \<Rightarrow> int \<Rightarrow> int \<Rightarrow> runlog
     \<Rightarrow> (int \<times> runlog) option" where
  "run_change_status_3 rid newstatus newtest newpassedmode newscore judge_id is_marked has_user_score
       user_status user_tests_passed user_score s =
    (if may_change_status rid newstatus s \<and> valid_result newtest newscore judge_id
     then change_status_3_func newstatus newtest newpassedmode newscore judge_id is_marked
            has_user_score user_status user_tests_passed user_score rid s
     else Some (-1, s))"

definition run_change_status_4 :: "int \<Rightarrow> int \<Rightarrow> runlog \<Rightarrow> (int \<times> runlog) option" where
  "run_change_status_4 rid newstatus s =
    (if may_change_status rid newstatus s then change_status_4_func newstatus rid s
     else Some (-1, s))"

definition run_get_status :: "int \<Rightarrow> runlog \<Rightarrow> int" where
  "run_get_status rid s =
    (if rid < 0 \<or> rid \<ge> int (run_u s) then -1 else re_status (runs s ! nat rid))"

definition run_is_imported :: "int \<Rightarrow> runlog \<Rightarrow> int" where
  "run_is_imported rid s =
    (if rid < 0 \<or> rid \<ge> int (run_u s) then -1 else re_is_imported (runs s ! nat rid))"

definition run_is_readonly :: "int \<Rightarrow> runlog \<Rightarrow> int" where
  "run_is_readonly rid s =
    (if rid < 0 \<or> rid \<ge> int (run_u s) then 1 else re_is_readonly (runs s ! nat rid))"

section \<open>The contest\<close>

definition run_start_contest :: "int \<Rightarrow> runlog \<Rightarrow> int \<times> runlog" where
  "run_start_contest t s = (if rh_start_time (head s) \<noteq> 0 then (-1, s) else start_func t s)"

definition run_stop_contest :: "int \<Rightarrow> runlog \<Rightarrow> int \<times> runlog" where
  "run_stop_contest t s = stop_func t s"

definition run_set_duration :: "int \<Rightarrow> runlog \<Rightarrow> int \<times> runlog" where
  "run_set_duration d s = set_duration_func d s"

definition run_sched_contest :: "int \<Rightarrow> runlog \<Rightarrow> int \<times> runlog" where
  "run_sched_contest t s = schedule_func t s"

definition run_set_finish_time :: "int \<Rightarrow> runlog \<Rightarrow> int \<times> runlog" where
  "run_set_finish_time t s = set_finish_time_func t s"

definition run_get_times :: "runlog \<Rightarrow> int \<times> int \<times> int \<times> int \<times> int" where
  "run_get_times s = (rh_start_time (head s), rh_sched_time (head s), rh_duration (head s),
     rh_stop_time (head s), rh_finish_time (head s))"

definition run_get_saved_times :: "runlog \<Rightarrow> int \<times> int \<times> int" where
  "run_get_saved_times s = (rh_saved_duration (head s), rh_saved_stop_time (head s),
     rh_saved_finish_time (head s))"

definition run_save_times :: "runlog \<Rightarrow> int \<times> runlog" where
  "run_save_times s =
    (if rh_saved_duration (head s) \<noteq> 0 \<or> rh_saved_stop_time (head s) \<noteq> 0
        \<or> rh_saved_finish_time (head s) \<noteq> 0
     then (0, s) else save_times_func s)"

definition run_get_fog_period :: "int \<Rightarrow> int \<Rightarrow> int \<Rightarrow> run_header \<Rightarrow> int option" where
  "run_get_fog_period cur_time fog_time unfog_time h =
    (if cur_time = 0 \<or> fog_time < 0 \<or> unfog_time < 0 then None
     else if rh_start_time h = 0 then Some (-1)
     else if fog_time = 0 \<or> rh_duration h = 0 then Some 0
     else if cur_time < rh_start_time h then None
     else if rh_stop_time h \<noteq> 0 then
       (if rh_stop_time h < rh_start_time h \<or> cur_time < rh_stop_time h then None
        else if cur_time > rh_stop_time h + unfog_time then Some 2
        else Some 1)
     else
       (let estimated_stop = rh_start_time h + rh_duration h;
            fog_time' = (if fog_time > rh_duration h then rh_duration h else fog_time);
            fog_start = estimated_stop - fog_time'
        in Some (if cur_time \<ge> fog_start then 1 else 0)))"

definition run_reset :: "int \<Rightarrow> int \<Rightarrow> int \<Rightarrow> runlog \<Rightarrow> int \<times> runlog" where
  "run_reset init_duration init_sched_time init_finish_time s =
     reset_func init_duration init_sched_time init_finish_time
       (run_drop_uuid_hash
         (s\<lparr>ut_table := [], max_user_id := -1, user_count := -1, run_extras := [], run_extra_u := 0\<rparr>))"

section \<open>Virtual contests\<close>

definition run_get_virtual_start_time :: "int \<Rightarrow> runlog \<Rightarrow> (int \<times> runlog) option" where
  "run_get_virtual_start_time uid s =
     map_option (\<lambda>(pvt, s'). (if ue_status pvt = V_REAL_USER then rh_start_time (head s')
                                else ue_start_time pvt, s'))
       (get_user_entry uid s)"

definition run_get_virtual_stop_time :: "int \<Rightarrow> int \<Rightarrow> runlog \<Rightarrow> (int \<times> runlog) option" where
  "run_get_virtual_stop_time uid cur_time s =
     map_option
       (\<lambda>(pvt, s').
          if ue_start_time pvt = 0 then (0, s')
          else if cur_time = 0 then (ue_stop_time pvt, s')
          else if ue_status pvt = V_REAL_USER then (rh_stop_time (head s'), s')
          else if ue_status pvt \<noteq> V_VIRTUAL_USER then (0, s')
          else if rh_duration (head s') = 0 \<or> ue_stop_time pvt \<noteq> 0 then (ue_stop_time pvt, s')
          else if ue_start_time pvt + rh_duration (head s') < cur_time then
            (ue_start_time pvt + rh_duration (head s'),
             ut_store uid (pvt\<lparr>ue_stop_time := ue_start_time pvt + rh_duration (head s')\<rparr>) s')
          else (ue_stop_time pvt, s'))
       (get_user_entry uid s)"

definition run_get_virtual_status :: "int \<Rightarrow> runlog \<Rightarrow> (int \<times> runlog) option" where
  "run_get_virtual_status uid s = map_option (\<lambda>(pvt, s'). (ue_status pvt, s')) (get_user_entry uid s)"

text \<open>The entry of a start or stop event.\<close>

definition virtual_entry :: "int \<Rightarrow> ej_ip option \<Rightarrow> int \<Rightarrow> int \<Rightarrow> run_entry" where
  "virtual_entry uid pip ssl_flag st =
     (ipv6_to_run_entry pip (zero_entry\<lparr>re_user_id := uid\<rparr>))\<lparr>re_ssl_flag := to_u8 ssl_flag, re_status := st\<rparr>"

definition virtual_mask :: mask where
  "virtual_mask = RE_USER_ID OR RE_IP OR RE_SSL_FLAG OR RE_STATUS"

text \<open>
  The common end of both operations: reserve a place, note the event in the user's entry, fill the
  place and mark the user's list stale.  The note in the user's entry stays when filling fails.
\<close>

definition add_virtual_event ::
  "nat \<Rightarrow> int \<Rightarrow> int \<Rightarrow> int \<Rightarrow> run_entry \<Rightarrow> user_entry \<Rightarrow> runlog \<Rightarrow> (int \<times> runlog) option" where
  "add_virtual_event rnd uid t nsec re pvt' s =
    (case get_insert_run_id rnd t uid nsec s of
       None \<Rightarrow> None
     | Some (i, s1) \<Rightarrow>
       if i < 0 then Some (-1, s1)
       else
         (case add_entry_func i re virtual_mask
                 ((raise_max_user_id uid (ut_store uid pvt' s1))\<lparr>user_count := -1\<rparr>) of
            None \<Rightarrow> None
          | Some (r, s2) \<Rightarrow> if r < 0 then Some (-1, s2) else Some (r, invalidate_user uid s2)))"

definition run_virtual_start ::
  "nat \<Rightarrow> int \<Rightarrow> int \<Rightarrow> ej_ip option \<Rightarrow> int \<Rightarrow> int \<Rightarrow> runlog \<Rightarrow> (int \<times> runlog) option" where
  "run_virtual_start rnd uid t pip ssl_flag nsec s0 =
    (case get_user_entry uid s0 of
       None \<Rightarrow> None
     | Some (pvt, s) \<Rightarrow>
       if rh_start_time (head s) = 0 then Some (-1, s)
       else if rh_start_time (head s) < 0 then None
       else if t < rh_start_time (head s) then Some (-1, s)
       else if ue_status pvt = V_REAL_USER then Some (-1, s)
       else if ue_status pvt = V_VIRTUAL_USER then Some (-1, s)
       else if nsec < 0 \<or> nsec > NSEC_MAX then Some (-1, s)
       else add_virtual_event rnd uid t nsec (virtual_entry uid pip ssl_flag RUN_VIRTUAL_START)
              (pvt\<lparr>ue_start_time := t, ue_status := V_VIRTUAL_USER\<rparr>) s)"

definition run_virtual_stop ::
  "nat \<Rightarrow> int \<Rightarrow> int \<Rightarrow> ej_ip option \<Rightarrow> int \<Rightarrow> int \<Rightarrow> runlog \<Rightarrow> (int \<times> runlog) option" where
  "run_virtual_stop rnd uid t pip ssl_flag nsec s0 =
    (case get_user_entry uid s0 of
       None \<Rightarrow> None
     | Some (pvt, s) \<Rightarrow>
       if rh_start_time (head s) = 0 then Some (-1, s)
       else if rh_start_time (head s) < 0 then None
       else if t < rh_start_time (head s) then Some (-1, s)
       else if ue_status pvt \<noteq> V_VIRTUAL_USER then Some (-1, s)
       else if ue_start_time pvt \<le> 0 then None
       else if ue_stop_time pvt \<noteq> 0 then Some (-1, s)
       else
         (let exp_stop_time = (if rh_duration (head s) > 0
                               then ue_start_time pvt + rh_duration (head s) else 0)
          in if t > exp_stop_time then Some (-1, s)
             else add_virtual_event rnd uid t nsec (virtual_entry uid pip ssl_flag RUN_VIRTUAL_STOP)
                    (pvt\<lparr>ue_stop_time := t\<rparr>) s))"

section \<open>Clearing a run\<close>

text \<open>What clearing a start or stop event does to the user's entry; \<open>Some None\<close> is a refusal.\<close>

definition clear_virtual :: "nat \<Rightarrow> runlog \<Rightarrow> runlog option option" where
  "clear_virtual i s =
    (let e = runs s ! i in
     if re_status e = RUN_VIRTUAL_STOP then
       (case get_user_entry (re_user_id e) s of
          None \<Rightarrow> None
        | Some (ue, s') \<Rightarrow>
          if ue_status ue = V_VIRTUAL_USER \<and> ue_start_time ue > 0
          then Some (Some (ut_store (re_user_id e) (ue\<lparr>ue_stop_time := 0\<rparr>) s')) else None)
     else if re_status e = RUN_VIRTUAL_START then
       (if \<exists>k \<in> set [0..<run_u s]. k \<noteq> i \<and> re_status (runs s ! k) \<noteq> RUN_EMPTY
             \<and> re_user_id (runs s ! k) = re_user_id e
        then Some None
        else case get_user_entry (re_user_id e) s of
          None \<Rightarrow> None
        | Some (ue, s') \<Rightarrow>
          if ue_status ue = V_VIRTUAL_USER \<and> ue_start_time ue = re_time e \<and> ue_stop_time ue = 0
          then Some (Some (ut_store (re_user_id e) (ue\<lparr>ue_status := 0, ue_start_time := 0\<rparr>) s')) else None)
     else Some (Some s))"

definition forget_users :: "int \<Rightarrow> runlog \<Rightarrow> runlog" where
  "forget_users uid s = (invalidate_user uid s)\<lparr>max_user_id := -1, user_count := -1\<rparr>"

definition run_clear_entry :: "int \<Rightarrow> runlog \<Rightarrow> (int \<times> runlog) option" where
  "run_clear_entry rid s =
    (if rid < 0 \<or> rid \<ge> int (run_u s) then Some (-1, s)
     else if re_is_readonly (runs s ! nat rid) \<noteq> 0 then Some (-1, s)
     else case clear_virtual (nat rid) s of
       None \<Rightarrow> None
     | Some None \<Rightarrow> Some (-1, s)
     | Some (Some s1) \<Rightarrow> clear_entry_func rid (forget_users (re_user_id (runs s1 ! nat rid)) s1))"

definition run_forced_clear_entry :: "int \<Rightarrow> runlog \<Rightarrow> (int \<times> runlog) option" where
  "run_forced_clear_entry rid s =
    (if rid < 0 \<or> rid \<ge> int (run_u s) then Some (-1, s)
     else clear_entry_func rid (forget_users (re_user_id (runs s ! nat rid)) s))"

definition run_set_hidden :: "int \<Rightarrow> runlog \<Rightarrow> (int \<times> runlog) option" where
  "run_set_hidden rid s =
    (if rid < 0 \<or> rid \<ge> int (run_u s) then Some (-1, s) else set_hidden_func 1 rid s)"

definition run_set_judge_id :: "int \<Rightarrow> int \<Rightarrow> runlog \<Rightarrow> (int \<times> runlog) option" where
  "run_set_judge_id rid judge_id s =
    (if rid < 0 \<or> rid \<ge> int (run_u s) then Some (-1, s)
     else if judge_id < 0 \<or> judge_id > EJ_MAX_JUDGE_ID then Some (-1, s)
     else set_judge_id_func judge_id rid s)"

definition run_get_pages :: "int \<Rightarrow> runlog \<Rightarrow> int" where
  "run_get_pages rid s =
    (if rid < 0 \<or> rid \<ge> int (run_u s) then -1 else re_pages (runs s ! nat rid))"

definition run_set_pages :: "int \<Rightarrow> int \<Rightarrow> runlog \<Rightarrow> (int \<times> runlog) option" where
  "run_set_pages rid pages s =
    (if rid < 0 \<or> rid \<ge> int (run_u s) then Some (-1, s)
     else if pages < 0 \<or> pages > 255 then Some (-1, s)
     else set_pages_func pages rid s)"

definition run_squeeze_log :: "runlog \<Rightarrow> int \<times> runlog" where
  "run_squeeze_log s = squeeze_func s"

definition run_clear_index :: "int \<Rightarrow> runlog \<Rightarrow> int \<times> runlog" where
  "run_clear_index rid s =
    (if rid < 0 \<or> rid \<ge> int (run_u s) then (0, s)
     else if re_status (runs s ! nat rid) = RUN_EMPTY then (0, s)
     else (0, invalidate_user (re_user_id (runs s ! nat rid)) s))"

section \<open>Editing a run\<close>

text \<open>\<open>if ((mask & m) && te.x != in->x) { te.x = in->x; f = 1; }\<close>\<close>

definition set_field ::
  "mask \<Rightarrow> run_entry \<Rightarrow> mask \<Rightarrow> (run_entry \<Rightarrow> 'a) \<Rightarrow> ('a \<Rightarrow> run_entry \<Rightarrow> run_entry)
     \<Rightarrow> run_entry \<times> bool \<Rightarrow> run_entry \<times> bool" where
  "set_field msk new m get put st =
    (case st of (te, f) \<Rightarrow>
       if has msk m \<and> get te \<noteq> get new then (put (get new) te, True) else (te, f))"

definition put_ip4 :: "32 word \<Rightarrow> run_entry \<Rightarrow> run_entry" where
  "put_ip4 w e = e\<lparr>re_a := (case re_a e of (a, b, c, d) \<Rightarrow> (w, b, c, d))\<rparr>"

definition edit_fields :: "mask \<Rightarrow> run_entry \<Rightarrow> run_entry \<Rightarrow> run_entry \<times> bool" where
  "edit_fields msk new out =
    fold (\<lambda>g. g)
      [set_field msk new RE_STATUS re_status (\<lambda>v. re_status_update (\<lambda>_. v)),
       set_field msk new RE_SIZE re_size (\<lambda>v. re_size_update (\<lambda>_. v)),
       set_field msk new RE_IP (\<lambda>e. quad0 (re_a e)) put_ip4,
       set_field msk new RE_SHA1 re_sha1 (\<lambda>v. re_sha1_update (\<lambda>_. v)),
       set_field msk new RE_RUN_UUID re_run_uuid (\<lambda>v. re_run_uuid_update (\<lambda>_. v)),
       set_field msk new RE_USER_ID re_user_id (\<lambda>v. re_user_id_update (\<lambda>_. v)),
       set_field msk new RE_PROB_ID re_prob_id (\<lambda>v. re_prob_id_update (\<lambda>_. v)),
       set_field msk new RE_LANG_ID re_lang_id (\<lambda>v. re_lang_id_update (\<lambda>_. v)),
       set_field msk new RE_LOCALE_ID re_locale_id (\<lambda>v. re_locale_id_update (\<lambda>_. v)),
       set_field msk new RE_TEST re_test (\<lambda>v. re_test_update (\<lambda>_. v)),
       set_field msk new RE_SCORE re_score (\<lambda>v. re_score_update (\<lambda>_. v)),
       set_field msk new RE_IS_IMPORTED re_is_imported (\<lambda>v. re_is_imported_update (\<lambda>_. v)),
       set_field msk new RE_VARIANT re_variant (\<lambda>v. re_variant_update (\<lambda>_. v)),
       set_field msk new RE_IS_HIDDEN re_is_hidden (\<lambda>v. re_is_hidden_update (\<lambda>_. v)),
       set_field msk new RE_IS_READONLY re_is_readonly (\<lambda>v. re_is_readonly_update (\<lambda>_. v)),
       set_field msk new RE_PAGES re_pages (\<lambda>v. re_pages_update (\<lambda>_. v)),
       set_field msk new RE_SCORE_ADJ re_score_adj (\<lambda>v. re_score_adj_update (\<lambda>_. v)),
       set_field msk new RE_IS_MARKED re_is_marked (\<lambda>v. re_is_marked_update (\<lambda>_. v)),
       set_field msk new RE_IS_SAVED re_is_saved (\<lambda>v. re_is_saved_update (\<lambda>_. v)),
       set_field msk new RE_SAVED_STATUS re_saved_status (\<lambda>v. re_saved_status_update (\<lambda>_. v)),
       set_field msk new RE_SAVED_SCORE re_saved_score (\<lambda>v. re_saved_score_update (\<lambda>_. v)),
       set_field msk new RE_SAVED_TEST re_saved_test (\<lambda>v. re_saved_test_update (\<lambda>_. v)),
       set_field msk new RE_PASSED_MODE re_passed_mode (\<lambda>v. re_passed_mode_update (\<lambda>_. v)),
       set_field msk new RE_EOLN_TYPE re_eoln_type (\<lambda>v. re_eoln_type_update (\<lambda>_. v)),
       set_field msk new RE_STORE_FLAGS re_store_flags (\<lambda>v. re_store_flags_update (\<lambda>_. v))]
      (out, False)"

text \<open>The refusals before the fields are touched.\<close>

definition editable :: "mask \<Rightarrow> run_entry \<Rightarrow> run_header \<Rightarrow> bool" where
  "editable msk out h \<longleftrightarrow>
     \<not> (re_is_hidden out = 0 \<and> rh_start_time h = 0)
     \<and> \<not> (re_status out = RUN_VIRTUAL_START \<or> re_status out = RUN_VIRTUAL_STOP)
     \<and> re_status out \<noteq> RUN_EMPTY
     \<and> \<not> (re_is_readonly out \<noteq> 0 \<and> msk \<noteq> RE_IS_READONLY)"

text \<open>The checks of the new status and user, and those of the other fields.\<close>

definition edited_status_ok :: "run_entry \<Rightarrow> bool" where
  "edited_status_ok te \<longleftrightarrow>
     \<not> (re_status te = RUN_VIRTUAL_START \<or> re_status te = RUN_VIRTUAL_STOP \<or> re_status te = RUN_EMPTY)
     \<and> \<not> bad_status (re_status te)
     \<and> \<not> (re_user_id te \<le> 0 \<or> re_user_id te > EJ_MAX_USER_ID)"

definition edited_window_ok :: "run_entry \<Rightarrow> run_header \<Rightarrow> user_entry \<Rightarrow> bool" where
  "edited_window_ok te h ue \<longleftrightarrow>
    (if ue_status ue = V_VIRTUAL_USER then
       (let stop_time = (if ue_stop_time ue = 0 \<and> rh_duration h > 0
                         then ue_start_time ue + rh_duration h else ue_stop_time ue)
        in \<not> re_time te < ue_start_time ue \<and> \<not> (stop_time \<noteq> 0 \<and> re_time te > stop_time))
     else
       (let stop_time = (if rh_stop_time h = 0 \<and> rh_duration h > 0
                         then rh_start_time h + rh_duration h else rh_stop_time h)
        in \<not> re_time te < rh_start_time h \<and> \<not> (stop_time \<noteq> 0 \<and> re_time te > stop_time)))"

definition edited_fields_ok :: "run_entry \<Rightarrow> bool" where
  "edited_fields_ok te \<longleftrightarrow>
     \<not> re_size te > RUNLOG_MAX_SIZE
     \<and> \<not> (re_prob_id te \<le> 0 \<or> re_prob_id te > EJ_MAX_PROB_ID)
     \<and> \<not> (re_score te < -1 \<or> re_score te > EJ_MAX_SCORE)
     \<and> \<not> (re_locale_id te < -1 \<or> re_locale_id te > EJ_MAX_LOCALE_ID)
     \<and> \<not> re_test te < -1
     \<and> \<not> invalid_bool_2 (re_is_imported te)
     \<and> \<not> invalid_bool_2 (re_is_hidden te)
     \<and> \<not> (re_is_imported te \<noteq> 0 \<and> re_is_hidden te \<noteq> 0)
     \<and> \<not> invalid_bool_2 (re_is_readonly te)
     \<and> \<not> (re_nsec te < 0 \<or> re_nsec te > NSEC_MAX)"

text \<open>The entry of the user for a visible run; \<open>Some None\<close> for a hidden one.\<close>

definition edited_user :: "run_entry \<Rightarrow> runlog \<Rightarrow> (user_entry option \<times> runlog) option" where
  "edited_user te s =
    (if re_is_hidden te \<noteq> 0 then Some (None, s)
     else case get_user_entry (re_user_id te) s of
       None \<Rightarrow> None
     | Some (ue, s') \<Rightarrow>
       if ue_status ue = V_VIRTUAL_USER \<and> ue_start_time ue \<le> 0 then None else Some (Some ue, s'))"

definition run_set_entry :: "int \<Rightarrow> mask \<Rightarrow> run_entry \<Rightarrow> runlog \<Rightarrow> (int \<times> runlog) option" where
  "run_set_entry rid msk new s0 =
    (if rid < 0 \<or> rid \<ge> int (run_u s0) then Some (-1, s0)
     else
       (let out = runs s0 ! nat rid in
        if re_run_id out \<noteq> rid \<or> rh_start_time (head s0) < 0 then None
        else if \<not> editable msk out (head s0) then Some (-1, s0)
        else if has msk RE_RUN_UUID \<and> re_run_uuid out \<noteq> re_run_uuid new \<and> uuid_hash_state s0 \<ge> 0
        then Some (-1, s0)
        else
          (case edit_fields msk new out of (te, f) \<Rightarrow>
            (let s1 = (if has msk RE_USER_ID \<and> re_user_id out \<noteq> re_user_id new
                       then s0\<lparr>max_user_id := -1, user_count := -1\<rparr> else s0)
             in if \<not> edited_status_ok te then Some (-1, s1)
                else
                  (case edited_user te s1 of
                     None \<Rightarrow> None
                   | Some (uo, s2) \<Rightarrow>
                     if (case uo of None \<Rightarrow> False | Some ue \<Rightarrow> \<not> edited_window_ok te (head s2) ue)
                     then Some (-1, s2)
                     else if \<not> edited_fields_ok te then Some (-1, s2)
                     else if \<not> f then Some (0, s2)
                     else
                       (let s3 = (case uo of None \<Rightarrow> s2
                                  | Some ue \<Rightarrow> if ue_status ue = 0
                                      then ut_store (re_user_id te) (ue\<lparr>ue_status := V_REAL_USER\<rparr>) s2 else s2)
                        in case set_entry_func te rid s3 of
                             None \<Rightarrow> None
                           | Some (r, s4) \<Rightarrow>
                             if r < 0 then Some (-1, s4)
                             else if re_user_id (runs s4 ! nat rid) \<noteq> re_user_id out
                             then Some (0, invalidate_user (re_user_id (runs s4 ! nat rid))
                                             (invalidate_user (re_user_id out) s4))
                             else Some (0, s4)))))))"

section \<open>Positions and iterators\<close>

text \<open>Where the storage plugin would put a run, without putting it there.\<close>

definition run_get_insert_position :: "nat \<Rightarrow> int \<Rightarrow> int \<Rightarrow> int \<Rightarrow> runlog \<Rightarrow> int option" where
  "run_get_insert_position rnd t uid nsec s =
    (let n = run_u s; arr = runs s in
     if n = 0 then Some 0
     else case last_used arr n of
       None \<Rightarrow> Some (int n)
     | Some j \<Rightarrow>
       if t > re_time (arr ! j) then Some (int n)
       else if t = re_time (arr ! j) \<and> nsec < 0 \<and> re_nsec (arr ! j) < NSEC_MAX then Some (int n)
       else if t = re_time (arr ! j) \<and> nsec > re_nsec (arr ! j) then Some (int n)
       else if t = re_time (arr ! j) \<and> nsec = re_nsec (arr ! j) \<and> uid \<ge> re_user_id (arr ! j)
       then Some (int n)
       else
         (case (if nsec < 0 then scan_neg arr n t uid rnd (take n arr) 0
                else Some (scan_pos t uid nsec (take n arr) 0, nsec)) of
            None \<Rightarrow> None
          | Some (i, nsec') \<Rightarrow>
              Some (if \<exists>e \<in> set (drop i (take n arr)). transient_status (re_status e) then -1
                    else int i)))"

definition run_get_user_last_run_id :: "int \<Rightarrow> runlog \<Rightarrow> (int \<times> runlog) option" where
  "run_get_user_last_run_id uid s =
     with_user get_user_entry uid s (\<lambda>ue s'. Some (ue_run_id_last ue, s'))"

definition run_get_user_first_run_id :: "int \<Rightarrow> runlog \<Rightarrow> (int \<times> runlog) option" where
  "run_get_user_first_run_id uid s =
     with_user get_user_entry uid s (\<lambda>ue s'. Some (ue_run_id_first ue, s'))"

definition run_get_user_next_run_id :: "int \<Rightarrow> runlog \<Rightarrow> int" where
  "run_get_user_next_run_id rid s =
    (if rid < 0 \<or> rid \<ge> int (run_extra_u s) then -1 else next_user_id (run_extras s ! nat rid))"

definition run_get_user_prev_run_id :: "int \<Rightarrow> runlog \<Rightarrow> int" where
  "run_get_user_prev_run_id rid s =
    (if rid < 0 \<or> rid \<ge> int (run_extra_u s) then -1 else prev_user_id (run_extras s ! nat rid))"

definition run_get_entry :: "int \<Rightarrow> runlog \<Rightarrow> int \<times> run_entry option" where
  "run_get_entry rid s =
    (if rid < 0 \<or> rid \<ge> int (run_u s) then (-1, None) else (0, Some (runs s ! nat rid)))"

end
