(* ===== verification/Runlog_Laws.thy ===== *)
theory Runlog_Laws
  imports Runlog
begin

text \<open>
  What the operations of \<open>runlog.c\<close> do to the log: it stays numbered, in the order of the runs' times
  and equal to the file; a new run goes to its place and moves no run that is being judged; refused
  operations change nothing.
\<close>

section \<open>The invariant of the log\<close>

text \<open>
  \<open>log_base\<close>: numbered and equal to the file.  \<open>log_ok\<close> adds the order by time, nanoseconds and user;
  \<open>file_ok\<close> adds the order by time alone, which editing the user of a run cannot break.
\<close>

definition log_base :: "runlog \<Rightarrow> bool" where
  "log_base s \<longleftrightarrow> wf_runs s \<and> numbered (log s) \<and> synced s \<and> run_fd s \<ge> 0"

definition log_ok :: "runlog \<Rightarrow> bool" where
  "log_ok s \<longleftrightarrow> log_base s \<and> log_sorted (log s)"

definition file_ok :: "runlog \<Rightarrow> bool" where
  "file_ok s \<longleftrightarrow> log_base s \<and> time_sorted (log s)"

text \<open>The part of the state that the indices and caches leave alone.\<close>

type_synonym core = "run_header \<times> run_entry list \<times> nat \<times> run_header option \<times> run_entry list \<times> bool list \<times> int"

definition core :: "runlog \<Rightarrow> core" where
  "core s = (head s, runs s, run_u s, disk_head s, disk_runs s, io s, run_fd s)"

lemma coreD:
  assumes "core s' = core s"
  shows "head s' = head s" "runs s' = runs s" "run_u s' = run_u s" "disk_head s' = disk_head s"
    "disk_runs s' = disk_runs s" "io s' = io s" "run_fd s' = run_fd s" "log s' = log s"
    "wf_runs s' = wf_runs s" "synced s' = synced s" "io_good s' = io_good s" "log_ok s' = log_ok s"
    "user_ids s' u = user_ids s u" "log_base s' = log_base s" "file_ok s' = file_ok s"
  using assms
  by (simp_all add: core_def log_def wf_runs_def synced_def io_good_def log_ok_def log_base_def
      file_ok_def user_ids_def)

lemma core_base: "base s' = base s \<Longrightarrow> core s' = core s"
  by (simp add: core_def base_def)

lemma core_frame [simp]:
  "core (s\<lparr>ut_table := t\<rparr>) = core s" "core (s\<lparr>run_extras := x\<rparr>) = core s"
  "core (s\<lparr>run_extra_u := k\<rparr>) = core s" "core (s\<lparr>max_user_id := m\<rparr>) = core s"
  "core (s\<lparr>user_count := m\<rparr>) = core s" "core (s\<lparr>uuid_hash := h\<rparr>) = core s"
  "core (s\<lparr>uuid_hash_state := m\<rparr>) = core s" "core (s\<lparr>uuid_hash_used := n\<rparr>) = core s"
  "core (s\<lparr>uuid_last_index := m\<rparr>) = core s" "core (s\<lparr>uuid_last_run_id := m\<rparr>) = core s"
  "core (ut_store u ue s) = core s" "core (extend_run_extras s) = core s"
  "core (invalidate_user u s) = core s" "core (raise_max_user_id u s) = core s"
  "core (run_drop_uuid_hash s) = core s" "core (forget_users u s) = core s"
  "core (index_new_run i u ue s) = core s" "core (store_uuid j q i s) = core s"
  by (auto simp: core_def ut_store_def extend_run_extras_def invalidate_user_def raise_max_user_id_def
      run_drop_uuid_hash_def forget_users_def index_new_run_def store_uuid_def Let_def split: option.splits)

lemma core_get_user:
  "get_user_entry uid s = Some (ue, s') \<Longrightarrow> core s' = core s"
  by (auto simp: get_user_entry_rebuild rebuild_list_def ensure_user_def grow_ut_table_def Let_def
      split: if_splits option.splits prod.splits)

lemma core_with_user:
  assumes "with_user get_user_entry uid s k = Some r"
  obtains ue s' where "get_user_entry uid s = Some (ue, s')" "ue_run_id_valid ue > 0" "core s' = core s"
    "k ue s' = Some r"
  using assms core_get_user by (auto simp: with_user_def split: option.splits if_splits)

lemma core_build: "build_uuid_hash incr s = Some s' \<Longrightarrow> core s' = core s"
  by (auto simp: build_uuid_hash_def Let_def split: if_splits option.splits prod.splits)

lemma core_find_free: "find_free_uuid_hash_index q s = Some (j, s') \<Longrightarrow> core s' = core s"
  by (auto simp: find_free_uuid_hash_index_def dest: core_build split: if_splits option.splits)

lemma core_reserve: "reserve_uuid q s = Some (j, s') \<Longrightarrow> core s' = core s"
  by (auto simp: reserve_uuid_def dest: core_find_free split: if_splits option.splits)

section \<open>Placing a run\<close>

text \<open>The log with a run put at position \<open>i\<close>.\<close>

definition log_with :: "nat \<Rightarrow> run_entry \<Rightarrow> run_entry list \<Rightarrow> run_entry list" where
  "log_with i e es = take i es @ e # renumber (Suc i) (drop i es)"

lemma numbered_with:
  assumes "numbered es" "i \<le> length es" "re_run_id e = int i"
  shows "numbered (log_with i e es)"
  using assms by (auto simp: numbered_def log_with_def nth_append nth_Cons' not_less)

lemma used_renumber_image: "x \<in> set (used (renumber k es)) \<Longrightarrow> \<exists>y \<in> set (used es). \<exists>r. x = y\<lparr>re_run_id := r\<rparr>"
  by (induction es arbitrary: k) (auto simp: used_def split: if_splits)

lemma sorted_wrt_with:
  assumes "sorted_wrt R (used es)" "\<not> is_empty_entry e"
    "\<And>x. x \<in> set (used (take i es)) \<Longrightarrow> R x e" "\<And>x. x \<in> set (used (drop i es)) \<Longrightarrow> R e x"
    "\<And>a b r. R (a\<lparr>re_run_id := r\<rparr>) b = R a b" "\<And>a b r. R a (b\<lparr>re_run_id := r\<rparr>) = R a b"
  shows "sorted_wrt R (used (log_with i e es))"
proof -
  let ?d = "renumber (Suc i) (drop i es)"
  have "used es = used (take i es) @ used (drop i es)" by (metis append_take_drop_id used_append)
  then have s: "sorted_wrt R (used (take i es))" "sorted_wrt R (used (drop i es))"
    "x \<in> set (used (take i es)) \<Longrightarrow> y \<in> set (used (drop i es)) \<Longrightarrow> R x y" for x y
    using assms(1) by (auto simp: sorted_wrt_append)
  have d: "\<exists>z r. z \<in> set (used (drop i es)) \<and> y = z\<lparr>re_run_id := r\<rparr>" if "y \<in> set (used ?d)" for y
    using used_renumber_image [OF that] by blast
  have "R e y" if "y \<in> set (used ?d)" for y using d [OF that] assms(4,6) by auto
  moreover have "R x y" if "x \<in> set (used (take i es))" "y \<in> set (used ?d)" for x y
    using d [OF that(2)] s(3) [OF that(1)] assms(6) by auto
  moreover have "sorted_wrt R (used ?d)"
  proof -
    have "sorted_wrt R (used (renumber k xs)) = sorted_wrt R (used xs)" for k xs
    proof -
      have m: "sorted_wrt R ys = sorted_wrt R (map (\<lambda>e. e\<lparr>re_run_id := 0\<rparr>) ys)" for ys
        by (simp add: sorted_wrt_map assms(5,6))
      show ?thesis by (subst (1 2) m) (simp add: used_renumber)
    qed
    then show ?thesis using s(2) by simp
  qed
  moreover have "used (log_with i e es) = used (take i es) @ e # used ?d"
    using assms(2) by (simp add: log_with_def used_def)
  ultimately show ?thesis using s(1) assms(3) by (auto simp: sorted_wrt_append)
qed

lemma sorted_with:
  assumes "log_sorted es" "\<not> is_empty_entry e"
    "\<forall>x \<in> set (used (take i es)). before x (re_time e) (re_nsec e) (re_user_id e)"
    "\<forall>x \<in> set (used (drop i es)). \<not> before x (re_time e) (re_nsec e) (re_user_id e)"
  shows "log_sorted (log_with i e es)"
  unfolding log_sorted_def
  by (rule sorted_wrt_with [OF assms(1) [unfolded log_sorted_def] assms(2)])
    (use assms(3,4) in \<open>auto simp: entry_le_def before_def\<close>)

lemma time_sorted_with:
  assumes "time_sorted es" "\<not> is_empty_entry e"
    "\<forall>x \<in> set (used (take i es)). re_time x \<le> re_time e"
    "\<forall>x \<in> set (used (drop i es)). re_time e \<le> re_time x"
  shows "time_sorted (log_with i e es)"
  unfolding time_sorted_def
  by (rule sorted_wrt_with [OF assms(1) [unfolded time_sorted_def] assms(2)]) (use assms(3,4) in auto)

text \<open>Reserving a place and filling it, with any changes to the indices in between.\<close>

lemma place_run:
  assumes "get_insert_run_id rnd t uid nsec s = Some (i, s2)" "i \<ge> 0" "nsec \<ge> 0" "log_base s" "io_good s"
    and "core s3 = core s2" "add_entry_func i re flags s3 = Some (r, s4)"
    and "has flags RE_USER_ID" "re_user_id re = uid" "has flags RE_STATUS" "re_status re \<noteq> RUN_EMPTY"
  shows "r = i" "log_base s4" "io_good s4" "log_sorted (log s) \<Longrightarrow> log_sorted (log s4)"
    "time_sorted (log s) \<Longrightarrow> time_sorted (log s4)" "side s4 = side s3" "head s4 = head s" "nat i \<le> run_u s"
    "run_u s4 = Suc (run_u s)"
    "log s4 = log_with (nat i) (add_entry_fields flags re (empty_slot i t nsec)) (log s)"
    "\<forall>e \<in> set (drop (nat i) (log s)). \<not> transient_status (re_status e)"
proof -
  have wf: "wf_runs s" and nb: "numbered (log s)" and sy: "synced s"
    and fd: "run_fd s \<ge> 0" using assms(4) by (simp_all add: log_base_def)
  have dk: "disk_runs s = log s" "disk_head s = Some (head s)" using sy by (simp_all add: synced_def)
  have R: "reserved t nsec uid s (nat i) s2" by (rule get_insert_reserved [OF assms(1) wf assms(3,2)])
  then have r2: "nat i \<le> run_u s" "log s2 = log_with (nat i) (empty_slot i t nsec) (log s)"
    "run_u s2 = Suc (run_u s)" "wf_runs s2" "side s2 = side s" "head s2 = head s" "disk_head s2 = disk_head s"
    "\<forall>e \<in> set (drop (nat i) (log s)). \<not> transient_status (re_status e)"
    "log_sorted (log s) \<Longrightarrow> \<forall>e \<in> set (used (take (nat i) (log s))). before e t nsec uid"
    "log_sorted (log s) \<Longrightarrow> \<forall>e \<in> set (used (drop (nat i) (log s))). \<not> before e t nsec uid"
    "time_sorted (log s) \<Longrightarrow> \<forall>e \<in> set (used (take (nat i) (log s))). re_time e \<le> t"
    "time_sorted (log s) \<Longrightarrow> \<forall>e \<in> set (used (drop (nat i) (log s))). t \<le> re_time e"
    using assms(2) by (simp_all add: reserved_def log_with_def)
  have d2: "io_good s2" "disk_runs s2 = log s2 \<or> nat i = run_u s \<and> disk_runs s2 = log s"
    using get_insert_disk [OF assms(1) wf assms(3,2,5) dk(1)] by blast+
  note c = coreD [OF assms(6)]
  have fd2: "run_fd s2 = run_fd s" using sideD(12) [OF r2(5)] .
  have in3: "in_log s3 i" "wf_runs s3" using c r2(1,3,4) assms(2) by (auto simp: in_log_def)
  let ?f = "add_entry_fields flags re"
  have up: "update_entry ?f i s3 = Some (r, s4)" using add_entry_is_update [OF in3] assms(7) by simp
  note W = entry_writer.op_frame [OF update_entry_writer up] entry_writer.op_log [OF update_entry_writer up]
    entry_writer.op_disk [OF update_entry_writer up] entry_writer.op_wf [OF update_entry_writer up]
  have i2: "log s3 ! nat i = empty_slot i t nsec"
    using c(8) r2(1,2) wf assms(2) by (simp add: log_with_def nth_append)
  have len: "length (take (nat i) (log s)) = nat i" using r2(1) wf by simp
  have lg4: "log s4 = log_with (nat i) (?f (empty_slot i t nsec)) (log s)"
    using W(2) i2 c(8) r2(2) len by (simp add: log_with_def list_update_append)
  show "log s4 = log_with (nat i) (?f (empty_slot i t nsec)) (log s)" by (rule lg4)
  have D: "r = i \<and> io_good s4
      \<and> disk_runs s4 = write_at zero_entry (nat i) [?f (runs s3 ! nat i)] (disk_runs s3)"
    using W(3) c(7,11) d2(1) fd fd2 in3(2) by simp
  then show "r = i" "io_good s4" by auto
  show "side s4 = side s3" using W(1) by blast
  show hd: "head s4 = head s" using W(1) c(1) r2(6) by simp
  show "nat i \<le> run_u s" "\<forall>e \<in> set (drop (nat i) (log s)). \<not> transient_status (re_status e)"
    using r2 by auto
  show u4: "run_u s4 = Suc (run_u s)" using W(1) c(3) r2(3) by simp
  have "runs s3 ! nat i = empty_slot i t nsec"
    using i2 log_nth [of "nat i" s3] in_log_nat [OF in3(1)] by simp
  moreover have "write_at zero_entry (run_u s) ys (log s) = log s @ ys" for ys
    using write_at_end [of zero_entry "log s" ys] wf by simp
  ultimately have "disk_runs s4 = log s4"
    using D c(5,8) d2(2) lg4 r2(1,2) wf W(2)
    by (auto simp: log_with_def write_at_update list_update_append min_def)
  moreover have "disk_head s4 = Some (head s4)" using W(1) c(4) r2(7) dk(2) hd by simp
  moreover have "run_fd s4 \<ge> 0" using sideD(12) W(1) c(7) fd fd2 by metis
  moreover have "numbered (log s4)"
    unfolding lg4 by (rule numbered_with [OF nb]) (use r2(1) wf assms(2) in simp_all)
  moreover have "wf_runs s4" using W(4) in3(2) by simp
  ultimately show "log_base s4" by (simp add: log_base_def synced_def)
  show "log_sorted (log s4)" if srt: "log_sorted (log s)"
    unfolding lg4
    by (rule sorted_with [OF srt])
      (use assms(8-11) r2(9) [OF srt] r2(10) [OF srt] in \<open>simp_all add: add_entry_fields_get\<close>)
  show "time_sorted (log s4)" if srt: "time_sorted (log s)"
    unfolding lg4
    by (rule time_sorted_with [OF srt])
      (use assms(8-11) r2(11) [OF srt] r2(12) [OF srt] in \<open>simp_all add: add_entry_fields_get\<close>)
qed

section \<open>Adding a run\<close>

lemma add_record_entry_facts:
  assumes "add_record_entry gen a = (re, flags)"
  shows "re_user_id re = aa_team a" "re_status re = 99" "re_prob_id re = aa_problem a"
    "re_is_hidden re = aa_hidden a" "re_size re = to_u32 (aa_size a)"
    "re_run_uuid re = (case gen of None \<Rightarrow> zero_quad | Some u \<Rightarrow> case aa_uuid a of None \<Rightarrow> u | Some q \<Rightarrow> q)"
    "has flags RE_USER_ID" "has flags RE_STATUS" "has flags RE_PROB_ID" "has flags RE_IS_HIDDEN"
    "has flags RE_SIZE" "has flags RE_RUN_UUID \<longleftrightarrow> gen \<noteq> None"
  using assms
  by (auto simp: add_record_entry_def add_record_mask_def mask_defs has_def Let_def zero_entry_def
      split: option.splits)

text \<open>The stages of a successful \<open>run_add_record\<close>.\<close>

lemma run_add_record_success:
  assumes "run_add_record gen rnd a s = Some (i, s')" "i \<ge> 0"
  obtains ue s1 ue1 s2 re flags hix s3 r s4 where
    "add_record_valid a (head s)"
    "get_user_entry (aa_team a) (s\<lparr>uuid_last_index := -1, uuid_last_run_id := -1\<rparr>) = Some (ue, s1)"
    "core s1 = core s" "add_record_window a (head s) ue = Some ue1"
    "get_insert_run_id rnd (aa_time a) (aa_team a) (aa_nsec a) (ut_store (aa_team a) ue1 s1) = Some (i, s2)"
    "add_record_entry gen a = (re, flags)" "reserve_uuid (re_run_uuid re) s2 = Some (Some hix, s3)"
    "add_entry_func i re flags ((raise_max_user_id (aa_team a) s3)\<lparr>user_count := -1\<rparr>) = Some (r, s4)"
    "r \<ge> 0"
    "s' = store_uuid hix (re_run_uuid re) (nat i) (index_new_run (nat i) (aa_team a) ue1 s4)"
proof -
  let ?s0 = "s\<lparr>uuid_last_index := -1, uuid_last_run_id := -1\<rparr>"
  have c0: "core ?s0 = core s" by simp
  obtain re flags where re: "add_record_entry gen a = (re, flags)" by fastforce
  note uid = add_record_entry_facts(1) [OF re]
  have v: "add_record_valid a (head s)"
    using assms by (auto simp: run_add_record_def Let_def split: if_splits)
  have w: "with_user get_user_entry (aa_team a) ?s0 (\<lambda>ue s1.
       case add_record_window a (head s1) ue of
         None \<Rightarrow> Some (-1, s1)
       | Some ue1 \<Rightarrow>
         (case get_insert_run_id rnd (aa_time a) (aa_team a) (aa_nsec a) (ut_store (aa_team a) ue1 s1) of
            None \<Rightarrow> None
          | Some (i, s2) \<Rightarrow>
            if i < 0 then Some (-1, s2)
            else
              (case reserve_uuid (re_run_uuid re) s2 of
                 None \<Rightarrow> None
               | Some (None, s3) \<Rightarrow> Some (-1, s3)
               | Some (Some hix, s3) \<Rightarrow>
                 (case add_entry_func i re flags
                         ((raise_max_user_id (aa_team a) s3)\<lparr>user_count := -1\<rparr>) of
                    None \<Rightarrow> None
                  | Some (r, s4) \<Rightarrow>
                    if r < 0 then Some (-1, s4)
                    else Some (i, store_uuid hix (re_run_uuid re) (nat i)
                           (index_new_run (nat i) (aa_team a) ue1 s4)))))) = Some (i, s')"
    using assms(1) v unfolding run_add_record_def Let_def re uid [symmetric] by (simp only: prod.case) (simp add: uid)
  then obtain ue s1 where g: "get_user_entry (aa_team a) ?s0 = Some (ue, s1)" "core s1 = core ?s0"
    and k: "(case add_record_window a (head s1) ue of
         None \<Rightarrow> Some (-1, s1)
       | Some ue1 \<Rightarrow>
         (case get_insert_run_id rnd (aa_time a) (aa_team a) (aa_nsec a) (ut_store (aa_team a) ue1 s1) of
            None \<Rightarrow> None
          | Some (i, s2) \<Rightarrow>
            if i < 0 then Some (-1, s2)
            else
              (case reserve_uuid (re_run_uuid re) s2 of
                 None \<Rightarrow> None
               | Some (None, s3) \<Rightarrow> Some (-1, s3)
               | Some (Some hix, s3) \<Rightarrow>
                 (case add_entry_func i re flags
                         ((raise_max_user_id (aa_team a) s3)\<lparr>user_count := -1\<rparr>) of
                    None \<Rightarrow> None
                  | Some (r, s4) \<Rightarrow>
                    if r < 0 then Some (-1, s4)
                    else Some (i, store_uuid hix (re_run_uuid re) (nat i)
                           (index_new_run (nat i) (aa_team a) ue1 s4)))))) = Some (i, s')"
    by (rule core_with_user)
  have h: "head s1 = head s" using coreD(1) [OF g(2)] by simp
  have c1: "core s1 = core s" using g(2) c0 by simp
  show thesis
    using k assms(2) that [OF v g(1) c1] re h
    by (auto split: option.splits prod.splits if_splits)
qed

lemma add_record_places:
  assumes "log_base s" "io_good s" "run_add_record gen rnd a s = Some (i, s')" "i \<ge> 0"
  shows "log_base s'" "io_good s'" "log_sorted (log s) \<Longrightarrow> log_sorted (log s')"
    "time_sorted (log s) \<Longrightarrow> time_sorted (log s')" "head s' = head s"
    "nat i \<le> run_u s" "run_u s' = Suc (run_u s)"
    "\<exists>e. log s' = log_with (nat i) e (log s) \<and> re_run_id e = i \<and> re_time e = aa_time a
        \<and> re_nsec e = aa_nsec a \<and> re_user_id e = aa_team a \<and> re_prob_id e = aa_problem a
        \<and> re_status e = RUN_AVAILABLE \<and> re_is_hidden e = aa_hidden a"
    "\<forall>e \<in> set (drop (nat i) (log s)). \<not> transient_status (re_status e)"
proof -
  obtain ue s1 ue1 s2 re flags hix s3 r s4 where A: "add_record_valid a (head s)" "core s1 = core s"
    "get_insert_run_id rnd (aa_time a) (aa_team a) (aa_nsec a) (ut_store (aa_team a) ue1 s1) = Some (i, s2)"
    "add_record_entry gen a = (re, flags)" "reserve_uuid (re_run_uuid re) s2 = Some (Some hix, s3)"
    "add_entry_func i re flags ((raise_max_user_id (aa_team a) s3)\<lparr>user_count := -1\<rparr>) = Some (r, s4)"
    "s' = store_uuid hix (re_run_uuid re) (nat i) (index_new_run (nat i) (aa_team a) ue1 s4)"
    using assms(3,4) by (rule run_add_record_success)
  let ?s1 = "ut_store (aa_team a) ue1 s1" and ?s3 = "(raise_max_user_id (aa_team a) s3)\<lparr>user_count := -1\<rparr>"
  note e = add_record_entry_facts [OF A(4)]
  have c1: "core ?s1 = core s" using A(2) by simp
  note c1D = coreD [OF c1]
  have c3: "core ?s3 = core s2" using core_reserve [OF A(5)] by simp
  have ns: "aa_nsec a \<ge> 0" using A(1) by (simp add: add_record_valid_def)
  have ok1: "log_base ?s1" "io_good ?s1" using assms(1,2) by (simp_all only: c1D)
  have ne: "re_status re \<noteq> RUN_EMPTY" using e(2) by simp
  note P = place_run [OF A(3) assms(4) ns ok1 c3 A(6) e(7) e(1) e(8) ne]
  have c': "core s' = core s4" using A(7) by simp
  note c'D = coreD [OF c']
  let ?e = "add_entry_fields flags re (empty_slot i (aa_time a) (aa_nsec a))"
  have "re_run_id ?e = i \<and> re_time ?e = aa_time a \<and> re_nsec ?e = aa_nsec a \<and> re_user_id ?e = aa_team a
      \<and> re_prob_id ?e = aa_problem a \<and> re_status ?e = RUN_AVAILABLE \<and> re_is_hidden ?e = aa_hidden a"
    using e by (simp add: add_entry_fields_get)
  moreover have "log s' = log_with (nat i) ?e (log s)" using P(10) c'D(8) c1D(8) by simp
  ultimately show "\<exists>e. log s' = log_with (nat i) e (log s) \<and> re_run_id e = i \<and> re_time e = aa_time a
        \<and> re_nsec e = aa_nsec a \<and> re_user_id e = aa_team a \<and> re_prob_id e = aa_problem a
        \<and> re_status e = RUN_AVAILABLE \<and> re_is_hidden e = aa_hidden a" by blast
  show "log_base s'" "io_good s'" "nat i \<le> run_u s" "run_u s' = Suc (run_u s)" "head s' = head s"
    "\<forall>e \<in> set (drop (nat i) (log s)). \<not> transient_status (re_status e)"
    "log_sorted (log s) \<Longrightarrow> log_sorted (log s')" "time_sorted (log s) \<Longrightarrow> time_sorted (log s')"
    using P(2-5,7-9,11) c'D(1,3,8,11,14) c1D(1,3,8) by simp_all
qed


text \<open>A started contest with an empty log, and a submit.\<close>

definition ex_header :: run_header where
  "ex_header = zero_header\<lparr>rh_version := 2, rh_start_time := 100, rh_duration := 50\<rparr>"

definition ex_contest :: runlog where
  "ex_contest = run_init\<lparr>head := ex_header, disk_head := Some ex_header, run_fd := 3\<rparr>"

definition ex_args :: add_args where
  "ex_args = \<lparr>aa_time = 120, aa_nsec = 5, aa_size = 10, aa_sha1 = None, aa_uuid = Some (1, 2, 3, 4),
     aa_ip = None, aa_ssl = 0, aa_locale = 0, aa_team = 7, aa_problem = 2, aa_language = 3, aa_eoln = 0,
     aa_variant = 0, aa_hidden = 0, aa_mime = 0, aa_store = 0\<rparr>"

lemmas ex_contest_defs = ex_contest_def ex_header_def ex_args_def run_init_def zero_header_def

lemmas index_eval = with_user_def get_user_entry_def grow_ut_table_def double_upto.simps ensure_user_def
  ut_lookup_def ut_store_def zero_user_entry_def Let_def

lemmas plugin_eval = get_insert_run_id_def grow_runs_def append_to_end_def add_entry_func_def
  do_flush_entry_def write_entries_def disk_op_def io_next_def Let_def

lemma ex_contest_ok: "log_ok ex_contest" "io_good ex_contest" "index_inv ex_contest"
  "uuid_index_ok ex_contest"
proof -
  show "log_ok ex_contest"
    by (simp add: ex_contest_defs log_ok_def log_base_def wf_runs_def numbered_def log_sorted_def used_def synced_def log_def)
  show "io_good ex_contest" by (simp add: ex_contest_defs io_good_def)
  show "index_inv ex_contest"
    by (rule index_inv_fresh) (simp_all add: ex_contest_defs wf_runs_def)
  show "uuid_index_ok ex_contest" by (simp add: ex_contest_defs uuid_index_ok_def)
qed

lemma ex_add: "\<exists>s'. run_add_record (Some (9, 9, 9, 9)) 0 ex_args ex_contest = Some (0, s')"
  apply (simp add: run_add_record_def ex_contest_defs add_record_valid_def invalid_bool_def index_eval)
  apply (simp add: add_record_window_def plugin_eval)
  apply (simp add: add_record_entry_def reserve_uuid_def raise_max_user_id_def plugin_eval)
  done


text \<open>
  C14: a visible run is accepted only inside its time window: for a participant of a virtual contest,
  between the user's own start and the user's stop or the end of the user's own contest time; for
  everyone else between the start of the contest and its stop or the end of its duration.
\<close>

theorem run_add_record_window:
  assumes "index_inv s" "run_add_record gen rnd a s = Some (i, s')" "i \<ge> 0" "aa_hidden a = 0"
    and "virt s (aa_team a) = (st, start, stop)"
  shows "rh_start_time (head s) \<noteq> 0 \<and> rh_start_time (head s) \<le> aa_time a
    \<and> (if st = V_VIRTUAL_USER
       then start \<noteq> 0 \<and> start \<le> aa_time a \<and> (stop \<noteq> 0 \<longrightarrow> aa_time a \<le> stop)
         \<and> (stop = 0 \<and> start + rh_duration (head s) \<noteq> 0 \<and> rh_duration (head s) \<noteq> 0
              \<longrightarrow> aa_time a \<le> start + rh_duration (head s))
       else (rh_stop_time (head s) \<noteq> 0 \<longrightarrow> aa_time a \<le> rh_stop_time (head s))
         \<and> (rh_stop_time (head s) = 0 \<and> rh_start_time (head s) + rh_duration (head s) \<noteq> 0 \<and> rh_duration (head s) \<noteq> 0
              \<longrightarrow> aa_time a \<le> rh_start_time (head s) + rh_duration (head s)))"
  using assms(2,3)
proof (rule run_add_record_success)
  fix ue s1 ue1
  let ?s0 = "s\<lparr>uuid_last_index := -1, uuid_last_run_id := -1\<rparr>"
  assume A: "add_record_valid a (head s)" "get_user_entry (aa_team a) ?s0 = Some (ue, s1)"
    "add_record_window a (head s) ue = Some ue1"
  have inv0: "index_inv ?s0"
    by (rule index_inv_keep [OF assms(1)]) (use assms(1) in \<open>simp_all add: user_ids_def index_inv_def wf_runs_def\<close>)
  have pos: "aa_team a > 0" using A(1) by (simp add: add_record_valid_def)
  obtain s2 where "get_user_entry (aa_team a) ?s0 = Some (ue, s2)" "virt s2 = virt ?s0" "ut_lookup s2 (aa_team a) = Some ue"
    using idx.acquire_ok [OF inv0 pos] A(2) by auto
  moreover have "virt ?s0 = virt s" by (rule ext) (simp add: virt_def ut_lookup_def)
  ultimately have "virt s (aa_team a) = (ue_status ue, ue_start_time ue, ue_stop_time ue)"
    by (metis (no_types, lifting) option.case(2) virt_def)
  then have ue: "ue_status ue = st" "ue_start_time ue = start" "ue_stop_time ue = stop" using assms(5) by auto
  show ?thesis
    using A(1,3) assms(4) unfolding add_record_valid_def add_record_window_def Let_def ue
    by (auto split: if_splits)
qed

theorem run_add_record_window_witness:
  "\<exists>s'. run_add_record (Some (9, 9, 9, 9)) 0 ex_args ex_contest = Some (0, s')
    \<and> rh_start_time (head ex_contest) \<le> aa_time ex_args
    \<and> aa_time ex_args \<le> rh_start_time (head ex_contest) + rh_duration (head ex_contest)"
proof -
  obtain s' where s': "run_add_record (Some (9, 9, 9, 9)) 0 ex_args ex_contest = Some (0, s')"
    using ex_add by blast
  have v: "virt ex_contest (aa_team ex_args) = (0, 0, 0)" "aa_hidden ex_args = 0"
    "rh_stop_time (head ex_contest) = 0" "rh_start_time (head ex_contest) = 100" "rh_duration (head ex_contest) = 50"
    by (simp_all add: virt_def ut_lookup_def ex_contest_defs)
  show ?thesis
    using run_add_record_window [OF ex_contest_ok(3) s' _ v(2) v(1)] s' v(3-5) by simp
qed

lemma reserve_total:
  assumes "wf_runs s" "uuid_hash_state s > 0 \<longrightarrow> good_hash (uuid_hash s)"
  shows "\<exists>hix s'. reserve_uuid q s = Some (hix, s')"
proof -
  obtain j s1 where "find_free_uuid_hash_index q s = Some (j, s1)"
    using find_free_total [OF assms] by blast
  then show ?thesis by (cases "j < 0") (simp_all add: reserve_uuid_def)
qed

text \<open>
  C10: \<open>run_add_record\<close> cannot fail an assertion and cannot loop: it returns for all arguments on every
  state whose indices are consistent.
\<close>

theorem run_add_record_total:
  assumes "index_inv s" "uuid_index_ok s"
  shows "\<exists>r s'. run_add_record gen rnd a s = Some (r, s')"
proof -
  let ?s0 = "s\<lparr>uuid_last_index := -1, uuid_last_run_id := -1\<rparr>"
  have inv0: "index_inv ?s0"
    by (rule index_inv_keep [OF assms(1)]) (use assms(1) in \<open>simp_all add: user_ids_def index_inv_def wf_runs_def\<close>)
  show ?thesis
  proof (cases "add_record_valid a (head ?s0)")
    case False
    then show ?thesis by (simp add: run_add_record_def Let_def)
  next
    case True
    then have pos: "aa_team a > 0" and ns: "aa_nsec a \<ge> 0" by (simp_all add: add_record_valid_def)
    obtain ue s1 where u: "get_user_entry (aa_team a) ?s0 = Some (ue, s1)" "ue_run_id_valid ue > 0" "base s1 = base ?s0"
      using idx.acquire_ok [OF inv0 pos] by blast
    note b = baseD [OF u(3)]
    show ?thesis
    proof (cases "add_record_window a (head s1) ue")
      case None
      then show ?thesis using True u(1,2) by (simp add: run_add_record_def with_user_def)
    next
      case (Some ue1)
      let ?s1 = "ut_store (aa_team a) ue1 s1"
      have wf1: "wf_runs ?s1" using assms(1) b(2,3) by (simp add: index_inv_def wf_runs_def)
      obtain i s2 where g: "get_insert_run_id rnd (aa_time a) (aa_team a) (aa_nsec a) ?s1 = Some (i, s2)"
        using get_insert_total [OF wf1 ns] by blast
      obtain re flags where re: "add_record_entry gen a = (re, flags)" by fastforce
      show ?thesis
      proof (cases "i < 0")
        case True
        then show ?thesis
          using \<open>add_record_valid a (head ?s0)\<close> u(1,2) Some g by (simp add: run_add_record_def with_user_def)
      next
        case False
        have R: "reserved (aa_time a) (aa_nsec a) (aa_team a) ?s1 (nat i) s2"
          using get_insert_reserved [OF g wf1 ns] False by simp
        have wf2: "wf_runs s2" and sd: "side s2 = side ?s1" and u2: "run_u s2 = Suc (run_u ?s1)" "nat i \<le> run_u ?s1"
          using R by (simp_all add: reserved_def)
        have h: "uuid_hash_state s2 > 0 \<longrightarrow> good_hash (uuid_hash s2)"
          using sideD(7,9) [OF sd] b(7,9) assms(2) by (simp add: uuid_index_ok_def ut_store_def)
        obtain hix s3 where f: "reserve_uuid (re_run_uuid re) s2 = Some (hix, s3)"
          using reserve_total [OF wf2 h] by blast
        let ?s3 = "(raise_max_user_id (re_user_id re) s3)\<lparr>user_count := -1\<rparr>"
        have c3: "core ?s3 = core s2" using core_reserve [OF f] by simp
        have "in_log ?s3 i" "wf_runs ?s3"
          using coreD(3,9) [OF c3] wf2 u2 False by (simp_all add: in_log_def)
        then obtain r s4 where "add_entry_func i re flags ?s3 = Some (r, s4)"
          using add_entry_is_update by (metis entry_writer.op_total update_entry_writer)
        then show ?thesis
          using \<open>add_record_valid a (head ?s0)\<close> u(1,2) Some g False f re
          by (cases hix) (simp_all add: run_add_record_def with_user_def)
      qed
    qed
  qed
qed

theorem run_add_record_total_witness:
  "\<exists>r s'. run_add_record None 0 (ex_args\<lparr>aa_time := 151\<rparr>) ex_contest = Some (r, s')"
  by (rule run_add_record_total [OF ex_contest_ok(3,4)])

end
