(* ===== verification/Runlog_Check.thy ===== *)
theory Runlog_Check
  imports Runlog
begin

text \<open>
  The consistency check of a log (\<open>runlog_check\<close>), the building of the index of users on a checked log
  (\<open>build_indices\<close>), and the replacement of the whole log (\<open>run_set_runlog\<close>).  The check is modelled
  by its result; the messages it writes are not.
\<close>

section \<open>The header\<close>

definition check_header :: "run_header \<Rightarrow> bool" where
  "check_header h \<longleftrightarrow>
     \<not> rh_start_time h < 0 \<and> \<not> rh_stop_time h < 0 \<and> \<not> rh_duration h < -1
     \<and> \<not> (rh_start_time h = 0 \<and> rh_stop_time h \<noteq> 0)
     \<and> \<not> (rh_start_time h \<noteq> 0 \<and> rh_stop_time h \<noteq> 0 \<and> rh_start_time h > rh_stop_time h)"

section \<open>The fields of one entry\<close>

text \<open>An EMPTY entry, and a start or stop event, may set only a few fields.\<close>

definition empty_garbage :: "run_entry \<Rightarrow> bool" where
  "empty_garbage e \<longleftrightarrow>
     e\<lparr>re_run_id := 0, re_status := 0, re_time := 0, re_nsec := 0\<rparr> \<noteq> zero_entry"

definition virtual_garbage :: "run_entry \<Rightarrow> bool" where
  "virtual_garbage e \<longleftrightarrow>
     put_ip4 0 (e\<lparr>re_run_id := 0, re_status := 0, re_user_id := 0, re_time := 0, re_nsec := 0,
       re_ssl_flag := 0, re_ipv6_flag := 0, re_judge_id := 0\<rparr>) \<noteq> zero_entry"

definition check_regular :: "run_entry \<Rightarrow> bool" where
  "check_regular e \<longleftrightarrow>
     \<not> re_size e > RUNLOG_MAX_SIZE \<and> \<not> re_prob_id e \<le> 0 \<and> \<not> re_prob_id e > EJ_MAX_PROB_ID
     \<and> \<not> re_score e < -1 \<and> \<not> re_score e > EJ_MAX_SCORE \<and> \<not> re_locale_id e < -1
     \<and> \<not> re_test e < -1 \<and> \<not> invalid_bool_2 (re_is_imported e) \<and> \<not> invalid_bool_2 (re_is_readonly e)
     \<and> \<not> (re_nsec e < 0 \<or> re_nsec e > NSEC_MAX)"

text \<open>The count of errors, the return code, and the time of the last entry looked at.\<close>

record check_state =
  ck_nerr :: nat
  ck_ret :: int
  ck_prev_time :: int
  ck_prev_nsec :: int

definition check_local :: "nat \<Rightarrow> run_entry \<Rightarrow> check_state \<Rightarrow> check_state" where
  "check_local i e c =
    (let fail = c\<lparr>ck_nerr := Suc (ck_nerr c)\<rparr>;
         c1 = (if re_run_id e \<noteq> int i then c\<lparr>ck_ret := 1\<rparr> else c);
         fail1 = c1\<lparr>ck_nerr := Suc (ck_nerr c1)\<rparr>
     in if bad_status (re_status e) then fail
        else if re_status e = RUN_EMPTY then
          (let c2 = (if i > 0 \<and> re_run_id e = 0 then c else c1)
           in if empty_garbage e then c2\<lparr>ck_nerr := Suc (ck_nerr c2)\<rparr> else c2)
        else if re_user_id e \<le> 0 then fail1
        else if re_time e < 0 then fail1
        else if re_time e = 0 then fail1
        else if re_time e < ck_prev_time c then fail1
        else
          (let c2 = c1\<lparr>ck_prev_time := re_time e, ck_prev_nsec := re_nsec e\<rparr>
           in if virtual_status (re_status e) then
                (if virtual_garbage e then c2\<lparr>ck_nerr := Suc (ck_nerr c2)\<rparr> else c2)
              else if check_regular e then c2
              else c2\<lparr>ck_nerr := Suc (ck_nerr c2)\<rparr>))"

definition check_fields :: "run_entry list \<Rightarrow> check_state" where
  "check_fields es =
     fold (\<lambda>(i, e). check_local i e) (enumerate 0 es)
       \<lparr>ck_nerr = 0, ck_ret = 0, ck_prev_time = 0, ck_prev_nsec = 0\<rparr>"

section \<open>The users' contests\<close>

definition V_LAST :: int where [simp]: "V_LAST = 2"

text \<open>
  The treatment of one visible entry: the user's contest state and whether it is accepted; \<open>None\<close> is
  a failed \<open>ASSERT\<close>.
\<close>

definition check_vstart :: "run_entry \<Rightarrow> user_entry \<Rightarrow> (bool \<times> user_entry) option" where
  "check_vstart e v =
    (if ue_status v = V_VIRTUAL_USER then
       (if ue_start_time v > 0 then Some (False, v) else None)
     else if ue_status v = V_REAL_USER then
       (if ue_start_time v = 0 \<and> ue_stop_time v = 0 then Some (False, v) else None)
     else if ue_start_time v = 0 then
       Some (True, v\<lparr>ue_status := V_VIRTUAL_USER, ue_start_time := re_time e\<rparr>)
     else None)"

definition check_vstop :: "run_header \<Rightarrow> run_entry \<Rightarrow> user_entry \<Rightarrow> (bool \<times> user_entry) option" where
  "check_vstop h e v =
    (if \<not> (ue_status v \<ge> 0 \<and> ue_status v \<le> V_LAST) then None
     else if ue_status v = V_VIRTUAL_USER then
       (if \<not> (ue_start_time v > 0 \<and> ue_stop_time v \<ge> 0) then None
        else if ue_stop_time v \<noteq> 0 then Some (False, v)
        else if rh_duration h \<noteq> 0 \<and> re_time e > ue_start_time v + rh_duration h then Some (False, v)
        else Some (True, v\<lparr>ue_stop_time := re_time e\<rparr>))
     else if ue_start_time v = 0 \<and> ue_stop_time v = 0 \<and> (ue_status v = 0 \<or> ue_status v = V_REAL_USER)
     then Some (False, v) else None)"

definition check_run :: "run_header \<Rightarrow> int \<Rightarrow> run_entry \<Rightarrow> user_entry \<Rightarrow> (bool \<times> user_entry) option" where
  "check_run h stop_time e v =
    (if \<not> (ue_status v \<ge> 0 \<and> ue_status v \<le> V_LAST) then None
     else if ue_status v = V_VIRTUAL_USER then
       (if \<not> (ue_start_time v > 0 \<and> ue_stop_time v \<ge> 0) then None
        else
          (let v_stop_time = (if ue_stop_time v = 0 \<and> rh_duration h \<noteq> 0
                              then ue_start_time v + rh_duration h else ue_stop_time v)
           in if re_time e < ue_start_time v then Some (False, v)
              else if v_stop_time \<noteq> 0 \<and> re_time e > v_stop_time then Some (False, v)
              else Some (True, v)))
     else if ue_start_time v = 0 \<and> ue_stop_time v = 0 \<and> (ue_status v = 0 \<or> ue_status v = V_REAL_USER)
     then
       (if re_time e < rh_start_time h then Some (False, v)
        else if stop_time \<noteq> 0 \<and> re_time e > stop_time then Some (False, v)
        else Some (True, v\<lparr>ue_status := V_REAL_USER\<rparr>))
     else None)"

definition check_event :: "run_header \<Rightarrow> int \<Rightarrow> run_entry \<Rightarrow> user_entry \<Rightarrow> (bool \<times> user_entry) option" where
  "check_event h stop_time e v =
    (if re_status e = RUN_VIRTUAL_START then check_vstart e v
     else if re_status e = RUN_VIRTUAL_STOP then check_vstop h e v
     else check_run h stop_time e v)"

fun check_users ::
  "run_header \<Rightarrow> int \<Rightarrow> run_entry list \<Rightarrow> user_entry list \<times> nat \<Rightarrow> (user_entry list \<times> nat) option" where
  "check_users h stop_time [] st = Some st"
| "check_users h stop_time (e # es) (vs, nerr) =
    (if re_is_hidden e \<noteq> 0 \<or> re_status e = RUN_EMPTY then check_users h stop_time es (vs, nerr)
     else if \<not> re_user_id e < int (length vs) then None
     else case check_event h stop_time e (vs ! nat (re_user_id e)) of
       None \<Rightarrow> None
     | Some (ok, v) \<Rightarrow>
         check_users h stop_time es (vs[nat (re_user_id e) := v], if ok then nerr else Suc nerr))"

definition max_team :: "run_entry list \<Rightarrow> int" where
  "max_team es =
     fold (\<lambda>e m. if re_status e = RUN_EMPTY then m else if re_user_id e > m then re_user_id e else m)
       es (-1)"

definition check_stop_time :: "run_header \<Rightarrow> int" where
  "check_stop_time h =
    (if rh_stop_time h = 0 \<and> rh_start_time h \<noteq> 0 \<and> rh_duration h \<noteq> 0
     then rh_start_time h + rh_duration h else rh_stop_time h)"

definition runlog_check :: "run_header \<Rightarrow> run_entry list \<Rightarrow> int option" where
  "runlog_check h es =
    (if \<not> check_header h then Some (-1)
     else if es = [] then Some 0
     else
       (let c = check_fields es in
        if ck_nerr c > 0 then Some (-1)
        else if \<exists>e \<in> set es. re_status e \<noteq> RUN_EMPTY \<and> re_user_id e < 0 then None
        else if max_team es = -1 then Some 0
        else case check_users h (check_stop_time h) es
                    (replicate (nat (max_team es + 1)) zero_user_entry, 0) of
          None \<Rightarrow> None
        | Some (vs, nerr) \<Rightarrow> Some (if nerr > 0 then -1 else ck_ret c)))"

section \<open>Building the index of users\<close>

definition RUN_LOG_UUID_INDEX :: mask where "RUN_LOG_UUID_INDEX = 8"

definition new_user_entry :: user_entry where
  "new_user_entry = zero_user_entry\<lparr>ue_run_id_first := -1, ue_run_id_last := -1\<rparr>"

text \<open>The contest state of the user after one entry; \<open>None\<close> is a failed \<open>ASSERT\<close>.\<close>

definition build_event :: "run_entry \<Rightarrow> user_entry \<Rightarrow> user_entry option" where
  "build_event e ue =
    (if re_is_hidden e \<noteq> 0 then Some ue
     else if re_status e = RUN_VIRTUAL_START then
       (if ue_status ue = 0
        then Some (ue\<lparr>ue_status := V_VIRTUAL_USER, ue_start_time := re_time e\<rparr>) else None)
     else if re_status e = RUN_VIRTUAL_STOP then
       (if ue_status ue = V_VIRTUAL_USER \<and> ue_start_time ue > 0
        then Some (ue\<lparr>ue_stop_time := re_time e\<rparr>) else None)
     else Some (if ue_status ue = 0 then ue\<lparr>ue_status := V_REAL_USER\<rparr> else ue))"

definition build_step ::
  "nat \<Rightarrow> run_entry \<Rightarrow> user_entry option list \<times> run_entry_extra list
     \<Rightarrow> (user_entry option list \<times> run_entry_extra list) option" where
  "build_step i e st =
    (case st of (tab, ext) \<Rightarrow>
      if re_status e = RUN_EMPTY then Some st
      else if re_user_id e \<le> 0 then None
      else
        (let ue = (case tab ! nat (re_user_id e) of None \<Rightarrow> new_user_entry | Some ue \<Rightarrow> ue);
             ext1 = link_last ext (ue_run_id_last ue) i;
             ue1 = ue\<lparr>ue_run_id_first := (if ue_run_id_first ue < 0 then int i else ue_run_id_first ue),
                      ue_run_id_last := int i\<rparr>
         in case build_event e ue1 of
              None \<Rightarrow> None
            | Some ue2 \<Rightarrow> Some (tab[nat (re_user_id e) := Some ue2], ext1)))"

fun build_loop ::
  "nat \<Rightarrow> run_entry list \<Rightarrow> user_entry option list \<times> run_entry_extra list
     \<Rightarrow> (user_entry option list \<times> run_entry_extra list) option" where
  "build_loop i [] st = Some st"
| "build_loop i (e # es) st = Option.bind (build_step i e st) (build_loop (Suc i) es)"

definition build_indices :: "mask \<Rightarrow> runlog \<Rightarrow> runlog option" where
  "build_indices flags s0 =
    (let s = s0\<lparr>ut_table := []\<rparr>;
         uuid = (\<lambda>s. if has flags RUN_LOG_UUID_INDEX then build_uuid_hash 0 s else Some s)
     in if \<exists>e \<in> set (log s). re_status e \<noteq> RUN_EMPTY \<and> re_user_id e \<le> 0 then None
        else if max_team (log s) \<le> 0 then uuid s
        else
          (let s1 = extend_run_extras (s\<lparr>max_user_id := max_team (log s)\<rparr>);
               size = double_upto (nat (max_team (log s)) + 1) 128
           in case build_loop 0 (log s1) (replicate size None, run_extras s1) of
                None \<Rightarrow> None
              | Some (tab, ext) \<Rightarrow> uuid (s1\<lparr>ut_table := tab, run_extras := ext\<rparr>)))"

definition run_set_runlog :: "run_entry list \<Rightarrow> runlog \<Rightarrow> (int \<times> runlog) option" where
  "run_set_runlog entries s =
    (case runlog_check (head s) entries of
       None \<Rightarrow> None
     | Some r \<Rightarrow>
       if r < 0 then Some (-1, s)
       else (case set_runlog_func entries s of
         None \<Rightarrow> None
       | Some (r2, s1) \<Rightarrow>
         if r2 < 0 then Some (-1, s1)
         else map_option (\<lambda>s2. (0, s2)) (build_indices 0 s1)))"

text \<open>
  The end of \<open>run_open\<close> on a log that the storage plugin has read: the check and the indices, unless
  the caller asked for neither.
\<close>

definition RUN_LOG_NOINDEX :: mask where "RUN_LOG_NOINDEX = 4"

definition run_open_checked :: "mask \<Rightarrow> int \<Rightarrow> int \<Rightarrow> int \<Rightarrow> runlog \<Rightarrow> (int \<times> runlog) option" where
  "run_open_checked flags init_duration init_sched_time init_finish_time s0 =
    (case read_runlog init_duration init_sched_time init_finish_time s0 of
       (r, s) \<Rightarrow>
         if r < 0 then Some (-1, s)
         else if has flags RUN_LOG_NOINDEX then Some (0, s)
         else case runlog_check (head s) (log s) of
           None \<Rightarrow> None
         | Some c \<Rightarrow> if c < 0 then Some (-1, s)
             else map_option (\<lambda>s2. (0, s2)) (build_indices flags s))"

end
