(* ===== verification/Check_Laws.thy ===== *)
theory Check_Laws
  imports Runlog_Laws Runlog_Check
begin

text \<open>
  What \<open>runlog_check\<close> accepts, that it never fails an assertion, and that \<open>build_indices\<close> succeeds on
  every log it accepts and finds for each user the contest state that replaying the log gives.
\<close>

section \<open>The fields\<close>

text \<open>An entry that the local check accepts, whatever its neighbours are.\<close>

definition entry_ok :: "run_entry \<Rightarrow> bool" where
  "entry_ok e \<longleftrightarrow> \<not> bad_status (re_status e)
     \<and> (if re_status e = RUN_EMPTY then \<not> empty_garbage e
        else re_user_id e > 0 \<and> re_time e > 0
          \<and> (if virtual_status (re_status e) then \<not> virtual_garbage e else check_regular e))"

text \<open>Entry \<open>i\<close> carries its position, or is an EMPTY entry with run id 0.\<close>

definition id_ok :: "nat \<Rightarrow> run_entry \<Rightarrow> bool" where
  "id_ok i e \<longleftrightarrow> re_run_id e = int i \<or> re_status e = RUN_EMPTY \<and> i > 0 \<and> re_run_id e = 0"

lemma not_bad_empty [simp]: "\<not> bad_status 22"
  by (simp add: bad_status_def)

lemma check_local_eq:
  "check_local i e c =
    (if \<not> bad_status (re_status e) \<and> \<not> id_ok i e then (\<lambda>c. c\<lparr>ck_ret := 1\<rparr>) else (\<lambda>c. c))
      (if re_status e = RUN_EMPTY then (if entry_ok e then c else c\<lparr>ck_nerr := Suc (ck_nerr c)\<rparr>)
       else if bad_status (re_status e) \<or> re_user_id e \<le> 0 \<or> re_time e \<le> 0 \<or> re_time e < ck_prev_time c
       then c\<lparr>ck_nerr := Suc (ck_nerr c)\<rparr>
       else (if entry_ok e then (\<lambda>c. c) else (\<lambda>c. c\<lparr>ck_nerr := Suc (ck_nerr c)\<rparr>))
              (c\<lparr>ck_prev_time := re_time e, ck_prev_nsec := re_nsec e\<rparr>))"
  by (cases "bad_status (re_status e)") (auto simp: check_local_def entry_ok_def id_ok_def Let_def)

lemma check_local_nerr: "ck_nerr (check_local i e c) \<ge> ck_nerr c"
  by (auto simp: check_local_eq)

text \<open>The loop from position \<open>k\<close> on.\<close>

definition check_from :: "nat \<Rightarrow> run_entry list \<Rightarrow> check_state \<Rightarrow> check_state" where
  "check_from k es c = fold (\<lambda>(i, e). check_local i e) (enumerate k es) c"

lemma check_from_simps [simp]:
  "check_from k [] c = c" "check_from k (e # es) c = check_from (Suc k) es (check_local k e c)"
  by (simp_all add: check_from_def)

lemma check_from_nerr: "ck_nerr c \<noteq> 0 \<Longrightarrow> ck_nerr (check_from k es c) \<noteq> 0"
proof (induction es arbitrary: k c)
  case (Cons e es)
  have "ck_nerr (check_local k e c) \<noteq> 0" using Cons.prems check_local_nerr [of c k e] by linarith
  then show ?case using Cons.IH by simp
qed simp

lemma check_local_good:
  "ck_nerr c = 0 \<Longrightarrow> ck_nerr (check_local i e c) = 0 \<longleftrightarrow>
     entry_ok e \<and> (re_status e \<noteq> RUN_EMPTY \<longrightarrow> ck_prev_time c \<le> re_time e)"
  by (auto simp: check_local_eq entry_ok_def bad_status_def)

lemma check_local_ret:
  "ck_nerr (check_local i e c) = 0 \<Longrightarrow> ck_ret (check_local i e c) = (if id_ok i e then ck_ret c else 1)"
  by (auto simp: check_local_eq split: if_splits)

lemma check_local_prev:
  "ck_nerr (check_local i e c) = 0 \<Longrightarrow>
     ck_prev_time (check_local i e c) = (if re_status e = RUN_EMPTY then ck_prev_time c else re_time e)"
  by (auto simp: check_local_eq split: if_splits)

lemma used_Nil [simp]: "used [] = []"
  by (simp add: used_def)

lemma used_Cons [simp]: "used (e # es) = (if re_status e = RUN_EMPTY then used es else e # used es)"
  by (simp add: used_def)

lemma check_from_good:
  "ck_nerr c = 0 \<Longrightarrow> ck_nerr (check_from k es c) = 0 \<longleftrightarrow>
     (\<forall>e \<in> set es. entry_ok e) \<and> sorted_wrt (\<le>) (ck_prev_time c # map re_time (used es))"
proof (induction es arbitrary: k c)
  case Nil
  then show ?case by (simp add: used_def)
next
  case (Cons e es)
  show ?case
  proof (cases "ck_nerr (check_local k e c) = 0")
    case True
    have g: "entry_ok e" "re_status e \<noteq> RUN_EMPTY \<longrightarrow> ck_prev_time c \<le> re_time e"
      using check_local_good [OF Cons.prems] True by blast+
    show ?thesis
      unfolding check_from_simps Cons.IH [OF True] check_local_prev [OF True] using g by auto
  next
    case False
    then have "\<not> (entry_ok e \<and> (re_status e \<noteq> RUN_EMPTY \<longrightarrow> ck_prev_time c \<le> re_time e))"
      using check_local_good [OF Cons.prems, of k e] by simp
    then show ?thesis using check_from_nerr [OF False, of "Suc k" es] by auto
  qed
qed

lemma check_from_ret:
  "ck_nerr (check_from k es c) = 0 \<Longrightarrow> ck_ret (check_from k es c) =
     (if \<forall>i < length es. id_ok (k + i) (es ! i) then ck_ret c else 1)"
proof (induction es arbitrary: k c)
  case (Cons e es)
  have z: "ck_nerr (check_local k e c) = 0" using Cons.prems check_from_nerr [of "check_local k e c" "Suc k" es] by auto
  have "(\<forall>i < length (e # es). id_ok (k + i) ((e # es) ! i))
      \<longleftrightarrow> id_ok k e \<and> (\<forall>i < length es. id_ok (Suc k + i) (es ! i))"
    by (auto simp: less_Suc_eq_0_disj)
  then show ?case using Cons.IH [of "Suc k"] Cons.prems check_local_ret [OF z] by (simp del: All_less_Suc) blast
qed simp

lemma time_sorted_map: "time_sorted es \<longleftrightarrow> sorted_wrt (\<le>) (map re_time (used es))"
  by (simp add: time_sorted_def sorted_wrt_map)

text \<open>The local check as one predicate on the log.\<close>

lemma check_fields_from:
  "check_fields es = check_from 0 es \<lparr>ck_nerr = 0, ck_ret = 0, ck_prev_time = 0, ck_prev_nsec = 0\<rparr>"
  by (simp add: check_fields_def check_from_def)

lemma check_fields_good:
  "ck_nerr (check_fields es) = 0 \<longleftrightarrow> (\<forall>e \<in> set es. entry_ok e) \<and> time_sorted es"
proof -
  have "(\<forall>e \<in> set es. entry_ok e) \<Longrightarrow> \<forall>x \<in> set (map re_time (used es)). 0 \<le> x"
    by (auto simp: used_def entry_ok_def)
  then show ?thesis unfolding check_fields_from by (auto simp: check_from_good time_sorted_map)
qed

lemma check_fields_ret:
  "ck_nerr (check_fields es) = 0 \<Longrightarrow>
     ck_ret (check_fields es) = c_bool (\<not> (\<forall>i < length es. id_ok i (es ! i)))"
  unfolding check_fields_from by (subst check_from_ret) (auto simp: c_bool_def)

section \<open>The users' contests\<close>

text \<open>What the assertions of the check rely on: a user with a start time is a virtual participant.\<close>

definition contest_ok :: "user_entry \<Rightarrow> bool" where
  "contest_ok v \<longleftrightarrow>
    (if ue_status v = V_VIRTUAL_USER then ue_start_time v > 0 \<and> ue_stop_time v \<ge> 0
     else (ue_status v = 0 \<or> ue_status v = V_REAL_USER) \<and> ue_start_time v = 0 \<and> ue_stop_time v = 0)"

lemma contest_ok_zero [simp]: "contest_ok zero_user_entry"
  by (simp add: contest_ok_def zero_user_entry_def)

lemma check_event_ok:
  assumes "contest_ok v" "re_time e > 0"
  obtains ok v' where "check_event h st e v = Some (ok, v')" "contest_ok v'"
proof -
  have "\<exists>ok v'. check_event h st e v = Some (ok, v') \<and> contest_ok v'"
    using assms
    by (auto simp: check_event_def check_vstart_def check_vstop_def check_run_def contest_ok_def Let_def
        split: if_splits)
  then show thesis using that by blast
qed

definition users_in :: "run_entry list \<Rightarrow> nat \<Rightarrow> bool" where
  "users_in es n \<longleftrightarrow> (\<forall>e \<in> set (used es). 0 < re_user_id e \<and> re_user_id e < int n \<and> re_time e > 0)"

lemma users_in_Cons [simp]:
  "users_in (e # es) n \<longleftrightarrow> (re_status e \<noteq> RUN_EMPTY \<longrightarrow> 0 < re_user_id e \<and> re_user_id e < int n \<and> re_time e > 0)
     \<and> users_in es n"
  by (auto simp: users_in_def)

lemma check_users_total:
  assumes "users_in es (length vs)" "\<forall>v \<in> set vs. contest_ok v"
  shows "\<exists>vs' n'. check_users h st es (vs, n) = Some (vs', n')"
  using assms
proof (induction es arbitrary: vs n)
  case Nil
  then show ?case by simp
next
  case (Cons e es)
  show ?case
  proof (cases "re_is_hidden e \<noteq> 0 \<or> re_status e = RUN_EMPTY")
    case True
    then show ?thesis using Cons by auto
  next
    case False
    then have u: "0 < re_user_id e" "re_user_id e < int (length vs)" "re_time e > 0" using Cons.prems(1) by auto
    then have "vs ! nat (re_user_id e) \<in> set vs" by simp
    then obtain ok v' where v: "check_event h st e (vs ! nat (re_user_id e)) = Some (ok, v')" "contest_ok v'"
      using check_event_ok [OF _ u(3)] Cons.prems(2) by blast
    let ?vs = "vs[nat (re_user_id e) := v']"
    have "\<forall>v \<in> set ?vs. contest_ok v" using Cons.prems(2) v(2) by (auto dest: subsetD [OF set_update_subset_insert])
    then show ?thesis using Cons.IH [of ?vs] Cons.prems(1) False u(2) v(1) by simp
  qed
qed

lemma max_team_spec:
  "max_team es = Max (insert (-1) (re_user_id ` set (used es)))"
proof -
  have "fold (\<lambda>e m. if re_status e = RUN_EMPTY then m else if re_user_id e > m then re_user_id e else m) es m
      = Max (insert m (re_user_id ` set (used es)))" for m
  proof (induction es arbitrary: m)
    case (Cons e es)
    have "finite (re_user_id ` set (used es))" by simp
    from Max_insert_max [OF this, of m "re_user_id e"] show ?case
      using Cons.IH [of m] Cons.IH [of "max m (re_user_id e)"] by (auto simp: max_def)
  qed (simp add: used_def)
  then show ?thesis by (simp add: max_team_def)
qed

lemma max_team_bound: "e \<in> set (used es) \<Longrightarrow> re_user_id e \<le> max_team es"
  unfolding max_team_spec by (rule Max_ge) auto

lemma max_team_none:
  assumes "\<forall>e \<in> set (used es). re_user_id e > 0"
  shows "max_team es \<le> 0 \<longleftrightarrow> used es = []" "max_team es = -1 \<longleftrightarrow> used es = []"
proof -
  have "max_team es > 0" if "used es \<noteq> []"
  proof -
    from that obtain e where "e \<in> set (used es)" by (cases "used es") auto
    then show ?thesis using assms max_team_bound by fastforce
  qed
  moreover have "max_team es = -1" if "used es = []" using that by (simp add: max_team_spec)
  ultimately show "max_team es \<le> 0 \<longleftrightarrow> used es = []" "max_team es = -1 \<longleftrightarrow> used es = []"
    by (cases "used es = []"; force)+
qed

lemma entries_users_in:
  assumes "\<forall>e \<in> set es. entry_ok e" "used es \<noteq> []"
  shows "users_in es (nat (max_team es + 1))"
proof -
  have "re_user_id e > 0" "re_time e > 0" if "e \<in> set (used es)" for e
    using assms(1) that by (auto simp: set_used entry_ok_def)
  then show ?thesis using max_team_bound by (fastforce simp: users_in_def)
qed

text \<open>
  The check as a decision: what an accepted log satisfies.  \<open>contests_ok\<close> runs the users' part on fresh
  users.
\<close>

definition contests_ok :: "run_header \<Rightarrow> run_entry list \<Rightarrow> bool" where
  "contests_ok h es \<longleftrightarrow> used es = [] \<or> (\<exists>vs. check_users h (check_stop_time h) es
     (replicate (nat (max_team es + 1)) zero_user_entry, 0) = Some (vs, 0))"

lemma check_result:
  "runlog_check h es = Some
    (if check_header h \<and> (\<forall>e \<in> set es. entry_ok e) \<and> time_sorted es \<and> contests_ok h es
     then c_bool (used es \<noteq> [] \<and> \<not> (\<forall>i < length es. id_ok i (es ! i))) else -1)"
proof (cases "check_header h \<and> es \<noteq> [] \<and> (\<forall>e \<in> set es. entry_ok e) \<and> time_sorted es")
  case False
  then consider "\<not> check_header h" | "check_header h" "es = []"
    | "check_header h" "es \<noteq> []" "\<not> ((\<forall>e \<in> set es. entry_ok e) \<and> time_sorted es)" by blast
  then show ?thesis
  proof cases
    case 3
    then have "ck_nerr (check_fields es) > 0" using check_fields_good [of es] by blast
    then show ?thesis using 3 by (auto simp: runlog_check_def Let_def)
  qed (auto simp: runlog_check_def contests_ok_def used_def time_sorted_def c_bool_def)
next
  case True
  then have z: "ck_nerr (check_fields es) = 0" by (simp add: check_fields_good)
  have pos: "\<forall>e \<in> set (used es). re_user_id e > 0" using True by (auto simp: set_used entry_ok_def)
  then have nn: "\<not> (\<exists>e \<in> set es. re_status e \<noteq> RUN_EMPTY \<and> re_user_id e < 0)"
    by (fastforce simp: set_used)
  have r: "runlog_check h es = (if used es = [] then Some 0
      else case check_users h (check_stop_time h) es (replicate (nat (max_team es + 1)) zero_user_entry, 0) of
        None \<Rightarrow> None | Some (vs, nerr) \<Rightarrow> Some (if nerr > 0 then -1 else ck_ret (check_fields es)))"
    unfolding runlog_check_def Let_def if_not_P [OF nn] using True z max_team_none(2) [OF pos] by simp
  show ?thesis
  proof (cases "used es = []")
    case True
    then show ?thesis using r \<open>check_header h \<and> es \<noteq> [] \<and> (\<forall>e \<in> set es. entry_ok e) \<and> time_sorted es\<close>
      by (simp add: contests_ok_def c_bool_def)
  next
    case False
    obtain vs' n' where u: "check_users h (check_stop_time h) es
        (replicate (nat (max_team es + 1)) zero_user_entry, 0) = Some (vs', n')"
      using check_users_total entries_users_in [OF _ False] True by force
    have "contests_ok h es \<longleftrightarrow> n' = 0" using u False by (simp add: contests_ok_def)
    then show ?thesis
      using r u False check_fields_ret [OF z] \<open>check_header h \<and> es \<noteq> [] \<and> (\<forall>e \<in> set es. entry_ok e) \<and> time_sorted es\<close>
      by auto
  qed
qed

section \<open>The index of users on an accepted log\<close>

text \<open>The contest state of a user after the entries of a log: status, start and stop time.\<close>

definition replay_step :: "int \<Rightarrow> run_entry \<Rightarrow> int \<times> int \<times> int \<Rightarrow> int \<times> int \<times> int" where
  "replay_step uid e st =
    (case st of (status, start, stop) \<Rightarrow>
      if re_is_hidden e \<noteq> 0 \<or> re_status e = RUN_EMPTY \<or> re_user_id e \<noteq> uid then st
      else if re_status e = RUN_VIRTUAL_START then (V_VIRTUAL_USER, re_time e, stop)
      else if re_status e = RUN_VIRTUAL_STOP then (status, start, re_time e)
      else (if status = 0 then V_REAL_USER else status, start, stop))"

definition replay :: "int \<Rightarrow> run_entry list \<Rightarrow> int \<times> int \<times> int" where
  "replay uid es = fold (replay_step uid) es (0, 0, 0)"

definition contest_of :: "user_entry \<Rightarrow> int \<times> int \<times> int" where
  "contest_of ue = (ue_status ue, ue_start_time ue, ue_stop_time ue)"

text \<open>An event the check accepts is one the index takes, with the same effect on the user.\<close>

lemma accepted_event:
  assumes "check_event h st e v = Some (True, v')" "contest_ok v" "re_time e > 0"
    "re_is_hidden e = 0" "re_status e \<noteq> RUN_EMPTY" "contest_of ue = contest_of v" "re_user_id e = uid"
  shows "contest_of v' = replay_step uid e (contest_of v)"
    and "\<exists>ue'. build_event e ue = Some ue' \<and> contest_of ue' = contest_of v'
       \<and> ue_run_id_valid ue' = ue_run_id_valid ue"
proof -
  have "contest_of v' = replay_step uid e (contest_of v) \<and> (\<exists>ue'. build_event e ue = Some ue'
      \<and> contest_of ue' = contest_of v' \<and> ue_run_id_valid ue' = ue_run_id_valid ue)"
    using assms
    by (auto simp: check_event_def check_vstart_def check_vstop_def check_run_def contest_ok_def
        contest_of_def replay_step_def build_event_def Let_def split: if_splits)
  then show "contest_of v' = replay_step uid e (contest_of v)"
    "\<exists>ue'. build_event e ue = Some ue' \<and> contest_of ue' = contest_of v'
       \<and> ue_run_id_valid ue' = ue_run_id_valid ue" by blast+
qed

definition entry_contest :: "user_entry option \<Rightarrow> int \<times> int \<times> int" where
  "entry_contest x = (case x of None \<Rightarrow> (0, 0, 0) | Some ue \<Rightarrow> contest_of ue)"

lemma check_users_nerr: "check_users h st es (vs, n) = Some (vs', n') \<Longrightarrow> n \<le> n'"
proof (induction es arbitrary: vs n)
  case (Cons e es)
  have "n \<le> n'" if "check_users h st es (ws, if ok then n else Suc n) = Some (vs', n')" for ws ok
    using Cons.IH [OF that] by (simp split: if_splits)
  then show ?case using Cons.prems Cons.IH by (auto split: if_splits option.splits simp del: if_split)
qed simp

text \<open>The table of users under construction agrees with the users of the check.\<close>

definition agrees :: "user_entry option list \<Rightarrow> user_entry list \<Rightarrow> bool" where
  "agrees tab vs \<longleftrightarrow> (\<forall>u. 0 < u \<and> u < length vs \<longrightarrow> u < length tab \<and> contest_ok (vs ! u)
     \<and> entry_contest (tab ! u) = contest_of (vs ! u)
     \<and> (\<forall>ue. tab ! u = Some ue \<longrightarrow> ue_run_id_valid ue = 0))"

lemma build_step_eq:
  assumes "re_status e \<noteq> RUN_EMPTY" "0 < re_user_id e"
    "ue = (case tab ! nat (re_user_id e) of None \<Rightarrow> new_user_entry | Some ue \<Rightarrow> ue)"
    "ue1 = ue\<lparr>ue_run_id_first := (if ue_run_id_first ue < 0 then int i else ue_run_id_first ue),
               ue_run_id_last := int i\<rparr>"
    "build_event e ue1 = Some ue2"
  shows "build_step i e (tab, ext) = Some (tab[nat (re_user_id e) := Some ue2], link_last ext (ue_run_id_last ue) i)"
  unfolding build_step_def Let_def prod.case assms(3) [symmetric] assms(4) [symmetric] using assms(1,2,5) by simp

lemma build_step_accepted:
  assumes "agrees tab vs" "re_status e \<noteq> RUN_EMPTY" "0 < re_user_id e" "re_user_id e < int (length vs)"
    "re_time e > 0"
    "if re_is_hidden e = 0 then check_event h st e (vs ! nat (re_user_id e)) = Some (True, v')
     else v' = vs ! nat (re_user_id e)"
  obtains tab' ext' where "build_step i e (tab, ext) = Some (tab', ext')" "agrees tab' (vs[nat (re_user_id e) := v'])"
    "length tab' = length tab" "length ext' = length ext"
    "contest_of v' = replay_step (re_user_id e) e (contest_of (vs ! nat (re_user_id e)))"
    "\<And>w. w \<noteq> nat (re_user_id e) \<Longrightarrow> tab' ! w = tab ! w"
proof -
  let ?u = "nat (re_user_id e)" and ?v = "vs ! nat (re_user_id e)"
  have u: "0 < ?u" "?u < length vs" using assms(3,4) by auto
  have A: "?u < length tab" "contest_ok ?v" "entry_contest (tab ! ?u) = contest_of ?v"
    "\<And>ue. tab ! ?u = Some ue \<Longrightarrow> ue_run_id_valid ue = 0"
    using assms(1) u unfolding agrees_def by blast+
  define ue where "ue = (case tab ! ?u of None \<Rightarrow> new_user_entry | Some ue \<Rightarrow> ue)"
  define ue1 where "ue1 = ue\<lparr>ue_run_id_first := (if ue_run_id_first ue < 0 then int i else ue_run_id_first ue),
                      ue_run_id_last := int i\<rparr>"
  have c1: "contest_of ue1 = contest_of ?v" and w1: "ue_run_id_valid ue1 = 0"
    using A(3,4) by (auto simp: ue1_def ue_def entry_contest_def contest_of_def new_user_entry_def
        zero_user_entry_def split: option.splits)
  have "contest_of v' = replay_step (re_user_id e) e (contest_of ?v) \<and> (\<exists>ue2. build_event e ue1 = Some ue2
      \<and> contest_of ue2 = contest_of v' \<and> ue_run_id_valid ue2 = 0) \<and> contest_ok v'"
  proof (cases "re_is_hidden e = 0")
    case True
    then have ev: "check_event h st e ?v = Some (True, v')" using assms(6) by simp
    have "contest_ok v'" using check_event_ok [OF A(2) assms(5), of h st] ev by auto
    then show ?thesis using accepted_event [OF ev A(2) assms(5) True assms(2) c1 refl] w1 by auto
  next
    case False
    then show ?thesis using assms(6) A(2) c1 w1 by (auto simp: build_event_def replay_step_def split: prod.splits)
  qed
  then obtain ue2 where E: "contest_of v' = replay_step (re_user_id e) e (contest_of ?v)"
    "build_event e ue1 = Some ue2" "contest_of ue2 = contest_of v'" "ue_run_id_valid ue2 = 0" "contest_ok v'"
    by blast
  have "build_step i e (tab, ext) = Some (tab[?u := Some ue2], link_last ext (ue_run_id_last ue) i)"
    by (rule build_step_eq [OF assms(2,3) ue_def ue1_def E(2)])
  moreover have "agrees (tab[?u := Some ue2]) (vs[?u := v'])"
    using assms(1) u(2) A(1) E(3-5) by (auto simp: agrees_def nth_list_update entry_contest_def)
  ultimately show thesis by (rule that) (use E(1) in simp_all)
qed

lemma replay_step_other: "re_user_id e \<noteq> uid \<Longrightarrow> replay_step uid e st = st"
  by (auto simp: replay_step_def split: prod.splits)

lemma build_loop_accepted:
  assumes "check_users h st es (vs, 0) = Some (vs', 0)" "users_in es (length vs)" "agrees tab vs"
  obtains tab' ext' where "build_loop i es (tab, ext) = Some (tab', ext')" "length tab' = length tab"
    "length ext' = length ext" "agrees tab' vs'" "length vs' = length vs"
    "\<And>w. w = 0 \<or> length vs \<le> w \<Longrightarrow> tab' ! w = tab ! w"
    "\<And>u. 0 < u \<Longrightarrow> u < length vs \<Longrightarrow> contest_of (vs' ! u) = fold (replay_step (int u)) es (contest_of (vs ! u))"
proof -
  have "\<exists>tab' ext'. build_loop i es (tab, ext) = Some (tab', ext') \<and> length tab' = length tab
    \<and> length ext' = length ext \<and> agrees tab' vs' \<and> length vs' = length vs
    \<and> (\<forall>w. w = 0 \<or> length vs \<le> w \<longrightarrow> tab' ! w = tab ! w) \<and> (\<forall>u. 0 < u \<and> u < length vs \<longrightarrow>
      contest_of (vs' ! u) = fold (replay_step (int u)) es (contest_of (vs ! u)))"
    using assms
  proof (induction es arbitrary: vs tab ext i)
    case Nil
    then show ?case by simp
  next
    case (Cons e es)
    show ?case
    proof (cases "re_status e = RUN_EMPTY")
      case True
      have r: "replay_step u e x = x" for u x using True by (auto simp: replay_step_def split: prod.splits)
      have "check_users h st es (vs, 0) = Some (vs', 0)" "users_in es (length vs)"
        using Cons.prems(1,2) True by simp_all
      from Cons.IH [OF this Cons.prems(3), of "Suc i" ext] show ?thesis
        using True r by (simp add: build_step_def)
    next
      case ne: False
      then have u: "0 < re_user_id e" "re_user_id e < int (length vs)" "re_time e > 0" "users_in es (length vs)"
        using Cons.prems(2) by auto
      let ?u = "nat (re_user_id e)"
      obtain v' where v': "if re_is_hidden e = 0 then check_event h st e (vs ! ?u) = Some (True, v') else v' = vs ! ?u"
        and rest: "check_users h st es (vs[?u := v'], 0) = Some (vs', 0)"
      proof (cases "re_is_hidden e = 0")
        case True
        then obtain ok v where e: "check_event h st e (vs ! ?u) = Some (ok, v)"
          "check_users h st es (vs[?u := v], if ok then 0 else Suc 0) = Some (vs', 0)"
          using Cons.prems(1) ne u(2) by (auto split: option.splits)
        have "ok" using check_users_nerr [OF e(2)] by (cases ok) auto
        then show thesis using that [of v] e True by simp
      next
        case False
        then show thesis using that [of "vs ! ?u"] Cons.prems(1) by simp
      qed
      obtain tab1 ext1 where b: "build_step i e (tab, ext) = Some (tab1, ext1)" "agrees tab1 (vs[?u := v'])"
        "length tab1 = length tab" "length ext1 = length ext"
        "contest_of v' = replay_step (re_user_id e) e (contest_of (vs ! ?u))"
        "\<And>w. w \<noteq> ?u \<Longrightarrow> tab1 ! w = tab ! w"
        by (rule build_step_accepted [OF Cons.prems(3) ne u(1,2,3) v', where i = i and ext = ext]) auto
      have "users_in es (length (vs[?u := v']))" using u(4) by simp
      from Cons.IH [OF rest this b(2), of "Suc i" ext1] obtain tab' ext' where
        I: "build_loop (Suc i) es (tab1, ext1) = Some (tab', ext')" "length tab' = length tab1"
        "length ext' = length ext1" "agrees tab' vs'" "length vs' = length vs"
        "\<And>w. 0 < w \<Longrightarrow> w < length vs \<Longrightarrow> contest_of (vs' ! w)
           = fold (replay_step (int w)) es (contest_of (vs[?u := v'] ! w))"
        "\<And>w. w = 0 \<or> length vs \<le> w \<Longrightarrow> tab' ! w = tab1 ! w"
        by auto
      have "contest_of (vs' ! w) = fold (replay_step (int w)) (e # es) (contest_of (vs ! w))"
        if w: "0 < w" "w < length vs" for w
      proof (cases "w = ?u")
        case True
        then show ?thesis using I(6) [OF w] b(5) u(1) w by simp
      next
        case False
        then have "re_user_id e \<noteq> int w" by auto
        then show ?thesis using I(6) [OF w] False by (simp add: replay_step_other)
      qed
      moreover have "tab' ! w = tab ! w" if "w = 0 \<or> length vs \<le> w" for w
        using I(7) [OF that] b(6) [of w] u(1,2) that by auto
      ultimately show ?thesis using I(1-5) b(1,3,4) by auto
    qed
  qed
  then show thesis using that by blast
qed

lemma replay_foreign: "\<forall>e \<in> set (used es). re_user_id e \<noteq> uid \<Longrightarrow> fold (replay_step uid) es st = st"
proof (induction es arbitrary: st)
  case (Cons e es)
  have "replay_step uid e st = st"
    using Cons.prems by (auto simp: replay_step_def split: prod.splits if_splits)
  then show ?case using Cons by (auto split: if_splits)
qed simp

lemma index_inv_unbuilt:
  assumes "wf_runs s" "run_extra_u s \<le> length (run_extras s)"
    "\<And>uid ue. ut_lookup s uid = Some ue \<Longrightarrow> ue_run_id_valid ue = 0"
  shows "index_inv s"
  using assms by (auto simp: index_inv_def)

lemma build_uuid_frame:
  "build_uuid_hash incr s = Some s' \<Longrightarrow> ut_table s' = ut_table s \<and> run_extras s' = run_extras s
     \<and> run_extra_u s' = run_extra_u s"
  by (auto simp: build_uuid_hash_def Let_def split: if_splits option.splits prod.splits)

text \<open>The last step of \<open>build_indices\<close>.\<close>

lemma uuid_step:
  assumes "wf_runs s"
  obtains s' where "(if has flags RUN_LOG_UUID_INDEX then build_uuid_hash 0 s else Some s) = Some s'"
    "core s' = core s" "ut_table s' = ut_table s" "run_extras s' = run_extras s" "run_extra_u s' = run_extra_u s"
proof (cases "has flags RUN_LOG_UUID_INDEX")
  case True
  obtain s' where s': "build_uuid_hash 0 s = Some s'" by (rule build_total [OF assms, of 0]) auto
  then show thesis using that [of s'] True core_build [OF s'] build_uuid_frame [OF s'] by simp
qed (use that in simp)

text \<open>
  C23: on every log that \<open>runlog_check\<close> accepts, \<open>build_indices\<close> fails no assertion, changes neither the log
  nor the file, leaves a consistent index, and gives each user the contest state (status, start and stop
  time) that replaying the log gives.
\<close>

theorem build_indices_accepted:
  assumes "runlog_check (head s) (log s) = Some r" "r \<ge> 0" "wf_runs s" "run_extra_u s \<le> length (run_extras s)"
  shows "\<exists>s'. build_indices flags s = Some s' \<and> core s' = core s \<and> index_inv s'
    \<and> (\<forall>uid > 0. virt s' uid = replay uid (log s))"
proof -
  let ?es = "log s" and ?m = "max_team (log s)"
  have A: "\<forall>e \<in> set ?es. entry_ok e" "contests_ok (head s) ?es"
    using assms(1,2) unfolding check_result by (auto split: if_splits)
  have pos: "\<forall>e \<in> set (used ?es). re_user_id e > 0" using A(1) by (auto simp: set_used entry_ok_def)
  then have nn: "\<not> (\<exists>e \<in> set ?es. re_status e \<noteq> RUN_EMPTY \<and> re_user_id e \<le> 0)"
    by (fastforce simp: set_used)
  let ?s = "s\<lparr>ut_table := []\<rparr>"
  have lg: "log ?s = ?es" by (simp add: frame_simps)
  show ?thesis
  proof (cases "used ?es = []")
    case True
    then have m: "?m \<le> 0" using max_team_none(1) [OF pos] by blast
    have "wf_runs ?s" using assms(3) by (simp add: wf_runs_def)
    then obtain s' where s': "(if has flags RUN_LOG_UUID_INDEX then build_uuid_hash 0 ?s else Some ?s) = Some s'"
      "core s' = core ?s" "ut_table s' = []" "run_extras s' = run_extras s" "run_extra_u s' = run_extra_u s"
      by (rule uuid_step [where flags = flags]) simp
    have b: "build_indices flags s = Some s'"
      unfolding build_indices_def Let_def lg if_not_P [OF nn] using m s'(1) by simp
    have "ut_lookup s' uid = None" for uid using s'(3) by (auto simp: ut_lookup_def)
    moreover have "wf_runs s'" using coreD(9) [OF s'(2)] \<open>wf_runs ?s\<close> by simp
    ultimately have "index_inv s'" using s'(4,5) assms(4) by (intro index_inv_unbuilt) auto
    moreover have "virt s' uid = replay uid ?es" for uid
      using replay_foreign [of ?es uid "(0, 0, 0)"] True \<open>\<And>uid. ut_lookup s' uid = None\<close>
      by (simp add: replay_def virt_def)
    ultimately show ?thesis using b s'(2) by auto
  next
    case False
    then have m: "\<not> ?m \<le> 0" using max_team_none(1) [OF pos] by blast
    let ?vs = "replicate (nat (?m + 1)) zero_user_entry"
    obtain vs where C: "check_users (head s) (check_stop_time (head s)) ?es (?vs, 0) = Some (vs, 0)"
      using A(2) False by (auto simp: contests_ok_def)
    let ?s1 = "extend_run_extras (?s\<lparr>max_user_id := ?m\<rparr>)"
    let ?size = "double_upto (nat ?m + 1) 128"
    have sz: "nat ?m + 1 \<le> ?size" by (rule double_upto_ge) simp
    have ui: "users_in ?es (length ?vs)" using entries_users_in [OF A(1) False] by simp
    have ag: "agrees (replicate ?size None) ?vs"
      using sz m by (auto simp: agrees_def entry_contest_def contest_of_def zero_user_entry_def contest_ok_def)
    obtain tab ext where L: "build_loop 0 ?es (replicate ?size None, run_extras ?s1) = Some (tab, ext)"
      "length tab = ?size" "length ext = length (run_extras ?s1)" "agrees tab vs" "length vs = length ?vs"
      "\<And>w. w = 0 \<or> length ?vs \<le> w \<Longrightarrow> tab ! w = replicate ?size None ! w"
      "\<And>u. 0 < u \<Longrightarrow> u < length ?vs \<Longrightarrow> contest_of (vs ! u) = fold (replay_step (int u)) ?es (contest_of (?vs ! u))"
      by (rule build_loop_accepted [OF C ui ag, where i = 0 and ext = "run_extras ?s1"]) (simp only: length_replicate)
    let ?s2 = "?s1\<lparr>ut_table := tab, run_extras := ext\<rparr>"
    have c2: "core ?s2 = core s" by simp
    have "wf_runs ?s2" using coreD(9) [OF c2] assms(3) by simp
    then obtain s' where s': "(if has flags RUN_LOG_UUID_INDEX then build_uuid_hash 0 ?s2 else Some ?s2) = Some s'"
      "core s' = core ?s2" "ut_table s' = tab" "run_extras s' = ext" "run_extra_u s' = run_extra_u ?s1"
      by (rule uuid_step [where flags = flags]) simp
    have lg1: "log ?s1 = ?es" using coreD(8) [of ?s1 s] by simp
    have b: "build_indices flags s = Some s'"
      unfolding build_indices_def Let_def lg if_not_P [OF nn] if_not_P [OF m] lg1 using L(1) s'(1) by simp
    have tab0: "ue_run_id_valid ue = 0" if "ut_lookup s' uid = Some ue" for uid ue
    proof -
      have t: "nat uid < ?size" "tab ! nat uid = Some ue" using that s'(3) L(2) by (auto simp: ut_lookup_def split: if_splits)
      have "0 < nat uid \<and> nat uid < length vs"
        using L(6) [of "nat uid"] t L(5) by (metis gr0I leI nth_replicate option.distinct(1))
      then show ?thesis using L(4) t(2) unfolding agrees_def by blast
    qed
    have v: "virt s' uid = replay uid ?es" if "uid > 0" for uid
    proof (cases "nat uid < length ?vs")
      case True
      then have u: "0 < nat uid" "nat uid < length vs" using that L(5) by simp_all
      then have "nat uid < length tab" "entry_contest (tab ! nat uid) = contest_of (vs ! nat uid)"
        using L(4) by (auto simp: agrees_def)
      moreover have "contest_of (?vs ! nat uid) = (0, 0, 0)"
        using True by (simp add: contest_of_def zero_user_entry_def)
      ultimately show ?thesis using L(7) [OF u(1) True] s'(3) that
        by (auto simp: virt_def ut_lookup_def entry_contest_def contest_of_def replay_def split: option.splits)
    next
      case False
      then have "length ?vs \<le> nat uid" by linarith
      then have "tab ! nat uid = replicate ?size None ! nat uid" by (intro L(6)) blast
      then have "ut_lookup s' uid = None" using L(2) s'(3) by (auto simp: ut_lookup_def)
      moreover have "\<forall>e \<in> set (used ?es). re_user_id e \<noteq> uid" using max_team_bound False that by fastforce
      ultimately show ?thesis using replay_foreign by (simp add: virt_def replay_def)
    qed
    have "wf_runs s'" using coreD(9) [OF s'(2)] \<open>wf_runs ?s2\<close> by simp
    moreover have "run_extra_u s' \<le> length (run_extras s')"
      using extend_run_extras_props(1,2) [of "?s\<lparr>max_user_id := ?m\<rparr>"] assms(4) s'(4,5) L(3) by simp
    ultimately have "index_inv s'" using tab0 by (intro index_inv_unbuilt) auto
    then show ?thesis using b s'(2) c2 v by auto
  qed
qed

text \<open>
  An event fits the contest of its user: a participant starts once and before anything else, stops once
  and in time, and a run lies in the participant's own window or in that of the contest.
\<close>

definition fits :: "run_header \<Rightarrow> run_entry \<Rightarrow> int \<times> int \<times> int \<Rightarrow> bool" where
  "fits h e c =
    (case c of (status, start, stop) \<Rightarrow>
      if re_status e = RUN_VIRTUAL_START then status = 0
      else if re_status e = RUN_VIRTUAL_STOP then
        status = V_VIRTUAL_USER \<and> stop = 0 \<and> (rh_duration h \<noteq> 0 \<longrightarrow> re_time e \<le> start + rh_duration h)
      else
        (let (a, b) = (if status = V_VIRTUAL_USER
               then (start, if stop = 0 \<and> rh_duration h \<noteq> 0 then start + rh_duration h else stop)
               else (rh_start_time h, check_stop_time h))
         in a \<le> re_time e \<and> (b \<noteq> 0 \<longrightarrow> re_time e \<le> b)))"

definition visible :: "run_entry \<Rightarrow> bool" where
  "visible e \<longleftrightarrow> re_is_hidden e = 0 \<and> re_status e \<noteq> RUN_EMPTY"

lemma event_fits:
  assumes "contest_ok v" "re_time e > 0" "check_event h (check_stop_time h) e v = Some (ok, v')"
  shows "ok \<longleftrightarrow> fits h e (contest_of v)"
  using assms
  by (auto simp: check_event_def check_vstart_def check_vstop_def check_run_def contest_ok_def
      contest_of_def fits_def Let_def split: if_splits)

lemma replay_step_invisible: "\<not> visible e \<Longrightarrow> replay_step uid e st = st"
  by (auto simp: replay_step_def visible_def split: prod.splits)

lemma check_users_fits:
  assumes "users_in es (length vs)" "\<forall>v \<in> set vs. contest_ok v"
  shows "(\<exists>vs'. check_users h (check_stop_time h) es (vs, 0) = Some (vs', 0)) \<longleftrightarrow>
    (\<forall>i < length es. visible (es ! i) \<longrightarrow> fits h (es ! i)
       (fold (replay_step (re_user_id (es ! i))) (take i es) (contest_of (vs ! nat (re_user_id (es ! i))))))"
  using assms
proof (induction es arbitrary: vs)
  case Nil
  then show ?case by simp
next
  case (Cons e es)
  show ?case
  proof (cases "visible e")
    case False
    then have "check_users h (check_stop_time h) (e # es) (vs, 0) = check_users h (check_stop_time h) es (vs, 0)"
      by (auto simp: visible_def)
    then show ?thesis using Cons False
      unfolding length_Cons All_less_Suc2 by (simp add: replay_step_invisible)
  next
    case True
    then have u: "0 < re_user_id e" "re_user_id e < int (length vs)" "re_time e > 0"
      "re_is_hidden e = 0" "re_status e \<noteq> RUN_EMPTY" "users_in es (length vs)"
      using Cons.prems(1) by (auto simp: visible_def)
    let ?u = "nat (re_user_id e)"
    have v: "contest_ok (vs ! ?u)" using Cons.prems(2) u(1,2) by (auto intro: nth_mem)
    obtain ok v' where e: "check_event h (check_stop_time h) e (vs ! ?u) = Some (ok, v')" "contest_ok v'"
      by (rule check_event_ok [OF v u(3)])
    note f = event_fits [OF v u(3) e(1)]
    have c: "check_users h (check_stop_time h) (e # es) (vs, 0)
        = check_users h (check_stop_time h) es (vs[?u := v'], if ok then 0 else Suc 0)"
      using e(1) u by simp
    show ?thesis
    proof (cases ok)
      case True
      have ok': "\<forall>v \<in> set (vs[?u := v']). contest_ok v"
        using Cons.prems(2) e(2) by (auto dest: subsetD [OF set_update_subset_insert])
      have st: "contest_of v' = replay_step (re_user_id e) e (contest_of (vs ! ?u))"
        using accepted_event(1) [OF _ v u(3-5) refl refl] e(1) True by simp
      have "contest_of (vs[?u := v'] ! nat (re_user_id x)) = replay_step (re_user_id x) e (contest_of (vs ! nat (re_user_id x)))"
        if "x \<in> set es" "visible x" for x
      proof (cases "re_user_id x = re_user_id e")
        case True
        then show ?thesis using st u(1,2) by simp
      next
        case False
        have "re_user_id x > 0" using u(6) that by (auto simp: users_in_def visible_def set_used)
        then have "nat (re_user_id x) \<noteq> ?u" using False u(1) by simp
        then show ?thesis using False by (simp add: replay_step_other)
      qed
      then show ?thesis
        using Cons.IH [OF _ ok'] u(6) f True unfolding c length_Cons All_less_Suc2 by simp
    next
      case False
      have "\<not> (\<exists>vs'. check_users h (check_stop_time h) es (vs[?u := v'], Suc 0) = Some (vs', 0))"
        using check_users_nerr by fastforce
      then show ?thesis using f False True unfolding c length_Cons All_less_Suc2 by simp
    qed
  qed
qed

lemma contests_ok_fits:
  assumes "\<forall>e \<in> set es. entry_ok e"
  shows "contests_ok h es \<longleftrightarrow> (\<forall>i < length es. visible (es ! i) \<longrightarrow>
    fits h (es ! i) (replay (re_user_id (es ! i)) (take i es)))"
proof (cases "used es = []")
  case True
  then show ?thesis by (auto simp: contests_ok_def visible_def used_def filter_empty_conv)
next
  case False
  let ?vs = "replicate (nat (max_team es + 1)) zero_user_entry"
  have ui: "users_in es (length ?vs)" using entries_users_in [OF assms False] by simp
  have "contest_of (?vs ! nat (re_user_id (es ! i))) = (0, 0, 0)" if "i < length es" "visible (es ! i)" for i
  proof -
    have "es ! i \<in> set (used es)" using that by (simp add: set_used visible_def)
    then have "0 < re_user_id (es ! i) \<and> re_user_id (es ! i) < int (length ?vs)"
      using ui unfolding users_in_def by blast
    then have "nat (re_user_id (es ! i)) < length ?vs" by linarith
    then show ?thesis by (simp add: contest_of_def zero_user_entry_def)
  qed
  then show ?thesis
    using check_users_fits [OF ui, of h] False by (simp add: contests_ok_def replay_def)
qed

text \<open>
  C9: \<open>runlog_check\<close> returns on every log without failing an assertion.  It refuses a log unless the
  header is consistent, every entry is acceptable by itself, the times of the entries that are not EMPTY
  do not decrease, and every visible event fits the
  contest state that replaying the log before it gives for its user; it then returns 0, or 1 when some entry
  does not carry its position as run id.
\<close>

theorem runlog_check_decides:
  "runlog_check h es = Some
    (if check_header h \<and> (\<forall>e \<in> set es. entry_ok e) \<and> time_sorted es
        \<and> (\<forall>i < length es. visible (es ! i) \<longrightarrow> fits h (es ! i) (replay (re_user_id (es ! i)) (take i es)))
     then c_bool (used es \<noteq> [] \<and> \<not> (\<forall>i < length es. id_ok i (es ! i))) else -1)"
  unfolding check_result using contests_ok_fits [of es h] by auto

theorem runlog_check_decides_witness:
  "runlog_check ex_header [ex_run 0 1 1 RUN_OK, ex_run 3 1 1 RUN_OK] = Some 1"
proof -
  have e: "entry_ok (ex_run r 1 1 0)" if "r > -100" for r
    using that by (simp add: entry_ok_def ex_run_def bad_status_def virtual_status_def check_regular_def zero_entry_def
        invalid_bool_2_def)
  have "used [ex_run 0 1 1 0, ex_run 3 1 1 0] = [ex_run 0 1 1 0, ex_run 3 1 1 0]" by simp
  moreover have "\<not> (\<forall>i < length [ex_run 0 1 1 0, ex_run 3 1 1 0]. id_ok i ([ex_run 0 1 1 0, ex_run 3 1 1 0] ! i))"
    by (auto simp: id_ok_def intro!: exI [of _ 1])
  moreover have "check_header ex_header" by (simp add: check_header_def ex_header_def zero_header_def)
  moreover have "\<forall>i < length [ex_run 0 1 1 0, ex_run 3 1 1 0]. fits ex_header ([ex_run 0 1 1 0, ex_run 3 1 1 0] ! i)
      (replay (re_user_id ([ex_run 0 1 1 0, ex_run 3 1 1 0] ! i)) (take i [ex_run 0 1 1 0, ex_run 3 1 1 0]))"
    by (auto simp: less_Suc_eq_0_disj fits_def replay_def replay_step_def ex_header_def zero_header_def check_stop_time_def)
  ultimately show ?thesis
    using e [of 0] e [of 3] unfolding runlog_check_decides by (simp add: time_sorted_def c_bool_def)
qed

text \<open>A virtual contest of user 3 with one run in it.\<close>

definition ex_event :: "int \<Rightarrow> int \<Rightarrow> int \<Rightarrow> run_entry" where
  "ex_event rid t st = zero_entry\<lparr>re_run_id := rid, re_time := t, re_user_id := 3, re_status := st\<rparr>"

definition ex_virtual :: runlog where
  "ex_virtual = run_init\<lparr>head := ex_header, run_u := 3,
     runs := [ex_event 0 120 RUN_VIRTUAL_START, ex_run 1 3 1 RUN_OK\<lparr>re_time := 125\<rparr>, ex_event 2 130 RUN_VIRTUAL_STOP]\<rparr>"

lemma ex_virtual_ok:
  "runlog_check (head ex_virtual) (log ex_virtual) = Some 0" "wf_runs ex_virtual"
  "run_extra_u ex_virtual \<le> length (run_extras ex_virtual)"
proof -
  have l: "log ex_virtual = [ex_event 0 120 20, ex_run 1 3 1 0\<lparr>re_time := 125\<rparr>, ex_event 2 130 21]"
    by (simp add: ex_virtual_def log_def)
  have h: "head ex_virtual = ex_header" by (simp add: ex_virtual_def)
  have e: "entry_ok (ex_event r t 20)" "entry_ok (ex_event r t 21)" if "t > 0" for r t
    using that by (simp_all add: entry_ok_def ex_event_def bad_status_def virtual_status_def virtual_garbage_def
        put_ip4_def zero_entry_def)
  have r: "entry_ok (ex_run 1 3 1 0\<lparr>re_time := 125\<rparr>)"
    by (simp add: entry_ok_def ex_run_def bad_status_def virtual_status_def check_regular_def zero_entry_def
        invalid_bool_2_def)
  have [simp]: "re_status (ex_event r t st) = st" "re_time (ex_event r t st) = t" "re_user_id (ex_event r t st) = 3"
    "re_is_hidden (ex_event r t st) = 0" "re_run_id (ex_event r t st) = r" for r t st
    by (simp_all add: ex_event_def zero_entry_def)
  have m: "max_team (log ex_virtual) = 3" by (simp add: max_team_def l)
  have "contests_ok ex_header (log ex_virtual)"
    unfolding contests_ok_def m unfolding l
    by (simp add: check_event_def check_vstart_def check_vstop_def check_run_def zero_user_entry_def
        ex_header_def zero_header_def numeral_eq_Suc)
  moreover have "check_header ex_header" by (simp add: check_header_def ex_header_def zero_header_def)
  moreover have "time_sorted (log ex_virtual)" by (simp add: time_sorted_def l used_def)
  moreover have "\<forall>i < length (log ex_virtual). id_ok i (log ex_virtual ! i)"
    by (auto simp: l id_ok_def less_Suc_eq_0_disj)
  ultimately show "runlog_check (head ex_virtual) (log ex_virtual) = Some 0"
    unfolding check_result h by (simp add: l e r c_bool_def)
  show "wf_runs ex_virtual" "run_extra_u ex_virtual \<le> length (run_extras ex_virtual)"
    by (simp_all add: ex_virtual_def wf_runs_def run_init_def)
qed

theorem build_indices_accepted_witness:
  "\<exists>s'. build_indices 8 ex_virtual = Some s' \<and> index_inv s' \<and> virt s' 3 = (V_VIRTUAL_USER, 120, 130)"
proof -
  have l: "log ex_virtual = [ex_event 0 120 20, ex_run 1 3 1 0\<lparr>re_time := 125\<rparr>, ex_event 2 130 21]"
    by (simp add: ex_virtual_def log_def)
  have "replay 3 (log ex_virtual) = (V_VIRTUAL_USER, 120, 130)"
    by (simp add: l replay_def replay_step_def ex_event_def zero_entry_def)
  then show ?thesis using build_indices_accepted [OF ex_virtual_ok(1) _ ex_virtual_ok(2,3), of 8] by auto
qed

text \<open>
  C24: the entry that \<open>run_virtual_start\<close> or \<open>run_virtual_stop\<close> records for a participant with an IPv6 address
  makes the log unreadable: the check takes the last twelve bytes of the address for garbage, since it
  blanks only the IPv4 word.
\<close>

theorem runlog_check_rejects_ipv6_event:
  assumes "st = RUN_VIRTUAL_START \<or> st = RUN_VIRTUAL_STOP" "ip_ipv6_flag ip \<noteq> 0" "ip_u ip = (a, b, c, d)"
    "(b, c, d) \<noteq> (0, 0, 0)"
    "add_entry_fields virtual_mask (virtual_entry uid (Some ip) ssl st) (empty_slot rid t nsec) \<in> set es"
  shows "runlog_check h es = Some (-1)"
proof -
  let ?e = "add_entry_fields virtual_mask (virtual_entry uid (Some ip) ssl st) (empty_slot rid t nsec)"
  have a: "re_a ?e = (a, b, c, d)"
    using assms(2,3)
    by (simp add: add_entry_fields_def apply_if_def virtual_mask_def mask_defs has_def virtual_entry_def ipv6_to_run_entry_def)
  have s: "re_status ?e = st"
    by (simp add: add_entry_fields_get virtual_mask_def mask_defs has_def virtual_entry_def)
  have "virtual_garbage ?e"
  proof (rule ccontr)
    assume "\<not> virtual_garbage ?e"
    then have "re_a (put_ip4 0 (?e\<lparr>re_run_id := 0, re_status := 0, re_user_id := 0, re_time := 0, re_nsec := 0,
       re_ssl_flag := 0, re_ipv6_flag := 0, re_judge_id := 0\<rparr>)) = re_a zero_entry"
      by (simp add: virtual_garbage_def)
    then show False using a assms(4) by (simp add: put_ip4_def zero_entry_def)
  qed
  then have "\<not> entry_ok ?e" using assms(1) s by (auto simp: entry_ok_def virtual_status_def)
  then show ?thesis unfolding check_result using assms(5) by auto
qed

theorem runlog_check_rejects_ipv6_event_witness:
  "runlog_check ex_header [add_entry_fields virtual_mask
      (virtual_entry 3 (Some \<lparr>ip_ipv6_flag = 1, ip_u = (0x20010DB8, 0, 0, 1)\<rparr>) 0 RUN_VIRTUAL_START) (empty_slot 0 120 0)]
    = Some (-1)"
  by (rule runlog_check_rejects_ipv6_event [of RUN_VIRTUAL_START "\<lparr>ip_ipv6_flag = 1, ip_u = (0x20010DB8, 0, 0, 1)\<rparr>"
        "0x20010DB8" 0 0 1 3 0 0 120 0]) simp_all

end
