(* ===== verification/Log_Steps.thy ===== *)
theory Log_Steps
  imports Check_Laws
begin

text \<open>
  The log as a state machine: the operations of \<open>runlog.c\<close> as the steps of a relation, and what holds in
  every state they reach from an opened log as long as the disk works: the entries are numbered and
  in the order of their times, and the file holds exactly the log and the header.
\<close>

section \<open>Changes of one entry\<close>

lemma used_list_update:
  "i < length es \<Longrightarrow> used (es[i := e]) =
     used (take i es) @ (if is_empty_entry e then [] else [e]) @ used (drop (Suc i) es)"
  by (simp add: upd_conv_take_nth_drop used_append used_def)

lemma time_sorted_update:
  assumes "time_sorted es" "i < length es"
    "re_status e = RUN_EMPTY \<or> re_status (es ! i) \<noteq> RUN_EMPTY \<and> re_time e = re_time (es ! i)"
  shows "time_sorted (es[i := e])"
proof -
  have "sorted_wrt (\<le>) (map re_time (used (es[i := es ! i])))" using assms(1) by (simp add: time_sorted_map)
  then have "sorted_wrt (\<le>) (map re_time (used (take i es))
      @ (if is_empty_entry (es ! i) then [] else [re_time (es ! i)]) @ map re_time (used (drop (Suc i) es)))"
    by (simp only: used_list_update [OF assms(2)] map_append if_distrib [of "map re_time"] list.map)
  then show ?thesis
    unfolding time_sorted_map used_list_update [OF assms(2)] using assms(3)
    by (auto simp: sorted_append split: if_splits)
qed

text \<open>The state of a log that can be worked with: the disk works and the file is of the current version.\<close>

definition live :: "runlog \<Rightarrow> bool" where
  "live s \<longleftrightarrow> file_ok s \<and> io_good s \<and> rh_version (head s) = 2"

lemma liveD:
  assumes "live s"
  shows "file_ok s" "log_base s" "time_sorted (log s)" "wf_runs s" "numbered (log s)" "synced s"
    "run_fd s \<ge> 0" "io_good s" "rh_version (head s) = 2"
  using assms by (simp_all add: live_def file_ok_def log_base_def)

lemma live_core:
  assumes "core s' = core s"
  shows "live s' = live s"
  unfolding live_def coreD(1,11,15) [OF assms] ..

context entry_writer
begin

lemma op_live:
  assumes "op rid s = Some (r, s')" "live s"
    "re_run_id (f (runs s ! nat rid)) = re_run_id (runs s ! nat rid)"
    "re_status (f (runs s ! nat rid)) = RUN_EMPTY \<or> re_status (runs s ! nat rid) \<noteq> RUN_EMPTY
       \<and> re_time (f (runs s ! nat rid)) = re_time (runs s ! nat rid)"
  shows "live s'"
proof -
  note L = liveD [OF assms(2)]
  have n: "nat rid < run_u s" using op_in_log [OF assms(1)] in_log_nat by blast
  have l: "log s' = (log s)[nat rid := f (runs s ! nat rid)]" using op_log [OF assms(1)] n by simp
  have "numbered (log s')" using L(4,5) n assms(3) unfolding l by (auto simp: numbered_def nth_list_update)
  moreover have "time_sorted (log s')"
    unfolding l by (rule time_sorted_update [OF L(3)]) (use L(4) n assms(4) in simp_all)
  moreover have "synced s'" by (rule op_synced [OF assms(1) L(8,7,4,6)])
  moreover have "wf_runs s'" using op_wf [OF assms(1)] L(4) by simp
  moreover have "io_good s'" using op_disk [OF assms(1) L(8,7,4)] by blast
  moreover have "run_fd s' = run_fd s" "head s' = head s" using op_frame [OF assms(1)] sideD(12) by blast+
  ultimately show ?thesis using L(7,9) by (simp add: live_def file_ok_def log_base_def)
qed

end

text \<open>The operations that change the judging result of a run.\<close>

lemma may_change_new: "may_change_status rid st s \<Longrightarrow> to_u8 st \<noteq> 22 \<and> re_status (runs s ! nat rid) \<noteq> 22"
  by (auto simp: may_change_status_def)

lemma change_status_entry_simps [simp]:
  "re_run_id (change_status_entry st t p sc j e) = re_run_id e"
  "re_time (change_status_entry st t p sc j e) = re_time e"
  "re_status (change_status_entry st t p sc j e) = to_u8 st"
  by (simp_all add: change_status_entry_def)

lemma live_status:
  assumes "live s"
  shows "run_change_status rid st t p sc j s = Some (r, s') \<Longrightarrow> live s'"
    "run_change_status_2 rid st t p sc j mk s = Some (r, s') \<Longrightarrow> live s'"
    "run_change_status_3 rid st t p sc j mk hu us ut usc s = Some (r, s') \<Longrightarrow> live s'"
    "run_change_status_4 rid st s = Some (r, s') \<Longrightarrow> live s'"
    "run_set_hidden rid s = Some (r, s') \<Longrightarrow> live s'"
    "run_set_judge_id rid j s = Some (r, s') \<Longrightarrow> live s'"
    "run_set_pages rid pg s = Some (r, s') \<Longrightarrow> live s'"
  using assms may_change_new [of rid st s]
  by (auto simp: run_change_status_def run_change_status_2_def run_change_status_3_def run_change_status_4_def
      run_set_hidden_def run_set_judge_id_def run_set_pages_def split: if_splits
      elim!: change_status.op_live change_status_2.op_live change_status_3.op_live change_status_4.op_live
        set_hidden.op_live set_judge_id.op_live set_pages.op_live)

section \<open>Editing a run\<close>

lemma set_field_keep:
  "(\<And>v e. g (put v e) = g e) \<Longrightarrow> g (fst (set_field msk new m get put st)) = g (fst st)"
  by (simp add: set_field_def split: prod.split)

lemma put_ip4_keep [simp]: "re_run_id (put_ip4 w e) = re_run_id e" "re_time (put_ip4 w e) = re_time e"
  by (simp_all add: put_ip4_def)

lemma edit_fields_keep:
  assumes "edit_fields msk new out = (te, f)"
  shows "re_run_id te = re_run_id out" "re_time te = re_time out"
proof -
  have "re_run_id (fst (edit_fields msk new out)) = re_run_id out"
    by (simp add: edit_fields_def set_field_keep)
  moreover have "re_time (fst (edit_fields msk new out)) = re_time out"
    by (simp add: edit_fields_def set_field_keep)
  ultimately show "re_run_id te = re_run_id out" "re_time te = re_time out" using assms by simp_all
qed

lemma core_edited_user: "edited_user te s = Some (uo, s') \<Longrightarrow> core s' = core s"
  by (auto simp: edited_user_def dest: core_get_user split: if_splits option.splits)

text \<open>What a call of \<open>run_set_entry\<close> does: it refuses, finds nothing to do, or writes the edited entry.\<close>

lemma run_set_entry_cases [consumes 1, case_names kept written]:
  assumes "run_set_entry rid msk new s = Some (r, s')"
  obtains (kept) "core s' = core s"
  | (written) te s3 s4 r' where "in_log s rid" "edit_fields msk new (runs s ! nat rid) = (te, True)"
      "editable msk (runs s ! nat rid) (head s)" "edited_status_ok te" "edited_fields_ok te" "core s3 = core s"
      "set_entry_func te rid s3 = Some (r', s4)" "core s' = core s4" "r = (if r' < 0 then -1 else 0)"
proof (cases "rid < 0 \<or> rid \<ge> int (run_u s)")
  case True
  then show thesis using assms kept by (auto simp: run_set_entry_def)
next
  case False
  let ?out = "runs s ! nat rid"
  define s1 where "s1 = (if has msk RE_USER_ID \<and> re_user_id ?out \<noteq> re_user_id new then s\<lparr>max_user_id := -1, user_count := -1\<rparr> else s)"
  have c1: "core s1 = core s" by (simp add: s1_def)
  obtain te f where ed: "edit_fields msk new ?out = (te, f)" by fastforce
  show thesis
  proof (cases "editable msk ?out (head s) \<and> \<not> (has msk RE_RUN_UUID \<and> re_run_uuid ?out \<noteq> re_run_uuid new \<and> uuid_hash_state s \<ge> 0)
      \<and> edited_status_ok te")
    case ref: False
    obtain tail where eq: "run_set_entry rid msk new s =
        (if re_run_id ?out \<noteq> rid \<or> rh_start_time (head s) < 0 then None
         else if \<not> editable msk ?out (head s) then Some (-1, s)
         else if has msk RE_RUN_UUID \<and> re_run_uuid ?out \<noteq> re_run_uuid new \<and> uuid_hash_state s \<ge> 0 then Some (-1, s)
         else if \<not> edited_status_ok te then Some (-1, s1) else tail)"
      by (rule that, unfold run_set_entry_def Let_def ed prod.case s1_def, rule if_not_P [OF False])
    have "s' = s \<or> s' = s1"
      using ref assms unfolding eq by (auto split: if_splits)
    then show thesis using kept c1 by metis
  next
    case ok: True
    let ?s3 = "\<lambda>uo s2. case uo of None \<Rightarrow> s2 | Some ue \<Rightarrow> if ue_status ue = 0
                 then ut_store (re_user_id te) (ue\<lparr>ue_status := V_REAL_USER\<rparr>) s2 else s2"
    let ?K = "\<lambda>uo s2. if (case uo of None \<Rightarrow> False | Some ue \<Rightarrow> \<not> edited_window_ok te (head s2) ue) then Some (-1, s2)
        else if \<not> edited_fields_ok te then Some (-1, s2)
        else if \<not> f then Some (0, s2)
        else case set_entry_func te rid (?s3 uo s2) of None \<Rightarrow> None
          | Some (r, s4) \<Rightarrow> if r < 0 then Some (-1, s4)
              else if re_user_id (runs s4 ! nat rid) \<noteq> re_user_id ?out
              then Some (0, invalidate_user (re_user_id (runs s4 ! nat rid)) (invalidate_user (re_user_id ?out) s4))
              else Some (0, s4)"
    have eq: "run_set_entry rid msk new s =
        (if re_run_id ?out \<noteq> rid \<or> rh_start_time (head s) < 0 then None
         else if \<not> editable msk ?out (head s) then Some (-1, s)
         else if has msk RE_RUN_UUID \<and> re_run_uuid ?out \<noteq> re_run_uuid new \<and> uuid_hash_state s \<ge> 0 then Some (-1, s)
         else if \<not> edited_status_ok te then Some (-1, s1)
         else case edited_user te s1 of None \<Rightarrow> None | Some (uo, s2) \<Rightarrow> ?K uo s2)"
      by (unfold run_set_entry_def Let_def ed prod.case s1_def, rule if_not_P [OF False])
    have "(case edited_user te s1 of None \<Rightarrow> None | Some (uo, s2) \<Rightarrow> ?K uo s2) = Some (r, s')"
      using assms ok unfolding eq by (simp del: if_split split: if_split_asm)
    then obtain uo s2 where u: "edited_user te s1 = Some (uo, s2)" and rest: "?K uo s2 = Some (r, s')"
      by (cases "edited_user te s1") auto
    have u2: "core s2 = core s" using core_edited_user [OF u] c1 by simp
    have c3: "core (?s3 uo s2) = core s" using u2 by (simp split: option.split)
    show thesis
    proof (cases "(case uo of None \<Rightarrow> False | Some ue \<Rightarrow> \<not> edited_window_ok te (head s2) ue) \<or> \<not> edited_fields_ok te \<or> \<not> f")
      case True
      then have "s' = s2" using rest by (auto split: if_splits)
      then show thesis using kept u2 by simp
    next
      case go: False
      then obtain r' s4 where w: "set_entry_func te rid (?s3 uo s2) = Some (r', s4)" using rest by (auto split: option.splits)
      have "core s' = core s4 \<and> r = (if r' < 0 then -1 else 0)"
        using rest go w by (auto split: if_splits)
      then show thesis
        using written [of te "?s3 uo s2" r' s4] False go ok ed c3 w by (auto simp: in_log_def)
    qed
  qed
qed

lemma live_set_entry:
  assumes "run_set_entry rid msk new s = Some (r, s')" "live s"
  shows "live s'"
  using assms(1)
proof (cases rule: run_set_entry_cases)
  case kept
  then show ?thesis using live_core assms(2) by blast
next
  case (written te s3 s4 r')
  have "runs s3 = runs s" using coreD(2) [OF written(6)] .
  then have "live s4"
    using set_entry.op_live [OF written(7)] live_core [OF written(6)] assms(2) edit_fields_keep [OF written(2)] written(3)
    by (simp add: editable_def)
  then show ?thesis using live_core [OF written(8)] by blast
qed

section \<open>Adding and removing runs\<close>

lemma liveI:
  assumes "log_base s" "time_sorted (log s)" "io_good s" "rh_version (head s) = 2"
  shows "live s"
  using assms by (simp add: live_def file_ok_def)

lemma live_base: "live s \<Longrightarrow> log_base s \<and> time_sorted (log s) \<and> io_good s \<and> rh_version (head s) = 2"
  by (simp add: live_def file_ok_def)

lemma live_add:
  assumes "run_add_record gen rnd a s = Some (i, s')" "i \<ge> 0" "live s"
  shows "live s'"
  using add_record_places [OF _ _ assms(1,2)] live_base [OF assms(3)] by (metis liveI)

lemma numbered_butlast: "numbered es \<Longrightarrow> numbered (butlast es)"
  by (simp add: numbered_def nth_butlast)

lemma used_butlast: "\<exists>zs. used es = used (butlast es) @ zs"
  by (cases es rule: rev_cases) (simp_all add: used_def)

lemma time_sorted_butlast: "time_sorted es \<Longrightarrow> time_sorted (butlast es)"
  using used_butlast [of es] by (auto simp: time_sorted_def sorted_wrt_append)

lemma live_drop:
  assumes "live s" "log s' = butlast (log s)" "wf_runs s'" "side s' = side s" "head s' = head s"
    "io_good s'" "synced s'"
  shows "live s'"
  using live_base [OF assms(1)] assms(2-) sideD(12) [OF assms(4)]
  by (intro liveI) (simp_all add: log_base_def numbered_butlast time_sorted_butlast)

lemma live_undo:
  assumes "run_undo_add_record rid s = Some (r, s')" "rid = int (run_u s) - 1" "live s"
  shows "live s'"
proof (cases "run_u s = 0")
  case True
  then show ?thesis using assms by (simp add: run_undo_add_record_def)
next
  case False
  define s2 where "s2 = (let s1 = invalidate_user (re_user_id (runs s ! nat rid)) (s\<lparr>user_count := -1\<rparr>) in
    if uuid_hash_state s1 > 0 then
      (if uuid_last_run_id s1 = rid
       then s1\<lparr>uuid_hash := (uuid_hash s1)[nat (uuid_last_index s1) := free_slot], uuid_hash_used := uuid_hash_used s1 - 1\<rparr>
       else run_drop_uuid_hash s1)\<lparr>uuid_last_run_id := -1, uuid_last_index := -1\<rparr>
    else s1)"
  have u: "undo_add_entry_func rid s2 = Some (r, s')"
    using assms(1,2) False unfolding run_undo_add_record_def s2_def Let_def by (simp del: if_split split: if_split_asm)
  have c: "core s2 = core s" by (simp add: s2_def Let_def)
  note c' = coreD [OF c]
  have L: "live s2" using live_core [OF c] assms(3) by simp
  note L' = liveD [OF L]
  have n: "nat rid = run_u s2 - 1" using assms(2) c'(3) False by simp
  note U = undo_last [OF u n L'(4)]
  show ?thesis by (rule live_drop [OF L U(1-4)]) (use U(7,8) L' in auto)
qed

lemma clear_virtual_core: "clear_virtual i s = Some (Some s') \<Longrightarrow> core s' = core s"
  by (auto simp: clear_virtual_def Let_def dest!: core_get_user split: if_splits option.splits)

lemma live_clear_func:
  assumes "clear_entry_func rid s = Some (r, s')" "live s"
  shows "live s'"
proof (cases "nat rid = run_u s - 1")
  case True
  note U = clear_last [OF assms(1) True liveD(4) [OF assms(2)]]
  show ?thesis by (rule live_drop [OF assms(2) U(1-4)]) (use U(7,8) liveD [OF assms(2)] in auto)
next
  case False
  have i: "in_log s rid" using assms(1) by (auto simp: clear_entry_func_def split: if_splits)
  have "update_entry (\<lambda>_. spare_entry\<lparr>re_run_id := rid\<rparr>) rid s = Some (r, s')"
    using assms(1) clear_middle [OF i False] by simp
  moreover have "re_run_id (runs s ! nat rid) = rid"
    using liveD(4,5) [OF assms(2)] i by (auto simp: numbered_def in_log_def)
  ultimately show ?thesis using entry_writer.op_live [OF update_entry_writer _ assms(2)] by simp
qed

lemma live_clear:
  assumes "live s"
  shows "run_clear_entry rid s = Some (r, s') \<Longrightarrow> live s'"
    "run_forced_clear_entry rid s = Some (r, s') \<Longrightarrow> live s'"
proof -
  assume "run_clear_entry rid s = Some (r, s')"
  then consider "s' = s" | s1 u where "core s1 = core s" "clear_entry_func rid (forget_users u s1) = Some (r, s')"
    by (auto simp: run_clear_entry_def dest: clear_virtual_core split: if_splits option.splits)
  then show "live s'"
  proof cases
    case 2
    have "live (forget_users u s1)" using live_core [of "forget_users u s1" s] 2(1) assms by simp
    then show ?thesis using live_clear_func 2(2) by blast
  qed (use assms in simp)
next
  assume "run_forced_clear_entry rid s = Some (r, s')"
  then consider "s' = s" | u where "clear_entry_func rid (forget_users u s) = Some (r, s')"
    by (auto simp: run_forced_clear_entry_def split: if_splits)
  then show "live s'"
  proof cases
    case 2
    have "live (forget_users u s)" using live_core [of "forget_users u s" s] assms by simp
    then show ?thesis using live_clear_func 2 by blast
  qed (use assms in simp)
qed

section \<open>Virtual contests\<close>

lemma live_virtual_event:
  assumes "add_virtual_event rnd uid t nsec re pvt s = Some (r, s')" "r \<ge> 0" "nsec \<ge> 0"
    "re_user_id re = uid" "re_status re \<noteq> RUN_EMPTY" "live s"
  shows "live s'"
proof -
  obtain i s1 r2 s2 where A: "get_insert_run_id rnd t uid nsec s = Some (i, s1)" "i \<ge> 0"
    "add_entry_func i re virtual_mask ((raise_max_user_id uid (ut_store uid pvt s1))\<lparr>user_count := -1\<rparr>) = Some (r2, s2)"
    "s' = invalidate_user uid s2"
    using assms(1,2) by (auto simp: add_virtual_event_def split: option.splits prod.splits if_splits)
  have m: "has virtual_mask RE_USER_ID" "has virtual_mask RE_STATUS"
    by (simp_all add: virtual_mask_def mask_defs has_def)
  have c: "core ((raise_max_user_id uid (ut_store uid pvt s1))\<lparr>user_count := -1\<rparr>) = core s1" by simp
  note B = live_base [OF assms(6)]
  have "live s2"
    using place_run [OF A(1,2) assms(3) _ _ c A(3) m(1) assms(4) m(2) assms(5)] B by (metis liveI)
  then show ?thesis using live_core [of s' s2] A(4) by simp
qed

lemma live_get_user: "get_user_entry uid s = Some (ue, s') \<Longrightarrow> live s \<Longrightarrow> live s'"
  using live_core core_get_user by blast

lemma live_virtual:
  assumes "live s" "r \<ge> 0"
  shows "run_virtual_start rnd uid t pip ssl nsec s = Some (r, s') \<Longrightarrow> live s'"
    "nsec \<ge> 0 \<Longrightarrow> run_virtual_stop rnd uid t pip ssl nsec s = Some (r, s') \<Longrightarrow> live s'"
proof -
  have e: "re_user_id (virtual_entry uid pip ssl st) = uid" "re_status (virtual_entry uid pip ssl st) = st" for st
    by (simp_all add: virtual_entry_def)
  show "live s'" if R: "run_virtual_start rnd uid t pip ssl nsec s = Some (r, s')"
  proof -
    obtain pvt s1 where "get_user_entry uid s = Some (pvt, s1)" "nsec \<ge> 0"
      "add_virtual_event rnd uid t nsec (virtual_entry uid pip ssl RUN_VIRTUAL_START)
              (pvt\<lparr>ue_start_time := t, ue_status := V_VIRTUAL_USER\<rparr>) s1 = Some (r, s')"
      using R assms(2) by (auto simp: run_virtual_start_def split: option.splits if_splits)
    then show ?thesis using live_virtual_event [OF _ assms(2) _ e(1)] live_get_user assms(1) by (fastforce simp: e)
  qed
  show "live s'" if n: "nsec \<ge> 0" and R: "run_virtual_stop rnd uid t pip ssl nsec s = Some (r, s')"
  proof -
    obtain pvt s1 where "get_user_entry uid s = Some (pvt, s1)"
      "add_virtual_event rnd uid t nsec (virtual_entry uid pip ssl RUN_VIRTUAL_STOP)
              (pvt\<lparr>ue_stop_time := t\<rparr>) s1 = Some (r, s')"
      using R assms(2) by (auto simp: run_virtual_stop_def Let_def split: option.splits if_splits)
    then show ?thesis using live_virtual_event [OF _ assms(2) n e(1)] live_get_user assms(1) by (fastforce simp: e)
  qed
qed

section \<open>The whole log\<close>

lemma time_sorted_renumber: "time_sorted (renumber k es) = time_sorted es"
proof -
  have "map re_time (used (renumber k es)) = map re_time (used es)"
    by (induction es arbitrary: k) (simp_all add: used_def)
  then show ?thesis by (simp add: time_sorted_map)
qed

lemma used_used [simp]: "used (used es) = used es"
  by (simp add: used_def)

lemma live_squeeze:
  assumes "run_squeeze_log s = (r, s')" "live s"
  shows "live s'"
proof -
  note L = liveD [OF assms(2)]
  note Q = squeeze_props [OF assms(1) [unfolded run_squeeze_log_def] L(4,5,8)]
  have "time_sorted (log s')" using L(3) by (simp add: Q(1) time_sorted_renumber) (simp add: time_sorted_def)
  moreover have "log_base s'"
    using Q(3,6) L(6,7) sideD(12) [OF Q(4)] by (simp add: log_base_def Q(1) numbered_renumber)
  ultimately show ?thesis using Q(5,7) L(9) by (simp add: liveI)
qed

lemma live_flush_header:
  assumes "run_flush_header (s\<lparr>head := h\<rparr>) = (r, s')" "rh_version h = rh_version (head s)" "live s"
  shows "live s'"
proof -
  note L = liveD [OF assms(3)]
  have "s' = (io_next (s\<lparr>head := h\<rparr>))\<lparr>disk_head := Some h\<rparr>" using assms(1) L(8) by (simp add: run_flush_header_good)
  then show ?thesis using L assms(2)
    by (intro liveI) (simp_all add: log_base_def synced_def frame_simps wf_runs_def)
qed

lemma live_header:
  assumes "live s"
  shows "run_start_contest t s = (r, s') \<Longrightarrow> live s'" "run_stop_contest t s = (r, s') \<Longrightarrow> live s'"
    "run_set_duration t s = (r, s') \<Longrightarrow> live s'" "run_sched_contest t s = (r, s') \<Longrightarrow> live s'"
    "run_set_finish_time t s = (r, s') \<Longrightarrow> live s'" "run_save_times s = (r, s') \<Longrightarrow> live s'"
  using assms
  by (auto simp: run_start_contest_def run_stop_contest_def run_set_duration_def run_sched_contest_def
      run_set_finish_time_def run_save_times_def start_func_def stop_func_def set_duration_func_def
      schedule_func_def set_finish_time_func_def save_times_func_def split: if_splits
      dest: live_flush_header [rotated 2])

lemma live_reset:
  assumes "run_reset d sc fin s = (r, s')" "live s"
  shows "live s'"
proof -
  note L = liveD [OF assms(2)]
  have g: "io_good (run_drop_uuid_hash (s\<lparr>ut_table := [], max_user_id := -1, user_count := -1, run_extras := [], run_extra_u := 0\<rparr>))"
    using L(8) by (simp add: run_drop_uuid_hash_def)
  have r: "run_reset d sc fin s = run_flush_header (io_next (x\<lparr>run_u := 0, runs := replicate n spare_entry, head := h\<rparr>)
      \<lparr>disk_head := None, disk_runs := []\<rparr>)"
    if "x = run_drop_uuid_hash (s\<lparr>ut_table := [], max_user_id := -1, user_count := -1, run_extras := [], run_extra_u := 0\<rparr>)"
      "n = length (runs s)" "h = zero_header\<lparr>rh_version := 2, rh_duration := d, rh_sched_time := sc, rh_finish_time := fin\<rparr>"
    for x n h
    using g unfolding run_reset_def reset_func_def Let_def that
    by (simp add: disk_op_good run_drop_uuid_hash_def)
  have "run_fd s' \<ge> 0 \<and> run_u s' = 0 \<and> io_good s' \<and> disk_head s' = Some (head s') \<and> disk_runs s' = []
      \<and> rh_version (head s') = 2"
    using assms(1) g L(7) unfolding r [OF refl refl refl]
    by (auto simp: run_flush_header_good run_drop_uuid_hash_def)
  then show ?thesis
    by (intro liveI) (simp_all add: log_base_def synced_def log_def wf_runs_def numbered_def time_sorted_def used_def)
qed

lemma set_runlog_func_good:
  assumes "set_runlog_func es s = Some (r, s')" "io_good s" "disk_head s = Some (head s)"
  shows "log s' = es" "head s' = head s" "side s' = side s" "wf_runs s'" "synced s'" "io_good s'"
proof -
  let ?a = "if length es > length (runs s) then double_upto (length es) (if runs s = [] then 128 else length (runs s))
            else length (runs s)"
  let ?s1 = "s\<lparr>runs := es @ replicate (?a - length es) spare_entry, run_u := length es\<rparr>"
  have t: "truncate_to zero_entry (length es) (write_at zero_entry 0 es xs) = es" for xs
    by (simp add: truncate_to_def write_at_def)
  have "(r, s') = do_truncate (snd (write_entries 0 es ?s1))"
    using assms(1) by (cases "es = []") (simp_all add: set_runlog_func_def Let_def del: if_split)
  then have "s' = (io_next (io_next ?s1))\<lparr>disk_runs := es\<rparr>"
    using assms(2) by (simp add: write_entries_good do_truncate_good t) (simp add: io_next_def)
  then show "log s' = es" "head s' = head s" "side s' = side s" "wf_runs s'" "synced s'" "io_good s'"
    using assms(2,3) by (simp_all add: log_def synced_def wf_runs_def)
qed

lemma core_build_indices: "build_indices flags s = Some s' \<Longrightarrow> core s' = core s"
  by (auto simp: build_indices_def Let_def dest!: core_build split: if_splits option.splits prod.splits)

lemma live_set_runlog:
  assumes "run_set_runlog es s = Some (r, s')" "r \<ge> 0" "numbered es" "live s"
  shows "live s'"
proof -
  note L = liveD [OF assms(4)]
  obtain c r2 s1 where A: "runlog_check (head s) es = Some c" "c \<ge> 0" "set_runlog_func es s = Some (r2, s1)"
    "build_indices 0 s1 = Some s'"
    using assms(1,2) by (auto simp: run_set_runlog_def split: option.splits if_splits prod.splits)
  have "disk_head s = Some (head s)" using L(6) by (simp add: synced_def)
  note F = set_runlog_func_good [OF A(3) L(8) this]
  have "time_sorted es" using A(1,2) unfolding check_result by (auto split: if_splits)
  then have "live s1"
    using F(2,4-6) sideD(12) [OF F(3)] L(7,9) assms(3) by (intro liveI) (simp_all add: F(1) log_base_def)
  then show ?thesis using live_core [OF core_build_indices [OF A(4)]] by simp
qed

lemma live_check_duplicate:
  assumes "run_check_duplicate rid s = Some (r, s')" "live s" "re_status (runs s ! nat rid) \<noteq> RUN_EMPTY"
  shows "live s'"
proof (cases "rid < 0 \<or> rid \<ge> int (run_u s)")
  case True
  then show ?thesis using assms(1,2) by (auto simp: run_check_duplicate_def)
next
  case False
  have "s' = s2 \<or> (\<exists>r2 s3. set_status_func RUN_IGNORED rid s2 = Some (r2, s3) \<and> s' = s3)"
    if "Option.bind X (\<lambda>(u, i). if i < -1 then None else if i < 0 then Some (0, s2)
          else map_option (\<lambda>(r, s''). (if r < 0 then -1 else i + 1, s'')) (set_status_func RUN_IGNORED rid s2)) = Some (r, s')"
    for X :: "(unit \<times> int) option" and s2
    using that by (auto simp: bind_eq_Some_conv split: if_splits prod.splits)
  then obtain s2 where c: "core s2 = core s"
    and e: "s' = s2 \<or> (\<exists>r2 s3. set_status_func RUN_IGNORED rid s2 = Some (r2, s3) \<and> s' = s3)"
    using assms(1) False unfolding run_check_duplicate_def Let_def if_not_P [OF False]
    by (elim core_with_user) blast
  have L2: "live s2" using live_core [OF c] assms(2) by simp
  from e show ?thesis
  proof
    assume "\<exists>r2 s3. set_status_func RUN_IGNORED rid s2 = Some (r2, s3) \<and> s' = s3"
    then show ?thesis
      using set_status.op_live [OF _ L2] coreD(2) [OF c] assms(3) by (auto simp: to_u8_def)
  qed (use L2 in simp)
qed

section \<open>The step relation\<close>

text \<open>
  One rule per operation.  A submit and an event count when they succeed: a submit that fails after its
  place was reserved leaves an EMPTY slot that is not in the file.  \<open>run_undo_add_record\<close> is called for the
  run just added, which is the last one unless it was inserted before others.
\<close>

inductive log_step :: "runlog \<Rightarrow> runlog \<Rightarrow> bool" where
  add: "run_add_record gen rnd a s = Some (i, s') \<Longrightarrow> i \<ge> 0 \<Longrightarrow> log_step s s'"
| undo: "run_undo_add_record rid s = Some (r, s') \<Longrightarrow> rid = int (run_u s) - 1 \<Longrightarrow> log_step s s'"
| status: "run_change_status rid st t p sc j s = Some (r, s') \<Longrightarrow> log_step s s'"
| status_2: "run_change_status_2 rid st t p sc j mk s = Some (r, s') \<Longrightarrow> log_step s s'"
| status_3: "run_change_status_3 rid st t p sc j mk hu us ut usc s = Some (r, s') \<Longrightarrow> log_step s s'"
| status_4: "run_change_status_4 rid st s = Some (r, s') \<Longrightarrow> log_step s s'"
| hidden: "run_set_hidden rid s = Some (r, s') \<Longrightarrow> log_step s s'"
| judge: "run_set_judge_id rid j s = Some (r, s') \<Longrightarrow> log_step s s'"
| pages: "run_set_pages rid pg s = Some (r, s') \<Longrightarrow> log_step s s'"
| edit: "run_set_entry rid msk new s = Some (r, s') \<Longrightarrow> log_step s s'"
| duplicate: "run_check_duplicate rid s = Some (r, s') \<Longrightarrow> re_status (runs s ! nat rid) \<noteq> RUN_EMPTY \<Longrightarrow> log_step s s'"
| virtual_start: "run_virtual_start rnd uid t pip ssl nsec s = Some (r, s') \<Longrightarrow> r \<ge> 0 \<Longrightarrow> log_step s s'"
| virtual_stop: "run_virtual_stop rnd uid t pip ssl nsec s = Some (r, s') \<Longrightarrow> r \<ge> 0 \<Longrightarrow> nsec \<ge> 0 \<Longrightarrow> log_step s s'"
| clear: "run_clear_entry rid s = Some (r, s') \<Longrightarrow> log_step s s'"
| forced_clear: "run_forced_clear_entry rid s = Some (r, s') \<Longrightarrow> log_step s s'"
| squeeze: "run_squeeze_log s = (r, s') \<Longrightarrow> log_step s s'"
| start: "run_start_contest t s = (r, s') \<Longrightarrow> log_step s s'"
| stop: "run_stop_contest t s = (r, s') \<Longrightarrow> log_step s s'"
| duration: "run_set_duration t s = (r, s') \<Longrightarrow> log_step s s'"
| sched: "run_sched_contest t s = (r, s') \<Longrightarrow> log_step s s'"
| finish: "run_set_finish_time t s = (r, s') \<Longrightarrow> log_step s s'"
| save_times: "run_save_times s = (r, s') \<Longrightarrow> log_step s s'"
| reset: "run_reset d sc fin s = (r, s') \<Longrightarrow> log_step s s'"
| set_runlog: "run_set_runlog es s = Some (r, s') \<Longrightarrow> r \<ge> 0 \<Longrightarrow> numbered es \<Longrightarrow> log_step s s'"
| clear_index: "run_clear_index rid s = (r, s') \<Longrightarrow> log_step s s'"
| lookup_user: "get_user_entry uid s = Some (ue, s') \<Longrightarrow> log_step s s'"
| lookup_stop: "run_get_virtual_stop_time uid t s = Some (r, s') \<Longrightarrow> log_step s s'"

lemma live_clear_index:
  assumes "run_clear_index rid s = (r, s')" "live s"
  shows "live s'"
proof -
  have "core s' = core s" using assms(1) unfolding run_clear_index_def by (simp split: if_split_asm) auto
  then show ?thesis using assms(2) by (blast dest: live_core)
qed

lemma live_virtual_stop_time:
  assumes "run_get_virtual_stop_time uid t s = Some (r, s')" "live s"
  shows "live s'"
proof -
  obtain pvt s1 where A: "get_user_entry uid s = Some (pvt, s1)"
    using assms(1) by (auto simp: run_get_virtual_stop_time_def)
  have "core s' = core s1" using assms(1) by (auto simp: run_get_virtual_stop_time_def A split: if_splits)
  then show ?thesis using live_get_user [OF A assms(2)] by (blast dest: live_core)
qed

lemmas live_steps = live_add live_undo live_set_entry live_check_duplicate live_squeeze live_reset live_set_runlog
  live_get_user live_clear_index live_virtual_stop_time live_status [rotated] live_clear [rotated]
  live_header [rotated] live_virtual(1) [rotated 2] live_virtual(2) [rotated 3]

lemma step_live: "log_step s s' \<Longrightarrow> live s \<Longrightarrow> live s'"
  by (induction rule: log_step.induct) (erule live_steps; assumption)+

inductive_cases log_stepE: "log_step s s'"

lemma steps_live: "log_step\<^sup>*\<^sup>* s s' \<Longrightarrow> live s \<Longrightarrow> live s'"
  by (induction rule: rtranclp_induct) (auto intro: step_live)

section \<open>Opening the file again\<close>

text \<open>What a restarted server reads back from the file of a live log.\<close>

lemma log_read [simp]: "log (f\<lparr>head := h, run_u := length xs, runs := xs @ ys\<rparr>) = xs"
  by (simp add: log_def)

lemma live_reread:
  assumes "live s" "disk_head f = disk_head s" "disk_runs f = disk_runs s" "read_runlog d sc 0 f = (r, f')"
  shows "r = 0" "head f' = head s" "log f' = log s"
  using assms liveD(6,9) [OF assms(1)] by (auto simp: read_runlog_def synced_def Let_def)

lemma open_live:
  assumes "run_open_checked flags d sc fin s = Some (r, s')" "r \<ge> 0" "\<not> has flags RUN_LOG_NOINDEX"
    "io_good s" "run_fd s \<ge> 0" "numbered (disk_runs s)" "disk_head s = None \<longrightarrow> disk_runs s = []"
  shows "live s'"
proof -
  obtain r1 s1 c where A: "read_runlog d sc fin s = (r1, s1)" "r1 \<ge> 0" "runlog_check (head s1) (log s1) = Some c" "c \<ge> 0"
    "build_indices flags s1 = Some s'"
    using assms(1-3) by (auto simp: run_open_checked_def split: prod.splits option.splits if_splits)
  have "time_sorted (log s1)" using A(3,4) unfolding check_result by (auto split: if_splits)
  moreover have "log_base s1 \<and> io_good s1 \<and> rh_version (head s1) = 2"
    using A(1,2) assms(4-7)
    by (auto simp: read_runlog_def Let_def run_flush_header_good log_base_def wf_runs_def synced_def log_def numbered_def
        nth_append split: option.splits if_splits)
  ultimately have "live s1" by (simp add: liveI)
  then show ?thesis using core_build_indices [OF A(5)] by (blast dest: live_core)
qed


definition ex_new_header :: run_header where
  "ex_new_header = zero_header\<lparr>rh_version := 2, rh_duration := 50, rh_sched_time := 100\<rparr>"

definition ex_opened :: runlog where
  "ex_opened = run_init\<lparr>run_fd := 3, head := ex_new_header, disk_head := Some ex_new_header\<rparr>"

lemma ex_open: "run_open_checked 0 50 100 0 (run_init\<lparr>run_fd := 3\<rparr>) = Some (0, ex_opened)"
proof -
  have "check_header ex_new_header" by (simp add: check_header_def zero_header_def ex_new_header_def)
  then have c: "runlog_check ex_new_header [] = Some 0"
    unfolding check_result by (simp add: time_sorted_def used_def contests_ok_def c_bool_def)
  have r: "read_runlog 50 100 0 (run_init\<lparr>run_fd := 3\<rparr>) = (0, ex_opened)"
    by (simp add: read_runlog_def run_init_def run_flush_header_good io_good_def io_next_def ex_opened_def Let_def
        ex_new_header_def zero_header_def)
  have h: "\<not> has 0 m" for m by (simp add: has_def)
  have "build_indices 0 ex_opened = Some ex_opened"
    by (simp add: build_indices_def log_def max_team_def h ex_opened_def run_init_def Let_def)
  moreover have "log ex_opened = []" "head ex_opened = ex_new_header" by (simp_all add: ex_opened_def log_def run_init_def)
  ultimately show ?thesis using r c h by (simp add: run_open_checked_def)
qed


end
