(* ===== verification/Fix_Time.thy ===== *)
theory Fix_Time
  imports Run_Entry
begin

text \<open>
  The repair of a log whose clock was set back (\<open>run_fix_runlog_time\<close> of \<open>runlog_static.c\<close>): runs that
  are younger than their predecessor by less than an hour get consecutive times after it.
\<close>

text \<open>\<open>while (run_id2 < run_u - 1 && new_time > runs[run_id2 + 1].time) { ++new_time; ++run_id2; }\<close>\<close>

fun fix_span :: "int \<Rightarrow> run_entry list \<Rightarrow> nat" where
  "fix_span new_time [] = 0"
| "fix_span new_time (e # es) = (if new_time > re_time e then Suc (fix_span (new_time + 1) es) else 0)"

definition set_times :: "nat \<Rightarrow> nat \<Rightarrow> int \<Rightarrow> run_entry list \<Rightarrow> run_entry list" where
  "set_times i k new_time arr =
     map (\<lambda>(j, e). if i \<le> j \<and> j \<le> i + k then e\<lparr>re_time := new_time + int (j - i)\<rparr> else e) (enumerate 0 arr)"

definition mark_fixed :: "nat \<Rightarrow> nat \<Rightarrow> int list \<Rightarrow> int list" where
  "mark_fixed i k fix_mask =
     map (\<lambda>(j, m). if i \<le> j \<and> j \<le> i + k then 1 else m) (enumerate 0 fix_mask)"

lemma length_set_times [simp]: "length (set_times i k t arr) = length arr"
  by (simp add: set_times_def)

function fix_loop :: "nat \<Rightarrow> int \<Rightarrow> run_entry list \<Rightarrow> int list \<Rightarrow> int \<times> run_entry list \<times> int list" where
  "fix_loop i prev_time arr fix_mask =
    (if length arr \<le> i then (0, arr, fix_mask)
     else if is_empty_entry (arr ! i) then fix_loop (Suc i) prev_time arr fix_mask
     else if re_time (arr ! i) \<ge> prev_time then fix_loop (Suc i) (re_time (arr ! i)) arr fix_mask
     else if prev_time \<ge> re_time (arr ! i) + 3600 then (-1, arr, fix_mask)
     else
       (let k = fix_span (prev_time + 1) (drop (Suc i) arr)
        in fix_loop (Suc (i + k)) 0 (set_times i k (prev_time + 1) arr) (mark_fixed i k fix_mask)))"
  by pat_completeness auto
termination
  by (relation "measure (\<lambda>(i, p, arr, m). length arr - i)") auto

declare fix_loop.simps [simp del]

definition run_fix_runlog_time :: "run_entry list \<Rightarrow> int \<times> run_entry list \<times> int list" where
  "run_fix_runlog_time arr =
    (if arr = [] then (0, arr, [])
     else fix_loop 1 (re_time (arr ! 0)) arr (replicate (length arr) 0))"

lemma set_times_nth:
  "j < length arr \<Longrightarrow> set_times i k t arr ! j =
    (if i \<le> j \<and> j \<le> i + k then (arr ! j)\<lparr>re_time := t + int (j - i)\<rparr> else arr ! j)"
  by (simp add: set_times_def nth_enumerate_eq)

lemma fix_span_bound: "fix_span t es \<le> length es"
  by (induction es arbitrary: t) auto

lemma fix_span_stop: "fix_span t es < length es \<Longrightarrow> t + int (fix_span t es) \<le> re_time (es ! fix_span t es)"
proof (induction es arbitrary: t)
  case (Cons e es)
  show ?case using Cons.IH [of "t + 1"] Cons.prems by (cases "t > re_time e") auto
qed simp

lemma fix_span_less: "j < fix_span t es \<Longrightarrow> re_time (es ! j) < t + int j"
proof (induction es arbitrary: t j)
  case (Cons e es)
  show ?case
  proof (cases j)
    case (Suc k)
    then show ?thesis using Cons.IH [of k "t + 1"] Cons.prems by (auto split: if_splits)
  qed (use Cons.prems in \<open>auto split: if_splits\<close>)
qed simp

definition prefix_sorted :: "nat \<Rightarrow> run_entry list \<Rightarrow> bool" where
  "prefix_sorted n arr \<longleftrightarrow> (\<forall>j. Suc j < n \<longrightarrow> re_time (arr ! j) \<le> re_time (arr ! Suc j))"

text \<open>The repaired log: only times differ, and none is earlier than before.\<close>

definition only_later :: "run_entry list \<Rightarrow> run_entry list \<Rightarrow> bool" where
  "only_later arr arr' \<longleftrightarrow> length arr' = length arr \<and> (\<forall>j < length arr.
     re_time (arr ! j) \<le> re_time (arr' ! j) \<and> arr' ! j = (arr ! j)\<lparr>re_time := re_time (arr' ! j)\<rparr>)"

lemma only_later_refl [simp]: "only_later arr arr"
  by (simp add: only_later_def)

lemma only_later_trans: "only_later a b \<Longrightarrow> only_later b c \<Longrightarrow> only_later a c"
proof -
  have "(e :: run_entry)\<lparr>re_time := x, re_time := y\<rparr> = e\<lparr>re_time := y\<rparr>" for e x y by simp
  then show "only_later a b \<Longrightarrow> only_later b c \<Longrightarrow> only_later a c"
    unfolding only_later_def by (metis order_trans)
qed

lemma set_times_later:
  assumes "i < length arr" "re_time (arr ! i) < prev"
  defines "k \<equiv> fix_span (prev + 1) (drop (Suc i) arr)"
  shows "only_later arr (set_times i k (prev + 1) arr)"
  unfolding only_later_def
proof (intro conjI allI impI)
  fix j assume j: "j < length arr"
  let ?a = "set_times i k (prev + 1) arr"
  show "re_time (arr ! j) \<le> re_time (?a ! j)"
  proof (cases "i \<le> j \<and> j \<le> i + k")
    case True
    show ?thesis
    proof (cases "j = i")
      case False
      then have "j - Suc i < k" "drop (Suc i) arr ! (j - Suc i) = arr ! j" using True j by auto
      then have "re_time (arr ! j) < prev + 1 + int (j - Suc i)"
        using fix_span_less [of "j - Suc i" "prev + 1" "drop (Suc i) arr"] by (simp add: k_def)
      then show ?thesis using True False j by (simp add: set_times_nth)
    qed (use assms(2) j in \<open>simp add: set_times_nth\<close>)
  qed (use j in \<open>auto simp: set_times_nth\<close>)
  show "?a ! j = (arr ! j)\<lparr>re_time := re_time (?a ! j)\<rparr>"
    using j by (simp add: set_times_nth)
qed simp

lemma set_times_sorted:
  assumes "0 < i" "i < length arr" "prefix_sorted i arr" "prev = re_time (arr ! (i - 1))"
  shows "prefix_sorted (Suc (i + k)) (set_times i k (prev + 1) arr) \<or> length arr < Suc (i + k)"
proof (cases "length arr < Suc (i + k)")
  case False
  have "re_time (set_times i k (prev + 1) arr ! j) \<le> re_time (set_times i k (prev + 1) arr ! Suc j)"
    if j: "Suc j < Suc (i + k)" for j
  proof -
    have len: "j < length arr" "Suc j < length arr" using j False by auto
    consider "Suc j < i" | "Suc j = i" | "i \<le> j" by linarith
    then show ?thesis
    proof cases
      case 1
      then show ?thesis using assms(3) len by (simp add: prefix_sorted_def set_times_nth)
    next
      case 2
      then have "j = i - 1" by simp
      then show ?thesis using 2 assms(4) len by (simp add: set_times_nth)
    next
      case 3
      then show ?thesis using j len by (simp add: set_times_nth Suc_diff_le)
    qed
  qed
  then show ?thesis by (simp add: prefix_sorted_def)
qed simp

lemma fix_loop_sorted:
  assumes "fix_loop i prev arr m = (r, arr', m')" "0 < i" "i \<le> length arr"
    "\<forall>e \<in> set arr. \<not> is_empty_entry e \<and> re_time e \<ge> 0" "prefix_sorted i arr"
    "i < length arr \<Longrightarrow> prev = re_time (arr ! (i - 1)) \<or> prev = 0 \<and> re_time (arr ! (i - 1)) \<le> re_time (arr ! i)"
  shows "only_later arr arr' \<and> (r = 0 \<longrightarrow> prefix_sorted (length arr) arr')"
  using assms
proof (induction i prev arr m rule: fix_loop.induct)
  case (1 i prev arr m)
  note step = fix_loop.simps [of i prev arr m]
  show ?case
  proof (cases "length arr \<le> i")
    case True
    then show ?thesis using "1.prems" step by auto
  next
    case len: False
    then have i: "i < length arr" "\<not> is_empty_entry (arr ! i)" "re_time (arr ! i) \<ge> 0"
      using "1.prems"(4) by auto
    show ?thesis
    proof (cases "re_time (arr ! i) \<ge> prev")
      case True
      have "re_time (arr ! (i - 1)) \<le> re_time (arr ! i)" using "1.prems"(6) i True by auto
      then have "prefix_sorted (Suc i) arr"
        using "1.prems"(2,5) unfolding prefix_sorted_def by (metis diff_Suc_1 less_Suc_eq less_antisym)
      then show ?thesis
        using "1.IH"(2) [OF len i(2) True] "1.prems"(1-4) step len i True by auto
    next
      case False
      then have prev: "prev = re_time (arr ! (i - 1))" using "1.prems"(6) i by auto
      show ?thesis
      proof (cases "prev \<ge> re_time (arr ! i) + 3600")
        case True
        then show ?thesis using "1.prems"(1) step len i False by auto
      next
        case fix_it: False
        let ?k = "fix_span (prev + 1) (drop (Suc i) arr)"
        let ?a = "set_times i ?k (prev + 1) arr"
        have k: "Suc (i + ?k) \<le> length arr" using fix_span_bound [of "prev + 1" "drop (Suc i) arr"] i by simp
        have later: "only_later arr ?a" using set_times_later i False by simp
        have srt: "prefix_sorted (Suc (i + ?k)) ?a"
          using set_times_sorted [OF "1.prems"(2) i(1) "1.prems"(5) prev, of ?k] k by simp
        have nx: "re_time (?a ! (Suc (i + ?k) - 1)) \<le> re_time (?a ! Suc (i + ?k))" if "Suc (i + ?k) < length arr"
          using fix_span_stop [of "prev + 1" "drop (Suc i) arr"] that by (simp add: set_times_nth)
        have pos: "\<forall>e \<in> set ?a. \<not> is_empty_entry e \<and> re_time e \<ge> 0"
        proof
          fix e assume "e \<in> set ?a"
          then obtain j where j: "j < length arr" "e = ?a ! j" by (auto simp: in_set_conv_nth)
          then have "re_time (arr ! j) \<le> re_time e" "re_status e = re_status (arr ! j)" "arr ! j \<in> set arr"
            using later by (simp_all add: only_later_def set_times_nth)
          then show "\<not> is_empty_entry e \<and> re_time e \<ge> 0" using "1.prems"(4) by force
        qed
        have eq: "fix_loop (Suc (i + ?k)) 0 ?a (mark_fixed i ?k m) = (r, arr', m')"
          using "1.prems"(1) step len i False fix_it by (simp add: Let_def)
        have "only_later ?a arr' \<and> (r = 0 \<longrightarrow> prefix_sorted (length ?a) arr')"
          using "1.IH"(3) [OF len i(2) False fix_it refl eq] k pos srt nx by simp
        then show ?thesis using only_later_trans [OF later] by simp
      qed
    qed
  qed
qed

text \<open>
  C22: when \<open>run_fix_runlog_time\<close> succeeds on a log without EMPTY entries, the times of the repaired log
  do not decrease; whether or not it succeeds, only times were changed and none was made earlier.
\<close>

theorem run_fix_runlog_time_sorted:
  assumes "\<forall>e \<in> set arr. \<not> is_empty_entry e \<and> re_time e \<ge> 0"
    and "run_fix_runlog_time arr = (r, arr', fix_mask)"
  shows "only_later arr arr' \<and> (r = 0 \<longrightarrow> sorted (map re_time arr'))"
proof (cases "arr = []")
  case True
  then show ?thesis using assms(2) by (simp add: run_fix_runlog_time_def)
next
  case False
  have L: "fix_loop 1 (re_time (arr ! 0)) arr (replicate (length arr) 0) = (r, arr', fix_mask)"
    using assms(2) False by (simp add: run_fix_runlog_time_def)
  have "only_later arr arr' \<and> (r = 0 \<longrightarrow> prefix_sorted (length arr) arr')"
    by (rule fix_loop_sorted [OF L]) (use False assms(1) in \<open>auto simp: prefix_sorted_def Suc_le_eq\<close>)
  then show ?thesis
    by (auto simp: only_later_def prefix_sorted_def sorted_iff_nth_Suc)
qed

theorem run_fix_runlog_time_sorted_witness:
  "run_fix_runlog_time (map (\<lambda>t. zero_entry\<lparr>re_time := t\<rparr>) [100, 90, 95, 110])
     = (0, map (\<lambda>t. zero_entry\<lparr>re_time := t\<rparr>) [100, 101, 102, 110], [0, 1, 1, 0])
   \<and> sorted (map re_time (map (\<lambda>t. zero_entry\<lparr>re_time := t\<rparr>) [100, 101, 102, 110]))"
proof -
  let ?a = "map (\<lambda>t. zero_entry\<lparr>re_time := t\<rparr>) [100, 90, 95, 110]"
  have z: "re_status zero_entry = 0" by (simp add: zero_entry_def)
  have e: "run_fix_runlog_time ?a
     = (0, map (\<lambda>t. zero_entry\<lparr>re_time := t\<rparr>) [100, 101, 102, 110], [0, 1, 1, 0])"
    by (simp add: run_fix_runlog_time_def fix_loop.simps z set_times_def mark_fixed_def Let_def)
  have "\<forall>e \<in> set ?a. \<not> is_empty_entry e \<and> re_time e \<ge> 0" by (simp add: z)
  from run_fix_runlog_time_sorted [OF this e] e show ?thesis by blast
qed

end
