(* ===== verification/C_Text.thy ===== *)
theory C_Text
  imports Run_Status
begin

text \<open>
  The functions of the C library on text that the modelled sources call, in the C locale: character
  classes, \<open>%d\<close> and \<open>%s\<close> of \<open>sscanf\<close>, \<open>strtol\<close>, and the \<open>%d\<close>, \<open>%u\<close>, \<open>%x\<close> formats of \<open>printf\<close>.
  A NUL-terminated string is the list of its characters; parsing returns the unread rest.
\<close>

section \<open>Characters\<close>

definition ascii :: "char \<Rightarrow> nat" where
  "ascii c = of_char c"

definition isspace :: "char \<Rightarrow> bool" where
  "isspace c \<longleftrightarrow> ascii c = 32 \<or> 9 \<le> ascii c \<and> ascii c \<le> 13"

definition isdigit :: "char \<Rightarrow> bool" where
  "isdigit c \<longleftrightarrow> 48 \<le> ascii c \<and> ascii c \<le> 57"

definition isxdigit :: "char \<Rightarrow> bool" where
  "isxdigit c \<longleftrightarrow> isdigit c \<or> 65 \<le> ascii c \<and> ascii c \<le> 70 \<or> 97 \<le> ascii c \<and> ascii c \<le> 102"

definition digit_val :: "char \<Rightarrow> nat" where
  "digit_val c =
    (if isdigit c then ascii c - 48
     else if 65 \<le> ascii c \<and> ascii c \<le> 90 then ascii c - 65 + 10
     else if 97 \<le> ascii c \<and> ascii c \<le> 122 then ascii c - 97 + 10 else 99)"

definition expect :: "char \<Rightarrow> string \<Rightarrow> string option" where
  "expect c s = (case s of [] \<Rightarrow> None | x # xs \<Rightarrow> if x = c then Some xs else None)"

definition skip_spaces :: "string \<Rightarrow> string" where
  "skip_spaces s = dropWhile isspace s"

lemma expect_Cons [simp]: "expect c (c # s) = Some s"
  by (simp add: expect_def)

lemma ascii_char_of [simp]: "n < 256 \<Longrightarrow> ascii (char_of n) = n"
  by (simp add: ascii_def)

section \<open>Numbers\<close>

text \<open>Digits in base \<open>b\<close>: the value grows without bound and is clipped by the caller.\<close>

fun read_digits :: "nat \<Rightarrow> nat \<Rightarrow> string \<Rightarrow> nat \<times> string" where
  "read_digits b acc [] = (acc, [])"
| "read_digits b acc (c # s) =
    (if digit_val c < b then read_digits b (acc * b + digit_val c) s else (acc, c # s))"

definition to_s32 :: "int \<Rightarrow> int" where
  "to_s32 x = (x + 2 ^ 31) mod 2 ^ 32 - 2 ^ 31"

definition to_u64 :: "int \<Rightarrow> int" where
  "to_u64 x = x mod 2 ^ 64"

definition LONG_MAX :: int where "LONG_MAX = 2 ^ 63 - 1"
definition LONG_MIN :: int where "LONG_MIN = - (2 ^ 63)"
definition ULONG_MAX :: int where "ULONG_MAX = 2 ^ 64 - 1"

definition clip_long :: "int \<Rightarrow> int" where
  "clip_long x = (if x > LONG_MAX then LONG_MAX else if x < LONG_MIN then LONG_MIN else x)"

lemma to_s32_id [simp]: "- (2 ^ 31) \<le> x \<Longrightarrow> x < 2 ^ 31 \<Longrightarrow> to_s32 x = x"
  by (simp add: to_s32_def)

lemma to_s32_range: "- (2 ^ 31) \<le> to_s32 x" "to_s32 x < 2 ^ 31"
  by (simp_all add: to_s32_def)

text \<open>An optional sign.\<close>

definition read_sign :: "string \<Rightarrow> bool \<times> string" where
  "read_sign s = (case s of c # r \<Rightarrow> if c = CHR ''-'' then (True, r) else if c = CHR ''+'' then (False, r) else (False, s)
     | [] \<Rightarrow> (False, []))"

text \<open>One \<open>%d\<close> of \<open>sscanf\<close>: \<open>None\<close> is a matching failure.\<close>

definition scan_int :: "string \<Rightarrow> (int \<times> string) option" where
  "scan_int s =
    (case read_sign (skip_spaces s) of (neg, r) \<Rightarrow>
      (case r of [] \<Rightarrow> None
       | c # _ \<Rightarrow> if isdigit c
           then (case read_digits 10 0 r of (v, r') \<Rightarrow>
             Some (to_s32 (clip_long (if neg then - int v else int v)), r'))
           else None))"

text \<open>One \<open>%s\<close>.\<close>

definition scan_word :: "string \<Rightarrow> (string \<times> string) option" where
  "scan_word s =
    (case takeWhile (\<lambda>c. \<not> isspace c) (skip_spaces s) of [] \<Rightarrow> None
     | w \<Rightarrow> Some (w, dropWhile (\<lambda>c. \<not> isspace c) (skip_spaces s)))"

text \<open>
  \<open>strtol\<close> with base 0 on a 64-bit \<open>long\<close>: the value, whether \<open>errno\<close> is set, and the text at \<open>endptr\<close>.
  Without digits nothing is consumed.
\<close>

definition strtol0 :: "string \<Rightarrow> int \<times> bool \<times> string" where
  "strtol0 s =
    (case read_sign (skip_spaces s) of (neg, r) \<Rightarrow>
      let (b, r1) = (if take 1 r = ''0'' \<and> (take 1 (drop 1 r) = ''x'' \<or> take 1 (drop 1 r) = ''X'')
                        \<and> (case drop 2 r of [] \<Rightarrow> False | c # _ \<Rightarrow> isxdigit c)
                     then (16, drop 2 r)
                     else if take 1 r = ''0'' then (8, r) else (10, r))
      in case r1 of [] \<Rightarrow> (0, False, s)
         | c # _ \<Rightarrow>
           if digit_val c < b
           then (case read_digits b 0 r1 of (v, r2) \<Rightarrow>
             let x = (if neg then - int v else int v) in (clip_long x, clip_long x \<noteq> x, r2))
           else (0, False, s))"

text \<open>\<open>strtoul\<close> negates modulo 2^64.\<close>

definition strtoul0 :: "string \<Rightarrow> int \<times> bool \<times> string" where
  "strtoul0 s =
    (case read_sign (skip_spaces s) of (neg, r) \<Rightarrow>
      let (b, r1) = (if take 1 r = ''0'' \<and> (take 1 (drop 1 r) = ''x'' \<or> take 1 (drop 1 r) = ''X'')
                        \<and> (case drop 2 r of [] \<Rightarrow> False | c # _ \<Rightarrow> isxdigit c)
                     then (16, drop 2 r)
                     else if take 1 r = ''0'' then (8, r) else (10, r))
      in case r1 of [] \<Rightarrow> (0, False, s)
         | c # _ \<Rightarrow>
           if digit_val c < b
           then (case read_digits b 0 r1 of (v, r2) \<Rightarrow>
             if int v > ULONG_MAX then (ULONG_MAX, True, r2)
             else (to_u64 (if neg then - int v else int v), False, r2))
           else (0, False, s))"

section \<open>Printing\<close>

definition hex_digit :: "nat \<Rightarrow> char" where
  "hex_digit d = (if d < 10 then char_of (48 + d) else char_of (87 + d))"

text \<open>\<open>%x\<close> and \<open>%02x\<close>.\<close>

fun hex_nat :: "nat \<Rightarrow> string" where
  "hex_nat n = (if n < 16 then [hex_digit n] else hex_nat (n div 16) @ [hex_digit (n mod 16)])"

declare hex_nat.simps [simp del]

definition hex2 :: "nat \<Rightarrow> string" where
  "hex2 n = (if n < 16 then CHR ''0'' # hex_nat n else hex_nat n)"

text \<open>\<open>%02d\<close>.\<close>

definition dec2 :: "int \<Rightarrow> string" where
  "dec2 n = (if 0 \<le> n \<and> n < 10 then CHR ''0'' # dec_int n else dec_int n)"

section \<open>Reading back what was printed\<close>

lemma digit_val_dec: "d < 10 \<Longrightarrow> digit_val (char_of (48 + d)) = d" "d < 10 \<Longrightarrow> isdigit (char_of (48 + d))"
  by (simp_all add: digit_val_def isdigit_def)

lemma digit_val_hex [simp]: "d < 16 \<Longrightarrow> digit_val (hex_digit d) = d" "d < 16 \<Longrightarrow> isxdigit (hex_digit d)"
  by (auto simp: hex_digit_def digit_val_def isdigit_def isxdigit_def)

lemma isdigit_val: "isdigit c \<longleftrightarrow> digit_val c < 10"
  by (auto simp: digit_val_def isdigit_def)

lemma isxdigit_val: "isxdigit c \<longleftrightarrow> digit_val c < 16"
  by (auto simp: digit_val_def isdigit_def isxdigit_def)

lemma read_digits_append:
  "\<forall>c \<in> set s. digit_val c < b \<Longrightarrow> read_digits b acc (s @ r) = read_digits b (fst (read_digits b acc s)) r"
  by (induction s arbitrary: acc) auto

lemma dec_nat_digits: "c \<in> set (dec_nat n) \<Longrightarrow> digit_val c < 10"
proof (induction n rule: dec_nat.induct)
  case (1 n)
  then show ?case by (subst (asm) dec_nat.simps) (auto simp: digit_val_dec split: if_splits)
qed

lemma dec_nat_not_Nil [simp]: "dec_nat n \<noteq> []"
  by (subst dec_nat.simps) simp

lemma read_dec_nat: "read_digits 10 0 (dec_nat n) = (n, [])"
proof (induction n rule: dec_nat.induct)
  case (1 n)
  show ?case
  proof (cases "n < 10")
    case True
    then show ?thesis by (subst dec_nat.simps) (simp add: digit_val_dec)
  next
    case False
    have "read_digits 10 0 (dec_nat (n div 10) @ [char_of (48 + n mod 10)]) = (n div 10 * 10 + n mod 10, [])"
      using 1 False dec_nat_digits by (subst read_digits_append) (auto simp: digit_val_dec)
    then show ?thesis using False by (subst dec_nat.simps) simp
  qed
qed

lemma hex_nat_digits: "c \<in> set (hex_nat n) \<Longrightarrow> digit_val c < 16"
proof (induction n rule: hex_nat.induct)
  case (1 n)
  then show ?case by (subst (asm) hex_nat.simps) (auto split: if_splits)
qed

lemma hex_nat_not_Nil [simp]: "hex_nat n \<noteq> []"
  by (subst hex_nat.simps) simp

lemma read_hex_nat: "read_digits 16 0 (hex_nat n) = (n, [])"
proof (induction n rule: hex_nat.induct)
  case (1 n)
  show ?case
  proof (cases "n < 16")
    case True
    then show ?thesis by (subst hex_nat.simps) simp
  next
    case False
    have "read_digits 16 0 (hex_nat (n div 16) @ [hex_digit (n mod 16)]) = (n div 16 * 16 + n mod 16, [])"
      using 1 False hex_nat_digits by (subst read_digits_append) auto
    then show ?thesis using False by (subst hex_nat.simps) simp
  qed
qed

text \<open>A number followed by something that is not a digit.\<close>

definition stops :: "nat \<Rightarrow> string \<Rightarrow> bool" where
  "stops b r \<longleftrightarrow> (case r of [] \<Rightarrow> True | c # _ \<Rightarrow> digit_val c \<ge> b)"

lemma read_digits_stop: "stops b r \<Longrightarrow> read_digits b acc r = (acc, r)"
  by (cases r) (auto simp: stops_def)

lemma read_dec_nat_rest: "stops 10 r \<Longrightarrow> read_digits 10 0 (dec_nat n @ r) = (n, r)"
  using dec_nat_digits by (subst read_digits_append) (auto simp: read_dec_nat read_digits_stop)

lemma read_hex_nat_rest: "stops 16 r \<Longrightarrow> read_digits 16 0 (hex_nat n @ r) = (n, r)"
  using hex_nat_digits by (subst read_digits_append) (auto simp: read_hex_nat read_digits_stop)

lemma digit_not_space: "digit_val c < 10 \<Longrightarrow> \<not> isspace c \<and> c \<noteq> CHR ''-'' \<and> c \<noteq> CHR ''+''"
  by (auto simp: digit_val_def isdigit_def isspace_def ascii_def split: if_splits)

lemma scan_dec_nat:
  assumes "n < 2 ^ 31" "stops 10 r"
  shows "scan_int (dec_nat n @ r) = Some (int n, r)"
proof -
  obtain c s where c: "dec_nat n = c # s" by (cases "dec_nat n") auto
  then have d: "digit_val c < 10" using dec_nat_digits [of c n] by simp
  have "read_digits 10 0 (c # s @ r) = (n, r)" using read_dec_nat_rest [OF assms(2), of n] c by simp
  moreover have "clip_long (int n) = int n" using assms(1) by (simp add: clip_long_def LONG_MAX_def LONG_MIN_def)
  ultimately show ?thesis
    using c d digit_not_space [OF d] assms(1)
    by (simp add: scan_int_def skip_spaces_def read_sign_def isdigit_val del: read_digits.simps)
qed

end
