(* ===== verification/Xml_Ip.thy ===== *)
theory Xml_Ip
  imports C_Text Run_Entry
begin

text \<open>
  IP addresses as text: \<open>xml_utils/parse_ip.c\<close> and \<open>xml_utils/unparse_ip.c\<close>.  A failed parse is
  \<open>None\<close>; the C code returns some negative line number, of which only the sign is looked at.
\<close>

section \<open>The bytes of an address\<close>

text \<open>The union read as eight little-endian 16-bit numbers, and back.\<close>

definition word_shorts :: "32 word \<Rightarrow> nat list" where
  "word_shorts w = [unat w mod 65536, unat w div 65536]"

fun quad_shorts :: "quad \<Rightarrow> nat list" where
  "quad_shorts (a, b, c, d) = word_shorts a @ word_shorts b @ word_shorts c @ word_shorts d"

definition shorts_word :: "nat \<Rightarrow> nat \<Rightarrow> 32 word" where
  "shorts_word lo hi = word_of_nat (lo + 65536 * hi)"

definition shorts_quad :: "nat list \<Rightarrow> quad" where
  "shorts_quad a = (shorts_word (a ! 0) (a ! 1), shorts_word (a ! 2) (a ! 3),
     shorts_word (a ! 4) (a ! 5), shorts_word (a ! 6) (a ! 7))"

definition word_bytes :: "32 word \<Rightarrow> nat list" where
  "word_bytes w = map (\<lambda>i. unat w div 256 ^ i mod 256) [0, 1, 2, 3]"

fun quad_bytes :: "quad \<Rightarrow> nat list" where
  "quad_bytes (a, b, c, d) = word_bytes a @ word_bytes b @ word_bytes c @ word_bytes d"

text \<open>\<open>((w & 0xff) << 8) | (w >> 8)\<close> on 16-bit numbers.\<close>

definition swap16 :: "nat \<Rightarrow> nat" where
  "swap16 w = (w mod 256) * 256 + w div 256"

section \<open>IPv4 text\<close>

definition xml_unparse_ip :: "32 word \<Rightarrow> string" where
  "xml_unparse_ip ip =
    (case word_bytes ip of [b1, b2, b3, b4] \<Rightarrow>
      dec_nat b1 @ CHR ''.'' # dec_nat b2 @ CHR ''.'' # dec_nat b3 @ CHR ''.'' # dec_nat b4 | _ \<Rightarrow> [])"

text \<open>\<open>sscanf\<close> with \<open>%d.%d.%d.%d%n\<close> into unsigned variables, so a negative number is too large.\<close>

definition xml_parse_ip :: "string \<Rightarrow> 32 word option" where
  "xml_parse_ip s =
    Option.bind (scan_int s) (\<lambda>(b1, r). Option.bind (expect CHR ''.'' r) (\<lambda>r.
    Option.bind (scan_int r) (\<lambda>(b2, r). Option.bind (expect CHR ''.'' r) (\<lambda>r.
    Option.bind (scan_int r) (\<lambda>(b3, r). Option.bind (expect CHR ''.'' r) (\<lambda>r.
    Option.bind (scan_int r) (\<lambda>(b4, r).
      if r \<noteq> [] \<or> to_u32 b1 > 255 \<or> to_u32 b2 > 255 \<or> to_u32 b3 > 255 \<or> to_u32 b4 > 255 then None
      else Some (word_of_int (to_u32 b4 * 2 ^ 24 + to_u32 b3 * 2 ^ 16 + to_u32 b2 * 2 ^ 8 + to_u32 b1)))))))))"

section \<open>Parsing IPv6 text\<close>

text \<open>The digits are read while the number is below \<open>0x10000\<close>.\<close>

fun hex_loop :: "nat \<Rightarrow> string \<Rightarrow> nat \<times> string" where
  "hex_loop w [] = (w, [])"
| "hex_loop w (c # s) =
    (if isxdigit c \<and> w < 0x10000 then hex_loop (w * 16 + digit_val c) s else (w, c # s))"

definition read_hex :: "string \<Rightarrow> (nat \<times> string) option" where
  "read_hex s =
    (case s of [] \<Rightarrow> None
     | c # _ \<Rightarrow> if isxdigit c
         then (case hex_loop 0 s of (w, r) \<Rightarrow> if w \<ge> 0x10000 then None else Some (swap16 w, r)) else None)"

text \<open>The first pass: the number of dots, the last colon and the double colon, by their positions.\<close>

fun scan6 :: "nat \<Rightarrow> string \<Rightarrow> nat \<Rightarrow> nat option \<Rightarrow> nat option \<Rightarrow> (nat \<times> nat option \<times> nat option) option" where
  "scan6 i [] dcnt last_col sep = Some (dcnt, last_col, sep)"
| "scan6 i (c # s) dcnt last_col sep =
    (if isxdigit c then scan6 (Suc i) s dcnt last_col sep
     else if c = CHR '':'' then
       (case s of [] \<Rightarrow> scan6 (Suc i) s dcnt (Some i) sep
        | c2 # s2 \<Rightarrow>
          if c2 = CHR '':'' then (if sep \<noteq> None then None else scan6 (Suc (Suc i)) s2 dcnt (Some (Suc i)) (Some i))
          else scan6 (Suc i) s dcnt (Some i) sep)
     else if c = CHR ''.'' then scan6 (Suc i) s (Suc dcnt) last_col sep
     else None)"

text \<open>The dotted part, \<open>A.B.C.D\<close> with \<open>A\<close> in the lowest byte.  What follows it is not looked at.\<close>

fun byte_loop :: "nat \<Rightarrow> string \<Rightarrow> nat \<times> string" where
  "byte_loop b [] = (b, [])"
| "byte_loop b (c # s) =
    (if isdigit c \<and> b < 256 then byte_loop (b * 10 + digit_val c) s else (b, c # s))"

definition read_byte :: "string \<Rightarrow> (nat \<times> string) option" where
  "read_byte s =
    (case s of [] \<Rightarrow> None
     | c # _ \<Rightarrow> if isdigit c then (case byte_loop 0 s of (b, r) \<Rightarrow> if b \<ge> 256 then None else Some (b, r)) else None)"

definition read_dotted :: "string \<Rightarrow> nat option" where
  "read_dotted s =
    Option.bind (read_byte s) (\<lambda>(b0, r). Option.bind (expect CHR ''.'' r) (\<lambda>r.
    Option.bind (read_byte r) (\<lambda>(b1, r). Option.bind (expect CHR ''.'' r) (\<lambda>r.
    Option.bind (read_byte r) (\<lambda>(b2, r). Option.bind (expect CHR ''.'' r) (\<lambda>r.
    Option.bind (read_byte r) (\<lambda>(b3, r). Some (b0 + b1 * 2 ^ 8 + b2 * 2 ^ 16 + b3 * 2 ^ 24))))))))"

lemma hex_loop_length: "hex_loop w s = (v, r) \<Longrightarrow> length r \<le> length s"
  by (induction w s rule: hex_loop.induct) (fastforce split: if_splits)+

lemma read_hex_length: "read_hex s = Some (w, r) \<Longrightarrow> length r < length s"
  by (cases s) (auto simp: read_hex_def split: if_splits prod.splits dest: hex_loop_length)

text \<open>Groups separated by colons, stored from position \<open>pos\<close> on; without a double colon exactly \<open>sz\<close> of them.\<close>

function groups :: "nat \<Rightarrow> string \<Rightarrow> nat \<Rightarrow> nat list \<Rightarrow> (nat list \<times> nat) option" where
  "groups sz s pos addr =
    (if s = [] then Some (addr, pos)
     else if pos \<ge> sz then None
     else case read_hex s of None \<Rightarrow> None
       | Some (w, r) \<Rightarrow>
         (case r of [] \<Rightarrow> Some (addr[pos := w], Suc pos)
          | c # r' \<Rightarrow> if c \<noteq> CHR '':'' then None else groups sz r' (Suc pos) (addr[pos := w])))"
  by pat_completeness auto
termination
  by (relation "measure (\<lambda>(_, s, _). length s)") (auto dest: read_hex_length)

declare groups.simps [simp del]

fun fixed_groups :: "nat \<Rightarrow> nat \<Rightarrow> string \<Rightarrow> nat list \<Rightarrow> nat list option" where
  "fixed_groups i 0 s addr = Some addr"
| "fixed_groups i (Suc k) s addr =
    (case read_hex s of None \<Rightarrow> None
     | Some (w, r) \<Rightarrow> if k = 0 then Some (addr[i := w])
         else Option.bind (expect CHR '':'' r) (\<lambda>r'. fixed_groups (Suc i) k r' (addr[i := w])))"

definition colons :: "string \<Rightarrow> nat" where
  "colons s = length (filter (\<lambda>c. c = CHR '':'') s)"

definition parse_groups :: "nat \<Rightarrow> string \<Rightarrow> nat option \<Rightarrow> nat list \<Rightarrow> nat list option" where
  "parse_groups sz cs sep addr =
    (case sep of
       None \<Rightarrow> if cs = [] then None else fixed_groups 0 sz cs addr
     | Some p \<Rightarrow>
       (case groups sz (take p cs) 0 addr of None \<Rightarrow> None
        | Some (addr1, pos1) \<Rightarrow>
          (let cs2 = drop (p + 2) cs in
           if cs2 = [] then Some addr1
           else (let pos2 = int sz - 1 - int (colons cs2) in
                 if int pos1 > pos2 then None
                 else map_option fst (groups sz cs2 (nat pos2) addr1)))))"

definition trim :: "string \<Rightarrow> string" where
  "trim s = rev (dropWhile isspace (rev (dropWhile isspace s)))"

definition ip_of :: "int \<Rightarrow> nat list \<Rightarrow> ej_ip" where
  "ip_of flag addr = \<lparr>ip_ipv6_flag = flag, ip_u = shorts_quad addr\<rparr>"

abbreviation no_shorts :: "nat list" where
  "no_shorts \<equiv> [0, 0, 0, 0, 0, 0, 0, 0]"

definition xml_parse_ipv6_2 :: "string \<Rightarrow> ej_ip option" where
  "xml_parse_ipv6_2 s =
    (let cs = trim s in
     if cs = [] then None
     else case scan6 0 cs 0 None None of
       None \<Rightarrow> None
     | Some (dcnt, last_col, sep) \<Rightarrow>
       if dcnt = 0 then map_option (ip_of 1) (parse_groups 8 cs sep no_shorts)
       else
         (case read_dotted (case last_col of None \<Rightarrow> cs | Some l \<Rightarrow> drop (Suc l) cs) of
            None \<Rightarrow> None
          | Some v \<Rightarrow>
            (let addr = no_shorts[6 := v mod 65536, 7 := v div 65536] in
             case last_col of
               None \<Rightarrow> Some (ip_of 0 addr)
             | Some l \<Rightarrow>
               (let e = (if map_option Suc sep = Some l then Suc l else l)
                in map_option (ip_of 1) (parse_groups 6 (take e cs) sep addr)))))"

section \<open>Printing IPv6 text\<close>

fun join_hex :: "nat list \<Rightarrow> string" where
  "join_hex [] = []"
| "join_hex [d] = hex_nat (swap16 d)"
| "join_hex (d # ds) = hex_nat (swap16 d) @ CHR '':'' # join_hex ds"

text \<open>The longest run of at least two zeros, the first one of that length.\<close>

function zero_run :: "nat \<Rightarrow> nat list \<Rightarrow> nat option \<times> nat \<Rightarrow> nat option \<times> nat" where
  "zero_run pos [] st = st"
| "zero_run pos (x # xs) st =
    (if x \<noteq> 0 then zero_run (Suc pos) xs st
     else (let k = Suc (length (takeWhile (\<lambda>d. d = 0) xs))
           in zero_run (pos + k) (dropWhile (\<lambda>d. d = 0) xs) (if k > 1 \<and> k > snd st then (Some pos, k) else st)))"
  by pat_completeness auto
termination
  by (relation "measure (\<lambda>(_, xs, _). length xs)") (auto simp: le_imp_less_Suc length_dropWhile_le)

definition dotted :: "nat \<Rightarrow> nat \<Rightarrow> string" where
  "dotted d6 d7 = dec_nat (d6 mod 256) @ CHR ''.'' # dec_nat (d6 div 256) @ CHR ''.''
     # dec_nat (d7 mod 256) @ CHR ''.'' # dec_nat (d7 div 256)"

definition xml_unparse_ipv6 :: "ej_ip \<Rightarrow> string" where
  "xml_unparse_ipv6 ip =
    (if ip_ipv6_flag ip = 0 then xml_unparse_ip (quad3 (ip_u ip))
     else
       (let data = quad_shorts (ip_u ip) in
        if take 5 data = [0, 0, 0, 0, 0] \<and> (data ! 5 = 0 \<or> data ! 5 = 0xffff) then
          (if data ! 5 = 0 \<and> data ! 6 = 0 then
             (if data ! 7 = 0 then ''::'' else ''::'' @ hex_nat (swap16 (data ! 7)))
           else ''::'' @ (if data ! 5 \<noteq> 0 then ''ffff:'' else []) @ dotted (data ! 6) (data ! 7))
        else
          (case zero_run 0 data (None, 0) of
             (None, _) \<Rightarrow> join_hex data
           | (Some start, len) \<Rightarrow> join_hex (take start data) @ ''::'' @ join_hex (drop (start + len) data))))"

section \<open>Comparing addresses\<close>

text \<open>\<open>memcmp\<close> on byte lists of one length, by the sign of its result.\<close>

fun memcmp :: "nat list \<Rightarrow> nat list \<Rightarrow> int" where
  "memcmp (x # xs) (y # ys) = (if x < y then -1 else if x > y then 1 else memcmp xs ys)"
| "memcmp _ _ = 0"

definition ipv6cmp :: "ej_ip \<Rightarrow> ej_ip \<Rightarrow> int" where
  "ipv6cmp p q =
    (if ip_ipv6_flag p = 0 \<and> ip_ipv6_flag q = 0 then
       (if quad3 (ip_u p) < quad3 (ip_u q) then -1 else if quad3 (ip_u p) > quad3 (ip_u q) then 1 else 0)
     else if ip_ipv6_flag p = 0 then -1
     else if ip_ipv6_flag q = 0 then 1
     else memcmp (quad_bytes (ip_u p)) (quad_bytes (ip_u q)))"

fun quad_and :: "quad \<Rightarrow> quad \<Rightarrow> quad" where
  "quad_and (a, b, c, d) (a', b', c', d') = (a AND a', b AND b', c AND c', d AND d')"

definition ipv6_match_mask :: "ej_ip \<Rightarrow> ej_ip \<Rightarrow> ej_ip \<Rightarrow> bool" where
  "ipv6_match_mask net msk addr \<longleftrightarrow>
    (if ip_ipv6_flag net \<noteq> ip_ipv6_flag msk \<or> ip_ipv6_flag net \<noteq> ip_ipv6_flag addr then False
     else if ip_ipv6_flag addr = 0 then quad3 (ip_u addr) AND quad3 (ip_u msk) = quad3 (ip_u net)
     else memcmp (quad_bytes (quad_and (ip_u addr) (ip_u msk))) (quad_bytes (ip_u net)) = 0)"

definition ipv6_is_empty :: "ej_ip \<Rightarrow> bool" where
  "ipv6_is_empty ip \<longleftrightarrow>
    (if ip_ipv6_flag ip \<noteq> 0 then (\<forall>b \<in> set (quad_bytes (ip_u ip)). b = 0) else quad3 (ip_u ip) = 0)"

definition xml_make_ipv6 :: "32 word \<Rightarrow> ej_ip" where
  "xml_make_ipv6 addr = \<lparr>ip_ipv6_flag = 0, ip_u = (0, 0, 0, addr)\<rparr>"

definition xml_make_ipv4 :: "ej_ip \<Rightarrow> 32 word" where
  "xml_make_ipv4 ip = (if ip_ipv6_flag ip \<noteq> 0 then 0x7f00007f else quad3 (ip_u ip))"

section \<open>Words and their parts\<close>

lemma unat32: "unat (w :: 32 word) < 2 ^ 32"
  using unsigned_less [of w] by simp

lemma shorts_word_shorts [simp]: "shorts_word (unat w mod 65536) (unat w div 65536) = w"
  by (simp add: shorts_word_def add.commute [of _ "65536 * _"] del: of_nat_add of_nat_mult)

lemma shorts_quad_shorts: "shorts_quad (quad_shorts q) = q"
  by (cases q) (simp add: shorts_quad_def word_shorts_def)

lemma length_quad_shorts [simp]: "length (quad_shorts q) = 8"
  by (cases q) (simp add: word_shorts_def)

lemma quad_shorts_bound: "d \<in> set (quad_shorts q) \<Longrightarrow> d < 65536"
  using unat32 by (cases q) (auto simp: word_shorts_def less_mult_imp_div_less)

lemma swap16_lt: "w < 65536 \<Longrightarrow> swap16 w < 65536"
proof -
  assume "w < 65536"
  then have "w div 256 < 256" "w mod 256 < 256" by simp_all
  then show ?thesis unfolding swap16_def by linarith
qed

lemma swap16_swap16: "w < 65536 \<Longrightarrow> swap16 (swap16 w) = w"
proof -
  assume "w < 65536"
  then have "w div 256 < 256" by simp
  then have "((w mod 256) * 256 + w div 256) mod 256 = w div 256" "((w mod 256) * 256 + w div 256) div 256 = w mod 256"
    by simp_all
  then show ?thesis by (simp add: swap16_def)
qed

lemma word_bytes_list: "word_bytes w = [unat w mod 256, unat w div 256 mod 256, unat w div 65536 mod 256, unat w div 16777216]"
  using unat32 [of w] by (simp add: word_bytes_def)

lemma bytes_sum: "n mod 256 + n div 256 mod 256 * 2 ^ 8 + n div 65536 mod 256 * 2 ^ 16 + n div 16777216 * 2 ^ 24 = (n :: nat)"
proof -
  have d: "n div 65536 = n div 256 div 256" "n div 16777216 = n div 256 div 256 div 256"
    using div_mult2_eq [of n 256 256] div_mult2_eq [of n 256 65536] div_mult2_eq [of "n div 256" 256 256] by simp_all
  have p: "(2 :: nat) ^ 8 = 256" "(2 :: nat) ^ 16 = 65536" "(2 :: nat) ^ 24 = 16777216" by simp_all
  show ?thesis
    unfolding d p using mod_mult_div_eq [of n 256] mod_mult_div_eq [of "n div 256" 256]
      mod_mult_div_eq [of "n div 256 div 256" 256] by linarith
qed

section \<open>IPv4 round trip\<close>

lemma not_digit_punct [simp]: "digit_val CHR ''.'' = 99" "digit_val CHR '':'' = 99" "\<not> isxdigit CHR ''.''"
  "\<not> isxdigit CHR '':''" "\<not> isdigit CHR ''.''" "\<not> isspace CHR '':''" "\<not> isspace CHR ''.''" "stops b []"
  by (simp_all add: digit_val_def isdigit_def isxdigit_def isspace_def ascii_def stops_def)

lemma stops_punct [simp]: "b \<le> 99 \<Longrightarrow> stops b (CHR ''.'' # r)" "b \<le> 99 \<Longrightarrow> stops b (CHR '':'' # r)"
  by (simp_all add: stops_def)

text \<open>Parsing the text of an IPv4 address gives the address.\<close>

theorem ip4_roundtrip: "xml_parse_ip (xml_unparse_ip w) = Some w"
proof -
  let ?n = "unat w"
  have n: "?n < 2 ^ 32" by (rule unat32)
  have b: "?n mod 256 < 256" "?n div 256 mod 256 < 256" "?n div 65536 mod 256 < 256" "?n div 16777216 < 256"
    using n by simp_all
  have b': "\<not> 255 < ?n mod 256" "\<not> 255 < ?n div 256 mod 256" "\<not> 255 < ?n div 65536 mod 256" "\<not> 255 < ?n div 16777216"
    using b by linarith+
  have u: "to_u32 (int k) = int k" if "k < 256" for k using that by simp
  have s: "word_of_int (int b4 * 2 ^ 24 + int b3 * 2 ^ 16 + int b2 * 2 ^ 8 + int b1)
      = (word_of_nat (b1 + b2 * 2 ^ 8 + b3 * 2 ^ 16 + b4 * 2 ^ 24) :: 32 word)" for b1 b2 b3 b4
    by (simp add: add_ac)
  have "xml_parse_ip (xml_unparse_ip w) = Some (word_of_int (int (?n div 16777216) * 2 ^ 24
      + int (?n div 65536 mod 256) * 2 ^ 16 + int (?n div 256 mod 256) * 2 ^ 8 + int (?n mod 256)))"
    unfolding xml_unparse_ip_def word_bytes_list list.case xml_parse_ip_def
    using b by (simp add: scan_dec_nat scan_dec_nat [where r = "[]", simplified] u b')
  then show ?thesis unfolding s bytes_sum by simp
qed

section \<open>IPv6 round trip\<close>

lemma dropWhile_none: "\<forall>c \<in> set s. \<not> P c \<Longrightarrow> dropWhile P s = s"
  by (cases s) auto

lemma trim_id: "\<forall>c \<in> set s. \<not> isspace c \<Longrightarrow> trim s = s"
  by (simp add: trim_def dropWhile_none)

lemma xdigit_not_space: "isxdigit c \<Longrightarrow> \<not> isspace c"
  by (auto simp: isxdigit_def isdigit_def isspace_def)

lemma isxdigit_hex: "c \<in> set (hex_nat n) \<Longrightarrow> isxdigit c"
  using hex_nat_digits isxdigit_val by blast

lemma isxdigit_dec: "c \<in> set (dec_nat n) \<Longrightarrow> isxdigit c"
  using dec_nat_digits [of c n] by (auto simp: isxdigit_val)

lemma read_digits_ge: "read_digits b acc s = (v, r) \<Longrightarrow> 0 < b \<Longrightarrow> acc \<le> v"
proof (induction b acc s rule: read_digits.induct)
  case (2 b acc c s)
  show ?case
  proof (cases "digit_val c < b")
    case True
    then have "acc * b + digit_val c \<le> v" using 2 by simp
    moreover have "acc \<le> acc * b" using 2(3) by simp
    ultimately show ?thesis by linarith
  qed (use 2 in simp)
qed simp

lemma hex_loop_read:
  "read_digits 16 w s = (v, r) \<Longrightarrow> v < 65536 \<Longrightarrow> hex_loop w s = (v, r)"
proof (induction s arbitrary: w)
  case (Cons c s)
  then show ?case using read_digits_ge [OF Cons.prems(1)] by (auto simp: isxdigit_val split: if_splits)
qed simp

lemma read_hex_swap:
  assumes "d < 65536" "stops 16 r"
  shows "read_hex (hex_nat (swap16 d) @ r) = Some (d, r)"
proof -
  obtain c s where c: "hex_nat (swap16 d) = c # s" by (cases "hex_nat (swap16 d)") auto
  have "read_digits 16 0 (hex_nat (swap16 d) @ r) = (swap16 d, r)" by (rule read_hex_nat_rest [OF assms(2)])
  then have "hex_loop 0 (hex_nat (swap16 d) @ r) = (swap16 d, r)"
    using hex_loop_read swap16_lt [OF assms(1)] by blast
  then show ?thesis
    using c isxdigit_hex [of c "swap16 d"] swap16_lt [OF assms(1)] swap16_swap16 [OF assms(1)]
    by (simp add: read_hex_def del: hex_loop.simps)
qed

lemma join_hex_chars: "c \<in> set (join_hex ds) \<Longrightarrow> isxdigit c \<or> c = CHR '':''"
  by (induction ds rule: join_hex.induct) (auto dest: isxdigit_hex)

lemma join_hex_Nil [simp]: "join_hex ds = [] \<longleftrightarrow> ds = []"
  by (cases ds rule: join_hex.cases) simp_all

lemma hd_join_hex: "ds \<noteq> [] \<Longrightarrow> \<exists>c s. join_hex ds = c # s \<and> isxdigit c"
proof (cases ds rule: join_hex.cases)
  case (2 d)
  then show ?thesis using isxdigit_hex [of _ "swap16 d"] by (cases "hex_nat (swap16 d)") auto
next
  case (3 d v va)
  then show ?thesis using isxdigit_hex [of _ "swap16 d"] by (cases "hex_nat (swap16 d)") auto
qed simp

lemma colons_append [simp]: "colons (a @ b) = colons a + colons b"
  by (simp add: colons_def)

lemma colons_hex [simp]: "colons (hex_nat n) = 0"
  using isxdigit_hex [of "CHR '':''" n] by (auto simp: colons_def filter_empty_conv)

lemma colons_join: "ds \<noteq> [] \<Longrightarrow> colons (join_hex ds) = length ds - 1"
proof (induction ds rule: join_hex.induct)
  case (3 d v va)
  then show ?case by (simp add: colons_def [of "_ # _"]) (simp add: colons_def)
qed simp_all

text \<open>The groups written over a part of the array.\<close>

definition place :: "nat \<Rightarrow> nat list \<Rightarrow> nat list \<Rightarrow> nat list" where
  "place pos xs a = take pos a @ xs @ drop (pos + length xs) a"

lemma place_Nil [simp]: "place pos [] a = a"
  by (simp add: place_def)

lemma length_place [simp]: "pos + length xs \<le> length a \<Longrightarrow> length (place pos xs a) = length a"
  by (simp add: place_def)

lemma place_Cons:
  assumes "pos + Suc (length xs) \<le> length a"
  shows "place (Suc pos) xs (a[pos := x]) = place pos (x # xs) a"
  using assms by (simp add: place_def take_Suc_conv_app_nth)

lemma groups_join:
  assumes "\<forall>d \<in> set ds. d < 65536" "pos + length ds \<le> sz" "sz \<le> length a"
  shows "groups sz (join_hex ds) pos a = Some (place pos ds a, pos + length ds)"
  using assms
proof (induction ds arbitrary: pos a rule: join_hex.induct)
  case 1
  then show ?case by (simp add: groups.simps)
next
  case (2 d)
  then have "read_hex (hex_nat (swap16 d)) = Some (d, [])" using read_hex_swap [of d "[]"] by simp
  moreover have "a[pos := d] = place pos [d] a" using 2 by (simp add: place_def upd_conv_take_nth_drop)
  ultimately show ?case using 2 by (subst groups.simps) simp
next
  case (3 d v va)
  have "read_hex (hex_nat (swap16 d) @ CHR '':'' # join_hex (v # va)) = Some (d, CHR '':'' # join_hex (v # va))"
    using 3(2) by (intro read_hex_swap) simp_all
  moreover have "groups sz (join_hex (v # va)) (Suc pos) (a[pos := d])
      = Some (place (Suc pos) (v # va) (a[pos := d]), Suc pos + length (v # va))"
    by (rule 3(1)) (use 3(2-4) in simp_all)
  moreover have "place (Suc pos) (v # va) (a[pos := d]) = place pos (d # v # va) a"
    by (rule place_Cons) (use 3(3,4) in simp)
  ultimately show ?case using 3(3) by (subst groups.simps) simp
qed

lemma fixed_groups_join:
  assumes "\<forall>d \<in> set ds. d < 65536" "ds \<noteq> []" "i + length ds \<le> length a"
  shows "fixed_groups i (length ds) (join_hex ds) a = Some (place i ds a)"
  using assms
proof (induction ds arbitrary: i a rule: join_hex.induct)
  case (2 d)
  then have "read_hex (hex_nat (swap16 d)) = Some (d, [])" using read_hex_swap [of d "[]"] by simp
  moreover have "a[i := d] = place i [d] a" using 2 by (simp add: place_def upd_conv_take_nth_drop)
  ultimately show ?case by simp
next
  case (3 d v va)
  have "read_hex (hex_nat (swap16 d) @ CHR '':'' # join_hex (v # va)) = Some (d, CHR '':'' # join_hex (v # va))"
    using 3(2) by (intro read_hex_swap) simp_all
  moreover have "fixed_groups (Suc i) (length (v # va)) (join_hex (v # va)) (a[i := d])
      = Some (place (Suc i) (v # va) (a[i := d]))"
    by (rule 3(1)) (use 3(2-4) in simp_all)
  moreover have "place (Suc i) (v # va) (a[i := d]) = place i (d # v # va) a"
    by (rule place_Cons) (use 3(4) in simp)
  ultimately show ?case by simp
qed simp

lemma scan6_hex:
  "\<forall>c \<in> set h. isxdigit c \<Longrightarrow> scan6 i (h @ r) d l sep = scan6 (i + length h) r d l sep"
  by (induction h arbitrary: i) auto

lemma scan6_join: "\<exists>l'. scan6 i (join_hex ds @ r) d l sep = scan6 (i + length (join_hex ds)) r d l' sep"
proof (induction ds arbitrary: i l rule: join_hex.induct)
  case 1
  then show ?case by auto
next
  case (2 x)
  then show ?case using scan6_hex [of "hex_nat (swap16 x)"] isxdigit_hex by fastforce
next
  case (3 x v va)
  obtain c s where c: "join_hex (v # va) = c # s" "isxdigit c" using hd_join_hex [of "v # va"] by auto
  let ?h = "hex_nat (swap16 x)"
  have "scan6 i (?h @ CHR '':'' # join_hex (v # va) @ r) d l sep
      = scan6 (i + length ?h) (CHR '':'' # join_hex (v # va) @ r) d l sep"
    using scan6_hex isxdigit_hex by blast
  also have "\<dots> = scan6 (Suc (i + length ?h)) (join_hex (v # va) @ r) d (Some (i + length ?h)) sep"
    using c by auto
  also obtain l' where "\<dots> = scan6 (Suc (i + length ?h) + length (join_hex (v # va))) r d l' sep"
    using 3 by blast
  finally show ?case by (auto simp: add.assoc)
qed

lemma scan6_two:
  "\<exists>l. scan6 0 (join_hex xs @ CHR '':'' # CHR '':'' # join_hex ys) 0 None None = Some (0, l, Some (length (join_hex xs)))"
proof -
  obtain l1 where "scan6 0 (join_hex xs @ CHR '':'' # CHR '':'' # join_hex ys) 0 None None
      = scan6 (length (join_hex xs)) (CHR '':'' # CHR '':'' # join_hex ys) 0 l1 None"
    using scan6_join [of 0 xs "CHR '':'' # CHR '':'' # join_hex ys" 0 None None] by auto
  moreover obtain l2 where "scan6 (Suc (Suc (length (join_hex xs)))) (join_hex ys @ []) 0 (Some (Suc (length (join_hex xs)))) (Some (length (join_hex xs)))
      = scan6 (Suc (Suc (length (join_hex xs))) + length (join_hex ys)) [] 0 l2 (Some (length (join_hex xs)))"
    using scan6_join by blast
  ultimately show ?thesis by auto
qed

lemma join_no_space: "\<forall>c \<in> set (join_hex xs). \<not> isspace c"
  using join_hex_chars xdigit_not_space not_digit_punct(6) by blast

lemma parse_two:
  assumes "\<forall>d \<in> set xs. d < 65536" "\<forall>d \<in> set ys. d < 65536" "length xs + length ys < 8"
  shows "xml_parse_ipv6_2 (join_hex xs @ ''::'' @ join_hex ys)
    = Some (ip_of 1 (xs @ replicate (8 - length xs - length ys) 0 @ ys))"
proof -
  let ?s = "join_hex xs @ CHR '':'' # CHR '':'' # join_hex ys" and ?p = "length (join_hex xs)"
  have t: "trim ?s = ?s" by (rule trim_id) (use join_no_space in auto)
  obtain l where sc: "scan6 0 ?s 0 None None = Some (0, l, Some ?p)" using scan6_two by blast
  have n8: "no_shorts = replicate 8 0" by (simp add: eval_nat_numeral)
  have g1: "groups 8 (join_hex xs) 0 no_shorts = Some (place 0 xs no_shorts, length xs)"
    using groups_join [OF assms(1), of 0 8 no_shorts] assms(3) by simp
  have "parse_groups 8 ?s (Some ?p) no_shorts = Some (xs @ replicate (8 - length xs - length ys) 0 @ ys)"
  proof (cases "ys = []")
    case True
    then show ?thesis using g1 assms(3) unfolding n8 by (simp add: parse_groups_def place_def)
  next
    case False
    have "int 8 - 1 - int (colons (join_hex ys)) = int (8 - length ys)"
      using colons_join [OF False] assms(3) False by (cases ys) auto
    then have c: "nat (int 8 - 1 - int (colons (join_hex ys))) = 8 - length ys"
      "\<not> int 8 - 1 - int (colons (join_hex ys)) < int (length xs)"
      using assms(3) by linarith+
    have "groups 8 (join_hex ys) (8 - length ys) (place 0 xs no_shorts)
        = Some (place (8 - length ys) ys (place 0 xs no_shorts), 8 - length ys + length ys)"
      by (rule groups_join [OF assms(2)]) (use assms(3) in simp_all)
    moreover have "place (8 - length ys) ys (place 0 xs no_shorts) = xs @ replicate (8 - length xs - length ys) 0 @ ys"
      unfolding n8 using assms(3) by (simp add: place_def min_def add.commute [of "length ys"])
    ultimately show ?thesis
      using g1 c False assms(3) by (simp add: parse_groups_def Let_def)
  qed
  then show ?thesis using t sc by (simp add: xml_parse_ipv6_2_def Let_def)
qed

lemma parse_eight:
  assumes "\<forall>d \<in> set ds. d < 65536" "length ds = 8"
  shows "xml_parse_ipv6_2 (join_hex ds) = Some (ip_of 1 ds)"
proof -
  have ne: "ds \<noteq> []" using assms(2) by auto
  obtain l where sc: "scan6 0 (join_hex ds) 0 None None = Some (0, l, None)"
    using scan6_join [of 0 ds "[]" 0 None None] by auto
  have "fixed_groups 0 8 (join_hex ds) no_shorts = Some (place 0 ds no_shorts)"
    using fixed_groups_join [OF assms(1) ne, of 0 no_shorts] assms(2) by simp
  moreover have "place 0 ds no_shorts = ds" using assms(2) by (simp add: place_def)
  ultimately show ?thesis
    using sc ne trim_id [OF join_no_space] by (simp add: xml_parse_ipv6_2_def parse_groups_def Let_def)
qed

lemma zero_prefix: "takeWhile (\<lambda>d. d = 0) xs = replicate (length (takeWhile (\<lambda>d. d = 0) xs)) (0 :: nat)"
  by (induction xs) auto

lemma zero_run_split:
  assumes "zero_run (length as) xs st = (Some p, k)"
    "\<And>p k. st = (Some p, k) \<Longrightarrow> k > 1 \<and> (\<exists>us vs. as @ xs = us @ replicate k 0 @ vs \<and> length us = p)"
  shows "k > 1 \<and> (\<exists>us vs. as @ xs = us @ replicate k 0 @ vs \<and> length us = p)"
  using assms
proof (induction "length as" xs st arbitrary: as rule: zero_run.induct)
  case (1 st)
  then show ?case by simp
next
  case (2 x xs st)
  show ?case
  proof (cases "x = 0")
    case False
    then show ?thesis using 2(1) [of "as @ [x]"] 2(3,4) by simp
  next
    case True
    define z where "z = takeWhile (\<lambda>d. d = 0) xs"
    let ?k = "Suc (length z)"
    have s: "x # xs = replicate ?k 0 @ dropWhile (\<lambda>d. d = 0) xs"
      using True zero_prefix [of xs] by (simp add: z_def)
    have e: "(as @ replicate ?k 0) @ dropWhile (\<lambda>d. d = 0) xs = as @ x # xs" using s by simp
    define st' where "st' = (if ?k > 1 \<and> ?k > snd st then (Some (length as), ?k) else st)"
    have "zero_run (length as) (x # xs) st = zero_run (length as + ?k) (dropWhile (\<lambda>d. d = 0) xs) st'"
      unfolding st'_def z_def using True by (simp add: Let_def)
    then have A: "zero_run (length (as @ replicate ?k 0)) (dropWhile (\<lambda>d. d = 0) xs) st' = (Some p, k)"
      using 2(3) by simp
    have B: "k > 1 \<and> (\<exists>us vs. (as @ replicate ?k 0) @ dropWhile (\<lambda>d. d = 0) xs = us @ replicate k 0 @ vs \<and> length us = p)"
      if st: "st' = (Some p, k)" for p k
    proof (cases "st = (Some p, k)")
      case True
      then show ?thesis using 2(4) unfolding e by blast
    next
      case False
      then have "p = length as" "k = ?k" "?k > 1" using st by (auto simp: st'_def split: if_splits)
      then show ?thesis by auto
    qed
    show ?thesis
      using 2(2) [of ?k "as @ replicate ?k 0", folded z_def, folded st'_def] True A B unfolding e by simp
  qed
qed

text \<open>Dotted text, in either layout.\<close>

definition text4 :: "nat \<Rightarrow> nat \<Rightarrow> nat \<Rightarrow> nat \<Rightarrow> string" where
  "text4 b0 b1 b2 b3 = dec_nat b0 @ CHR ''.'' # dec_nat b1 @ CHR ''.'' # dec_nat b2 @ CHR ''.'' # dec_nat b3"

lemma byte_loop_read: "read_digits 10 b s = (v, r) \<Longrightarrow> v < 256 \<Longrightarrow> byte_loop b s = (v, r)"
proof (induction s arbitrary: b)
  case (Cons c s)
  then show ?case using read_digits_ge [OF Cons.prems(1)] by (auto simp: isdigit_val split: if_splits)
qed simp

lemma read_byte_dec:
  assumes "n < 256" "stops 10 r"
  shows "read_byte (dec_nat n @ r) = Some (n, r)"
proof -
  obtain c s where c: "dec_nat n = c # s" by (cases "dec_nat n") auto
  have "byte_loop 0 (dec_nat n @ r) = (n, r)" by (rule byte_loop_read [OF read_dec_nat_rest [OF assms(2)] assms(1)])
  then show ?thesis
    using c dec_nat_digits [of c n] assms(1) by (simp add: read_byte_def isdigit_val del: byte_loop.simps)
qed

lemma read_text4:
  assumes "b0 < 256" "b1 < 256" "b2 < 256" "b3 < 256" "stops 10 r"
  shows "read_dotted (text4 b0 b1 b2 b3 @ r) = Some (b0 + b1 * 2 ^ 8 + b2 * 2 ^ 16 + b3 * 2 ^ 24)"
  using assms by (simp add: read_dotted_def text4_def read_byte_dec)

lemma scan6_text4:
  "scan6 i (text4 b0 b1 b2 b3 @ r) d l sep = scan6 (i + length (text4 b0 b1 b2 b3)) r (d + 3) l sep"
  using isxdigit_dec by (simp add: text4_def scan6_hex eval_nat_numeral add.assoc)

lemma text4_no_space: "\<forall>c \<in> set (text4 b0 b1 b2 b3). \<not> isspace c"
  using isxdigit_dec xdigit_not_space by (auto simp: text4_def)

lemma hd_text4: "\<exists>c s. text4 b0 b1 b2 b3 = c # s \<and> isxdigit c"
  using isxdigit_dec [of _ b0] by (cases "dec_nat b0") (auto simp: text4_def)

lemma unparse_ip_text4:
  "xml_unparse_ip w = text4 (unat w mod 256) (unat w div 256 mod 256) (unat w div 65536 mod 256) (unat w div 16777216)"
  by (simp add: xml_unparse_ip_def word_bytes_list text4_def)

text \<open>After the fourth byte of an IPv4 address the parser accepts any dots and hexadecimal digits.\<close>

lemma parse_ipv4:
  assumes "\<forall>c \<in> set t. isxdigit c \<or> c = CHR ''.''" "stops 10 t"
  shows "xml_parse_ipv6_2 (xml_unparse_ip w @ t) = Some \<lparr>ip_ipv6_flag = 0, ip_u = (0, 0, 0, w)\<rparr>"
proof -
  let ?n = "unat w"
  have n: "?n < 2 ^ 32" by (rule unat32)
  have b: "?n mod 256 < 256" "?n div 256 mod 256 < 256" "?n div 65536 mod 256 < 256" "?n div 16777216 < 256"
    using n by simp_all
  let ?s = "text4 (?n mod 256) (?n div 256 mod 256) (?n div 65536 mod 256) (?n div 16777216) @ t"
  have tr: "trim ?s = ?s" by (rule trim_id) (use text4_no_space assms(1) xdigit_not_space in auto)
  have t: "\<exists>k. scan6 i t d None None = Some (d + k, None, None)" for i d
    using assms(1)
  proof (induction t arbitrary: i d)
    case (Cons c t)
    then consider "isxdigit c" | "\<not> isxdigit c" "c = CHR ''.''" by auto
    then show ?case
    proof cases
      case 1
      then show ?thesis using Cons by simp
    next
      case 2
      then obtain k where "scan6 (Suc i) t (Suc d) None None = Some (Suc d + k, None, None)" using Cons by fastforce
      then have "scan6 i (c # t) d None None = Some (d + Suc k, None, None)" using 2 by simp
      then show ?thesis by blast
    qed
  qed simp
  obtain k where sc: "scan6 0 ?s 0 None None = Some (3 + k, None, None)"
    using t scan6_text4 by (metis add_0)
  have rd: "read_dotted ?s = Some ?n" using read_text4 [OF b assms(2)] bytes_sum by simp
  have ne: "?s \<noteq> []" by (simp add: text4_def)
  have "shorts_quad [0, 0, 0, 0, 0, 0, ?n mod 65536, ?n div 65536] = (0, 0, 0, w)"
    by (simp add: shorts_quad_def) (simp add: shorts_word_def)
  then show ?thesis
    unfolding unparse_ip_text4 xml_parse_ipv6_2_def Let_def tr sc using ne rd by (simp add: ip_of_def)
qed

lemma parse_mapped:
  assumes "d6 < 65536" "d7 < 65536"
  shows "xml_parse_ipv6_2 (''::'' @ dotted d6 d7) = Some (ip_of 1 [0, 0, 0, 0, 0, 0, d6, d7])"
    "xml_parse_ipv6_2 (''::ffff:'' @ dotted d6 d7) = Some (ip_of 1 [0, 0, 0, 0, 0, 65535, d6, d7])"
proof -
  have b: "d6 mod 256 < 256" "d6 div 256 < 256" "d7 mod 256 < 256" "d7 div 256 < 256" using assms by simp_all
  let ?t = "text4 (d6 mod 256) (d6 div 256) (d7 mod 256) (d7 div 256)"
  have dt: "dotted d6 d7 = ?t" by (simp add: dotted_def text4_def)
  obtain c s where cs: "?t = c # s" "isxdigit c" using hd_text4 by blast
  have c': "c \<noteq> CHR '':''" using cs(2) by auto
  have v: "d6 mod 256 + d6 div 256 * 2 ^ 8 + d7 mod 256 * 2 ^ 16 + d7 div 256 * 2 ^ 24 = d6 + 65536 * d7"
  proof -
    have p: "(2 :: nat) ^ 8 = 256" "(2 :: nat) ^ 16 = 65536" "(2 :: nat) ^ 24 = 16777216" by simp_all
    show ?thesis unfolding p using mod_mult_div_eq [of d6 256] mod_mult_div_eq [of d7 256] by linarith
  qed
  have rd: "read_dotted ?t = Some (d6 + 65536 * d7)"
    using read_text4 [OF b, of "[]"] v by simp
  have dm: "(d6 + 65536 * d7) mod 65536 = d6" "(d6 + 65536 * d7) div 65536 = d7" using assms by simp_all
  have f: "isxdigit CHR ''f''" "\<not> isspace CHR ''f''" by (simp_all add: isxdigit_def ascii_def isspace_def)
  have sc: "scan6 i ?t 0 l sp = Some (3, l, sp)" for i l sp
    using scan6_text4 [of i _ _ _ _ "[]" 0 l sp] by simp
  let ?s = "CHR '':'' # CHR '':'' # ?t"
  have tr: "trim ?s = ?s" by (rule trim_id) (use text4_no_space in auto)
  have "scan6 0 ?s 0 None None = Some (3, Some 1, Some 0)" using sc by simp
  then show "xml_parse_ipv6_2 (''::'' @ dotted d6 d7) = Some (ip_of 1 [0, 0, 0, 0, 0, 0, d6, d7])"
    using rd tr by (simp add: dt xml_parse_ipv6_2_def parse_groups_def groups.simps [of _ "[]"] dm Let_def assms)
  let ?r = "''::ffff:'' @ ?t"
  have tr': "trim ?r = ?r" by (rule trim_id) (use text4_no_space f in auto)
  have "scan6 0 ?r 0 None None = scan6 (Suc (Suc (Suc (Suc (Suc (Suc (Suc 0))))))) ?t 0
      (Some (Suc (Suc (Suc (Suc (Suc (Suc 0))))))) (Some 0)"
    by (simp add: cs c' f)
  then have "scan6 0 ?r 0 None None = Some (3, Some (Suc (Suc (Suc (Suc (Suc (Suc 0)))))), Some 0)"
    unfolding sc .
  moreover have "Suc (Suc (Suc (Suc (Suc (Suc 0))))) = 6" by simp
  ultimately have "scan6 0 ?r 0 None None = Some (3, Some 6, Some 0)" by (simp only:)
  moreover have "groups 6 ''ffff'' 5 [0, 0, 0, 0, 0, 0, d6, d7] = Some ([0, 0, 0, 0, 0, 65535, d6, d7], 6)"
  proof -
    have "hex_digit 15 = CHR ''f''" by code_simp
    then have "join_hex [65535] = ''ffff''" by (simp add: swap16_def hex_nat.simps)
    then show ?thesis
      using groups_join [of "[65535]" 5 6 "[0, 0, 0, 0, 0, 0, d6, d7]"] by (simp add: place_def)
  qed
  moreover have "colons ''ffff'' = 0" by (simp add: colons_def)
  ultimately show "xml_parse_ipv6_2 (''::ffff:'' @ dotted d6 d7) = Some (ip_of 1 [0, 0, 0, 0, 0, 65535, d6, d7])"
    using rd tr' by (simp add: dt xml_parse_ipv6_2_def parse_groups_def groups.simps [of _ "[]"] dm Let_def assms)
qed

lemma replicates: "replicate 8 (0 :: nat) = [0, 0, 0, 0, 0, 0, 0, 0]" "replicate 7 (0 :: nat) = [0, 0, 0, 0, 0, 0, 0]"
  by (simp_all add: eval_nat_numeral)

lemma eight_split:
  assumes "length xs = 8"
  shows "xs = take 5 xs @ [xs ! 5, xs ! 6, xs ! 7]"
proof -
  have "drop 5 xs = [xs ! 5, xs ! 6, xs ! 7]"
    using Cons_nth_drop_Suc [of 5 xs] Cons_nth_drop_Suc [of 6 xs] Cons_nth_drop_Suc [of 7 xs] assms by simp
  then show ?thesis by (metis append_take_drop_id)
qed

text \<open>C25: parsing the text of an address, of either family, gives the address.\<close>

theorem ipv6_roundtrip:
  assumes "wf_ip ip"
  shows "xml_parse_ipv6_2 (xml_unparse_ipv6 ip) = Some ip"
proof (cases "ip_ipv6_flag ip = 0")
  case True
  then have "ip = \<lparr>ip_ipv6_flag = 0, ip_u = (0, 0, 0, quad3 (ip_u ip))\<rparr>"
    using assms by (cases ip) (auto simp: wf_ip_def)
  then show ?thesis using True parse_ipv4 [of "[]" "quad3 (ip_u ip)"] by (simp add: xml_unparse_ipv6_def)
next
  case False
  define data where "data = quad_shorts (ip_u ip)"
  have len: "length data = 8" by (simp add: data_def)
  have ip: "ip_of 1 data = ip"
    using assms False by (cases ip) (auto simp: wf_ip_def ip_of_def data_def shorts_quad_shorts)
  have bd: "d < 65536" if "d \<in> set data" for d using quad_shorts_bound that by (simp add: data_def)
  show ?thesis
  proof (cases "take 5 data = [0, 0, 0, 0, 0] \<and> (data ! 5 = 0 \<or> data ! 5 = 0xffff)")
    case t: True
    then obtain x y z where d: "data = [0, 0, 0, 0, 0, x, y, z]" and x: "x = 0 \<or> x = 65535"
      using eight_split [OF len] by auto
    have b: "x < 65536" "y < 65536" "z < 65536" using bd d by simp_all
    have u: "xml_unparse_ipv6 ip = (if x = 0 \<and> y = 0 then (if z = 0 then ''::'' else ''::'' @ hex_nat (swap16 z))
        else ''::'' @ (if x \<noteq> 0 then ''ffff:'' else []) @ dotted y z)"
      using False x by (simp add: xml_unparse_ipv6_def data_def [symmetric] d)
    consider "x = 0" "y = 0" "z = 0" | "x = 0" "y = 0" "z \<noteq> 0" | "x = 0" "y \<noteq> 0" | "x = 65535" using x by blast
    then have "xml_parse_ipv6_2 (xml_unparse_ipv6 ip) = Some (ip_of 1 data)"
    proof cases
      case 1
      then show ?thesis using u d parse_two [of "[]" "[]"] replicates by simp
    next
      case 2
      then show ?thesis using u d b parse_two [of "[]" "[z]"] replicates by simp
    next
      case 3
      then show ?thesis using u d parse_mapped(1) [OF b(2,3)] by simp
    next
      case 4
      then show ?thesis using u d parse_mapped(2) [OF b(2,3)] by simp
    qed
    then show ?thesis using ip by simp
  next
    case t: False
    obtain st k where z: "zero_run 0 data (None, 0) = (st, k)" by fastforce
    show ?thesis
    proof (cases st)
      case None
      then have "xml_unparse_ipv6 ip = join_hex data"
        unfolding xml_unparse_ipv6_def Let_def data_def [symmetric] if_not_P [OF False] if_not_P [OF t] z by simp
      then show ?thesis using parse_eight [of data] bd len ip by simp
    next
      case (Some p)
      obtain us vs where s: "k > 1" "data = us @ replicate k 0 @ vs" "length us = p"
        using zero_run_split [of "[]" data "(None, 0)" p k] z Some by auto
      have "xml_unparse_ipv6 ip = join_hex us @ ''::'' @ join_hex vs"
        unfolding xml_unparse_ipv6_def Let_def data_def [symmetric] if_not_P [OF False] if_not_P [OF t] z
        using Some s by simp
      moreover have "length us + length vs < 8" "8 - length us - length vs = k" using s len by simp_all
      ultimately show ?thesis using parse_two [of us vs] bd s(2) ip by simp
    qed
  qed
qed

theorem ipv6_roundtrip_witness:
  "xml_parse_ipv6_2 (xml_unparse_ipv6 \<lparr>ip_ipv6_flag = 1, ip_u = (0xB80D0120, 0, 0, 0x01000000)\<rparr>)
     = Some \<lparr>ip_ipv6_flag = 1, ip_u = (0xB80D0120, 0, 0, 0x01000000)\<rparr>"
  by (rule ipv6_roundtrip) (simp add: wf_ip_def)

text \<open>
  The parser takes anything made of dots and hexadecimal digits after the fourth byte, such as
  \<open>10.0.0.1.2.3\<close>, for the address of the first four numbers.
\<close>

lemma ipv4_trailing_garbage:
  assumes "\<forall>c \<in> set t. isxdigit c \<or> c = CHR ''.''"
  shows "xml_parse_ipv6_2 (xml_unparse_ip w @ CHR ''.'' # t) = Some \<lparr>ip_ipv6_flag = 0, ip_u = (0, 0, 0, w)\<rparr>"
  by (rule parse_ipv4) (use assms in auto)

section \<open>The order of addresses\<close>

lemma memcmp_eq: "length xs = length ys \<Longrightarrow> memcmp xs ys = 0 \<longleftrightarrow> xs = ys"
  by (induction xs ys rule: list_induct2) auto

lemma memcmp_swap: "length xs = length ys \<Longrightarrow> memcmp ys xs = - memcmp xs ys"
  by (induction xs ys rule: list_induct2) auto

lemma memcmp_trans:
  "length xs = length ys \<Longrightarrow> length ys = length zs \<Longrightarrow> memcmp xs ys \<le> 0 \<Longrightarrow> memcmp ys zs \<le> 0 \<Longrightarrow> memcmp xs zs \<le> 0"
  by (induction xs ys zs rule: list_induct3) (auto split: if_splits)

lemma word_bytes_inj: "word_bytes v = word_bytes w \<longleftrightarrow> v = w"
proof
  assume "word_bytes v = word_bytes w"
  then have "unat v = unat w" unfolding word_bytes_list by (metis bytes_sum list.inject)
  then show "v = w" by (simp only: word_unat_eq_iff)
qed simp

lemma length_word_bytes [simp]: "length (word_bytes w) = 4"
  by (simp add: word_bytes_def)

lemma length_quad_bytes [simp]: "length (quad_bytes q) = 16"
  by (cases q) simp

lemma quad_bytes_inj: "quad_bytes p = quad_bytes q \<longleftrightarrow> p = q"
  by (cases p; cases q) (simp add: word_bytes_inj)

lemma wf_ip_flag: "wf_ip p \<Longrightarrow> ip_ipv6_flag p = 0 \<Longrightarrow> ip_u p = (0, 0, 0, quad3 (ip_u p))"
  "wf_ip p \<Longrightarrow> ip_ipv6_flag p = 0 \<or> ip_ipv6_flag p = 1"
  by (auto simp: wf_ip_def)

lemma ipv6cmp_eq:
  assumes "wf_ip p" "wf_ip q"
  shows "ipv6cmp p q = 0 \<longleftrightarrow> p = q"
proof -
  have e: "p = q \<longleftrightarrow> ip_ipv6_flag p = ip_ipv6_flag q \<and> ip_u p = ip_u q" by (cases p; cases q) simp
  consider "ip_ipv6_flag p = 0" "ip_ipv6_flag q = 0" | "ip_ipv6_flag p = 0" "ip_ipv6_flag q = 1"
    | "ip_ipv6_flag p = 1" "ip_ipv6_flag q = 0" | "ip_ipv6_flag p = 1" "ip_ipv6_flag q = 1"
    using wf_ip_flag(2) assms by blast
  then show ?thesis
  proof cases
    case 1
    then have "ip_u p = ip_u q \<longleftrightarrow> quad3 (ip_u p) = quad3 (ip_u q)" using wf_ip_flag(1) assms by metis
    then show ?thesis using 1 e by (auto simp: ipv6cmp_def)
  next
    case 4
    then show ?thesis using e by (simp add: ipv6cmp_def memcmp_eq quad_bytes_inj)
  qed (use e in \<open>simp_all add: ipv6cmp_def\<close>)
qed

text \<open>
  \<open>ipv6cmp\<close> is a total order on addresses, with equality only for equal addresses, and puts every IPv4 address before
  every IPv6 address.
\<close>

lemma ipv6cmp_order:
  assumes "wf_ip p" "wf_ip q" "wf_ip r"
  shows "(ipv6cmp p q = 0 \<longleftrightarrow> p = q) \<and> ipv6cmp q p = - ipv6cmp p q
    \<and> (ipv6cmp p q \<le> 0 \<and> ipv6cmp q r \<le> 0 \<longrightarrow> ipv6cmp p r \<le> 0)
    \<and> (ip_ipv6_flag p = 0 \<and> ip_ipv6_flag q = 1 \<longrightarrow> ipv6cmp p q < 0)"
proof -
  have "ipv6cmp q p = - ipv6cmp p q"
    by (auto simp: ipv6cmp_def memcmp_swap [of "quad_bytes (ip_u p)"])
  moreover have "ipv6cmp p q \<le> 0 \<and> ipv6cmp q r \<le> 0 \<longrightarrow> ipv6cmp p r \<le> 0"
    using memcmp_trans [of "quad_bytes (ip_u p)" "quad_bytes (ip_u q)" "quad_bytes (ip_u r)"]
    by (auto simp: ipv6cmp_def split: if_splits)
  ultimately show ?thesis using ipv6cmp_eq [OF assms(1,2)] by (simp add: ipv6cmp_def)
qed

lemma ipv6cmp_order_applies:
  "ipv6cmp \<lparr>ip_ipv6_flag = 0, ip_u = (0, 0, 0, 5)\<rparr> \<lparr>ip_ipv6_flag = 1, ip_u = (0, 0, 0, 1)\<rparr> < 0"
proof -
  have "wf_ip \<lparr>ip_ipv6_flag = 0, ip_u = (0, 0, 0, 5)\<rparr>" "wf_ip \<lparr>ip_ipv6_flag = 1, ip_u = (0, 0, 0, 1)\<rparr>"
    by (simp_all add: wf_ip_def)
  from ipv6cmp_order [OF this(1,2,2)] show ?thesis by simp
qed

end
