(* ===== verification/Xml_Date.thy ===== *)
theory Xml_Date
  imports Xml_Ip
begin

text \<open>
  Dates and UUIDs as text: \<open>xml_utils/parse_date.c\<close>, \<open>xml_utils/unparse_date.c\<close> and \<open>ej_uuid.c\<close>.
  \<open>mktime\<close>, \<open>localtime\<close> and the current date are parameters, and so is what an uninitialised variable
  happens to hold.
\<close>

section \<open>Dates\<close>

record tm =
  tm_year :: int
  tm_mon :: int
  tm_mday :: int
  tm_hour :: int
  tm_min :: int
  tm_sec :: int

definition MIN_YEAR :: int where "MIN_YEAR = 1900"
definition MAX_YEAR :: int where "MAX_YEAR = 2100"

text \<open>\<open>%d/%d/%d%n\<close> and \<open>%d/%d%n\<close> with the separator \<open>c\<close>: the numbers and the text at \<open>n\<close>.\<close>

definition scan2 :: "char \<Rightarrow> string \<Rightarrow> (int \<times> int \<times> string) option" where
  "scan2 c s =
    Option.bind (scan_int s) (\<lambda>(i1, r). Option.bind (expect c r) (\<lambda>r.
    Option.bind (scan_int r) (\<lambda>(i2, r). Some (i1, i2, r))))"

definition scan3 :: "char \<Rightarrow> string \<Rightarrow> (int \<times> int \<times> int \<times> string) option" where
  "scan3 c s =
    Option.bind (scan2 c s) (\<lambda>(i1, i2, r). Option.bind (expect c r) (\<lambda>r.
    Option.bind (scan_int r) (\<lambda>(i3, r). Some (i1, i2, i3, r))))"

text \<open>The year (0 when missing), month and day of a date with the separator \<open>c\<close>.\<close>

definition date_part :: "char \<Rightarrow> string \<Rightarrow> (int \<times> int \<times> int) option" where
  "date_part c dw =
    (case scan3 c dw of
       Some (i1, i2, i3, r) \<Rightarrow>
         if r \<noteq> [] then None
         else if i1 \<ge> MIN_YEAR \<and> i1 \<le> MAX_YEAR \<and> i2 \<ge> 1 \<and> i2 \<le> 12 \<and> i3 \<ge> 1 \<and> i3 \<le> 31 then Some (i1, i2, i3)
         else if i1 \<ge> 1 \<and> i1 \<le> 31 \<and> i2 \<ge> 1 \<and> i2 \<le> 12 \<and> i3 \<ge> MIN_YEAR \<and> i3 \<le> MAX_YEAR then Some (i3, i2, i1)
         else None
     | None \<Rightarrow>
       (case scan2 c dw of
          Some (i1, i2, r) \<Rightarrow>
            if r \<noteq> [] then None
            else if i1 \<ge> 1 \<and> i1 \<le> 31 \<and> i2 \<ge> 1 \<and> i2 \<le> 12 then Some (0, i2, i1)
            else if i1 \<ge> 1 \<and> i1 \<le> 12 \<and> i2 \<ge> 1 \<and> i2 \<le> 31 then Some (0, i1, i2)
            else None
        | None \<Rightarrow> None))"

text \<open>
  The time of day; \<open>None\<close> is a failure.  When nothing matches, the variables keep the value \<open>junk\<close> that
  they had on the stack.
\<close>

definition time_part :: "int \<times> int \<times> int \<Rightarrow> string \<Rightarrow> (int \<times> int \<times> int) option" where
  "time_part junk tw =
    Option.bind
      (case scan3 CHR '':'' tw of
         Some (h, mi, sec, r) \<Rightarrow> if r \<noteq> [] then None else Some (h, mi, sec)
       | None \<Rightarrow>
         (case scan2 CHR '':'' tw of
            Some (h, mi, r) \<Rightarrow> if r \<noteq> [] then None else Some (h, mi, 0)
          | None \<Rightarrow>
            (case scan_int tw of
               Some (h, r) \<Rightarrow> if r \<noteq> [] then None else Some (h, 0, 0)
             | None \<Rightarrow> Some junk)))
      (\<lambda>(h, mi, sec).
         if h < 0 \<or> h \<ge> 24 \<or> mi < 0 \<or> mi \<ge> 60 \<or> sec < 0 \<or> sec \<ge> 60 then None else Some (h, mi, sec))"

definition has_char :: "char \<Rightarrow> string \<Rightarrow> bool" where
  "has_char c s \<longleftrightarrow> c \<in> set s"

definition looks_like_date :: "string \<Rightarrow> bool" where
  "looks_like_date w \<longleftrightarrow> has_char CHR ''-'' w \<or> has_char CHR ''/'' w"

text \<open>The words of the text, sorted into a date and a time.\<close>

definition split_date :: "string \<Rightarrow> (string option \<times> string option) option" where
  "split_date buf =
    Option.bind (scan_word buf) (\<lambda>(w1, r1).
      case scan_word r1 of
        Some (w2, r2) \<Rightarrow>
          if r2 \<noteq> [] then None
          else if looks_like_date w1 then (if looks_like_date w2 then None else Some (Some w1, Some w2))
          else if looks_like_date w2 then Some (Some w2, Some w1) else None
      | None \<Rightarrow>
          if r1 \<noteq> [] then None
          else if looks_like_date w1 then Some (Some w1, None) else Some (None, Some w1))"

definition xml_parse_date ::
  "(tm \<Rightarrow> int) \<Rightarrow> tm \<Rightarrow> int \<times> int \<times> int \<Rightarrow> string \<Rightarrow> int option" where
  "xml_parse_date mktime today junk s =
    (let buf = rev (dropWhile isspace (rev s)) in
     if length s > 1024 \<or> buf = [] then None
     else if buf = ''0'' then Some 0
     else
       Option.bind (split_date buf) (\<lambda>(dw, tw).
       Option.bind (case dw of None \<Rightarrow> Some (tm_year today + 1900, tm_mon today + 1, tm_mday today)
                    | Some w \<Rightarrow> map_option (\<lambda>(y, mo, d). (if y = 0 then tm_year today + 1900 else y, mo, d))
                        (if has_char CHR ''/'' w then date_part CHR ''/'' w else date_part CHR ''-'' w))
         (\<lambda>(y, mo, d).
       Option.bind (case tw of None \<Rightarrow> Some (0, 0, 0) | Some w \<Rightarrow> time_part junk w)
         (\<lambda>(h, mi, sec).
           let t = mktime \<lparr>tm_year = y - 1900, tm_mon = mo - 1, tm_mday = d, tm_hour = h, tm_min = mi, tm_sec = sec\<rparr>
           in if t = -1 then None else Some t))))"

definition xml_unparse_date :: "(int \<Rightarrow> tm) \<Rightarrow> int \<Rightarrow> string" where
  "xml_unparse_date localtime d =
    (let t = localtime d in
     dec_int (tm_year t + 1900) @ CHR ''/'' # dec2 (tm_mon t + 1) @ CHR ''/'' # dec2 (tm_mday t) @ CHR '' ''
       # dec2 (tm_hour t) @ CHR '':'' # dec2 (tm_min t) @ CHR '':'' # dec2 (tm_sec t))"

section \<open>UUIDs without the UUID library\<close>

text \<open>
  The branch of \<open>ej_uuid_parse\<close> for builds without libuuid.  The pointer moves only over a dash; the
  digits are read without moving it.
\<close>

definition uuid_digit :: "char \<Rightarrow> nat" where
  "uuid_digit c =
    (if 48 \<le> ascii c \<and> ascii c \<le> 57 then ascii c - 48
     else if 97 \<le> ascii c \<and> ascii c \<le> 102 then ascii c - 97 + 10
     else if 65 \<le> ascii c \<and> ascii c \<le> 70 then ascii c - 65 + 10 else 0)"

fun uuid_bytes :: "nat \<Rightarrow> string \<Rightarrow> nat list option" where
  "uuid_bytes 0 s = Some []"
| "uuid_bytes (Suc k) s =
    (case s of [] \<Rightarrow> None
     | c # r \<Rightarrow>
       (case (if c = CHR ''-'' then r else s) of [] \<Rightarrow> None
        | c2 # r2 \<Rightarrow>
          let v = uuid_digit c2 * 16 OR uuid_digit c2
          in map_option (\<lambda>bs. v mod 256 # bs) (uuid_bytes k (c2 # r2))))"

definition bytes_word :: "nat list \<Rightarrow> 32 word" where
  "bytes_word bs = word_of_nat (bs ! 0 + 256 * bs ! 1 + 65536 * bs ! 2 + 16777216 * bs ! 3)"

definition ej_uuid_parse :: "string \<Rightarrow> quad option" where
  "ej_uuid_parse s =
    (if s = [] then Some zero_quad
     else map_option (\<lambda>bs. (bytes_word bs, bytes_word (drop 4 bs), bytes_word (drop 8 bs), bytes_word (drop 12 bs)))
            (uuid_bytes 16 s))"

definition ej_uuid_unparse :: "string \<Rightarrow> quad \<Rightarrow> string" where
  "ej_uuid_unparse dflt u =
    (if u = zero_quad then dflt
     else
       (let b = map hex2 (quad_bytes u) in
        concat (take 4 b) @ CHR ''-'' # concat (take 2 (drop 4 b)) @ CHR ''-'' # concat (take 2 (drop 6 b))
          @ CHR ''-'' # concat (take 2 (drop 8 b)) @ CHR ''-'' # concat (drop 10 b)))"

section \<open>Reading back a printed date\<close>

lemma punct_stops [simp]: "stops 10 (CHR ''/'' # r)" "stops 10 (CHR '' '' # r)"
  by (simp_all add: stops_def digit_val_def isdigit_def ascii_def)

lemma scan_int_leading_zero: "n < 10 \<Longrightarrow> stops 10 r \<Longrightarrow> scan_int (CHR ''0'' # dec_nat n @ r) = Some (int n, r)"
proof -
  assume n: "n < 10" and r: "stops 10 r"
  have z: "digit_val CHR ''0'' = 0" "isdigit CHR ''0''" "\<not> isspace CHR ''0''"
    by (simp_all add: digit_val_def isdigit_def isspace_def ascii_def)
  then have "read_digits 10 0 (CHR ''0'' # dec_nat n @ r) = (n, r)" by (simp add: read_dec_nat_rest [OF r])
  then show ?thesis
    using z n by (simp add: scan_int_def skip_spaces_def read_sign_def clip_long_def LONG_MAX_def LONG_MIN_def
        del: read_digits.simps)
qed

lemma scan_dec2:
  assumes "0 \<le> n" "n < 100" "stops 10 r"
  shows "scan_int (dec2 n @ r) = Some (n, r)"
proof (cases "n < 10")
  case True
  then show ?thesis
    using assms scan_int_leading_zero [of "nat n" r] by (simp add: dec2_def dec_int_def)
next
  case False
  then show ?thesis using assms scan_dec_nat [of "nat n" r] by (simp add: dec2_def dec_int_def)
qed

lemma scan_dec_int:
  assumes "0 \<le> n" "n < 2 ^ 31" "stops 10 r"
  shows "scan_int (dec_int n @ r) = Some (n, r)"
  using assms scan_dec_nat [of "nat n" r] by (simp add: dec_int_def)

lemma dec_chars:
  "0 \<le> n \<Longrightarrow> c \<in> set (dec_int n) \<Longrightarrow> digit_val c < 10" "0 \<le> n \<Longrightarrow> c \<in> set (dec2 n) \<Longrightarrow> digit_val c < 10"
  using dec_nat_digits [of c "nat n"]
  by (auto simp: dec_int_def dec2_def digit_val_def isdigit_def ascii_def split: if_splits)

lemma digit_chars:
  assumes "digit_val c < 10"
  shows "\<not> isspace c" "c \<noteq> CHR ''/''" "c \<noteq> CHR ''-''" "c \<noteq> CHR '':''"
  using digit_not_space [OF assms] assms by (auto simp: digit_val_def isdigit_def ascii_def)

lemma scan_word_at:
  assumes "\<forall>c \<in> set w. \<not> isspace c" "w \<noteq> []" "r = [] \<or> isspace (hd r)"
  shows "scan_word (w @ r) = Some (w, r)"
proof -
  have s: "skip_spaces (w @ r) = w @ r" using assms(1,2) by (cases w) (simp_all add: skip_spaces_def)
  have "takeWhile (\<lambda>c. \<not> isspace c) (w @ r) = w" "dropWhile (\<lambda>c. \<not> isspace c) (w @ r) = r"
    using assms(1,3) by (cases r; simp)+
  then show ?thesis using assms(2) unfolding scan_word_def s by (cases w) simp_all
qed

lemma scan_word_Nil [simp]: "scan_word [] = None"
  by (simp add: scan_word_def skip_spaces_def)

lemma scan_word_space: "scan_word (CHR '' '' # s) = scan_word s"
proof -
  have "skip_spaces (CHR '' '' # s) = skip_spaces s" by (simp add: skip_spaces_def isspace_def ascii_def)
  then show ?thesis unfolding scan_word_def by presburger
qed

lemma num_chars:
  "0 \<le> n \<Longrightarrow> c \<in> set (dec_int n) \<Longrightarrow> \<not> isspace c \<and> c \<noteq> CHR ''/'' \<and> c \<noteq> CHR ''-''"
  "0 \<le> n \<Longrightarrow> c \<in> set (dec2 n) \<Longrightarrow> \<not> isspace c \<and> c \<noteq> CHR ''/'' \<and> c \<noteq> CHR ''-''"
  using dec_chars digit_chars by metis+

lemma dec_nat_len: "n < 10 ^ k \<Longrightarrow> length (dec_nat n) \<le> max 1 k"
proof (induction n arbitrary: k rule: dec_nat.induct)
  case (1 n)
  show ?case
  proof (cases "n < 10")
    case False
    then obtain j where k: "k = Suc j" using 1(2) by (cases k) auto
    then have "n div 10 < 10 ^ j" using 1(2) by (simp add: div_less_iff_less_mult mult.commute)
    moreover from this False have "j \<noteq> 0" by (intro notI) simp
    ultimately have "length (dec_nat (n div 10)) \<le> j" using 1(1) [OF False] by fastforce
    then show ?thesis using False k by (simp add: dec_nat.simps [of n])
  qed (simp add: dec_nat.simps)
qed

lemma dec_len:
  "0 \<le> n \<Longrightarrow> n < 10000 \<Longrightarrow> length (dec_int n) \<le> 4"  "0 \<le> n \<Longrightarrow> n < 100 \<Longrightarrow> length (dec2 n) \<le> 2"
  using dec_nat_len [of "nat n" 4] dec_nat_len [of "nat n" 2] dec_nat_len [of "nat n" 1]
  by (auto simp: dec_int_def dec2_def numeral_2_eq_2)

lemma xml_parse_date_full:
  assumes "rev (dropWhile isspace (rev s)) = s" "length s \<le> 1024" "s \<noteq> []" "s \<noteq> ''0''"
    "split_date s = Some (Some dw, Some tw)" "has_char CHR ''/'' dw" "date_part CHR ''/'' dw = Some (y, mo, d)" "y \<noteq> 0"
    "time_part junk tw = Some (h, mi, sec)"
    "mktime \<lparr>tm_year = y - 1900, tm_mon = mo - 1, tm_mday = d, tm_hour = h, tm_min = mi, tm_sec = sec\<rparr> = t" "t \<noteq> -1"
  shows "xml_parse_date mktime today junk s = Some t"
  using assms by (simp add: xml_parse_date_def)

text \<open>
  C26: a time printed in the default format is parsed back to the same time, provided \<open>mktime\<close> undoes
  \<open>localtime\<close> at it and its year is one the parser supports.
\<close>

theorem date_roundtrip:
  assumes "mktime (localtime d) = d" "d \<noteq> -1"
    and "0 \<le> tm_year (localtime d)" "tm_year (localtime d) \<le> 200" "0 \<le> tm_mon (localtime d)" "tm_mon (localtime d) \<le> 11"
    "1 \<le> tm_mday (localtime d)" "tm_mday (localtime d) \<le> 31" "0 \<le> tm_hour (localtime d)" "tm_hour (localtime d) < 24"
    "0 \<le> tm_min (localtime d)" "tm_min (localtime d) < 60" "0 \<le> tm_sec (localtime d)" "tm_sec (localtime d) < 60"
  shows "xml_parse_date mktime today junk (xml_unparse_date localtime d) = Some d"
proof -
  define t where "t = localtime d"
  note b = assms(3-14) [folded t_def]
  let ?dw = "dec_int (tm_year t + 1900) @ CHR ''/'' # dec2 (tm_mon t + 1) @ CHR ''/'' # dec2 (tm_mday t)"
  let ?tw = "dec2 (tm_hour t) @ CHR '':'' # dec2 (tm_min t) @ CHR '':'' # dec2 (tm_sec t)"
  let ?s = "?dw @ CHR '' '' # ?tw"
  have u: "xml_unparse_date localtime d = ?s" by (simp add: xml_unparse_date_def t_def Let_def)
  have ds: "\<not> isspace CHR ''/''" "isspace CHR '' ''" by (simp_all add: isspace_def ascii_def)
  have dwc: "\<forall>c \<in> set ?dw. \<not> isspace c" using b ds by (auto dest!: num_chars [rotated])
  have twc: "\<forall>c \<in> set ?tw. \<not> isspace c \<and> c \<noteq> CHR ''/'' \<and> c \<noteq> CHR ''-''"
    using b by (auto simp: isspace_def ascii_def dest!: num_chars [rotated])
  have ld: "looks_like_date ?dw" "\<not> looks_like_date ?tw" "has_char CHR ''/'' ?dw"
    using twc by (auto simp: looks_like_date_def has_char_def)
  have "length ?s \<le> 1024"
    using b dec_len(1) [of "tm_year t + 1900"] dec_len(2) [of "tm_mon t + 1"] dec_len(2) [of "tm_mday t"]
      dec_len(2) [of "tm_hour t"] dec_len(2) [of "tm_min t"] dec_len(2) [of "tm_sec t"] by simp
  moreover have "rev (dropWhile isspace (rev ?s)) = ?s"
  proof -
    obtain c x where "rev ?tw = c # x" by (cases "rev ?tw") auto
    then have "rev ?s = c # x @ CHR '' '' # rev ?dw" "\<not> isspace c"
      using twc by (simp, metis list.set_intros(1) set_rev)
    then have "dropWhile isspace (rev ?s) = rev ?s" by simp
    then show ?thesis by simp
  qed
  moreover have "split_date ?s = Some (Some ?dw, Some ?tw)"
  proof -
    have "scan_word ?s = Some (?dw, CHR '' '' # ?tw)" by (rule scan_word_at) (use dwc ds in auto)
    moreover have "scan_word (CHR '' '' # ?tw) = Some (?tw, [])"
      unfolding scan_word_space using scan_word_at [of ?tw "[]"] twc by simp
    ultimately show ?thesis using ld by (simp add: split_date_def)
  qed
  moreover have "date_part CHR ''/'' ?dw = Some (tm_year t + 1900, tm_mon t + 1, tm_mday t)"
    using b by (simp add: date_part_def scan3_def scan2_def scan_dec_int scan_dec2 scan_dec2 [where r = "[]", simplified]
        MIN_YEAR_def MAX_YEAR_def)
  moreover have "time_part junk ?tw = Some (tm_hour t, tm_min t, tm_sec t)"
    using b by (simp add: time_part_def scan3_def scan2_def scan_dec2 scan_dec2 [where r = "[]", simplified])
  moreover have "?s \<noteq> []" "?s \<noteq> ''0''" "tm_year t + 1900 \<noteq> 0" using b by (simp_all add: append_eq_Cons_conv)
  moreover have "mktime \<lparr>tm_year = tm_year t + 1900 - 1900, tm_mon = tm_mon t + 1 - 1, tm_mday = tm_mday t,
      tm_hour = tm_hour t, tm_min = tm_min t, tm_sec = tm_sec t\<rparr> = d" using assms(1) by (cases "localtime d") (simp add: t_def)
  ultimately show ?thesis
    using assms(2) ld(3) unfolding u by (blast intro: xml_parse_date_full)
qed

text \<open>A clock that counts seconds from the midnight of one day: enough for the hypotheses above.\<close>

lemma date_roundtrip_witness:
  "xml_parse_date (\<lambda>t. tm_hour t * 3600 + tm_min t * 60 + tm_sec t) \<lparr>tm_year = 0, tm_mon = 0, tm_mday = 1, tm_hour = 0,
      tm_min = 0, tm_sec = 0\<rparr> (7, 7, 7)
    (xml_unparse_date (\<lambda>d. \<lparr>tm_year = 110, tm_mon = 8, tm_mday = 7, tm_hour = d div 3600, tm_min = d div 60 mod 60,
      tm_sec = d mod 60\<rparr>) 36305) = Some 36305"
  by (rule date_roundtrip) simp_all

section \<open>What the parser of UUIDs does\<close>

lemma uuid_digit_less: "uuid_digit c < 16"
  by (auto simp: uuid_digit_def)

lemma uuid_byte: "uuid_digit c * 16 OR uuid_digit c = 17 * uuid_digit c"
proof -
  have "\<forall>n \<in> set [0..<16]. (n * 16 OR n :: nat) = 17 * n" by code_simp
  then show ?thesis using uuid_digit_less by (metis atLeastLessThan_iff le0 set_upt)
qed

lemma uuid_bytes_stuck: "c \<noteq> CHR ''-'' \<Longrightarrow> uuid_bytes k (c # s) = Some (replicate k (17 * uuid_digit c))"
  using uuid_digit_less [of c] by (induction k) (simp_all add: uuid_byte)

lemma repeat_bytes:
  assumes n: "n < 256"
  shows "word_bytes (bytes_word (replicate 4 n)) = replicate 4 n"
proof -
  have e: "bytes_word (replicate 4 n) = word_of_nat (16843009 * n)" by (simp add: bytes_word_def)
  have "unat (bytes_word (replicate 4 n)) = 16843009 * n" unfolding e unsigned_of_nat using n by (simp add: take_bit_nat_eq_self)
  also have "\<dots> = n + 256 * (n + 256 * (n + 256 * n))" by simp
  finally have u: "unat (bytes_word (replicate 4 n)) = n + 256 * (n + 256 * (n + 256 * n))" .
  have d: "\<And>m :: nat. m div 65536 = m div 256 div 256" "\<And>m :: nat. m div 16777216 = m div 256 div 256 div 256"
    by (simp_all add: div_mult2_eq [symmetric])
  have r: "replicate 4 n = [n, n, n, n]" by (simp add: numeral_eq_Suc)
  have q: "(n + 256 * k) mod 256 = n" "(n + 256 * k) div 256 = k" for k using n by simp_all
  show ?thesis unfolding word_bytes_list u d q unfolding r by (rule refl)
qed

text \<open>
  Without libuuid the parser of UUIDs never moves past the first digit: every text that does not
  start with a dash is accepted and gives the UUID whose sixteen bytes repeat that first digit, so
  distinct printed UUIDs are read as the same value.
\<close>

theorem ej_uuid_parse_stuck:
  assumes "c \<noteq> CHR ''-''"
  shows "\<exists>w. ej_uuid_parse (c # s) = Some (w, w, w, w) \<and> word_bytes w = replicate 4 (17 * uuid_digit c)"
proof -
  define n where "n = 17 * uuid_digit c"
  have n: "n < 256" using uuid_digit_less [of c] by (simp add: n_def)
  have "uuid_bytes 16 (c # s) = Some (replicate 16 n)" using uuid_bytes_stuck [OF assms] by (simp add: n_def)
  then have "ej_uuid_parse (c # s) = Some (bytes_word (replicate 16 n), bytes_word (replicate 12 n),
      bytes_word (replicate 8 n), bytes_word (replicate 4 n))"
    by (simp add: ej_uuid_parse_def del: uuid_bytes.simps)
  moreover have "bytes_word (replicate k n) = bytes_word (replicate 4 n)" if "4 \<le> k" for k
    using that by (simp add: bytes_word_def)
  ultimately have "ej_uuid_parse (c # s) = Some (bytes_word (replicate 4 n), bytes_word (replicate 4 n),
      bytes_word (replicate 4 n), bytes_word (replicate 4 n))" by (metis numeral_le_iff semiring_norm(68,69,71,79))
  then show ?thesis using repeat_bytes [OF n] unfolding n_def by (intro exI conjI)
qed

lemma ej_uuid_parse_stuck_witness:
  "\<exists>w. ej_uuid_parse ''12345678-1234-1234-1234-123456789abc'' = Some (w, w, w, w)
    \<and> word_bytes w = replicate 4 (17 * uuid_digit CHR ''1'')"
  by (rule ej_uuid_parse_stuck) simp

end
