(* ===== verification/Filter_Tree.thy ===== *)
theory Filter_Tree
  imports Xml_Date "HOL-Library.Signed_Division"
begin

text \<open>
  Filter expressions over the runs of a contest, \<open>filter_tree.c\<close>: the values, the operations on them
  (\<open>filter_tree_eval_node\<close>) and their text forms.  A run of a function that fails an ASSERT or reaches
  SWERR, which abort the server, is \<open>None\<close>.  The regular expressions, the clock and what an undefined
  shift gives are the parameters of the record \<open>machine\<close>.
\<close>

section \<open>Types, errors and values\<close>

datatype ftype = FT_INT | FT_STRING | FT_BOOL | FT_TIME | FT_DUR | FT_SIZE | FT_RESULT | FT_HASH | FT_IP

text \<open>The codes of \<open>FILTER_TYPE_*\<close>.\<close>

definition type_code :: "ftype \<Rightarrow> nat" where
  "type_code t =
    (case t of FT_INT \<Rightarrow> 1 | FT_STRING \<Rightarrow> 2 | FT_BOOL \<Rightarrow> 3 | FT_TIME \<Rightarrow> 4 | FT_DUR \<Rightarrow> 5 | FT_SIZE \<Rightarrow> 6
     | FT_RESULT \<Rightarrow> 7 | FT_HASH \<Rightarrow> 8 | FT_IP \<Rightarrow> 9)"

definition filter_tree_type_to_str :: "ftype \<Rightarrow> string" where
  "filter_tree_type_to_str t =
    [''unknown'', ''int'', ''string'', ''boolean'', ''time_t'', ''dur_t'', ''size_t'', ''result_t'', ''hash_t'',
     ''ip_t''] ! type_code t"

datatype filter_err =
  ERR_ERROR | ERR_INT_OVF | ERR_DIV0 | ERR_INT_CVT | ERR_BOOL_CVT | ERR_DUR_CVT | ERR_TIME_CVT | ERR_RESULT_CVT
  | ERR_HASH_CVT | ERR_IP_CVT | ERR_RANGE | ERR_INV_ARG | ERR_INV_TYPES | ERR_INV_USERGROUP

definition err_code :: "filter_err \<Rightarrow> int" where
  "err_code e =
    (case e of ERR_ERROR \<Rightarrow> 1 | ERR_INT_OVF \<Rightarrow> 2 | ERR_DIV0 \<Rightarrow> 3 | ERR_INT_CVT \<Rightarrow> 4 | ERR_BOOL_CVT \<Rightarrow> 5
     | ERR_DUR_CVT \<Rightarrow> 6 | ERR_TIME_CVT \<Rightarrow> 7 | ERR_RESULT_CVT \<Rightarrow> 8 | ERR_HASH_CVT \<Rightarrow> 9 | ERR_IP_CVT \<Rightarrow> 10
     | ERR_RANGE \<Rightarrow> 11 | ERR_INV_ARG \<Rightarrow> 12 | ERR_INV_TYPES \<Rightarrow> 13 | ERR_INV_USERGROUP \<Rightarrow> 14)"

definition errmsg :: "string list" where
  "errmsg =
    [''no error'', ''unknown error'', ''integer overflow'', ''division by zero'',
     ''conversion from string to int failed'', ''conversion from string to bool failed'',
     ''conversion from string to dur_t failed'', ''conversion from string to time_t failed'',
     ''conversion from string to result_t failed'', ''conversion from string to hash_t failed'',
     ''conversion from string to ip_t failed'', ''range error'', ''invalid argument'', ''invalid argument type'',
     ''invalid user group'']"

definition filter_strerror :: "int \<Rightarrow> string" where
  "filter_strerror n =
    (let n = \<bar>n\<bar> in if n \<ge> 15 then ''unknown error '' @ dec_int n else errmsg ! nat n)"

text \<open>A value node: its kind \<open>TOK_*_L\<close> and the member of the union that goes with it.\<close>

datatype fval =
  IntV int | StrV string | BoolV int | TimeV int | DurV int | SizeV int | ResultV int | HashV sha1 | IpV ej_ip

definition vtype :: "fval \<Rightarrow> ftype" where
  "vtype v =
    (case v of IntV _ \<Rightarrow> FT_INT | StrV _ \<Rightarrow> FT_STRING | BoolV _ \<Rightarrow> FT_BOOL | TimeV _ \<Rightarrow> FT_TIME | DurV _ \<Rightarrow> FT_DUR
     | SizeV _ \<Rightarrow> FT_SIZE | ResultV _ \<Rightarrow> FT_RESULT | HashV _ \<Rightarrow> FT_HASH | IpV _ \<Rightarrow> FT_IP)"

text \<open>The numeric member, and the others; only read under the matching kind.\<close>

definition vnum :: "fval \<Rightarrow> int" where
  "vnum v =
    (case v of IntV i \<Rightarrow> i | BoolV i \<Rightarrow> i | TimeV i \<Rightarrow> i | DurV i \<Rightarrow> i | SizeV i \<Rightarrow> i | ResultV i \<Rightarrow> i | _ \<Rightarrow> 0)"

definition vstr :: "fval \<Rightarrow> string" where
  "vstr v = (case v of StrV s \<Rightarrow> s | _ \<Rightarrow> [])"

definition vhash :: "fval \<Rightarrow> sha1" where
  "vhash v = (case v of HashV h \<Rightarrow> h | _ \<Rightarrow> zero_sha1)"

definition empty_ipv6 :: ej_ip where
  "empty_ipv6 = \<lparr>ip_ipv6_flag = 0, ip_u = zero_quad\<rparr>"

definition vip :: "fval \<Rightarrow> ej_ip" where
  "vip v = (case v of IpV p \<Rightarrow> p | _ \<Rightarrow> empty_ipv6)"

text \<open>What \<open>memset\<close> and the type leave.\<close>

definition zero_val :: "ftype \<Rightarrow> fval" where
  "zero_val t =
    (case t of FT_INT \<Rightarrow> IntV 0 | FT_STRING \<Rightarrow> StrV [] | FT_BOOL \<Rightarrow> BoolV 0 | FT_TIME \<Rightarrow> TimeV 0 | FT_DUR \<Rightarrow> DurV 0
     | FT_SIZE \<Rightarrow> SizeV 0 | FT_RESULT \<Rightarrow> ResultV 0 | FT_HASH \<Rightarrow> HashV zero_sha1 | FT_IP \<Rightarrow> IpV empty_ipv6)"

record machine =
  mc_regcomp :: "string \<Rightarrow> int"
  mc_regexec :: "string \<Rightarrow> string \<Rightarrow> int"
  mc_shl32 :: "int \<Rightarrow> int"
  mc_shr32 :: "int \<Rightarrow> int"
  mc_localtime :: "int \<Rightarrow> tm"
  mc_mktime :: "tm \<Rightarrow> int"
  mc_today :: tm
  mc_junk :: "int \<times> int \<times> int"

type_synonym fres = "filter_err + fval"

definition INT_MAX :: int where "INT_MAX = 2 ^ 31 - 1"
definition INT_MIN :: int where "INT_MIN = - (2 ^ 31)"
definition UINT_MAX :: int where "UINT_MAX = 2 ^ 32 - 1"

text \<open>\<open>if (t < INT_MIN || t > INT_MAX) return -FILTER_ERR_INT_OVF;\<close>, and the same for sizes.\<close>

definition fit_int :: "(int \<Rightarrow> fval) \<Rightarrow> int \<Rightarrow> fres" where
  "fit_int k t = (if t < INT_MIN \<or> t > INT_MAX then Inl ERR_INT_OVF else Inr (k t))"

definition fit_size :: "int \<Rightarrow> fres" where
  "fit_size t = (if t < 0 \<or> t > UINT_MAX then Inl ERR_INT_OVF else Inr (SizeV t))"

section \<open>Addition and subtraction\<close>

definition add_table :: "nat list list" where
  "add_table =
   [[0, 0, 0, 0, 0, 0, 0, 0, 0, 0],
    [0, 1, 0, 0, 5, 6, 7, 0, 0, 0],
    [0, 0, 2, 0, 0, 0, 0, 0, 0, 0],
    [0, 0, 0, 0, 0, 0, 0, 0, 0, 0],
    [0, 8, 0, 0, 0, 9, 0, 0, 0, 0],
    [0, 10, 0, 0, 11, 3, 0, 0, 0, 0],
    [0, 12, 0, 0, 0, 0, 4, 0, 0, 0],
    [0, 0, 0, 0, 0, 0, 0, 0, 0, 0],
    [0, 0, 0, 0, 0, 0, 0, 0, 0, 0],
    [0, 0, 0, 0, 0, 0, 0, 0, 0, 0]]"

definition sub_table :: "nat list list" where
  "sub_table =
   [[0, 0, 0, 0, 0, 0, 0, 0, 0, 0],
    [0, 1, 0, 0, 0, 2, 0, 0, 0, 0],
    [0, 0, 0, 0, 0, 0, 0, 0, 0, 0],
    [0, 0, 0, 0, 0, 0, 0, 0, 0, 0],
    [0, 3, 0, 0, 4, 5, 0, 0, 0, 0],
    [0, 6, 0, 0, 0, 7, 0, 0, 0, 0],
    [0, 8, 0, 0, 0, 0, 9, 0, 0, 0],
    [0, 0, 0, 0, 0, 0, 0, 0, 0, 0],
    [0, 0, 0, 0, 0, 0, 0, 0, 0, 0],
    [0, 0, 0, 0, 0, 0, 0, 0, 0, 0]]"

definition add_node :: "fval \<Rightarrow> fval \<Rightarrow> fres option" where
  "add_node p1 p2 =
    (let k = add_table ! type_code (vtype p1) ! type_code (vtype p2); t = vnum p1 + vnum p2 in
     if k = 0 then Some (Inl ERR_INV_TYPES)
     else if k = 1 then Some (fit_int IntV t)
     else if k = 2 then Some (Inr (StrV (vstr p1 @ vstr p2)))
     else if k = 3 \<or> k = 6 \<or> k = 10 then Some (fit_int DurV t)
     else if k = 4 \<or> k = 7 \<or> k = 12 then Some (fit_size t)
     else if k = 5 \<or> k = 8 \<or> k = 9 \<or> k = 11 then Some (fit_int TimeV t)
     else None)"

definition sub_node :: "fval \<Rightarrow> fval \<Rightarrow> fres option" where
  "sub_node p1 p2 =
    (let k = sub_table ! type_code (vtype p1) ! type_code (vtype p2); t = vnum p1 - vnum p2 in
     if k = 0 then Some (Inl ERR_INV_TYPES)
     else if k = 1 \<or> k = 9 then Some (fit_int IntV t)
     else if k = 2 \<or> k = 4 \<or> k = 6 \<or> k = 7 then Some (fit_int DurV t)
     else if k = 3 \<or> k = 5 then Some (fit_int TimeV t)
     else if k = 8 then Some (fit_size t)
     else None)"

section \<open>The other binary operations\<close>

datatype binop =
  XorOp | OrOp | AndOp | MulOp | DivOp | ModOp | AddOp | SubOp | GtOp | LtOp | EqOp | NeOp | LeOp | GeOp | AslOp | AsrOp
  | RegexpOp

text \<open>\<open>ASSERT(p1->type == FILTER_TYPE_INT); ASSERT(p2->type == FILTER_TYPE_INT);\<close>\<close>

definition two_ints :: "(int \<Rightarrow> int \<Rightarrow> fres) \<Rightarrow> fval \<Rightarrow> fval \<Rightarrow> fres option" where
  "two_ints f p1 p2 = (case (p1, p2) of (IntV a, IntV b) \<Rightarrow> Some (f a b) | _ \<Rightarrow> None)"

text \<open>Shifts by 32 pass the test and are undefined in C; a left shift that overflows wraps, as gcc compiles it.\<close>

definition shl_node :: "machine \<Rightarrow> int \<Rightarrow> int \<Rightarrow> fres" where
  "shl_node mc a b =
    (if b < 0 \<or> b > 32 then Inl ERR_INV_ARG
     else Inr (IntV (to_s32 (if b = 32 then mc_shl32 mc a else a * 2 ^ nat b))))"

definition shr_node :: "machine \<Rightarrow> int \<Rightarrow> int \<Rightarrow> fres" where
  "shr_node mc a b =
    (if b < 0 \<or> b > 32 then Inl ERR_INV_ARG
     else Inr (IntV (to_s32 (if b = 32 then mc_shr32 mc a else to_u32 a div 2 ^ nat b))))"

fun strcmp :: "string \<Rightarrow> string \<Rightarrow> int" where
  "strcmp [] [] = 0"
| "strcmp [] (b # bs) = - int (ascii b)"
| "strcmp (a # as) [] = int (ascii a)"
| "strcmp (a # as) (b # bs) = (if a = b then strcmp as bs else int (ascii a) - int (ascii b))"

definition eq_node :: "fval \<Rightarrow> fval \<Rightarrow> bool option" where
  "eq_node p1 p2 =
    (if vtype p1 \<noteq> vtype p2 then None
     else Some (case p1 of StrV s \<Rightarrow> strcmp s (vstr p2) = 0 | HashV h \<Rightarrow> h = vhash p2
                | IpV p \<Rightarrow> ipv6cmp p (vip p2) = 0 | _ \<Rightarrow> vnum p1 = vnum p2))"

definition rel_node :: "(int \<Rightarrow> int \<Rightarrow> bool) \<Rightarrow> fval \<Rightarrow> fval \<Rightarrow> fres option" where
  "rel_node r p1 p2 =
    (if vtype p1 \<noteq> vtype p2 then None
     else (case p1 of StrV s \<Rightarrow> Some (Inr (BoolV (c_bool (r (strcmp s (vstr p2)) 0))))
           | HashV _ \<Rightarrow> None | IpV _ \<Rightarrow> None | ResultV _ \<Rightarrow> None
           | _ \<Rightarrow> Some (Inr (BoolV (c_bool (r (vnum p1) (vnum p2)))))))"

definition mul_node :: "fval \<Rightarrow> fval \<Rightarrow> fres option" where
  "mul_node p1 p2 =
    (case (p1, p2) of
       (IntV a, IntV b) \<Rightarrow> Some (fit_int IntV (a * b))
     | (DurV a, IntV b) \<Rightarrow> Some (fit_int DurV (a * b))
     | (IntV a, DurV b) \<Rightarrow> Some (fit_int DurV (b * a))
     | (SizeV a, IntV b) \<Rightarrow> Some (if b < 0 then Inl ERR_INV_ARG else fit_size (a * b))
     | (IntV a, SizeV b) \<Rightarrow> Some (if a < 0 then Inl ERR_INV_ARG else fit_size (b * a))
     | _ \<Rightarrow> None)"

text \<open>\<open>%\<close> and \<open>/\<close> of C round towards zero.\<close>

definition mod_node :: "fval \<Rightarrow> fval \<Rightarrow> fres option" where
  "mod_node p1 p2 =
    (case (p1, p2) of
       (IntV a, IntV b) \<Rightarrow>
         Some (if b < 0 then Inl ERR_INV_ARG else if b = 0 then Inl ERR_DIV0 else Inr (IntV (a smod b)))
     | (SizeV a, SizeV b) \<Rightarrow>
         Some (if b = 0 then Inl ERR_DIV0 else if a mod b > INT_MAX then Inl ERR_INT_OVF else Inr (IntV (a mod b)))
     | (DurV a, DurV b) \<Rightarrow>
         Some (if b < 0 then Inl ERR_INV_ARG else if b = 0 then Inl ERR_DIV0 else Inr (IntV (to_s32 (a smod b))))
     | (SizeV a, IntV b) \<Rightarrow>
         Some (if b < 0 then Inl ERR_INV_ARG else if b = 0 then Inl ERR_DIV0
               else if a mod b > INT_MAX then Inl ERR_INT_OVF else Inr (SizeV (a mod b)))
     | (DurV a, IntV b) \<Rightarrow>
         Some (if b < 0 then Inl ERR_INV_ARG else if b = 0 then Inl ERR_DIV0 else Inr (DurV (a smod b)))
     | _ \<Rightarrow> None)"

definition div_node :: "fval \<Rightarrow> fval \<Rightarrow> fres option" where
  "div_node p1 p2 =
    (case (p1, p2) of
       (IntV a, IntV b) \<Rightarrow> Some (if b = 0 then Inl ERR_DIV0 else fit_int IntV (a sdiv b))
     | (SizeV a, SizeV b) \<Rightarrow>
         Some (if b = 0 then Inl ERR_DIV0 else if a div b > INT_MAX then Inl ERR_INT_OVF else Inr (IntV (a div b)))
     | (DurV a, DurV b) \<Rightarrow> Some (if b = 0 then Inl ERR_DIV0 else fit_int IntV (a sdiv b))
     | (SizeV a, IntV b) \<Rightarrow>
         Some (if b = 0 then Inl ERR_DIV0 else if b < 0 then Inl ERR_INV_ARG else Inr (SizeV (a div b)))
     | (DurV a, IntV b) \<Rightarrow> Some (if b = 0 then Inl ERR_DIV0 else fit_int DurV (a sdiv b))
     | _ \<Rightarrow> None)"

text \<open>
  The cache of compiled expressions is a growing array of texts and results of \<open>regcomp\<close>, searched from
  the front.  \<open>regex_answer\<close> is what the function answers whatever the cache holds.
\<close>

type_synonym re_cache = "(string \<times> int) list"

definition filter_tree_regexp_match :: "machine \<Rightarrow> re_cache \<Rightarrow> string \<Rightarrow> string \<Rightarrow> int \<times> re_cache" where
  "filter_tree_regexp_match mc cache str re =
    (let (st, cache') = (case map_of cache re of Some st \<Rightarrow> (st, cache)
                         | None \<Rightarrow> (mc_regcomp mc re, cache @ [(re, mc_regcomp mc re)])) in
     (if st \<noteq> 0 then 0 else if mc_regexec mc re str \<noteq> 0 then 0 else 1, cache'))"

definition regex_answer :: "machine \<Rightarrow> string \<Rightarrow> string \<Rightarrow> int" where
  "regex_answer mc str re = (if mc_regcomp mc re \<noteq> 0 then 0 else if mc_regexec mc re str \<noteq> 0 then 0 else 1)"

definition cache_ok :: "machine \<Rightarrow> re_cache \<Rightarrow> bool" where
  "cache_ok mc cache \<longleftrightarrow> (\<forall>(re, st) \<in> set cache. st = mc_regcomp mc re)"

lemma regexp_match_answer:
  assumes "cache_ok mc cache"
  shows "fst (filter_tree_regexp_match mc cache str re) = regex_answer mc str re"
    "cache_ok mc (snd (filter_tree_regexp_match mc cache str re))"
proof -
  have "map_of cache re = Some st \<Longrightarrow> st = mc_regcomp mc re" for st
    using assms map_of_SomeD by (fastforce simp: cache_ok_def)
  then show "fst (filter_tree_regexp_match mc cache str re) = regex_answer mc str re"
    "cache_ok mc (snd (filter_tree_regexp_match mc cache str re))"
    using assms by (auto simp: filter_tree_regexp_match_def regex_answer_def cache_ok_def split: option.splits)
qed

definition regexp_node :: "machine \<Rightarrow> fval \<Rightarrow> fval \<Rightarrow> fres" where
  "regexp_node mc p1 p2 =
    Inr (BoolV (if vtype p1 \<noteq> FT_STRING \<or> vtype p2 \<noteq> FT_STRING then 0 else regex_answer mc (vstr p1) (vstr p2)))"

definition eval_bin :: "machine \<Rightarrow> binop \<Rightarrow> fval \<Rightarrow> fval \<Rightarrow> fres option" where
  "eval_bin mc op p1 p2 =
    (case op of
       AddOp \<Rightarrow> add_node p1 p2
     | SubOp \<Rightarrow> sub_node p1 p2
     | XorOp \<Rightarrow> two_ints (\<lambda>a b. Inr (IntV (a XOR b))) p1 p2
     | AndOp \<Rightarrow> two_ints (\<lambda>a b. Inr (IntV (a AND b))) p1 p2
     | OrOp \<Rightarrow> two_ints (\<lambda>a b. Inr (IntV (a OR b))) p1 p2
     | AslOp \<Rightarrow> two_ints (shl_node mc) p1 p2
     | AsrOp \<Rightarrow> two_ints (shr_node mc) p1 p2
     | EqOp \<Rightarrow> map_option (\<lambda>b. Inr (BoolV (c_bool b))) (eq_node p1 p2)
     | NeOp \<Rightarrow> map_option (\<lambda>b. Inr (BoolV (c_bool (\<not> b)))) (eq_node p1 p2)
     | LtOp \<Rightarrow> rel_node (\<lambda>a b. a < b) p1 p2
     | LeOp \<Rightarrow> rel_node (\<lambda>a b. a \<le> b) p1 p2
     | GtOp \<Rightarrow> rel_node (\<lambda>a b. a > b) p1 p2
     | GeOp \<Rightarrow> rel_node (\<lambda>a b. a \<ge> b) p1 p2
     | RegexpOp \<Rightarrow> Some (regexp_node mc p1 p2)
     | MulOp \<Rightarrow> mul_node p1 p2
     | ModOp \<Rightarrow> mod_node p1 p2
     | DivOp \<Rightarrow> div_node p1 p2)"

section \<open>Unary operations\<close>

datatype unop = BitNot | LogNot | UnMinus

definition eval_un :: "unop \<Rightarrow> fval \<Rightarrow> fres option" where
  "eval_un op p1 =
    (case (op, p1) of
       (LogNot, BoolV b) \<Rightarrow> Some (Inr (BoolV (c_bool (b = 0))))
     | (BitNot, IntV i) \<Rightarrow> Some (Inr (IntV (NOT i)))
     | (UnMinus, IntV i) \<Rightarrow> Some (if i = INT_MIN then Inl ERR_INT_OVF else Inr (IntV (- i)))
     | _ \<Rightarrow> None)"

section \<open>Text forms\<close>

definition dec4 :: "int \<Rightarrow> string" where
  "dec4 n =
    (let d = dec_nat (nat \<bar>n\<bar>) in
     if n < 0 then CHR ''-'' # replicate (3 - length d) CHR ''0'' @ d else replicate (4 - length d) CHR ''0'' @ d)"

text \<open>The text left in a buffer of \<open>sz\<close> bytes.\<close>

definition filter_tree_int_str :: "nat \<Rightarrow> int \<Rightarrow> string" where
  "filter_tree_int_str sz i = take (sz - 1) (dec_int i)"

definition filter_tree_bool_str :: "nat \<Rightarrow> int \<Rightarrow> string" where
  "filter_tree_bool_str sz b = take (sz - 1) (if b \<noteq> 0 then ''true'' else ''false'')"

definition filter_tree_time_str :: "machine \<Rightarrow> nat \<Rightarrow> int \<Rightarrow> string" where
  "filter_tree_time_str mc sz a =
    (let t = mc_localtime mc a in
     take (sz - 1)
      (dec4 (tm_year t + 1900) @ CHR ''/'' # dec2 (tm_mon t + 1) @ CHR ''/'' # dec2 (tm_mday t) @ CHR '' ''
        # dec2 (tm_hour t) @ CHR '':'' # dec2 (tm_min t) @ CHR '':'' # dec2 (tm_sec t)))"

definition filter_tree_dur_str :: "nat \<Rightarrow> int \<Rightarrow> string" where
  "filter_tree_dur_str sz u =
    (let v = \<bar>u\<bar> in
     take (sz - 1) ((if u < 0 then ''-'' else []) @ dec_int (v div 60 div 60) @ CHR '':'' # dec2 (v div 60 mod 60)
       @ CHR '':'' # dec2 (v mod 60)))"

definition filter_tree_size_str :: "nat \<Rightarrow> int \<Rightarrow> string" where
  "filter_tree_size_str sz z = take (sz - 1) (dec_int z)"

fun hash_bytes :: "sha1 \<Rightarrow> nat list" where
  "hash_bytes (a, b, c, d, e) = word_bytes a @ word_bytes b @ word_bytes c @ word_bytes d @ word_bytes e"

definition filter_tree_hash_str :: "nat \<Rightarrow> sha1 \<Rightarrow> string" where
  "filter_tree_hash_str sz h = take (sz - 1) (concat (map hex2 (hash_bytes h)))"

section \<open>Casts\<close>

definition str_to_int :: "string \<Rightarrow> filter_err + int" where
  "str_to_int s =
    (case strtol0 s of (v, erange, rest) \<Rightarrow>
       if rest \<noteq> [] then Inl ERR_INT_CVT else if erange then Inl ERR_INT_OVF else Inr (to_s32 v))"

definition str_to_uint :: "string \<Rightarrow> filter_err + int" where
  "str_to_uint s =
    (case strtoul0 s of (v, erange, rest) \<Rightarrow>
       if rest \<noteq> [] then Inl ERR_INT_CVT else if erange then Inl ERR_INT_OVF else Inr (to_u32 v))"

definition map_res :: "('a \<Rightarrow> 'b) \<Rightarrow> 'e + 'a \<Rightarrow> 'e + 'b" where
  "map_res f r = (case r of Inl e \<Rightarrow> Inl e | Inr x \<Rightarrow> Inr (f x))"

definition bind_res :: "'e + 'a \<Rightarrow> ('a \<Rightarrow> 'e + 'b) \<Rightarrow> 'e + 'b" where
  "bind_res r f = (case r of Inl e \<Rightarrow> Inl e | Inr x \<Rightarrow> f x)"

definition cast_int :: "fval \<Rightarrow> fres" where
  "cast_int p1 =
    (case p1 of
       IntV i \<Rightarrow> Inr (IntV i)
     | StrV s \<Rightarrow> map_res IntV (str_to_int s)
     | BoolV b \<Rightarrow> Inr (IntV b)
     | TimeV a \<Rightarrow> Inr (IntV (to_s32 a))
     | DurV u \<Rightarrow> Inr (IntV (to_s32 u))
     | SizeV z \<Rightarrow> if z > INT_MAX then Inl ERR_INT_OVF else Inr (IntV z)
     | ResultV r \<Rightarrow> Inr (IntV r)
     | HashV (a, b, c, d, e) \<Rightarrow> Inr (IntV (to_s32 (uint a)))
     | IpV _ \<Rightarrow> Inr (IntV 0))"

text \<open>The branch of an address has no \<open>break\<close> and runs into SWERR.  A duration is printed as a time.\<close>

definition cast_string :: "machine \<Rightarrow> fval \<Rightarrow> fres option" where
  "cast_string mc p1 =
    (case p1 of
       IntV i \<Rightarrow> Some (Inr (StrV (filter_tree_int_str 128 i)))
     | StrV s \<Rightarrow> Some (Inr (StrV s))
     | BoolV b \<Rightarrow> Some (Inr (StrV (filter_tree_bool_str 128 b)))
     | TimeV a \<Rightarrow> Some (Inr (StrV (filter_tree_time_str mc 128 a)))
     | DurV u \<Rightarrow> Some (Inr (StrV (filter_tree_time_str mc 128 u)))
     | SizeV z \<Rightarrow> Some (Inr (StrV (filter_tree_size_str 128 z)))
     | ResultV r \<Rightarrow> Some (Inr (StrV (fst (run_status_to_str_short 128 r))))
     | HashV h \<Rightarrow> Some (Inr (StrV (filter_tree_hash_str 128 h)))
     | IpV _ \<Rightarrow> None)"

definition cast_bool :: "fval \<Rightarrow> fres" where
  "cast_bool p1 =
    (case p1 of
       IntV i \<Rightarrow> Inr (BoolV (c_bool (i \<noteq> 0)))
     | StrV s \<Rightarrow> if strcaseeq s ''true'' then Inr (BoolV 1) else if strcaseeq s ''false'' then Inr (BoolV 0)
               else Inl ERR_BOOL_CVT
     | BoolV b \<Rightarrow> Inr (BoolV b)
     | TimeV a \<Rightarrow> Inr (BoolV (c_bool (a \<noteq> 0)))
     | DurV u \<Rightarrow> Inr (BoolV (c_bool (u \<noteq> 0)))
     | SizeV z \<Rightarrow> Inr (BoolV (c_bool (z \<noteq> 0)))
     | ResultV r \<Rightarrow> Inr (BoolV (c_bool (r = 0)))
     | HashV h \<Rightarrow> Inr (BoolV (c_bool (h \<noteq> zero_sha1)))
     | IpV _ \<Rightarrow> Inr (BoolV 0))"

text \<open>\<open>%[^:]\<close>, and \<open> : \<close> between two of them.\<close>

definition scan_part :: "string \<Rightarrow> (string \<times> string) option" where
  "scan_part s =
    (case takeWhile (\<lambda>c. c \<noteq> CHR '':'') s of [] \<Rightarrow> None | w \<Rightarrow> Some (w, dropWhile (\<lambda>c. c \<noteq> CHR '':'') s))"

definition scan_colon :: "string \<Rightarrow> string option" where
  "scan_colon s = map_option skip_spaces (expect CHR '':'' (skip_spaces s))"

text \<open>The hours, minutes and seconds of a duration; a missing part is the empty text.\<close>

definition dur_parts :: "string \<Rightarrow> (string \<times> string \<times> string) option" where
  "dur_parts s =
    (case Option.bind (scan_part s) (\<lambda>(a, r). Option.bind (scan_colon r) (\<lambda>r. Option.bind (scan_part r) (\<lambda>(b, r).
            Option.bind (scan_colon r) (\<lambda>r. Option.bind (scan_part r) (\<lambda>(c, r).
            if skip_spaces r = [] then Some (a, b, c) else None))))) of
       Some x \<Rightarrow> Some x
     | None \<Rightarrow>
       (case Option.bind (scan_part s) (\<lambda>(a, r). Option.bind (scan_colon r) (\<lambda>r. Option.bind (scan_part r) (\<lambda>(b, r).
               if skip_spaces r = [] then Some ([], a, b) else None))) of
          Some x \<Rightarrow> Some x
        | None \<Rightarrow>
          (case scan_word s of
             Some (a, r) \<Rightarrow> if skip_spaces r = [] then Some ([], [], a) else None
           | None \<Rightarrow> None)))"

definition dur_part :: "string \<Rightarrow> filter_err + int" where
  "dur_part w = (if w = [] then Inr 0 else str_to_int w)"

text \<open>
  Two tests return \<open>FILTER_ERR_DUR_CVT\<close> without its minus sign.  Every caller tests for a negative
  result only and goes on with the node as it is, a duration of 0.
\<close>

definition str_to_dur :: "string \<Rightarrow> fres" where
  "str_to_dur str =
    (case dur_parts str of None \<Rightarrow> Inl ERR_DUR_CVT
     | Some (th, tm, ts) \<Rightarrow>
       bind_res (dur_part th) (\<lambda>h. bind_res (dur_part tm) (\<lambda>m. bind_res (dur_part ts) (\<lambda>s.
         if (h \<noteq> 0 \<or> m \<noteq> 0) \<and> s < 0 then Inr (DurV 0)
         else if h \<noteq> 0 \<and> m < 0 then Inr (DurV 0)
         else fit_int DurV
                (if h < 0 then h * 3600 - m * 60 - s
                 else if m < 0 then m * 60 - s
                 else if s < 0 then s
                 else h * 3600 + m * 60 + s)))))"

definition cast_dur :: "fval \<Rightarrow> fres option" where
  "cast_dur p1 =
    (case p1 of IntV i \<Rightarrow> Some (Inr (DurV i)) | StrV s \<Rightarrow> Some (str_to_dur s) | DurV u \<Rightarrow> Some (Inr (DurV u)) | _ \<Rightarrow> None)"

definition cast_time :: "machine \<Rightarrow> fval \<Rightarrow> fres option" where
  "cast_time mc p1 =
    (case p1 of
       IntV i \<Rightarrow> Some (Inr (TimeV i))
     | StrV s \<Rightarrow> Some (case xml_parse_date (mc_mktime mc) (mc_today mc) (mc_junk mc) s of
                        None \<Rightarrow> Inl ERR_TIME_CVT
                      | Some t \<Rightarrow> if t \<le> 0 then Inl ERR_TIME_CVT else Inr (TimeV t))
     | TimeV a \<Rightarrow> Some (Inr (TimeV a))
     | _ \<Rightarrow> None)"

definition cast_size :: "fval \<Rightarrow> fres option" where
  "cast_size p1 =
    (case p1 of
       IntV i \<Rightarrow> Some (if i < 0 then Inl ERR_INT_OVF else Inr (SizeV i))
     | StrV s \<Rightarrow> Some (map_res SizeV (str_to_uint s))
     | SizeV z \<Rightarrow> Some (Inr (SizeV z))
     | _ \<Rightarrow> None)"

definition result_codes :: "int list" where
  "result_codes =
    [RUN_OK, RUN_COMPILE_ERR, RUN_RUN_TIME_ERR, RUN_TIME_LIMIT_ERR, RUN_WALL_TIME_LIMIT_ERR, RUN_PRESENTATION_ERR,
     RUN_WRONG_ANSWER_ERR, RUN_CHECK_FAILED, RUN_PARTIAL, RUN_ACCEPTED, RUN_PENDING_REVIEW, RUN_IGNORED,
     RUN_DISQUALIFIED, RUN_PENDING, RUN_MEM_LIMIT_ERR, RUN_SECURITY_ERR, RUN_STYLE_ERR, RUN_FULL_REJUDGE,
     RUN_RUNNING, RUN_COMPILED, RUN_COMPILING, RUN_AVAILABLE]"

definition cast_result :: "fval \<Rightarrow> fres option" where
  "cast_result p1 =
    (case p1 of
       IntV i \<Rightarrow> Some (if i \<in> set result_codes then Inr (ResultV i) else Inl ERR_RANGE)
     | StrV s \<Rightarrow> Some (if run_str_short_to_status s < 0 then Inl ERR_RESULT_CVT
                      else Inr (ResultV (run_str_short_to_status s)))
     | ResultV r \<Rightarrow> Some (Inr (ResultV r))
     | _ \<Rightarrow> None)"

text \<open>Twenty bytes from forty hexadecimal digits.\<close>

fun hex_pairs :: "string \<Rightarrow> nat list" where
  "hex_pairs (a # b # s) = (digit_val a * 16 + digit_val b) # hex_pairs s"
| "hex_pairs _ = []"

definition cast_hash :: "fval \<Rightarrow> fres option" where
  "cast_hash p1 =
    (case p1 of
       StrV str \<Rightarrow>
         Some (let s = takeWhile isxdigit str; r = dropWhile isxdigit str in
               if s = [] \<or> skip_spaces r \<noteq> [] then Inl ERR_HASH_CVT
               else if length s \<noteq> 40 then Inl ERR_HASH_CVT
               else (let b = hex_pairs s in
                     Inr (HashV (bytes_word b, bytes_word (drop 4 b), bytes_word (drop 8 b), bytes_word (drop 12 b),
                                 bytes_word (drop 16 b)))))
     | HashV h \<Rightarrow> Some (Inr (HashV h))
     | _ \<Rightarrow> None)"

definition cast_ip :: "fval \<Rightarrow> fres option" where
  "cast_ip p1 =
    (case p1 of
       IntV i \<Rightarrow> Some (Inr (IpV \<lparr>ip_ipv6_flag = 0, ip_u = (0, 0, 0, word_of_int i)\<rparr>))
     | StrV s \<Rightarrow> Some (case xml_parse_ipv6_2 s of None \<Rightarrow> Inl ERR_IP_CVT | Some p \<Rightarrow> Inr (IpV p))
     | IpV p \<Rightarrow> Some (Inr (IpV p))
     | _ \<Rightarrow> None)"

definition eval_cast :: "machine \<Rightarrow> ftype \<Rightarrow> fval \<Rightarrow> fres option" where
  "eval_cast mc t p1 =
    (case t of
       FT_INT \<Rightarrow> Some (cast_int p1)
     | FT_STRING \<Rightarrow> cast_string mc p1
     | FT_BOOL \<Rightarrow> Some (cast_bool p1)
     | FT_TIME \<Rightarrow> cast_time mc p1
     | FT_DUR \<Rightarrow> cast_dur p1
     | FT_SIZE \<Rightarrow> cast_size p1
     | FT_RESULT \<Rightarrow> cast_result p1
     | FT_HASH \<Rightarrow> cast_hash p1
     | FT_IP \<Rightarrow> cast_ip p1)"

end
