(* ===== verification/Filter_Eval.thy ===== *)
theory Filter_Eval
  imports Filter_Tree Run_Queries
begin

text \<open>
  Evaluation of a filter tree on a run, \<open>filter_eval.c\<close>, and the selection of the runs to show in
  \<open>ns_write_priv_all_runs\<close> of \<open>new_server_html_2.c\<close>.  The user database, the contest configuration and
  the archive are the parameters in the record \<open>filter_env\<close>.
\<close>

section \<open>Fields of a run\<close>

text \<open>The tokens \<open>TOK_TIME\<close> to \<open>TOK_STORE_FLAGS\<close> that read a field of a run given by its number.\<close>

datatype run_field =
  R_TIME | R_DUR | R_SIZE | R_HASH | R_UUID | R_IP | R_PROB | R_UID | R_LOGIN | R_NAME | R_GROUP | R_LANG | R_ARCH
  | R_RESULT | R_SCORE | R_TEST | R_IMPORTED | R_HIDDEN | R_READONLY | R_MARKED | R_SAVED | R_VARIANT | R_RAWVARIANT
  | R_USERINVISIBLE | R_USERBANNED | R_USERLOCKED | R_USERINCOMPLETE | R_USERDISQUALIFIED | R_LATEST | R_LATESTMARKED
  | R_AFTEROK | R_EXAMINABLE | R_CYPHER | R_MISSINGSOURCE | R_JUDGE_ID | R_PASSED_MODE | R_EOLN_TYPE | R_STORE_FLAGS

definition field_type :: "run_field \<Rightarrow> ftype" where
  "field_type f =
    (if f = R_TIME then FT_TIME else if f = R_DUR then FT_DUR else if f = R_SIZE then FT_SIZE
     else if f = R_HASH then FT_HASH else if f = R_IP then FT_IP else if f = R_RESULT then FT_RESULT
     else if f \<in> {R_UUID, R_PROB, R_LOGIN, R_NAME, R_GROUP, R_LANG, R_ARCH, R_CYPHER} then FT_STRING
     else if f \<in> {R_UID, R_SCORE, R_TEST, R_VARIANT, R_RAWVARIANT, R_JUDGE_ID, R_EOLN_TYPE, R_STORE_FLAGS} then FT_INT
     else FT_BOOL)"

section \<open>The environment\<close>

text \<open>
  A user as \<open>teamdb_get_userlist\<close> gives it: the group of the first member (the outer \<open>None\<close> is no member)
  and the cypher, when the user has the contest's data \<open>cnts0\<close>.
\<close>

record user_cnts =
  uc_group :: "string option option"
  uc_cypher :: "string option"

record filter_env =
  fe_mc :: machine
  fe_head :: run_header
  fe_runs :: "run_entry list"
  fe_rid :: int
  fe_cur_time :: int
  fe_probs :: "string option list"
  fe_langs :: "(string \<times> string option) option list"
  fe_login :: "int \<Rightarrow> string option"
  fe_name :: "int \<Rightarrow> string option"
  fe_flags :: "int \<Rightarrow> int"
  fe_user :: "int \<Rightarrow> user_cnts option option"
  fe_variant :: "int \<Rightarrow> int \<Rightarrow> int"
  fe_score :: "int \<Rightarrow> int"
  fe_archive :: bool
  fe_uuid_path :: "quad \<Rightarrow> int"
  fe_run_path :: "int \<Rightarrow> int"
  fe_groups :: "string list"
  fe_member_map :: "int list"
  fe_bitmaps :: "32 word list option list"

definition rtotal :: "filter_env \<Rightarrow> int" where
  "rtotal env = int (length (fe_runs env))"

definition fe_run :: "filter_env \<Rightarrow> int \<Rightarrow> run_entry" where
  "fe_run env r = fe_runs env ! nat r"

definition envdup :: "string option \<Rightarrow> string" where
  "envdup s = (case s of None \<Rightarrow> [] | Some s \<Rightarrow> s)"

section \<open>Questions about the log\<close>

definition passed_status :: "int \<Rightarrow> bool" where
  "passed_status st \<longleftrightarrow> st = RUN_OK \<or> st = RUN_PARTIAL \<or> st = RUN_ACCEPTED \<or> st = RUN_PENDING_REVIEW"

text \<open>The loops return from inside; the answer of a loop is whether an element stops it.\<close>

definition is_latest :: "filter_env \<Rightarrow> int \<Rightarrow> int" where
  "is_latest env rid =
    (if rid < 0 \<or> rid \<ge> rtotal env then 0
     else if \<not> passed_status (re_status (fe_run env rid)) then 0
     else c_bool (\<not> list_ex (\<lambda>r. \<not> re_status r > RUN_MAX_STATUS
        \<and> \<not> (re_user_id (fe_run env rid) \<noteq> re_user_id r \<or> re_prob_id (fe_run env rid) \<noteq> re_prob_id r)
        \<and> passed_status (re_status r)) (drop (nat rid + 1) (fe_runs env))))"

definition is_latestmarked :: "filter_env \<Rightarrow> int \<Rightarrow> int" where
  "is_latestmarked env rid =
    (if rid < 0 \<or> rid \<ge> rtotal env then 0
     else if re_is_marked (fe_run env rid) = 0 then 0
     else c_bool (\<not> list_ex (\<lambda>r. re_user_id (fe_run env rid) = re_user_id r \<and> re_prob_id (fe_run env rid) = re_prob_id r
        \<and> re_is_marked r \<noteq> 0) (drop (nat rid + 1) (fe_runs env))))"

definition is_afterok :: "filter_env \<Rightarrow> int \<Rightarrow> int" where
  "is_afterok env rid =
    (if rid < 0 \<or> rid \<ge> rtotal env then 0
     else if re_status (fe_run env rid) \<ge> RUN_PSEUDO_FIRST \<and> re_status (fe_run env rid) \<le> RUN_PSEUDO_LAST then 0
     else c_bool (list_ex (\<lambda>r. re_status r = RUN_OK
        \<and> \<not> (re_user_id (fe_run env rid) \<noteq> re_user_id r \<or> re_prob_id (fe_run env rid) \<noteq> re_prob_id r))
        (rev (take (nat rid) (fe_runs env)))))"

definition is_missing_source :: "filter_env \<Rightarrow> run_entry \<Rightarrow> int" where
  "is_missing_source env re =
    (if \<not> fe_archive env then 0
     else if re_status re > RUN_MAX_STATUS \<and> re_status re < RUN_TRANSIENT_FIRST then 0
     else if re_status re > RUN_LAST then 0
     else if re_store_flags re = 1 then c_bool (fe_uuid_path env (re_run_uuid re) < 0)
     else c_bool (fe_run_path env (re_run_id re) < 0))"

section \<open>User groups\<close>

fun find_group :: "int \<Rightarrow> string list \<Rightarrow> string \<Rightarrow> int" where
  "find_group i [] name = err_code ERR_INV_USERGROUP"
| "find_group i (g # gs) name = (if g = name then i else find_group (i + 1) gs name)"

text \<open>An unknown group gives the error code without its sign, a valid index.\<close>

definition find_user_group :: "filter_env \<Rightarrow> string \<Rightarrow> int" where
  "find_user_group env name = (if name = [] then err_code ERR_INV_USERGROUP else find_group 0 (fe_groups env) name)"

definition check_user_group :: "filter_env \<Rightarrow> int \<Rightarrow> int \<Rightarrow> int option" where
  "check_user_group env user_id group_ind =
    (if user_id \<le> 0 \<or> user_id \<ge> int (length (fe_member_map env)) then Some 0
     else (let user_ind = fe_member_map env ! nat user_id in
       if user_ind < 0 \<or> user_ind \<ge> int (length (fe_bitmaps env)) then Some 0
       else if group_ind < 0 \<or> group_ind \<ge> int (length (fe_groups env)) then Some 0
       else (case fe_bitmaps env ! nat user_ind of None \<Rightarrow> Some 0
             | Some b \<Rightarrow>
               if nat group_ind div 32 < length b
               then Some (c_bool (b ! (nat group_ind div 32) AND push_bit (nat group_ind mod 32) 1 \<noteq> 0)) else None)))"

section \<open>The value of a field\<close>

definition user_flag :: "filter_env \<Rightarrow> int \<Rightarrow> mask \<Rightarrow> fval" where
  "user_flag env user_id m =
    BoolV (if user_id = 0 then 0 else if fe_flags env user_id < 0 then 0
           else c_bool (word_of_int (fe_flags env user_id) AND m \<noteq> 0))"

definition name_at :: "'a option list \<Rightarrow> int \<Rightarrow> 'a option" where
  "name_at xs i = (if i \<le> 0 \<or> i \<ge> int (length xs) then None else xs ! nat i)"

text \<open>
  \<open>cur\<close> tells the variable of the current run (\<open>TOK_CUR*\<close>) from the function of a run number; \<open>rid\<close> is
  the number given, or the one stored in the current run.
\<close>

definition field_value :: "filter_env \<Rightarrow> bool \<Rightarrow> int \<Rightarrow> run_entry \<Rightarrow> run_field \<Rightarrow> fval" where
  "field_value env cur rid e f =
    (case f of
       R_TIME \<Rightarrow> TimeV (re_time e)
     | R_DUR \<Rightarrow> DurV (re_time e - rh_start_time (fe_head env))
     | R_SIZE \<Rightarrow> SizeV (re_size e)
     | R_HASH \<Rightarrow> HashV (re_sha1 e)
     | R_UUID \<Rightarrow> StrV (ej_uuid_unparse [] (re_run_uuid e))
     | R_IP \<Rightarrow> IpV (run_entry_to_ipv6 e)
     | R_PROB \<Rightarrow> StrV (envdup (name_at (fe_probs env) (re_prob_id e)))
     | R_UID \<Rightarrow> IntV (re_user_id e)
     | R_LOGIN \<Rightarrow> StrV (if re_user_id e = 0 then [] else envdup (fe_login env (re_user_id e)))
     | R_NAME \<Rightarrow> StrV (if re_user_id e = 0 then [] else envdup (fe_name env (re_user_id e)))
     | R_GROUP \<Rightarrow> StrV (if re_user_id e > 0
                        then (case fe_user env (re_user_id e) of Some (Some u) \<Rightarrow>
                                (case uc_group u of Some g \<Rightarrow> envdup g | None \<Rightarrow> []) | _ \<Rightarrow> [])
                        else [])
     | R_LANG \<Rightarrow> StrV (case name_at (fe_langs env) (re_lang_id e) of None \<Rightarrow> [] | Some (n, a) \<Rightarrow> n)
     | R_ARCH \<Rightarrow> StrV (case name_at (fe_langs env) (re_lang_id e) of None \<Rightarrow> [] | Some (n, a) \<Rightarrow> envdup a)
     | R_RESULT \<Rightarrow> ResultV (re_status e)
     | R_SCORE \<Rightarrow> IntV (re_score e)
     | R_TEST \<Rightarrow> IntV (re_test e)
     | R_IMPORTED \<Rightarrow> BoolV (re_is_imported e)
     | R_HIDDEN \<Rightarrow> BoolV (re_is_hidden e)
     | R_READONLY \<Rightarrow> BoolV (re_is_readonly e)
     | R_MARKED \<Rightarrow> BoolV (re_is_marked e)
     | R_SAVED \<Rightarrow> BoolV (re_is_saved e)
     | R_VARIANT \<Rightarrow> IntV (if re_variant e = 0 then fe_variant env (re_user_id e) (re_prob_id e) else re_variant e)
     | R_RAWVARIANT \<Rightarrow> IntV (re_variant e)
     | R_USERINVISIBLE \<Rightarrow> user_flag env (re_user_id e) TEAM_INVISIBLE
     | R_USERBANNED \<Rightarrow> user_flag env (re_user_id e) TEAM_BANNED
     | R_USERLOCKED \<Rightarrow> user_flag env (re_user_id e) TEAM_LOCKED
     | R_USERINCOMPLETE \<Rightarrow> user_flag env (re_user_id e) TEAM_INCOMPLETE
     | R_USERDISQUALIFIED \<Rightarrow> user_flag env (re_user_id e) TEAM_DISQUALIFIED
     | R_LATEST \<Rightarrow> BoolV (is_latest env rid)
     | R_LATESTMARKED \<Rightarrow> BoolV (is_latestmarked env rid)
     | R_AFTEROK \<Rightarrow> BoolV (is_afterok env rid)
     | R_EXAMINABLE \<Rightarrow> BoolV 0
     | R_CYPHER \<Rightarrow> StrV (if re_user_id e > 0
                         then (case fe_user env (re_user_id e) of Some (Some u) \<Rightarrow> envdup (uc_cypher u) | _ \<Rightarrow> [])
                         else [])
     | R_MISSINGSOURCE \<Rightarrow> BoolV (is_missing_source env e)
     | R_JUDGE_ID \<Rightarrow> IntV (re_judge_id e)
     | R_PASSED_MODE \<Rightarrow> BoolV (c_bool (re_passed_mode e \<noteq> 0))
     | R_EOLN_TYPE \<Rightarrow> IntV (if cur then re_eoln_type e else c_bool (re_eoln_type e \<noteq> 0))
     | R_STORE_FLAGS \<Rightarrow> IntV (if cur then re_store_flags e else c_bool (re_store_flags e \<noteq> 0)))"

section \<open>Trees\<close>

text \<open>
  \<open>struct filter_tree\<close>: \<open>Null\<close> is the null pointer, \<open>Blank\<close> a node of zero bytes.  A binary node keeps the
  type the parser gave it.
\<close>

datatype tree =
    Null | Blank | Lit fval | LogOr tree tree | LogAnd tree tree | Bin binop ftype tree tree | UnNode unop tree
  | RunFun run_field tree | CurVar run_field | Cast ftype tree | RunId | Now | Start | Finish | Total | CurTotalScore
  | Examinator tree tree | CurExaminator tree | InUserGroup tree | InUserGroupInt tree

definition un_type :: "unop \<Rightarrow> ftype" where
  "un_type op = (case op of BitNot \<Rightarrow> FT_INT | LogNot \<Rightarrow> FT_BOOL | UnMinus \<Rightarrow> FT_INT)"

text \<open>The field \<open>type\<close> of a node, \<open>None\<close> for 0.\<close>

definition node_type :: "tree \<Rightarrow> ftype option" where
  "node_type t =
    (case t of Null \<Rightarrow> None | Blank \<Rightarrow> None | Lit v \<Rightarrow> Some (vtype v) | LogOr _ _ \<Rightarrow> Some FT_BOOL | LogAnd _ _ \<Rightarrow> Some FT_BOOL
     | Bin _ t _ _ \<Rightarrow> Some t | UnNode op _ \<Rightarrow> Some (un_type op) | RunFun f _ \<Rightarrow> Some (field_type f)
     | CurVar f \<Rightarrow> Some (field_type f) | Cast t _ \<Rightarrow> Some t | RunId \<Rightarrow> Some FT_INT | Now \<Rightarrow> Some FT_TIME
     | Start \<Rightarrow> Some FT_TIME | Finish \<Rightarrow> Some FT_TIME | Total \<Rightarrow> Some FT_INT | CurTotalScore \<Rightarrow> Some FT_INT
     | Examinator _ _ \<Rightarrow> Some FT_BOOL | CurExaminator _ \<Rightarrow> Some FT_BOOL | InUserGroup _ \<Rightarrow> Some FT_BOOL
     | InUserGroupInt _ \<Rightarrow> Some FT_BOOL)"

section \<open>Evaluation\<close>

text \<open>A run number, negative ones counting from the end.\<close>

definition run_index :: "filter_env \<Rightarrow> int \<Rightarrow> filter_err + int" where
  "run_index env i =
    (let i = (if i < 0 then rtotal env + i else i) in
     if i \<ge> rtotal env then Inl ERR_RANGE else if i < 0 then Inl ERR_RANGE else Inr i)"

definition cur_run :: "filter_env \<Rightarrow> run_entry" where
  "cur_run env = fe_run env (fe_rid env)"

text \<open>Giving back the result of an operation with the node as the evaluation of the operands left it.\<close>

definition with_node :: "tree \<Rightarrow> fres option \<Rightarrow> (fres \<times> tree) option" where
  "with_node t r = map_option (\<lambda>r. (r, t)) r"

text \<open>
  \<open>do_eval\<close>: the result and the tree, which \<open>TOK_INUSERGROUP\<close> changes in place: the group it found is put
  into the node as a number.
\<close>

fun do_eval :: "filter_env \<Rightarrow> tree \<Rightarrow> (fres \<times> tree) option" where
  "do_eval env (LogOr l r) =
    (case do_eval env l of
       Some (Inl e, l') \<Rightarrow> Some (Inl e, LogOr l' r)
     | Some (Inr (BoolV b), l') \<Rightarrow>
       if b = 0
       then (case do_eval env r of
               Some (Inl e, r') \<Rightarrow> Some (Inl e, LogOr l' r')
             | Some (Inr (BoolV c), r') \<Rightarrow> Some (Inr (BoolV c), LogOr l' r')
             | _ \<Rightarrow> None)
       else Some (Inr (BoolV 1), LogOr l' r)
     | _ \<Rightarrow> None)"
| "do_eval env (LogAnd l r) =
    (case do_eval env l of
       Some (Inl e, l') \<Rightarrow> Some (Inl e, LogAnd l' r)
     | Some (Inr (BoolV b), l') \<Rightarrow>
       if b \<noteq> 0
       then (case do_eval env r of
               Some (Inl e, r') \<Rightarrow> Some (Inl e, LogAnd l' r')
             | Some (Inr (BoolV c), r') \<Rightarrow> Some (Inr (BoolV c), LogAnd l' r')
             | _ \<Rightarrow> None)
       else Some (Inr (BoolV 0), LogAnd l' r)
     | _ \<Rightarrow> None)"
| "do_eval env (Bin op t l r) =
    (case do_eval env l of
       Some (Inl e, l') \<Rightarrow> Some (Inl e, Bin op t l' r)
     | Some (Inr a, l') \<Rightarrow>
       (case do_eval env r of
          Some (Inl e, r') \<Rightarrow> Some (Inl e, Bin op t l' r')
        | Some (Inr b, r') \<Rightarrow> with_node (Bin op t l' r') (eval_bin (fe_mc env) op a b)
        | None \<Rightarrow> None)
     | None \<Rightarrow> None)"
| "do_eval env (UnNode op c) =
    (case do_eval env c of
       Some (Inl e, c') \<Rightarrow> Some (Inl e, UnNode op c')
     | Some (Inr a, c') \<Rightarrow> with_node (UnNode op c') (eval_un op a)
     | None \<Rightarrow> None)"
| "do_eval env (RunFun f c) =
    (case do_eval env c of
       Some (Inl e, c') \<Rightarrow> Some (Inl e, RunFun f c')
     | Some (Inr (IntV i), c') \<Rightarrow>
       Some (map_res (\<lambda>i. field_value env False i (fe_run env i) f) (run_index env i), RunFun f c')
     | _ \<Rightarrow> None)"
| "do_eval env (Cast t c) =
    (case do_eval env c of
       Some (Inl e, c') \<Rightarrow> Some (Inl e, Cast t c')
     | Some (Inr a, c') \<Rightarrow> with_node (Cast t c') (eval_cast (fe_mc env) t a)
     | None \<Rightarrow> None)"
| "do_eval env (CurVar f) = Some (Inr (field_value env True (re_run_id (cur_run env)) (cur_run env) f), CurVar f)"
| "do_eval env RunId = Some (Inr (IntV (fe_rid env)), RunId)"
| "do_eval env Now = Some (Inr (TimeV (fe_cur_time env)), Now)"
| "do_eval env Start = Some (Inr (TimeV (rh_start_time (fe_head env))), Start)"
| "do_eval env Finish = Some (Inr (TimeV (rh_stop_time (fe_head env))), Finish)"
| "do_eval env Total = Some (Inr (IntV (rtotal env)), Total)"
| "do_eval env CurTotalScore = Some (Inr (IntV (fe_score env (re_user_id (cur_run env)))), CurTotalScore)"
| "do_eval env (Lit v) = Some (Inr v, Lit v)"
| "do_eval env (Examinator l r) =
    (case do_eval env l of
       Some (Inl e, l') \<Rightarrow> Some (Inl e, Examinator l' r)
     | Some (Inr (IntV i), l') \<Rightarrow>
       (case run_index env i of
          Inl e \<Rightarrow> Some (Inl e, Examinator l' r)
        | Inr _ \<Rightarrow>
          (case do_eval env r of
             Some (Inl e, r') \<Rightarrow> Some (Inl e, Examinator l' r')
           | Some (Inr (IntV _), r') \<Rightarrow> Some (Inr (BoolV 0), Examinator l' r')
           | _ \<Rightarrow> None))
     | _ \<Rightarrow> None)"
| "do_eval env (CurExaminator c) =
    (case do_eval env c of
       Some (Inl e, c') \<Rightarrow> Some (Inl e, CurExaminator c')
     | Some (Inr (IntV _), c') \<Rightarrow> Some (Inr (BoolV 0), CurExaminator c')
     | _ \<Rightarrow> None)"
| "do_eval env (InUserGroup c) =
    (case do_eval env c of
       Some (Inl e, c') \<Rightarrow> Some (Inl e, InUserGroup c')
     | Some (Inr (StrV s), c') \<Rightarrow>
       (let g = find_user_group env s in
        with_node (InUserGroupInt (Lit (IntV g)))
          (map_option (\<lambda>b. Inr (BoolV b)) (check_user_group env (re_user_id (cur_run env)) g)))
     | _ \<Rightarrow> None)"
| "do_eval env (InUserGroupInt c) =
    (case do_eval env c of
       Some (Inl e, c') \<Rightarrow> Some (Inl e, InUserGroupInt c')
     | Some (Inr (IntV g), c') \<Rightarrow>
       with_node (InUserGroupInt c')
         (map_option (\<lambda>b. Inr (BoolV b)) (check_user_group env (re_user_id (cur_run env)) g))
     | _ \<Rightarrow> None)"
| "do_eval env Null = None"
| "do_eval env Blank = None"

definition filter_tree_bool_eval :: "filter_env \<Rightarrow> tree \<Rightarrow> (int \<times> tree) option" where
  "filter_tree_bool_eval env t =
    (if node_type t \<noteq> Some FT_BOOL \<or> fe_rid env < 0 \<or> fe_rid env \<ge> rtotal env then None
     else (case do_eval env t of
             Some (Inl e, t') \<Rightarrow> Some (- err_code e, t')
           | Some (Inr (BoolV b), t') \<Rightarrow> Some (b, t')
           | _ \<Rightarrow> None))"

section \<open>The list of runs\<close>

text \<open>
  The loop over all runs: the numbers of the runs that match and the messages \<open>run %d: %s\<close>, with the
  tree as the evaluations left it.
\<close>

definition eval_msg :: "int \<Rightarrow> int \<Rightarrow> string" where
  "eval_msg i r = ''run '' @ dec_int i @ '': '' @ filter_strerror (- r)"

fun match_runs :: "filter_env \<Rightarrow> int list \<Rightarrow> tree \<Rightarrow> (int list \<times> string list \<times> tree) option" where
  "match_runs env [] t = Some ([], [], t)"
| "match_runs env (i # is) t =
    (case filter_tree_bool_eval (env\<lparr>fe_rid := i\<rparr>) t of
       None \<Rightarrow> None
     | Some (r, t') \<Rightarrow>
       map_option (\<lambda>(ms, es, t'').
         (if r < 0 \<or> r = 0 then ms else i # ms, if r < 0 then eval_msg i r # es else es, t''))
         (match_runs env is t'))"

text \<open>The bounds asked for (\<open>None\<close> when not set), turned into a range of the matching runs.\<close>

definition view_bounds :: "int option \<Rightarrow> int option \<Rightarrow> int \<Rightarrow> int \<times> int" where
  "view_bounds first_set last_set match_tot =
    (let (f, l) = (case (first_set, last_set) of
                     (None, None) \<Rightarrow> (-1, -20)
                   | (None, Some l) \<Rightarrow> (-1, l)
                   | (Some f, None) \<Rightarrow> (f, if f \<ge> 0 \<and> f - 20 + 1 < 0 then 0 else f - 20 + 1)
                   | (Some f, Some l) \<Rightarrow> (f, l));
         clip = (\<lambda>x. let x1 = (if x \<ge> match_tot then (if match_tot - 1 < 0 then 0 else match_tot - 1) else x) in
                     if x1 < 0 then (if match_tot + x1 < 0 then 0 else match_tot + x1) else x1)
     in (clip f, clip l))"

definition view_runs :: "int option \<Rightarrow> int option \<Rightarrow> int list \<Rightarrow> int list" where
  "view_runs first_set last_set match =
    (case view_bounds first_set last_set (int (length match)) of (f, l) \<Rightarrow>
       if f \<le> l then map (\<lambda>i. match ! nat i) [f .. min l (int (length match) - 1)]
       else map (\<lambda>i. match ! nat i) (rev [l .. f]))"

end
