(* ===== verification/Filter_Parse.thy ===== *)
theory Filter_Parse
  imports Filter_Eval
begin

text \<open>
  The construction of a filter tree: the semantic actions of \<open>filter_expr.y\<close> and the values of the tokens
  of \<open>filter_scan.lex\<close>.  The grammar itself, which the generated parser implements, is the datatype
  \<open>expr\<close>.  An action gives the node and the number of errors it reported; \<open>None\<close> is an abort of the
  server inside the evaluation of constants.
\<close>

section \<open>Expressions\<close>

text \<open>
  \<open>EField\<close> is the bare name of a field, \<open>ECurField\<close> the name with \<open>cur\<close>, \<open>EFieldOf\<close> the call with a run
  number.  A number is kept as its text.
\<close>

datatype expr =
    EStr string | EInt string | EBool bool | EResult int | EId | ENow | EStart | EFinish | ETotal | ETotalScore
  | EField run_field | ECurField run_field | EFieldOf run_field expr | EExaminatorOf expr expr | EExaminator expr
  | EInUserGroup expr | ECast ftype expr | EOr expr expr | EAnd expr expr | EBin binop expr expr | EUn unop expr
  | EPlus expr

type_synonym action = "(tree \<times> nat) option"

section \<open>Checks\<close>

definition check_int :: "tree \<Rightarrow> tree \<times> nat" where
  "check_int p = (if node_type p \<noteq> Some FT_INT then (Lit (IntV 0), 1) else (p, 0))"

definition check_bool :: "tree \<Rightarrow> tree \<times> nat" where
  "check_bool p = (if node_type p \<noteq> Some FT_BOOL then (Lit (BoolV 0), 1) else (p, 0))"

definition check_string :: "tree \<Rightarrow> tree \<times> nat" where
  "check_string p = (if node_type p \<noteq> Some FT_STRING then (Lit (StrV []), 1) else (p, 0))"

section \<open>Types of the binary operations\<close>

definition add_type :: "ftype option \<Rightarrow> ftype option \<Rightarrow> ftype option" where
  "add_type t1 t2 =
    (if t1 = Some FT_HASH \<or> t2 = Some FT_HASH \<or> t1 = Some FT_IP \<or> t2 = Some FT_IP \<or> t1 = Some FT_RESULT
       \<or> t2 = Some FT_RESULT \<or> t1 = Some FT_BOOL \<or> t2 = Some FT_BOOL then None
     else if t1 = Some FT_STRING \<and> t2 = Some FT_STRING then Some FT_STRING
     else if t1 = Some FT_STRING \<or> t2 = Some FT_STRING then None
     else if t1 = Some FT_SIZE \<and> t2 = Some FT_SIZE then Some FT_SIZE
     else if t1 = Some FT_SIZE \<and> t2 = Some FT_INT then Some FT_SIZE
     else if t1 = Some FT_INT \<and> t2 = Some FT_SIZE then Some FT_SIZE
     else if t1 = Some FT_SIZE \<or> t2 = Some FT_SIZE then None
     else if t1 = Some FT_TIME \<and> t2 = Some FT_TIME then None
     else if t1 = Some FT_TIME \<or> t2 = Some FT_TIME then Some FT_TIME
     else if t1 = Some FT_DUR \<or> t2 = Some FT_DUR then Some FT_DUR
     else Some FT_INT)"

definition sub_type :: "ftype option \<Rightarrow> ftype option \<Rightarrow> ftype option" where
  "sub_type t1 t2 =
    (if t1 \<noteq> Some FT_INT \<and> t1 \<noteq> Some FT_TIME \<and> t1 \<noteq> Some FT_DUR \<and> t1 \<noteq> Some FT_SIZE then None
     else if t2 \<noteq> Some FT_INT \<and> t2 \<noteq> Some FT_TIME \<and> t2 \<noteq> Some FT_DUR \<and> t2 \<noteq> Some FT_SIZE then None
     else if t1 = Some FT_SIZE \<and> t2 = Some FT_SIZE then Some FT_INT
     else if t1 = Some FT_SIZE \<and> t2 = Some FT_INT then Some FT_SIZE
     else if t1 = Some FT_SIZE \<or> t2 = Some FT_SIZE then None
     else if t1 = Some FT_TIME \<and> t2 = Some FT_TIME then Some FT_DUR
     else if t2 = Some FT_TIME then None
     else if t1 = Some FT_TIME \<and> t2 = Some FT_INT then Some FT_TIME
     else if t1 = Some FT_TIME \<and> t2 = Some FT_DUR then Some FT_TIME
     else if t1 = Some FT_DUR \<or> t2 = Some FT_DUR then Some FT_DUR
     else Some FT_INT)"

definition divmod_type :: "ftype option \<Rightarrow> ftype option \<Rightarrow> ftype option" where
  "divmod_type t1 t2 =
    (if t1 \<noteq> Some FT_INT \<and> t1 \<noteq> Some FT_DUR \<and> t1 \<noteq> Some FT_SIZE then None
     else if t2 \<noteq> Some FT_INT \<and> t2 \<noteq> Some FT_DUR \<and> t2 \<noteq> Some FT_SIZE then None
     else if t1 = Some FT_INT \<and> t2 = Some FT_INT then Some FT_INT
     else if t1 = Some FT_SIZE \<and> t2 = Some FT_SIZE then Some FT_INT
     else if t1 = Some FT_DUR \<and> t2 = Some FT_DUR then Some FT_INT
     else if t1 = Some FT_SIZE \<and> t2 = Some FT_INT then Some FT_SIZE
     else if t1 = Some FT_DUR \<and> t2 = Some FT_INT then Some FT_DUR
     else None)"

section \<open>Constant folding\<close>

text \<open>
  When both operands are constants the action evaluates them.  After an error it still returns the node
  that \<open>filter_tree_eval_node\<close> filled: a zero of the type when the kind was set first, else a blank node.
\<close>

definition failed_node :: "binop \<Rightarrow> ftype \<Rightarrow> tree" where
  "failed_node op t = (if op \<in> {AddOp, SubOp, AslOp, AsrOp} then Lit (zero_val t) else Blank)"

definition fold_bin :: "machine \<Rightarrow> binop \<Rightarrow> ftype \<Rightarrow> tree \<Rightarrow> tree \<Rightarrow> action" where
  "fold_bin mc op t p1 p2 =
    (case (p1, p2) of
       (Lit a, Lit b) \<Rightarrow>
         (case eval_bin mc op a b of None \<Rightarrow> None | Some (Inr v) \<Rightarrow> Some (Lit v, 0) | Some (Inl e) \<Rightarrow> Some (failed_node op t, 1))
     | _ \<Rightarrow> Some (Bin op t p1 p2, 0))"

definition do_add :: "machine \<Rightarrow> tree \<Rightarrow> tree \<Rightarrow> action" where
  "do_add mc p1 p2 =
    (case add_type (node_type p1) (node_type p2) of None \<Rightarrow> Some (Lit (IntV 0), 1) | Some t \<Rightarrow> fold_bin mc AddOp t p1 p2)"

definition do_sub :: "machine \<Rightarrow> tree \<Rightarrow> tree \<Rightarrow> action" where
  "do_sub mc p1 p2 =
    (case sub_type (node_type p1) (node_type p2) of None \<Rightarrow> Some (Lit (IntV 0), 1) | Some t \<Rightarrow> fold_bin mc SubOp t p1 p2)"

definition do_divmod :: "machine \<Rightarrow> binop \<Rightarrow> tree \<Rightarrow> tree \<Rightarrow> action" where
  "do_divmod mc op p1 p2 =
    (case divmod_type (node_type p1) (node_type p2) of None \<Rightarrow> Some (Lit (IntV 0), 1) | Some t \<Rightarrow> fold_bin mc op t p1 p2)"

definition do_bitop :: "machine \<Rightarrow> binop \<Rightarrow> tree \<Rightarrow> tree \<Rightarrow> action" where
  "do_bitop mc op p1 p2 =
    (if node_type p1 \<noteq> Some FT_INT \<or> node_type p2 \<noteq> Some FT_INT then Some (Lit (IntV 0), 1)
     else fold_bin mc op FT_INT p1 p2)"

definition do_equality :: "machine \<Rightarrow> binop \<Rightarrow> tree \<Rightarrow> tree \<Rightarrow> action" where
  "do_equality mc op p1 p2 =
    (if node_type p1 \<noteq> node_type p2 then Some (Lit (BoolV 0), 1) else fold_bin mc op FT_BOOL p1 p2)"

definition do_relation :: "machine \<Rightarrow> binop \<Rightarrow> tree \<Rightarrow> tree \<Rightarrow> action" where
  "do_relation mc op p1 p2 =
    (if node_type p1 = Some FT_HASH \<or> node_type p1 = Some FT_RESULT \<or> node_type p1 = Some FT_IP then Some (Lit (BoolV 0), 1)
     else if node_type p1 \<noteq> node_type p2 then Some (Lit (BoolV 0), 1)
     else fold_bin mc op FT_BOOL p1 p2)"

definition do_regexp :: "tree \<Rightarrow> tree \<Rightarrow> action" where
  "do_regexp p1 p2 =
    (if node_type p1 \<noteq> Some FT_STRING \<or> node_type p2 \<noteq> Some FT_STRING then Some (Lit (BoolV 0), 1)
     else Some (Bin RegexpOp FT_BOOL p1 p2, 0))"

text \<open>An integer first operand is swapped behind the other operand.\<close>

definition mul_operand :: "ftype option \<Rightarrow> bool" where
  "mul_operand t \<longleftrightarrow> t = Some FT_INT \<or> t = Some FT_DUR \<or> t = Some FT_SIZE"

definition do_multiply :: "machine \<Rightarrow> tree \<Rightarrow> tree \<Rightarrow> action" where
  "do_multiply mc p1 p2 =
    (let t1 = node_type p1; t2 = node_type p2 in
     if \<not> mul_operand t1 \<or> \<not> mul_operand t2 then Some (Lit (IntV 0), 1)
     else if t1 = Some FT_INT \<and> t2 = Some FT_INT then fold_bin mc MulOp FT_INT p1 p2
     else if t1 = Some FT_INT then fold_bin mc MulOp (the t2) p2 p1
     else if t2 = Some FT_INT then fold_bin mc MulOp (the t1) p1 p2
     else Some (Lit (IntV 0), 1))"

definition do_logor :: "tree \<Rightarrow> tree \<Rightarrow> action" where
  "do_logor p1 p2 =
    (case (check_bool p1, check_bool p2) of ((q1, n1), (q2, n2)) \<Rightarrow>
       (case q1 of Lit (BoolV b) \<Rightarrow> Some (if b \<noteq> 0 then Lit (BoolV 1) else q2, n1 + n2)
        | _ \<Rightarrow> Some (LogOr q1 q2, n1 + n2)))"

definition do_logand :: "tree \<Rightarrow> tree \<Rightarrow> action" where
  "do_logand p1 p2 =
    (case (check_bool p1, check_bool p2) of ((q1, n1), (q2, n2)) \<Rightarrow>
       (case q1 of Lit (BoolV b) \<Rightarrow> Some (if b \<noteq> 0 then q2 else Lit (BoolV 0), n1 + n2)
        | _ \<Rightarrow> Some (LogAnd q1 q2, n1 + n2)))"

definition do_un :: "unop \<Rightarrow> tree \<Rightarrow> action" where
  "do_un op p =
    (case (if op = LogNot then check_bool p else check_int p) of (q, n) \<Rightarrow>
       (case q of
          Lit v \<Rightarrow> (case eval_un op v of None \<Rightarrow> None | Some (Inr w) \<Rightarrow> Some (Lit w, n) | Some (Inl e) \<Rightarrow> Some (Blank, n + 1))
        | _ \<Rightarrow> Some (UnNode op q, n)))"

section \<open>Casts\<close>

text \<open>
  \<open>do_int_cast\<close> tests the kind where it means the type, so an integer expression keeps a cast around it.
  Folded booleans are normalised to 0 and 1.
\<close>

definition normal_bool :: "fval \<Rightarrow> fval" where
  "normal_bool v = (case v of BoolV b \<Rightarrow> BoolV (c_bool (b \<noteq> 0)) | _ \<Rightarrow> v)"

definition fold_cast :: "machine \<Rightarrow> ftype \<Rightarrow> fval \<Rightarrow> action" where
  "fold_cast mc t v =
    (case eval_cast mc t v of None \<Rightarrow> None
     | Some (Inl e) \<Rightarrow> Some (Lit (zero_val t), 1)
     | Some (Inr w) \<Rightarrow> Some (Lit (normal_bool w), 0))"

definition do_cast :: "machine \<Rightarrow> ftype \<Rightarrow> tree \<Rightarrow> action" where
  "do_cast mc t p =
    (if t = FT_INT then (case p of Lit v \<Rightarrow> fold_cast mc FT_INT v | _ \<Rightarrow> Some (Cast FT_INT p, 0))
     else if node_type p = Some t then Some (p, 0)
     else if t = FT_BOOL \<or> t = FT_STRING then (case p of Lit v \<Rightarrow> fold_cast mc t v | _ \<Rightarrow> Some (Cast t p, 0))
     else (case p of
             Lit (StrV s) \<Rightarrow> fold_cast mc t (StrV s)
           | Lit (IntV i) \<Rightarrow> if t = FT_HASH then Some (Lit (zero_val t), 1) else fold_cast mc t (IntV i)
           | _ \<Rightarrow>
             if node_type p = Some FT_STRING \<or> node_type p = Some FT_INT \<and> t \<noteq> FT_HASH then Some (Cast t p, 0)
             else Some (Lit (zero_val t), 1)))"

section \<open>Tokens\<close>

text \<open>\<open>handle_int\<close>: the value is cut to 32 bits; only an overflow of \<open>long\<close> is reported.\<close>

definition handle_int :: "string \<Rightarrow> int \<times> nat" where
  "handle_int s = (case strtol0 s of (v, erange, _) \<Rightarrow> if erange then (0, 1) else (to_s32 v, 0))"

section \<open>The tree of an expression\<close>

definition bind_act :: "action \<Rightarrow> (tree \<Rightarrow> action) \<Rightarrow> action" where
  "bind_act a f = Option.bind a (\<lambda>(t, n). map_option (\<lambda>(u, k). (u, n + k)) (f t))"

definition do_bin :: "machine \<Rightarrow> binop \<Rightarrow> tree \<Rightarrow> tree \<Rightarrow> action" where
  "do_bin mc op p1 p2 =
    (if op = AddOp then do_add mc p1 p2
     else if op = SubOp then do_sub mc p1 p2
     else if op = MulOp then do_multiply mc p1 p2
     else if op = DivOp \<or> op = ModOp then do_divmod mc op p1 p2
     else if op = EqOp \<or> op = NeOp then do_equality mc op p1 p2
     else if op = RegexpOp then do_regexp p1 p2
     else if op \<in> {LtOp, LeOp, GtOp, GeOp} then do_relation mc op p1 p2
     else do_bitop mc op p1 p2)"

definition with_checked :: "tree \<times> nat \<Rightarrow> (tree \<Rightarrow> tree) \<Rightarrow> action" where
  "with_checked r f = (case r of (q, n) \<Rightarrow> Some (f q, n))"

text \<open>The bare \<open>store_flags\<close> keeps its kind and gets no operand, unlike every other field.\<close>

fun build :: "machine \<Rightarrow> expr \<Rightarrow> action" where
  "build mc (EStr s) = Some (Lit (StrV s), 0)"
| "build mc (EInt s) = (case handle_int s of (v, n) \<Rightarrow> Some (Lit (IntV v), n))"
| "build mc (EBool b) = Some (Lit (BoolV (c_bool b)), 0)"
| "build mc (EResult r) = Some (Lit (ResultV r), 0)"
| "build mc EId = Some (RunId, 0)"
| "build mc ENow = Some (Now, 0)"
| "build mc EStart = Some (Start, 0)"
| "build mc EFinish = Some (Finish, 0)"
| "build mc ETotal = Some (Total, 0)"
| "build mc ETotalScore = Some (CurTotalScore, 0)"
| "build mc (EField f) = Some (if f = R_STORE_FLAGS then RunFun f Null else CurVar f, 0)"
| "build mc (ECurField f) = Some (CurVar f, 0)"
| "build mc (EFieldOf f e) = bind_act (build mc e) (\<lambda>p. with_checked (check_int p) (RunFun f))"
| "build mc (EExaminatorOf e1 e2) =
    bind_act (build mc e1) (\<lambda>p1. bind_act (build mc e2) (\<lambda>p2.
      case (check_int p1, check_int p2) of ((q1, n1), (q2, n2)) \<Rightarrow> Some (Examinator q1 q2, n1 + n2)))"
| "build mc (EExaminator e) = bind_act (build mc e) (\<lambda>p. with_checked (check_int p) CurExaminator)"
| "build mc (EInUserGroup e) = bind_act (build mc e) (\<lambda>p. with_checked (check_string p) InUserGroup)"
| "build mc (ECast t e) = bind_act (build mc e) (do_cast mc t)"
| "build mc (EOr e1 e2) = bind_act (build mc e1) (\<lambda>p1. bind_act (build mc e2) (\<lambda>p2. do_logor p1 p2))"
| "build mc (EAnd e1 e2) = bind_act (build mc e1) (\<lambda>p1. bind_act (build mc e2) (\<lambda>p2. do_logand p1 p2))"
| "build mc (EBin op e1 e2) = bind_act (build mc e1) (\<lambda>p1. bind_act (build mc e2) (\<lambda>p2. do_bin mc op p1 p2))"
| "build mc (EUn op e) = bind_act (build mc e) (do_un op)"
| "build mc (EPlus e) = bind_act (build mc e) (\<lambda>p. Some (check_int p))"

end
