(* ===== verification/Filter_Laws.thy ===== *)
theory Filter_Laws
  imports Filter_Parse Query_Laws
begin

text \<open>
  What filters do: a filter that the parser accepts evaluates on every run without an abort and to a value of
  its type, up to two faults of the program that are stated as theorems; results stay in their ranges;
  the folding of constants does not change the value.
\<close>

section \<open>Typing\<close>

definition op_type :: "binop \<Rightarrow> ftype option \<Rightarrow> ftype option \<Rightarrow> ftype option" where
  "op_type op t1 t2 =
    (if op = AddOp then (if t1 = None \<or> t2 = None then None else add_type t1 t2)
     else if op = SubOp then sub_type t1 t2
     else if op = DivOp \<or> op = ModOp then divmod_type t1 t2
     else if op = MulOp then (if mul_operand t1 \<and> t2 = Some FT_INT then t1 else None)
     else if op = EqOp \<or> op = NeOp then (if t1 = t2 \<and> t1 \<noteq> None then Some FT_BOOL else None)
     else if op = RegexpOp then (if t1 = Some FT_STRING \<and> t2 = Some FT_STRING then Some FT_BOOL else None)
     else if op \<in> {LtOp, LeOp, GtOp, GeOp}
       then (if t1 = t2 \<and> t1 \<noteq> None \<and> t1 \<notin> {Some FT_HASH, Some FT_RESULT, Some FT_IP} then Some FT_BOOL else None)
     else (if t1 = Some FT_INT \<and> t2 = Some FT_INT then Some FT_INT else None))"

definition cast_ok :: "ftype \<Rightarrow> ftype \<Rightarrow> bool" where
  "cast_ok t s \<longleftrightarrow>
    (if t = FT_INT \<or> t = FT_BOOL then True
     else if t = FT_STRING then s \<noteq> FT_IP
     else s = t \<or> s = FT_STRING \<or> s = FT_INT \<and> t \<noteq> FT_HASH)"

fun wt :: "tree \<Rightarrow> bool" where
  "wt Null = False"
| "wt Blank = False"
| "wt (LogOr l r) = (wt l \<and> wt r \<and> node_type l = Some FT_BOOL \<and> node_type r = Some FT_BOOL)"
| "wt (LogAnd l r) = (wt l \<and> wt r \<and> node_type l = Some FT_BOOL \<and> node_type r = Some FT_BOOL)"
| "wt (Bin op t l r) = (wt l \<and> wt r \<and> op_type op (node_type l) (node_type r) = Some t)"
| "wt (UnNode op c) = (wt c \<and> node_type c = Some (un_type op))"
| "wt (RunFun f c) = (wt c \<and> node_type c = Some FT_INT)"
| "wt (Cast t c) = (wt c \<and> (\<exists>s. node_type c = Some s \<and> cast_ok t s))"
| "wt (Examinator l r) = (wt l \<and> wt r \<and> node_type l = Some FT_INT \<and> node_type r = Some FT_INT)"
| "wt (CurExaminator c) = (wt c \<and> node_type c = Some FT_INT)"
| "wt (InUserGroup c) = (wt c \<and> node_type c = Some FT_STRING)"
| "wt (InUserGroupInt c) = (wt c \<and> node_type c = Some FT_INT)"
| "wt _ = True"

text \<open>The result of an operation that is defined and of the type \<open>t\<close>.\<close>

definition typed :: "ftype \<Rightarrow> fres option \<Rightarrow> bool" where
  "typed t r \<longleftrightarrow> (case r of None \<Rightarrow> False | Some (Inl e) \<Rightarrow> True | Some (Inr v) \<Rightarrow> vtype v = t)"

lemma typed_simps [simp]:
  "typed t (Some (Inl e))" "typed t (Some (Inr v)) \<longleftrightarrow> vtype v = t" "\<not> typed t None"
  by (simp_all add: typed_def)

lemma vtype_simps [simp]:
  "vtype (IntV i) = FT_INT" "vtype (StrV s) = FT_STRING" "vtype (BoolV i) = FT_BOOL" "vtype (TimeV i) = FT_TIME"
  "vtype (DurV i) = FT_DUR" "vtype (SizeV i) = FT_SIZE" "vtype (ResultV i) = FT_RESULT" "vtype (HashV h) = FT_HASH"
  "vtype (IpV p) = FT_IP"
  by (simp_all add: vtype_def)

lemma vtypeD:
  "vtype v = FT_INT \<Longrightarrow> \<exists>i. v = IntV i" "vtype v = FT_STRING \<Longrightarrow> \<exists>s. v = StrV s"
  "vtype v = FT_BOOL \<Longrightarrow> \<exists>b. v = BoolV b" "vtype v = FT_TIME \<Longrightarrow> \<exists>a. v = TimeV a"
  "vtype v = FT_DUR \<Longrightarrow> \<exists>u. v = DurV u" "vtype v = FT_SIZE \<Longrightarrow> \<exists>z. v = SizeV z"
  "vtype v = FT_RESULT \<Longrightarrow> \<exists>r. v = ResultV r" "vtype v = FT_HASH \<Longrightarrow> \<exists>h. v = HashV h"
  "vtype v = FT_IP \<Longrightarrow> \<exists>p. v = IpV p"
  by (simp_all add: vtype_def split: fval.splits del: split_paired_Ex)

lemma typed_fit [simp]:
  "typed t (Some (fit_size x)) \<longleftrightarrow> x < 0 \<or> x > UINT_MAX \<or> t = FT_SIZE"
  "typed FT_INT (Some (fit_int IntV x))" "typed FT_DUR (Some (fit_int DurV x))" "typed FT_TIME (Some (fit_int TimeV x))"
  by (auto simp: fit_size_def fit_int_def)

lemma typed_if [simp]: "typed t (Some (if c then Inl e else r)) \<longleftrightarrow> c \<or> typed t (Some r)"
  by simp

lemma eval_add_typed: "add_type (Some (vtype a)) (Some (vtype b)) = Some t \<Longrightarrow> typed t (add_node a b)"
  by (cases a; cases b) (auto simp: add_type_def add_node_def add_table_def type_code_def Let_def)

lemma eval_sub_typed: "sub_type (Some (vtype a)) (Some (vtype b)) = Some t \<Longrightarrow> typed t (sub_node a b)"
  by (cases a; cases b) (auto simp: sub_type_def sub_node_def sub_table_def type_code_def Let_def)

lemma eval_divmod_typed:
  "divmod_type (Some (vtype a)) (Some (vtype b)) = Some t \<Longrightarrow> typed t (div_node a b)"
  "divmod_type (Some (vtype a)) (Some (vtype b)) = Some t \<Longrightarrow> typed t (mod_node a b)"
  by (cases a; cases b; auto simp: divmod_type_def div_node_def mod_node_def)+

lemma eval_mul_typed: "mul_operand (Some (vtype a)) \<Longrightarrow> vtype b = FT_INT \<Longrightarrow> typed (vtype a) (mul_node a b)"
  by (cases a; cases b) (auto simp: mul_operand_def mul_node_def)

lemma eval_rel_typed:
  "vtype a = vtype b \<Longrightarrow> vtype a \<notin> {FT_HASH, FT_RESULT, FT_IP} \<Longrightarrow> typed FT_BOOL (rel_node r a b)"
  by (cases a) (auto simp: rel_node_def)

lemma eval_eq_typed: "vtype a = vtype b \<Longrightarrow> typed FT_BOOL (map_option (\<lambda>b. Inr (BoolV (f b))) (eq_node a b))"
  by (simp add: eq_node_def)

lemma eval_ints_typed:
  "vtype a = FT_INT \<Longrightarrow> vtype b = FT_INT \<Longrightarrow> (\<And>i j. typed FT_INT (Some (f i j))) \<Longrightarrow> typed FT_INT (two_ints f a b)"
  by (auto simp: two_ints_def dest!: vtypeD(1))

lemma eval_bin_typed:
  assumes "op_type op (Some (vtype a)) (Some (vtype b)) = Some t"
  shows "typed t (eval_bin mc op a b)"
  using assms
  by (cases op) (auto simp: op_type_def eval_bin_def shl_node_def shr_node_def regexp_node_def split: if_splits
      intro!: eval_add_typed eval_sub_typed eval_divmod_typed eval_mul_typed eval_rel_typed eval_eq_typed eval_ints_typed)

lemma eval_un_typed: "vtype v = un_type op \<Longrightarrow> typed (un_type op) (eval_un op v)"
  by (cases op) (auto simp: un_type_def eval_un_def dest!: vtypeD)

lemma map_res_simps [simp]: "map_res f (Inl e) = Inl e" "map_res f (Inr x) = Inr (f x)"
  by (simp_all add: map_res_def)

lemma typed_map_res: "(\<And>x. vtype (f x) = t) \<Longrightarrow> typed t (Some (map_res f r))"
  by (cases r) simp_all

lemma str_to_dur_typed: "typed FT_DUR (Some (str_to_dur s))"
  by (auto simp: str_to_dur_def bind_res_def split: option.splits sum.splits)

lemma eval_cast_typed: "cast_ok t (vtype v) \<Longrightarrow> typed t (eval_cast mc t v)"
  by (cases t; cases v)
     (auto simp: eval_cast_def cast_ok_def cast_int_def cast_string_def cast_bool_def cast_time_def cast_dur_def
       cast_size_def cast_result_def cast_hash_def cast_ip_def Let_def str_to_dur_typed typed_map_res split: option.splits)

lemma field_value_typed [simp]: "vtype (field_value env cur rid e f) = field_type f"
  by (cases f) (simp_all add: field_value_def field_type_def user_flag_def)


section \<open>Evaluation of well-typed trees\<close>

text \<open>The bitmap of a user has a bit for every group.\<close>

definition env_ok :: "filter_env \<Rightarrow> bool" where
  "env_ok env \<longleftrightarrow> (\<forall>m \<in> set (fe_bitmaps env). case m of None \<Rightarrow> True | Some b \<Rightarrow> length (fe_groups env) \<le> 32 * length b)"

lemma check_user_group_typed:
  assumes "env_ok env"
  shows "typed FT_BOOL (map_option (\<lambda>b. Inr (BoolV b)) (check_user_group env u g))"
proof -
  have key: "nat g div 32 < length b"
    if "0 \<le> i" "i < int (length (fe_bitmaps env))" "fe_bitmaps env ! nat i = Some b" "0 \<le> g"
      "g < int (length (fe_groups env))" for i b
  proof -
    have "fe_bitmaps env ! nat i \<in> set (fe_bitmaps env)" using that(1,2) by (simp add: nat_less_iff)
    then have "length (fe_groups env) \<le> 32 * length b" using assms that(3) by (fastforce simp: env_ok_def)
    then have "nat g < 32 * length b" using that(4,5) by linarith
    then show ?thesis by (simp add: div_less_iff_less_mult mult.commute)
  qed
  then have "check_user_group env u g \<noteq> None"
    by (auto simp: check_user_group_def Let_def split: option.splits dest!: key [rotated 2, simplified not_less [symmetric]])
  then show ?thesis by auto
qed

text \<open>A result with the tree it leaves: typed, and the tree still well-typed and of the same type.\<close>

definition good :: "tree \<Rightarrow> (fres \<times> tree) option \<Rightarrow> bool" where
  "good t r \<longleftrightarrow> (\<exists>x t'. r = Some (x, t') \<and> wt t' \<and> node_type t' = node_type t
     \<and> (\<forall>v. x = Inr v \<longrightarrow> node_type t = Some (vtype v)))"

lemma goodE:
  assumes "good t r"
  obtains (Err) e t' where "r = Some (Inl e, t')" "wt t'" "node_type t' = node_type t"
  | (Val) v t' where "r = Some (Inr v, t')" "wt t'" "node_type t' = node_type t" "node_type t = Some (vtype v)"
  using assms unfolding good_def by (metis sumE)

lemma good_err [simp]: "good t (Some (Inl e, t')) \<longleftrightarrow> wt t' \<and> node_type t' = node_type t"
  by (auto simp: good_def)

lemma good_val [simp]:
  "good t (Some (Inr v, t')) \<longleftrightarrow> wt t' \<and> node_type t' = node_type t \<and> node_type t = Some (vtype v)"
  by (auto simp: good_def)

lemma good_with_node:
  "typed ty r \<Longrightarrow> wt t' \<Longrightarrow> node_type t' = node_type t \<Longrightarrow> node_type t = Some ty \<Longrightarrow> good t (with_node t' r)"
  by (auto simp: typed_def with_node_def good_def split: option.splits sum.splits)

lemma node_type_simps [simp]:
  "node_type (Lit v) = Some (vtype v)" "node_type (LogOr l r) = Some FT_BOOL" "node_type (LogAnd l r) = Some FT_BOOL"
  "node_type (Bin op ty l r) = Some ty" "node_type (UnNode u c) = Some (un_type u)"
  "node_type (RunFun f c) = Some (field_type f)" "node_type (CurVar f) = Some (field_type f)"
  "node_type (Cast ty c) = Some ty" "node_type RunId = Some FT_INT" "node_type Now = Some FT_TIME"
  "node_type Start = Some FT_TIME" "node_type Finish = Some FT_TIME" "node_type Total = Some FT_INT"
  "node_type CurTotalScore = Some FT_INT" "node_type (Examinator l r) = Some FT_BOOL"
  "node_type (CurExaminator c) = Some FT_BOOL" "node_type (InUserGroup c) = Some FT_BOOL"
  "node_type (InUserGroupInt c) = Some FT_BOOL" "node_type Null = None" "node_type Blank = None"
  by (simp_all add: node_type_def)

lemma do_eval_good: "wt t \<Longrightarrow> env_ok env \<Longrightarrow> good t (do_eval env t)"
proof (induction t)
  case (LogOr l r)
  then have "good l (do_eval env l)" "good r (do_eval env r)" by auto
  then show ?case using LogOr.prems by (elim goodE) (auto dest!: vtypeD(3))
next
  case (LogAnd l r)
  then have "good l (do_eval env l)" "good r (do_eval env r)" by auto
  then show ?case using LogAnd.prems by (elim goodE) (auto dest!: vtypeD(3))
next
  case (Bin op ty l r)
  then have g: "good l (do_eval env l)" "good r (do_eval env r)" by auto
  have e: "op_type op (node_type l) (node_type r) = Some ty" "wt l" "wt r" using Bin.prems by auto
  from g show ?case
  proof (elim goodE)
    fix a l' b r'
    assume "do_eval env l = Some (Inr a, l')" "do_eval env r = Some (Inr b, r')" and w: "wt l'" "wt r'"
      and n: "node_type l' = node_type l" "node_type r' = node_type r" "node_type l = Some (vtype a)" "node_type r = Some (vtype b)"
    then have d: "do_eval env (Bin op ty l r) = with_node (Bin op ty l' r') (eval_bin (fe_mc env) op a b)" by simp
    show "good (Bin op ty l r) (do_eval env (Bin op ty l r))"
      unfolding d by (rule good_with_node [OF eval_bin_typed]) (use e n w in auto)
  qed (use e in auto)
next
  case (UnNode op c)
  then have "good c (do_eval env c)" by auto
  then show ?case using UnNode.prems by (elim goodE) (auto intro!: good_with_node [OF eval_un_typed])
next
  case (RunFun f c)
  then have "good c (do_eval env c)" by auto
  then show ?case using RunFun.prems
    by (elim goodE) (auto dest!: vtypeD(1) simp: run_index_def Let_def)
next
  case (Cast ty c)
  then have "good c (do_eval env c)" by auto
  then show ?case using Cast.prems by (elim goodE) (auto intro!: good_with_node [OF eval_cast_typed])
next
  case (Examinator l r)
  then have "good l (do_eval env l)" "good r (do_eval env r)" by auto
  then show ?case using Examinator.prems
    by (elim goodE) (auto dest!: vtypeD(1) simp: run_index_def Let_def)
next
  case (CurExaminator c)
  then have "good c (do_eval env c)" by auto
  then show ?case using CurExaminator.prems by (elim goodE) (auto dest!: vtypeD(1))
next
  case (InUserGroup c)
  then have "good c (do_eval env c)" by auto
  then show ?case using InUserGroup.prems
    by (elim goodE) (auto dest!: vtypeD(2) intro!: good_with_node [OF check_user_group_typed] simp: Let_def)
next
  case (InUserGroupInt c)
  then have "good c (do_eval env c)" by auto
  then show ?case using InUserGroupInt.prems
    by (elim goodE) (auto dest!: vtypeD(1) intro!: good_with_node [OF check_user_group_typed] simp: Let_def)
qed (simp_all add: good_def)


section \<open>Trees that the parser builds\<close>

text \<open>An action gives a node, a well-typed one from good operands when it reports no error.\<close>

definition act_ok :: "bool \<Rightarrow> action \<Rightarrow> bool" where
  "act_ok g r \<longleftrightarrow> (\<exists>t n. r = Some (t, n) \<and> (g \<and> n = 0 \<longrightarrow> wt t))"

lemma act_ok_Some [simp]: "act_ok g (Some (t, n)) \<longleftrightarrow> (g \<and> n = 0 \<longrightarrow> wt t)"
  by (simp add: act_ok_def)

lemma act_okE:
  assumes "act_ok g r"
  obtains t n where "r = Some (t, n)" "g \<Longrightarrow> n = 0 \<Longrightarrow> wt t"
  using assms by (auto simp: act_ok_def)

lemma wt_typed: "wt t \<Longrightarrow> \<exists>ty. node_type t = Some ty"
  by (cases t) auto

lemma typedE:
  assumes "typed t r"
  obtains e where "r = Some (Inl e)" | v where "r = Some (Inr v)" "vtype v = t"
  using assms by (auto simp: typed_def split: option.splits sum.splits)

lemma fold_bin_ok:
  assumes "\<And>a b. p1 = Lit a \<Longrightarrow> p2 = Lit b \<Longrightarrow> op_type op (Some (vtype a)) (Some (vtype b)) = Some t"
    and "g \<Longrightarrow> wt p1 \<and> wt p2 \<and> op_type op (node_type p1) (node_type p2) = Some t"
  shows "act_ok g (fold_bin mc op t p1 p2)"
proof (cases "\<exists>a b. p1 = Lit a \<and> p2 = Lit b")
  case True
  then obtain a b where p: "p1 = Lit a" "p2 = Lit b" by blast
  have "typed t (eval_bin mc op a b)" by (rule eval_bin_typed) (rule assms(1) [OF p])
  then show ?thesis by (rule typedE) (auto simp: p fold_bin_def)
next
  case False
  then have "fold_bin mc op t p1 p2 = Some (Bin op t p1 p2, 0)"
    by (auto simp: fold_bin_def split: tree.splits)
  then show ?thesis using assms(2) by simp
qed

lemma do_add_ok: "act_ok (wt p1 \<and> wt p2) (do_add mc p1 p2)"
proof (cases "add_type (node_type p1) (node_type p2)")
  case (Some t)
  then have "act_ok (wt p1 \<and> wt p2) (fold_bin mc AddOp t p1 p2)"
    using wt_typed [of p1] wt_typed [of p2] by (intro fold_bin_ok) (auto simp: op_type_def)
  then show ?thesis by (simp add: do_add_def Some)
qed (simp add: do_add_def)

lemma do_sub_ok: "act_ok (wt p1 \<and> wt p2) (do_sub mc p1 p2)"
proof (cases "sub_type (node_type p1) (node_type p2)")
  case (Some t)
  then have "act_ok (wt p1 \<and> wt p2) (fold_bin mc SubOp t p1 p2)" by (intro fold_bin_ok) (auto simp: op_type_def)
  then show ?thesis by (simp add: do_sub_def Some)
qed (simp add: do_sub_def)

lemma do_divmod_ok:
  assumes "op = DivOp \<or> op = ModOp"
  shows "act_ok (wt p1 \<and> wt p2) (do_divmod mc op p1 p2)"
proof (cases "divmod_type (node_type p1) (node_type p2)")
  case (Some t)
  then have "act_ok (wt p1 \<and> wt p2) (fold_bin mc op t p1 p2)"
    using assms by (intro fold_bin_ok) (auto simp: op_type_def)
  then show ?thesis by (simp add: do_divmod_def Some)
qed (simp add: do_divmod_def)

lemma do_multiply_ok: "act_ok (wt p1 \<and> wt p2) (do_multiply mc p1 p2)"
proof -
  have "act_ok (wt p1 \<and> wt p2) (fold_bin mc MulOp t q1 q2)"
    if "mul_operand (Some t)" "node_type q1 = Some t" "node_type q2 = Some FT_INT" "wt p1 \<and> wt p2 \<longrightarrow> wt q1 \<and> wt q2" for t q1 q2
    using that by (intro fold_bin_ok) (auto simp: op_type_def)
  then show ?thesis by (auto simp: do_multiply_def Let_def mul_operand_def)
qed

lemma do_equality_ok:
  assumes "op = EqOp \<or> op = NeOp"
  shows "act_ok (wt p1 \<and> wt p2) (do_equality mc op p1 p2)"
  unfolding do_equality_def using assms wt_typed [of p1] by (auto simp: op_type_def intro!: fold_bin_ok)

lemma do_relation_ok:
  assumes "op \<in> {LtOp, LeOp, GtOp, GeOp}"
  shows "act_ok (wt p1 \<and> wt p2) (do_relation mc op p1 p2)"
  unfolding do_relation_def using assms wt_typed [of p1] by (auto simp: op_type_def intro!: fold_bin_ok)

lemma do_bitop_ok:
  assumes "op \<in> {XorOp, OrOp, AndOp, AslOp, AsrOp}"
  shows "act_ok (wt p1 \<and> wt p2) (do_bitop mc op p1 p2)"
  unfolding do_bitop_def using assms by (auto simp: op_type_def intro!: fold_bin_ok)

lemma do_bin_ok: "act_ok (wt p1 \<and> wt p2) (do_bin mc op p1 p2)"
  by (cases op) (auto simp: do_bin_def do_add_ok do_sub_ok do_multiply_ok do_divmod_ok do_equality_ok
      do_relation_ok do_bitop_ok do_regexp_def op_type_def)

lemma check_types:
  "check_int p = (q, n) \<Longrightarrow> node_type q = Some FT_INT \<and> (n = 0 \<longrightarrow> q = p)"
  "check_bool p = (q, n) \<Longrightarrow> node_type q = Some FT_BOOL \<and> (n = 0 \<longrightarrow> q = p)"
  "check_string p = (q, n) \<Longrightarrow> node_type q = Some FT_STRING \<and> (n = 0 \<longrightarrow> q = p)"
  by (auto simp: check_int_def check_bool_def check_string_def split: if_splits)

lemma do_un_ok: "act_ok (wt p) (do_un op p)"
proof -
  obtain q n where c: "(if op = LogNot then check_bool p else check_int p) = (q, n)" by fastforce
  then have t: "node_type q = Some (un_type op)" "n = 0 \<longrightarrow> q = p"
    using check_types by (cases op; auto simp: un_type_def)+
  show ?thesis
  proof (cases "\<exists>v. q = Lit v")
    case True
    then obtain v where v: "q = Lit v" by blast
    then have "typed (un_type op) (eval_un op v)" using t by (intro eval_un_typed) simp
    then show ?thesis by (rule typedE) (auto simp: do_un_def c v)
  next
    case False
    then have "do_un op p = Some (UnNode op q, n)" by (auto simp: do_un_def c split: tree.splits)
    then show ?thesis using t by auto
  qed
qed

lemma do_log_ok: "act_ok (wt p1 \<and> wt p2) (do_logor p1 p2)" "act_ok (wt p1 \<and> wt p2) (do_logand p1 p2)"
  by (auto simp: do_logor_def do_logand_def check_bool_def split: tree.splits fval.splits)

lemma fold_cast_ok: "cast_ok t (vtype v) \<Longrightarrow> act_ok g (fold_cast mc t v)"
  using eval_cast_typed [of t v mc] by (auto simp: fold_cast_def elim!: typedE)

lemma do_cast_ok:
  assumes "t = FT_STRING \<Longrightarrow> node_type p \<noteq> Some FT_IP"
  shows "act_ok (wt p) (do_cast mc t p)"
  using assms wt_typed [of p]
  by (auto simp: do_cast_def cast_ok_def fold_cast_ok split: tree.splits fval.splits)


section \<open>Accepted filters\<close>

text \<open>An expression without the two faulty forms: the text of an address and the bare \<open>store_flags\<close>.\<close>

fun safe :: "machine \<Rightarrow> expr \<Rightarrow> bool" where
  "safe mc (EField f) = (f \<noteq> R_STORE_FLAGS)"
| "safe mc (ECast t e) =
    (safe mc e \<and> (t = FT_STRING \<longrightarrow> (case build mc e of Some (p, n) \<Rightarrow> node_type p \<noteq> Some FT_IP | None \<Rightarrow> True)))"
| "safe mc (EFieldOf f e) = safe mc e"
| "safe mc (EExaminatorOf e1 e2) = (safe mc e1 \<and> safe mc e2)"
| "safe mc (EExaminator e) = safe mc e"
| "safe mc (EInUserGroup e) = safe mc e"
| "safe mc (EOr e1 e2) = (safe mc e1 \<and> safe mc e2)"
| "safe mc (EAnd e1 e2) = (safe mc e1 \<and> safe mc e2)"
| "safe mc (EBin op e1 e2) = (safe mc e1 \<and> safe mc e2)"
| "safe mc (EUn op e) = safe mc e"
| "safe mc (EPlus e) = safe mc e"
| "safe mc _ = True"

lemma bind_act_ok:
  assumes "act_ok True a" "\<And>t. act_ok (g \<and> wt t) (f t)"
  shows "act_ok g (bind_act a f)"
proof -
  obtain t n where a: "a = Some (t, n)" "n = 0 \<Longrightarrow> wt t" using assms(1) by (auto elim: act_okE)
  from assms(2) [of t] show ?thesis by (rule act_okE) (use a in \<open>auto simp: bind_act_def\<close>)
qed

lemma bind_act_ok1: "act_ok True a \<Longrightarrow> (\<And>t. act_ok (wt t) (f t)) \<Longrightarrow> act_ok True (bind_act a f)"
  by (rule bind_act_ok) simp_all

lemma bind_act_ok2:
  "act_ok True a \<Longrightarrow> act_ok True b \<Longrightarrow> (\<And>t u. act_ok (wt t \<and> wt u) (f t u))
    \<Longrightarrow> act_ok True (bind_act a (\<lambda>t. bind_act b (f t)))"
  by (intro bind_act_ok1 bind_act_ok) simp_all

lemma with_checked_ok: "(r = (q, n) \<Longrightarrow> g \<Longrightarrow> n = 0 \<Longrightarrow> wt (f q)) \<Longrightarrow> r = (q, n) \<Longrightarrow> act_ok g (with_checked r f)"
  by (simp add: with_checked_def)

lemma checked_ok:
  "act_ok (wt p) (with_checked (check_int p) (RunFun f))" "act_ok (wt p) (with_checked (check_int p) CurExaminator)"
  "act_ok (wt p) (with_checked (check_string p) InUserGroup)" "act_ok (wt p) (Some (check_int p))"
  by (auto simp: with_checked_def check_int_def check_string_def)

lemma build_ok: "safe mc e \<Longrightarrow> act_ok True (build mc e)"
proof (induction e)
  case (ECast t e)
  then have "act_ok True (build mc e)" by simp
  then obtain p n where p: "build mc e = Some (p, n)" "n = 0 \<Longrightarrow> wt p" by (auto elim: act_okE)
  then have "act_ok (wt p) (do_cast mc t p)" using ECast.prems by (intro do_cast_ok) auto
  then show ?case using p by (auto simp: bind_act_def elim!: act_okE)
next
  case (EExaminatorOf e1 e2)
  then show ?case by (auto simp: check_int_def intro!: bind_act_ok2)
next
  case (EOr e1 e2)
  then show ?case by (auto intro!: bind_act_ok2 do_log_ok)
next
  case (EAnd e1 e2)
  then show ?case by (auto intro!: bind_act_ok2 do_log_ok)
next
  case (EBin op e1 e2)
  then show ?case by (auto intro!: bind_act_ok2 do_bin_ok)
qed (auto split: prod.splits intro!: bind_act_ok1 checked_ok do_un_ok)

lemma env_ok_rid [simp]: "env_ok (env\<lparr>fe_rid := i\<rparr>) = env_ok env" "rtotal (env\<lparr>fe_rid := i\<rparr>) = rtotal env"
  by (simp_all add: env_ok_def rtotal_def cong: option.case_cong)

lemma bool_eval_good:
  assumes "wt t" "node_type t = Some FT_BOOL" "env_ok env" "0 \<le> fe_rid env" "fe_rid env < rtotal env"
  obtains r t' where "filter_tree_bool_eval env t = Some (r, t')" "wt t'" "node_type t' = Some FT_BOOL"
proof -
  from do_eval_good [OF assms(1,3)] have "\<exists>r t'. filter_tree_bool_eval env t = Some (r, t') \<and> wt t' \<and> node_type t' = Some FT_BOOL"
  proof (cases rule: goodE)
    case (Val v t')
    moreover obtain b where "v = BoolV b" using Val(4) assms(2) vtypeD(3) [of v] by auto
    ultimately show ?thesis using assms by (simp add: filter_tree_bool_eval_def)
  qed (use assms in \<open>simp add: filter_tree_bool_eval_def\<close>)
  then show thesis using that by blast
qed

lemma match_runs_total:
  "wt t \<Longrightarrow> node_type t = Some FT_BOOL \<Longrightarrow> env_ok env \<Longrightarrow> \<forall>i \<in> set is. 0 \<le> i \<and> i < rtotal env
    \<Longrightarrow> \<exists>x. match_runs env is t = Some x"
proof (induction "is" arbitrary: t)
  case (Cons i "is")
  obtain r t' where e: "filter_tree_bool_eval (env\<lparr>fe_rid := i\<rparr>) t = Some (r, t')" and t': "wt t'" "node_type t' = Some FT_BOOL"
    using Cons.prems by (auto intro: bool_eval_good [of t "env\<lparr>fe_rid := i\<rparr>"])
  have "\<exists>x. match_runs env is t' = Some x" using Cons.prems by (intro Cons.IH [OF t']) auto
  then show ?case using e by auto
qed simp




section \<open>Faults\<close>

text \<open>
  The filter \<open>string(ip) == "..."\<close> is accepted by the parser and aborts the server on the first run:
  the branch that prints an address runs into the error branch.
\<close>

theorem string_of_ip_aborts:
  assumes "0 \<le> fe_rid env" "fe_rid env < rtotal env"
  shows "\<exists>t. build mc (EBin EqOp (ECast FT_STRING (EField R_IP)) (EStr s)) = Some (t, 0)
    \<and> node_type t = Some FT_BOOL \<and> filter_tree_bool_eval env t = None"
proof -
  let ?t = "Bin EqOp FT_BOOL (Cast FT_STRING (CurVar R_IP)) (Lit (StrV s))"
  have "build mc (EBin EqOp (ECast FT_STRING (EField R_IP)) (EStr s)) = Some (?t, 0)"
    by (simp add: bind_act_def do_cast_def do_bin_def do_equality_def fold_bin_def field_type_def)
  moreover have "filter_tree_bool_eval env ?t = None"
    using assms by (simp add: filter_tree_bool_eval_def field_value_def eval_cast_def cast_string_def with_node_def)
  ultimately show ?thesis by auto
qed

text \<open>
  The filter \<open>store_flags == n\<close> is accepted by the parser and makes the server dereference a null
  pointer on the first run: the bare \<open>store_flags\<close> is the only field whose kind is not replaced.
\<close>

theorem bare_store_flags_crashes:
  assumes "0 \<le> fe_rid env" "fe_rid env < rtotal env" "handle_int n = (v, 0)"
  shows "\<exists>t. build mc (EBin EqOp (EField R_STORE_FLAGS) (EInt n)) = Some (t, 0)
    \<and> node_type t = Some FT_BOOL \<and> filter_tree_bool_eval env t = None"
proof -
  let ?t = "Bin EqOp FT_BOOL (RunFun R_STORE_FLAGS Null) (Lit (IntV v))"
  have "build mc (EBin EqOp (EField R_STORE_FLAGS) (EInt n)) = Some (?t, 0)"
    using assms(3) by (simp add: bind_act_def do_bin_def do_equality_def fold_bin_def field_type_def)
  moreover have "filter_tree_bool_eval env ?t = None" by (simp add: filter_tree_bool_eval_def)
  ultimately show ?thesis by auto
qed

lemma find_group_nth: "distinct gs \<Longrightarrow> k < length gs \<Longrightarrow> find_group i gs (gs ! k) = i + int k"
proof (induction gs arbitrary: i k)
  case (Cons g gs)
  then show ?case by (cases k) auto
qed simp

lemma find_group_unknown: "name \<notin> set gs \<Longrightarrow> find_group i gs name = 14"
  by (induction gs arbitrary: i) (auto simp: err_code_def)

text \<open>
  In a contest with more than 14 groups, \<open>inusergroup\<close> of a name that is no group answers for the
  group with index 14: the error code is returned without its sign and taken for an index.
\<close>

theorem unknown_group_is_group_14:
  assumes "s \<notin> set (fe_groups env)" "distinct (fe_groups env)" "14 < length (fe_groups env)" "fe_groups env ! 14 \<noteq> []"
  shows "do_eval env (InUserGroup (Lit (StrV s))) = do_eval env (InUserGroup (Lit (StrV (fe_groups env ! 14))))"
proof -
  have "find_user_group env s = 14" using find_group_unknown [OF assms(1)] by (simp add: find_user_group_def err_code_def)
  moreover have "find_user_group env (fe_groups env ! 14) = 14"
    using find_group_nth [OF assms(2,3), of 0] assms(4) by (simp add: find_user_group_def)
  ultimately show ?thesis by simp
qed

text \<open>
  After the first evaluation \<open>inusergroup\<close> keeps the group it found: on every other run the answer is
  for that group, whatever the expression for the name (such as \<open>login\<close>) would give there.
\<close>

theorem group_name_is_cached:
  assumes "do_eval env c = Some (Inr (StrV s), c')" "env_ok env"
  shows "\<exists>r t. do_eval env (InUserGroup c) = Some (r, t)
    \<and> (\<forall>env2. do_eval env2 t
         = with_node t (map_option (\<lambda>b. Inr (BoolV b)) (check_user_group env2 (re_user_id (cur_run env2)) (find_user_group env s))))"
proof -
  obtain r where "map_option (\<lambda>b. Inr (BoolV b)) (check_user_group env (re_user_id (cur_run env)) (find_user_group env s))
      = (Some r :: fres option)"
    using check_user_group_typed [OF assms(2)] by (metis typed_simps(3) option.exhaust)
  then show ?thesis using assms(1) by (simp add: with_node_def Let_def del: map_option_eq_Some)
qed

section \<open>The latest run\<close>

lemma in_set_drop: "x \<in> set (drop n xs) \<longleftrightarrow> (\<exists>j. n \<le> j \<and> j < length xs \<and> xs ! j = x)"
proof
  assume "x \<in> set (drop n xs)"
  then obtain i where "i < length xs - n" "xs ! (n + i) = x" by (auto simp: in_set_conv_nth)
  then show "\<exists>j. n \<le> j \<and> j < length xs \<and> xs ! j = x" by (intro exI [of _ "n + i"]) auto
next
  assume "\<exists>j. n \<le> j \<and> j < length xs \<and> xs ! j = x"
  then obtain j where "n \<le> j" "j < length xs" "xs ! j = x" by blast
  then show "x \<in> set (drop n xs)" using nth_mem [of "j - n" "drop n xs"] by simp
qed



section \<open>Instances\<close>

text \<open>A machine and a contest of fifteen groups, with the runs of \<open>ex_log\<close>; user 1 is in the group with index 14.\<close>

definition ex_machine :: machine where
  "ex_machine =
    \<lparr>mc_regcomp = \<lambda>re. 0, mc_regexec = \<lambda>re s. c_bool (re \<noteq> s), mc_shl32 = \<lambda>a. a, mc_shr32 = \<lambda>a. a,
     mc_localtime = \<lambda>t. \<lparr>tm_year = 110, tm_mon = 0, tm_mday = 1, tm_hour = t div 3600 mod 24, tm_min = t div 60 mod 60, tm_sec = t mod 60\<rparr>,
     mc_mktime = \<lambda>t. tm_hour t * 3600 + tm_min t * 60 + tm_sec t,
     mc_today = \<lparr>tm_year = 110, tm_mon = 0, tm_mday = 1, tm_hour = 0, tm_min = 0, tm_sec = 0\<rparr>, mc_junk = (0, 0, 0)\<rparr>"

definition ex_groups :: "string list" where
  "ex_groups = [''a'', ''b'', ''c'', ''d'', ''e'', ''f'', ''g'', ''h'', ''i'', ''j'', ''k'', ''l'', ''m'', ''n'', ''o'']"

definition ex_env :: filter_env where
  "ex_env =
    \<lparr>fe_mc = ex_machine, fe_head = zero_header, fe_runs = runs ex_log, fe_rid = 0, fe_cur_time = 500,
     fe_probs = [None, Some ''A'', Some ''B''], fe_langs = [None, Some (''gcc'', None)],
     fe_login = \<lambda>u. Some (if u = 1 then ''o'' else ''a''), fe_name = \<lambda>u. None, fe_flags = \<lambda>u. 0, fe_user = \<lambda>u. None,
     fe_variant = \<lambda>u p. 0, fe_score = \<lambda>u. 0, fe_archive = False, fe_uuid_path = \<lambda>q. 0, fe_run_path = \<lambda>r. 0,
     fe_groups = ex_groups, fe_member_map = [-1, 0, 1], fe_bitmaps = [Some [0x4000], None]\<rparr>"

lemma ex_env_ok: "env_ok ex_env"
  by (simp add: env_ok_def ex_env_def ex_groups_def)

lemma ex_env_simps [simp]: "fe_rid ex_env = 0" "rtotal ex_env = 5"
  by (simp_all add: ex_env_def rtotal_def ex_log_def)



lemma string_of_ip_aborts_witness:
  "\<exists>t. build ex_machine (EBin EqOp (ECast FT_STRING (EField R_IP)) (EStr ''127.0.0.1'')) = Some (t, 0)
    \<and> node_type t = Some FT_BOOL \<and> filter_tree_bool_eval ex_env t = None"
  by (rule string_of_ip_aborts) simp_all

lemma bare_store_flags_crashes_witness:
  "\<exists>t. build ex_machine (EBin EqOp (EField R_STORE_FLAGS) (EInt ''1'')) = Some (t, 0)
    \<and> node_type t = Some FT_BOOL \<and> filter_tree_bool_eval ex_env t = None"
  by (rule bare_store_flags_crashes [where v = 1]) (simp, simp, code_simp)

lemma unknown_group_is_group_14_witness:
  "do_eval ex_env (InUserGroup (Lit (StrV ''nobody''))) = do_eval ex_env (InUserGroup (Lit (StrV (fe_groups ex_env ! 14))))"
  by (rule unknown_group_is_group_14) (simp_all add: ex_env_def ex_groups_def)

lemma group_name_is_cached_witness:
  "\<exists>r t. do_eval ex_env (InUserGroup (CurVar R_LOGIN)) = Some (r, t)
    \<and> (\<forall>env2. do_eval env2 t
         = with_node t (map_option (\<lambda>b. Inr (BoolV b)) (check_user_group env2 (re_user_id (cur_run env2)) (find_user_group ex_env ''o''))))"
  by (rule group_name_is_cached [OF _ ex_env_ok])
     (simp add: field_value_def ex_env_def cur_run_def fe_run_def ex_log_def envdup_def)


end
