(* ===== verification/Filter_Range.thy ===== *)
theory Filter_Range
  imports Filter_Laws
begin

text \<open>
  Ranges of the filter expressions: numbers stay within the widths of the C types, so no conversion of
  the evaluation loses a bit, and the list of runs shown is a part of the matching runs.
\<close>

section \<open>Ranges\<close>

text \<open>What the union members can hold; times and durations are kept one bit away from overflow.\<close>

definition val_ok :: "fval \<Rightarrow> bool" where
  "val_ok v =
    (case v of IntV i \<Rightarrow> INT_MIN \<le> i \<and> i \<le> INT_MAX | BoolV i \<Rightarrow> INT_MIN \<le> i \<and> i \<le> INT_MAX
     | ResultV i \<Rightarrow> INT_MIN \<le> i \<and> i \<le> INT_MAX | SizeV z \<Rightarrow> 0 \<le> z \<and> z \<le> UINT_MAX
     | TimeV a \<Rightarrow> \<bar>a\<bar> \<le> 2 ^ 62 | DurV u \<Rightarrow> \<bar>u\<bar> \<le> 2 ^ 62 | _ \<Rightarrow> True)"

lemma val_ok_simps [simp]:
  "val_ok (IntV i) \<longleftrightarrow> INT_MIN \<le> i \<and> i \<le> INT_MAX" "val_ok (BoolV i) \<longleftrightarrow> INT_MIN \<le> i \<and> i \<le> INT_MAX"
  "val_ok (ResultV i) \<longleftrightarrow> INT_MIN \<le> i \<and> i \<le> INT_MAX" "val_ok (SizeV z) \<longleftrightarrow> 0 \<le> z \<and> z \<le> UINT_MAX"
  "val_ok (TimeV i) \<longleftrightarrow> \<bar>i\<bar> \<le> 2 ^ 62" "val_ok (DurV i) \<longleftrightarrow> \<bar>i\<bar> \<le> 2 ^ 62"
  "val_ok (StrV s)" "val_ok (HashV h)" "val_ok (IpV p)"
  by (simp_all add: val_ok_def)

definition res_ok :: "fres option \<Rightarrow> bool" where
  "res_ok r \<longleftrightarrow> (case r of Some (Inr v) \<Rightarrow> val_ok v | _ \<Rightarrow> True)"

lemma res_ok_simps [simp]: "res_ok None" "res_ok (Some (Inl e))" "res_ok (Some (Inr v)) \<longleftrightarrow> val_ok v"
  by (simp_all add: res_ok_def)

lemma res_ok_if: "res_ok (Some (if c then a else b)) \<longleftrightarrow> (c \<longrightarrow> res_ok (Some a)) \<and> (\<not> c \<longrightarrow> res_ok (Some b))"
  by simp

lemma small_ok: "INT_MIN \<le> i \<Longrightarrow> i \<le> INT_MAX \<Longrightarrow> \<bar>i\<bar> \<le> 2 ^ 62"
  by (simp add: INT_MIN_def INT_MAX_def)

lemma fit_ok [simp]:
  "res_ok (Some (fit_int IntV t))" "res_ok (Some (fit_int DurV t))" "res_ok (Some (fit_int TimeV t))" "res_ok (Some (fit_size t))"
  using small_ok [of t] by (auto simp: fit_int_def fit_size_def not_less)

lemma c_bool_ok [simp]: "INT_MIN \<le> c_bool b" "c_bool b \<le> INT_MAX"
  by (simp_all add: c_bool_def INT_MIN_def INT_MAX_def)

lemma to_s32_ok [simp]: "INT_MIN \<le> to_s32 x" "to_s32 x \<le> INT_MAX"
  using to_s32_range [of x] by (simp_all add: INT_MIN_def INT_MAX_def)

lemma word_range: "INT_MIN \<le> i \<and> i \<le> INT_MAX \<longleftrightarrow> (\<forall>k. bit i (min k 31) = bit i k)"
proof -
  have "INT_MIN \<le> i \<and> i \<le> INT_MAX \<longleftrightarrow> signed_take_bit 31 i = i"
    by (auto simp: signed_take_bit_int_eq_self_iff INT_MIN_def INT_MAX_def)
  also have "\<dots> \<longleftrightarrow> (\<forall>k. bit i (min k 31) = bit i k)" by (simp add: bit_eq_iff bit_signed_take_bit_iff min.commute)
  finally show ?thesis .
qed

lemma bits_ok:
  assumes "INT_MIN \<le> a \<and> a \<le> INT_MAX" "INT_MIN \<le> b \<and> b \<le> INT_MAX"
  shows "INT_MIN \<le> a XOR b \<and> a XOR b \<le> INT_MAX" "INT_MIN \<le> a AND b \<and> a AND b \<le> INT_MAX"
    "INT_MIN \<le> a OR b \<and> a OR b \<le> INT_MAX" "INT_MIN \<le> NOT a \<and> NOT a \<le> INT_MAX"
  using assms unfolding word_range by (simp_all add: bit_xor_int_iff bit_and_int_iff bit_or_int_iff bit_not_int_iff)

lemma smod_abs:
  fixes a b :: int
  assumes "b \<noteq> 0"
  shows "\<bar>a smod b\<bar> \<le> \<bar>a\<bar>" "\<bar>a smod b\<bar> < \<bar>b\<bar>"
  using assms zmod_le_nonneg_dividend [of "\<bar>a\<bar>" "\<bar>b\<bar>"] by (auto simp: smod_int_alt_def abs_mult abs_sgn_eq)

lemma mod_size_ok: "0 \<le> a \<Longrightarrow> a \<le> UINT_MAX \<Longrightarrow> 0 < b \<Longrightarrow> 0 \<le> a mod b \<and> a mod b \<le> UINT_MAX"
  using zmod_le_nonneg_dividend [of a b] by auto

lemma div_size_ok: "0 \<le> a \<Longrightarrow> a \<le> UINT_MAX \<Longrightarrow> 0 \<le> b \<Longrightarrow> 0 \<le> a div b \<and> a div b \<le> UINT_MAX"
  using zdiv_mono2 [of a 1 b] by (cases "b = 0") (auto simp: pos_imp_zdiv_nonneg_iff UINT_MAX_def)

lemma add_ok: "val_ok a \<Longrightarrow> val_ok b \<Longrightarrow> res_ok (add_node a b)" "res_ok (sub_node a b)"
  by (simp_all add: add_node_def sub_node_def Let_def del: val_ok_def)

lemma ge_INT_MIN: "0 \<le> x \<Longrightarrow> INT_MIN \<le> x"
  by (simp add: INT_MIN_def)

lemma zero_le_INT_MAX [simp]: "0 \<le> INT_MAX" "1 \<le> INT_MAX"
  by (simp_all add: INT_MAX_def)

lemma smod_int_ok: "0 < b \<Longrightarrow> b \<le> INT_MAX \<Longrightarrow> INT_MIN \<le> a smod b \<and> a smod b \<le> INT_MAX"
  using smod_abs(2) [of b a] by (auto simp: INT_MIN_def INT_MAX_def)

lemma smod_dur_ok: "b \<noteq> 0 \<Longrightarrow> \<bar>a\<bar> \<le> c \<Longrightarrow> \<bar>a smod b\<bar> \<le> c" for a b c :: int
  using smod_abs(1) [of b a] by linarith

lemma mod_ok: "val_ok a \<Longrightarrow> val_ok b \<Longrightarrow> res_ok (mod_node a b)"
  by (cases a; cases b) (simp_all add: mod_node_def mod_size_ok ge_INT_MIN smod_int_ok smod_dur_ok not_less)

lemma div_ok: "val_ok a \<Longrightarrow> val_ok b \<Longrightarrow> res_ok (div_node a b)"
  by (cases a; cases b) (simp_all add: div_node_def div_size_ok ge_INT_MIN not_less)

lemma mul_ok: "res_ok (mul_node a b)"
  by (auto simp: mul_node_def res_ok_if split: fval.splits)

lemma ints_ok:
  "(\<And>i j. val_ok (IntV i) \<Longrightarrow> val_ok (IntV j) \<Longrightarrow> res_ok (Some (f i j))) \<Longrightarrow> val_ok a \<Longrightarrow> val_ok b \<Longrightarrow> res_ok (two_ints f a b)"
  by (auto simp: two_ints_def split: fval.splits)

lemma eval_bin_ok: "val_ok a \<Longrightarrow> val_ok b \<Longrightarrow> res_ok (eval_bin mc op a b)"
proof (cases op)
  case RegexpOp
  then show ?thesis by (simp add: eval_bin_def regexp_node_def regex_answer_def INT_MIN_def INT_MAX_def)
qed (auto simp: eval_bin_def add_ok mul_ok div_ok mod_ok shl_node_def shr_node_def bits_ok rel_node_def eq_node_def
    intro!: ints_ok split: fval.splits)

lemma eval_un_ok: "val_ok v \<Longrightarrow> res_ok (eval_un op v)"
  using bits_ok(4) by (cases op; cases v) (auto simp: eval_un_def, auto simp: INT_MIN_def INT_MAX_def)


definition int_ok :: "int \<Rightarrow> bool" where
  "int_ok i \<longleftrightarrow> INT_MIN \<le> i \<and> i \<le> INT_MAX"

lemma xml_parse_date_range:
  assumes "xml_parse_date mk today junk s = Some t"
  shows "t = 0 \<or> t \<in> range mk"
  using assms by (auto simp: xml_parse_date_def Let_def bind_eq_Some_conv split: if_splits)

lemma status_code_ok: "INT_MIN \<le> run_str_short_to_status s \<and> run_str_short_to_status s \<le> INT_MAX"
proof -
  have "lookup_status tbl s \<in> insert (-1) (snd ` set tbl)" for tbl by (induction tbl s rule: lookup_status.induct) auto
  then have "run_str_short_to_status s \<in> insert (-1) (snd ` set str_to_status_table)" by (simp add: run_str_short_to_status_def)
  then show ?thesis by (auto simp: str_to_status_table_def INT_MIN_def INT_MAX_def)
qed

lemma int_cast_ok: "val_ok v \<Longrightarrow> res_ok (Some (cast_int v))"
  by (cases v) (auto simp: cast_int_def ge_INT_MIN map_res_def str_to_int_def split: prod.splits sum.splits if_splits)

lemma bool_cast_ok: "val_ok v \<Longrightarrow> res_ok (Some (cast_bool v))"
  by (cases v) (auto simp: cast_bool_def INT_MIN_def INT_MAX_def c_bool_def)

lemma dur_cast_ok: "val_ok v \<Longrightarrow> res_ok (cast_dur v)"
  by (cases v) (auto simp: cast_dur_def str_to_dur_def bind_res_def small_ok res_ok_if split: option.splits sum.splits
      dest: small_ok)

lemma eval_cast_ok:
  assumes "val_ok v" "\<forall>t. \<bar>mc_mktime mc t\<bar> \<le> 2 ^ 62"
  shows "res_ok (eval_cast mc ty v)"
proof (cases ty)
  case FT_TIME
  have "\<bar>t\<bar> \<le> 2 ^ 62" if "xml_parse_date (mc_mktime mc) (mc_today mc) (mc_junk mc) s = Some t" for s t
    using xml_parse_date_range [OF that] assms(2) by auto
  then show ?thesis
    using assms(1) FT_TIME by (cases v) (fastforce simp: eval_cast_def cast_time_def split: option.splits dest: small_ok)+
next
  case FT_SIZE
  have "UINT_MAX = 2 ^ 32 - 1" by (simp add: UINT_MAX_def)
  then show ?thesis
    using assms(1) FT_SIZE
    by (cases v) (auto simp: eval_cast_def cast_size_def map_res_def str_to_uint_def to_u32_def INT_MAX_def
        split: prod.splits sum.splits if_splits)
qed (use assms status_code_ok in \<open>auto simp: eval_cast_def int_cast_ok bool_cast_ok dur_cast_ok cast_string_def
    cast_result_def cast_hash_def cast_ip_def Let_def split: fval.splits option.splits\<close>)

text \<open>The fields of a run and the parameters are within the widths of the C types.\<close>

definition run_ok :: "run_entry \<Rightarrow> bool" where
  "run_ok e \<longleftrightarrow> \<bar>re_time e\<bar> \<le> 2 ^ 61 \<and> 0 \<le> re_size e \<and> re_size e \<le> UINT_MAX
    \<and> list_all int_ok [re_user_id e, re_score e, re_test e, re_status e, re_judge_id e, re_variant e, re_is_imported e,
        re_is_hidden e, re_is_readonly e, re_is_marked e, re_is_saved e, re_eoln_type e, re_store_flags e]"

definition params_ok :: "filter_env \<Rightarrow> bool" where
  "params_ok env \<longleftrightarrow> (\<forall>t. \<bar>mc_mktime (fe_mc env) t\<bar> \<le> 2 ^ 62) \<and> (\<forall>u p. int_ok (fe_variant env u p)) \<and> (\<forall>u. int_ok (fe_score env u))
    \<and> \<bar>rh_start_time (fe_head env)\<bar> \<le> 2 ^ 61 \<and> \<bar>rh_stop_time (fe_head env)\<bar> \<le> 2 ^ 62 \<and> \<bar>fe_cur_time env\<bar> \<le> 2 ^ 62
    \<and> int_ok (int (length (fe_runs env))) \<and> int_ok (int (length (fe_groups env)))"

lemma field_value_ok:
  assumes "run_ok e" "params_ok env"
  shows "val_ok (field_value env cur rid e f)"
proof (cases f)
  case R_DUR
  then show ?thesis using assms by (auto simp: field_value_def run_ok_def params_ok_def)
qed (use assms in \<open>auto simp: field_value_def run_ok_def params_ok_def int_ok_def user_flag_def is_latest_def
    is_latestmarked_def is_afterok_def is_missing_source_def ge_INT_MIN INT_MAX_def c_bool_def\<close>)

fun lits_ok :: "tree \<Rightarrow> bool" where
  "lits_ok (Lit v) = val_ok v"
| "lits_ok (LogOr l r) = (lits_ok l \<and> lits_ok r)"
| "lits_ok (LogAnd l r) = (lits_ok l \<and> lits_ok r)"
| "lits_ok (Bin op t l r) = (lits_ok l \<and> lits_ok r)"
| "lits_ok (UnNode op c) = lits_ok c"
| "lits_ok (RunFun f c) = lits_ok c"
| "lits_ok (Cast t c) = lits_ok c"
| "lits_ok (Examinator l r) = (lits_ok l \<and> lits_ok r)"
| "lits_ok (CurExaminator c) = lits_ok c"
| "lits_ok (InUserGroup c) = lits_ok c"
| "lits_ok (InUserGroupInt c) = lits_ok c"
| "lits_ok _ = True"


lemma find_group_range: "find_group i gs name = 14 \<or> i \<le> find_group i gs name \<and> find_group i gs name < i + int (length gs)"
proof (induction gs arbitrary: i)
  case (Cons g gs)
  show ?case using Cons.IH [of "i + 1"] by auto
qed (simp add: err_code_def)

lemma check_group_ok: "check_user_group env u g = Some b \<Longrightarrow> INT_MIN \<le> b \<and> b \<le> INT_MAX"
  by (auto simp: check_user_group_def Let_def ge_INT_MIN split: if_splits option.splits)

text \<open>A result within its ranges, with a tree whose constants are.\<close>

definition in_range :: "(fres \<times> tree) option \<Rightarrow> bool" where
  "in_range r \<longleftrightarrow> (case r of None \<Rightarrow> True | Some (x, t') \<Rightarrow> lits_ok t' \<and> res_ok (Some x))"

lemma in_range_simps [simp]:
  "in_range None" "in_range (Some (x, t')) \<longleftrightarrow> lits_ok t' \<and> res_ok (Some x)"
  by (simp_all add: in_range_def)

lemma in_range_with_node [simp]: "in_range (with_node t' r) \<longleftrightarrow> (r \<noteq> None \<longrightarrow> lits_ok t') \<and> res_ok r"
  by (cases r) (auto simp: with_node_def)

lemma fe_run_ok: "\<forall>e \<in> set (fe_runs env). run_ok e \<Longrightarrow> 0 \<le> i \<Longrightarrow> i < rtotal env \<Longrightarrow> run_ok (fe_run env i)"
  by (simp add: fe_run_def rtotal_def nat_less_iff)

lemma do_eval_in_range:
  assumes "params_ok env" "\<forall>e \<in> set (fe_runs env). run_ok e" "0 \<le> fe_rid env" "fe_rid env < rtotal env"
  shows "lits_ok t \<Longrightarrow> in_range (do_eval env t)"
proof (induction t)
  case (Bin op ty l r)
  then have "in_range (do_eval env l)" "in_range (do_eval env r)" by auto
  then show ?case using Bin.prems
    by (auto simp: eval_bin_ok split: option.splits prod.splits sum.splits)
next
  case (UnNode op c)
  then show ?case by (auto simp: eval_un_ok split: option.splits prod.splits sum.splits)
next
  case (Cast ty c)
  then show ?case using assms(1) by (auto simp: eval_cast_ok params_ok_def split: option.splits prod.splits sum.splits)
next
  case (RunFun f c)
  then show ?case using assms(1,2)
    by (auto simp: run_index_def Let_def field_value_ok fe_run_ok split: option.splits prod.splits sum.splits fval.splits)
next
  case (CurVar f)
  then show ?case using assms by (simp add: field_value_ok fe_run_ok cur_run_def)
next
  case (InUserGroup c)
  have "val_ok (IntV (find_user_group env s))" for s
    using find_group_range [of 0 "fe_groups env" s] assms(1)
    by (auto simp: find_user_group_def params_ok_def int_ok_def err_code_def INT_MIN_def INT_MAX_def)
  then show ?case using InUserGroup
    by (auto simp: Let_def res_ok_def dest: check_group_ok split: option.splits prod.splits sum.splits fval.splits)
next
  case (InUserGroupInt c)
  then show ?case
    by (auto simp: Let_def res_ok_def dest: check_group_ok split: option.splits prod.splits sum.splits fval.splits)
next
  case RunId
  then show ?case using assms(1,3,4) by (auto simp: params_ok_def int_ok_def rtotal_def ge_INT_MIN)
next
  case Total
  then show ?case using assms(1) by (auto simp: params_ok_def int_ok_def rtotal_def)
next
  case CurTotalScore
  then show ?case using assms(1) by (auto simp: params_ok_def int_ok_def)
qed (use assms(1) in \<open>auto simp: params_ok_def ge_INT_MIN run_index_def Let_def
    split: option.splits prod.splits sum.splits fval.splits\<close>)

text \<open>
  C18: evaluating a filter whose constants are within the widths of their C types gives only values within
  those widths: an \<open>int\<close> result fits 32 bits, a size fits an unsigned 32-bit number, and no time or
  duration comes near the end of 64 bits.
\<close>

theorem filter_values_in_range:
  assumes "params_ok env" "\<forall>e \<in> set (fe_runs env). run_ok e" "0 \<le> fe_rid env" "fe_rid env < rtotal env" "lits_ok t"
    and "do_eval env t = Some (Inr v, t')"
  shows "val_ok v \<and> lits_ok t'"
  using do_eval_in_range [OF assms(1-5)] assms(6) by simp

section \<open>The runs shown\<close>

lemma view_bounds_range:
  assumes "view_bounds a b (int (length ms)) = (f, l)"
  shows "0 \<le> f" "0 \<le> l" "ms \<noteq> [] \<Longrightarrow> f < int (length ms) \<and> l < int (length ms)" "ms = [] \<Longrightarrow> f \<le> l"
  using assms by (auto simp: view_bounds_def Let_def split: prod.splits)

lemma map_upto: "a \<le> length xs \<Longrightarrow> map (\<lambda>i. xs ! nat i) [int a .. int (length xs) - 1] = drop a xs"
  by (rule nth_equalityI) (simp_all add: nat_add_distrib)

lemma view_default: "view_runs None None ms = take 20 (rev ms)"
proof -
  let ?n = "length ms"
  have v: "view_bounds None None (int ?n) = (if ms = [] then 0 else int ?n - 1, int (?n - 20))"
    by (cases "ms = []") (auto simp: view_bounds_def Let_def)
  have d: "map (\<lambda>i. ms ! nat i) [int (?n - 20) .. int ?n - 1] = drop (?n - 20) ms" by (rule map_upto) simp
  show ?thesis
  proof (cases "?n \<le> 1")
    case True
    then show ?thesis using d v by (cases ms) (auto simp: view_runs_def)
  next
    case False
    then have "\<not> int ?n - 1 \<le> int (?n - 20)" "ms \<noteq> []" by auto
    then have "view_runs None None ms = rev (drop (?n - 20) ms)" using v d by (simp add: view_runs_def flip: rev_map)
    then show ?thesis by (cases "?n \<le> 20") (simp_all add: rev_drop)
  qed
qed

text \<open>
  C29: whatever bounds are asked for, the runs shown are matching runs, at most as many as match, so the
  array of the list is never overrun; without bounds they are the last twenty matching runs, the latest
  first.
\<close>

theorem view_runs_within:
  "set (view_runs a b ms) \<subseteq> set ms \<and> length (view_runs a b ms) \<le> length ms \<and> view_runs None None ms = take 20 (rev ms)"
proof -
  obtain f l where v: "view_bounds a b (int (length ms)) = (f, l)" by fastforce
  note r = view_bounds_range [OF v]
  have "set (view_runs a b ms) \<subseteq> set ms \<and> length (view_runs a b ms) \<le> length ms"
  proof (cases "f \<le> l")
    case True
    then show ?thesis using r(1,2) by (auto simp: view_runs_def v)
  next
    case False
    then have "ms \<noteq> []" "f < int (length ms)" using r by auto
    then show ?thesis using False r(1,2) by (auto simp: view_runs_def v)
  qed
  then show ?thesis using view_default by blast
qed

section \<open>Instances\<close>

lemma ex_run_ok: "0 \<le> r \<and> r \<le> 9 \<Longrightarrow> 0 \<le> u \<and> u \<le> 9 \<Longrightarrow> 0 \<le> st \<and> st \<le> 99 \<Longrightarrow> run_ok (ex_run r u p st)"
  by (simp add: run_ok_def int_ok_def ex_run_def zero_entry_def INT_MIN_def INT_MAX_def UINT_MAX_def)

definition ex_env0 :: filter_env where
  "ex_env0 = ex_env\<lparr>fe_mc := ex_machine\<lparr>mc_mktime := \<lambda>t. 0\<rparr>\<rparr>"

lemma filter_values_in_range_witness:
  "val_ok (IntV (-1)) \<and> lits_ok (Bin SubOp FT_INT (CurVar R_RAWVARIANT) (Lit (IntV 1)))"
proof (rule filter_values_in_range [of ex_env0])
  show "params_ok ex_env0"
    by (simp add: params_ok_def ex_env0_def ex_env_def ex_machine_def ex_groups_def ex_log_def int_ok_def zero_header_def INT_MIN_def INT_MAX_def)
  show "\<forall>e \<in> set (fe_runs ex_env0). run_ok e"
    by (simp add: ex_env0_def ex_env_def ex_log_def ex_run_ok INT_MIN_def)
  show "0 \<le> fe_rid ex_env0" "fe_rid ex_env0 < rtotal ex_env0"
    by (simp_all add: ex_env0_def ex_env_def ex_log_def rtotal_def)
  show "lits_ok (Bin SubOp FT_INT (CurVar R_RAWVARIANT) (Lit (IntV 1)))" by (simp add: INT_MIN_def INT_MAX_def)
  show "do_eval ex_env0 (Bin SubOp FT_INT (CurVar R_RAWVARIANT) (Lit (IntV 1)))
      = Some (Inr (IntV (-1)), Bin SubOp FT_INT (CurVar R_RAWVARIANT) (Lit (IntV 1)))"
    by (simp add: field_value_def ex_env0_def ex_env_def cur_run_def fe_run_def ex_log_def eval_bin_def sub_node_def
        sub_table_def type_code_def vnum_def fit_int_def with_node_def INT_MIN_def INT_MAX_def)
qed

end
