(* ===== verification/Filter_Fold.thy ===== *)
theory Filter_Fold
  imports Filter_Laws
begin

text \<open>
  The folding of constants by the parser of filter expressions does not change what an expression means: the
  tree built for an accepted expression evaluates to the value that the expression has when it is read
  without folding.
\<close>

section \<open>Folding of constants\<close>

text \<open>
  The meaning of an expression, without trees: operands are evaluated from left to right and nothing is
  folded, swapped or rewritten.
\<close>

definition bind_val :: "fres option \<Rightarrow> (fval \<Rightarrow> fres option) \<Rightarrow> fres option" where
  "bind_val r f = (case r of None \<Rightarrow> None | Some (Inl e) \<Rightarrow> Some (Inl e) | Some (Inr v) \<Rightarrow> f v)"

definition bool_val :: "fval \<Rightarrow> fres option" where
  "bool_val v = (case v of BoolV c \<Rightarrow> Some (Inr v) | _ \<Rightarrow> None)"

definition run_of :: "filter_env \<Rightarrow> fval \<Rightarrow> filter_err + int" where
  "run_of env v = (case v of IntV i \<Rightarrow> run_index env i | _ \<Rightarrow> Inl ERR_INV_TYPES)"

fun expr_value :: "filter_env \<Rightarrow> expr \<Rightarrow> fres option" where
  "expr_value env (EStr s) = Some (Inr (StrV s))"
| "expr_value env (EInt s) = Some (Inr (IntV (fst (handle_int s))))"
| "expr_value env (EBool b) = Some (Inr (BoolV (c_bool b)))"
| "expr_value env (EResult r) = Some (Inr (ResultV r))"
| "expr_value env EId = Some (Inr (IntV (fe_rid env)))"
| "expr_value env ENow = Some (Inr (TimeV (fe_cur_time env)))"
| "expr_value env EStart = Some (Inr (TimeV (rh_start_time (fe_head env))))"
| "expr_value env EFinish = Some (Inr (TimeV (rh_stop_time (fe_head env))))"
| "expr_value env ETotal = Some (Inr (IntV (rtotal env)))"
| "expr_value env ETotalScore = Some (Inr (IntV (fe_score env (re_user_id (cur_run env)))))"
| "expr_value env (EField f) = Some (Inr (field_value env True (re_run_id (cur_run env)) (cur_run env) f))"
| "expr_value env (ECurField f) = Some (Inr (field_value env True (re_run_id (cur_run env)) (cur_run env) f))"
| "expr_value env (EFieldOf f e) =
    bind_val (expr_value env e) (\<lambda>v. Some (map_res (\<lambda>i. field_value env False i (fe_run env i) f) (run_of env v)))"
| "expr_value env (EExaminatorOf e1 e2) =
    bind_val (expr_value env e1) (\<lambda>v. bind_val (Some (map_res IntV (run_of env v))) (\<lambda>_.
      bind_val (expr_value env e2) (\<lambda>_. Some (Inr (BoolV 0)))))"
| "expr_value env (EExaminator e) = bind_val (expr_value env e) (\<lambda>_. Some (Inr (BoolV 0)))"
| "expr_value env (EInUserGroup e) =
    bind_val (expr_value env e) (\<lambda>v. map_option (\<lambda>b. Inr (BoolV b))
      (check_user_group env (re_user_id (cur_run env)) (find_user_group env (vstr v))))"
| "expr_value env (ECast t e) = bind_val (expr_value env e) (eval_cast (fe_mc env) t)"
| "expr_value env (EOr e1 e2) =
    bind_val (expr_value env e1) (\<lambda>v. if vnum v = 0 then bind_val (expr_value env e2) bool_val else Some (Inr (BoolV 1)))"
| "expr_value env (EAnd e1 e2) =
    bind_val (expr_value env e1) (\<lambda>v. if vnum v \<noteq> 0 then bind_val (expr_value env e2) bool_val else Some (Inr (BoolV 0)))"
| "expr_value env (EBin op e1 e2) =
    bind_val (expr_value env e1) (\<lambda>a. bind_val (expr_value env e2) (\<lambda>b. eval_bin (fe_mc env) op a b))"
| "expr_value env (EUn op e) = bind_val (expr_value env e) (eval_un op)"
| "expr_value env (EPlus e) = expr_value env e"

lemma bind_val_Inr: "bind_val r f = Some (Inr v) \<longleftrightarrow> (\<exists>a. r = Some (Inr a) \<and> f a = Some (Inr v))"
  by (auto simp: bind_val_def split: option.splits sum.splits)

lemma map_res_Inr: "map_res f r = Inr v \<longleftrightarrow> (\<exists>x. r = Inr x \<and> v = f x)"
  by (cases r) auto

lemma run_of_Inr: "run_of env a = Inr j \<longleftrightarrow> (\<exists>i. a = IntV i \<and> run_index env i = Inr j)"
  by (cases a) (simp_all add: run_of_def)

lemma bool_val_Inr: "bool_val a = Some (Inr v) \<longleftrightarrow> (\<exists>c. a = BoolV c \<and> v = BoolV c)"
  by (cases a) (auto simp: bool_val_def)

lemma if_Inr: "(if c then x else y) = z \<longleftrightarrow> (if c then x = z else y = z)"
  by simp

definition gives :: "filter_env \<Rightarrow> tree \<Rightarrow> fval \<Rightarrow> bool" where
  "gives env t v \<longleftrightarrow> (\<exists>t'. do_eval env t = Some (Inr v, t'))"

lemma gives_Lit [simp]: "gives env (Lit w) v \<longleftrightarrow> v = w"
  by (auto simp: gives_def)

lemma with_node_Inr: "with_node t r = Some (Inr v, t') \<longleftrightarrow> r = Some (Inr v) \<and> t' = t"
  by (auto simp: with_node_def)

lemma gives_Bin: "gives env (Bin op ty l r) v \<longleftrightarrow> (\<exists>a b. gives env l a \<and> gives env r b \<and> eval_bin (fe_mc env) op a b = Some (Inr v))"
  unfolding gives_def by (auto simp: with_node_Inr split: option.splits prod.splits sum.splits)

lemma gives_UnNode: "gives env (UnNode op c) v \<longleftrightarrow> (\<exists>a. gives env c a \<and> eval_un op a = Some (Inr v))"
  unfolding gives_def by (auto simp: with_node_Inr split: option.splits prod.splits sum.splits)

lemma gives_Cast: "gives env (Cast ty c) v \<longleftrightarrow> (\<exists>a. gives env c a \<and> eval_cast (fe_mc env) ty a = Some (Inr v))"
  unfolding gives_def by (auto simp: with_node_Inr split: option.splits prod.splits sum.splits)

lemma gives_RunFun:
  "gives env (RunFun f c) v \<longleftrightarrow> (\<exists>a i. gives env c a \<and> run_of env a = Inr i \<and> v = field_value env False i (fe_run env i) f)"
  unfolding gives_def
  by (auto simp: run_of_def map_res_Inr split: option.splits prod.splits sum.splits fval.splits)

lemma gives_LogOr:
  "gives env (LogOr l r) v \<longleftrightarrow> (\<exists>b. gives env l (BoolV b) \<and>
     (if b = 0 then \<exists>c. gives env r (BoolV c) \<and> v = BoolV c else v = BoolV 1))"
  unfolding gives_def by (auto split: option.splits prod.splits sum.splits fval.splits if_splits)

lemma gives_LogAnd:
  "gives env (LogAnd l r) v \<longleftrightarrow> (\<exists>b. gives env l (BoolV b) \<and>
     (if b \<noteq> 0 then \<exists>c. gives env r (BoolV c) \<and> v = BoolV c else v = BoolV 0))"
  unfolding gives_def by (auto split: option.splits prod.splits sum.splits fval.splits if_splits)

lemma gives_typed:
  assumes "wt t" "env_ok env" "gives env t v"
  shows "node_type t = Some (vtype v)"
  using do_eval_good [OF assms(1,2)] assms(3) by (auto simp: gives_def elim: goodE)

lemma mul_node_commute: "mul_node a b = mul_node b a"
  by (cases a; cases b) (simp_all add: mul_node_def mult.commute)


lemma fold_bin_gives:
  assumes "fold_bin (fe_mc env) op ty p1 p2 = Some (t, 0)"
  shows "gives env t v \<longleftrightarrow> (\<exists>a b. gives env p1 a \<and> gives env p2 b \<and> eval_bin (fe_mc env) op a b = Some (Inr v))"
proof (cases "\<exists>a b. p1 = Lit a \<and> p2 = Lit b")
  case True
  then obtain a b where "p1 = Lit a" "p2 = Lit b" by blast
  then show ?thesis using assms by (auto simp: fold_bin_def split: option.splits sum.splits)
next
  case False
  then have "t = Bin op ty p1 p2" using assms by (auto simp: fold_bin_def split: tree.splits)
  then show ?thesis by (simp add: gives_Bin)
qed

lemma eval_bin_mul_commute: "eval_bin mc MulOp a b = eval_bin mc MulOp b a"
  by (simp add: eval_bin_def mul_node_commute)

lemma do_bin_gives:
  assumes "do_bin (fe_mc env) op p1 p2 = Some (t, 0)"
  shows "gives env t v \<longleftrightarrow> (\<exists>a b. gives env p1 a \<and> gives env p2 b \<and> eval_bin (fe_mc env) op a b = Some (Inr v))"
proof (cases "op = RegexpOp")
  case True
  then have "t = Bin RegexpOp FT_BOOL p1 p2" using assms by (auto simp: do_bin_def do_regexp_def split: if_splits)
  then show ?thesis using True by (simp add: gives_Bin)
next
  case False
  then have "(\<exists>ty. fold_bin (fe_mc env) op ty p1 p2 = Some (t, 0)) \<or> op = MulOp \<and> (\<exists>ty. fold_bin (fe_mc env) op ty p2 p1 = Some (t, 0))"
    using assms
    by (auto simp: do_bin_def do_add_def do_sub_def do_multiply_def do_divmod_def do_equality_def do_relation_def
        do_bitop_def Let_def split: if_splits option.splits)
  then show ?thesis
  proof (elim disjE exE conjE)
    fix ty assume "fold_bin (fe_mc env) op ty p1 p2 = Some (t, 0)"
    then show ?thesis by (rule fold_bin_gives)
  next
    fix ty assume f: "fold_bin (fe_mc env) op ty p2 p1 = Some (t, 0)" and "op = MulOp"
    then have c: "eval_bin (fe_mc env) op b a = eval_bin (fe_mc env) op a b" for a b by (simp only: eval_bin_mul_commute)
    show ?thesis unfolding fold_bin_gives [OF f] using c by metis
  qed
qed

lemma do_un_gives:
  assumes "do_un op p = Some (t, 0)"
  shows "gives env t v \<longleftrightarrow> (\<exists>a. gives env p a \<and> eval_un op a = Some (Inr v))"
proof -
  obtain q n where c: "(if op = LogNot then check_bool p else check_int p) = (q, n)" by fastforce
  show ?thesis
  proof (cases "\<exists>a. q = Lit a")
    case True
    then obtain a where a: "q = Lit a" by blast
    then have "n = 0" "eval_un op a = Some (Inr w) \<longleftrightarrow> t = Lit w" "\<exists>w. t = Lit w" for w
      using assms by (auto simp: do_un_def c split: option.splits sum.splits)
    moreover from this have "q = p" using c check_types(1,2) by (metis (full_types))
    ultimately show ?thesis using a by auto
  next
    case False
    then have "t = UnNode op q" "n = 0" using assms by (auto simp: do_un_def c split: tree.splits)
    moreover from this have "q = p" using c check_types(1,2) by (metis (full_types))
    ultimately show ?thesis by (simp add: gives_UnNode)
  qed
qed

lemma cast_same: "eval_cast mc (vtype a) a = Some (Inr a)"
  by (cases a) (simp_all add: eval_cast_def cast_int_def cast_string_def cast_bool_def cast_time_def cast_dur_def
      cast_size_def cast_result_def cast_hash_def cast_ip_def)

lemma cast_normal: "eval_cast mc ty a = Some (Inr w) \<Longrightarrow> vtype a \<noteq> FT_BOOL \<or> ty \<noteq> FT_BOOL \<Longrightarrow> cast_ok ty (vtype a) \<Longrightarrow> normal_bool w = w"
proof (cases "ty = FT_BOOL")
  case True
  moreover assume "eval_cast mc ty a = Some (Inr w)" "vtype a \<noteq> FT_BOOL \<or> ty \<noteq> FT_BOOL"
  ultimately show ?thesis
    by (cases a) (auto simp: eval_cast_def cast_bool_def normal_bool_def c_bool_def split: if_splits)
next
  case False
  assume "eval_cast mc ty a = Some (Inr w)" "cast_ok ty (vtype a)"
  then have "vtype w = ty" using eval_cast_typed [of ty a mc] by simp
  then show ?thesis using False by (cases w) (auto simp: normal_bool_def)
qed

lemma fold_cast_gives:
  assumes "fold_cast (fe_mc env) ty a = Some (t, 0)" "vtype a \<noteq> FT_BOOL \<or> ty \<noteq> FT_BOOL" "cast_ok ty (vtype a)"
  shows "gives env t v \<longleftrightarrow> eval_cast (fe_mc env) ty a = Some (Inr v)"
  using assms by (auto simp: fold_cast_def cast_normal split: option.splits sum.splits)

lemma do_cast_gives:
  assumes "do_cast (fe_mc env) ty p = Some (t, 0)" "wt p" "env_ok env" "ty = FT_STRING \<Longrightarrow> node_type p \<noteq> Some FT_IP"
  shows "gives env t v \<longleftrightarrow> (\<exists>a. gives env p a \<and> eval_cast (fe_mc env) ty a = Some (Inr v))"
proof (cases "ty \<noteq> FT_INT \<and> node_type p = Some ty")
  case True
  then have "t = p" using assms(1) by (auto simp: do_cast_def)
  moreover have "vtype a = ty" if "gives env p a" for a using gives_typed [OF assms(2,3) that] True by simp
  ultimately show ?thesis using cast_same by (metis option.inject sum.inject(2))
next
  case False
  then consider (Lit) a where "p = Lit a" "fold_cast (fe_mc env) ty a = Some (t, 0)" "cast_ok ty (vtype a)"
    | (Node) "t = Cast ty p"
    using assms(1,4) by (auto simp: do_cast_def cast_ok_def split: if_splits tree.splits fval.splits)
  then show ?thesis
  proof cases
    case Lit
    then show ?thesis using fold_cast_gives [OF Lit(2)] False by auto
  qed (simp add: gives_Cast)
qed

lemma do_log_gives:
  assumes "wt p1" "wt p2" "env_ok env"
  shows "do_logor p1 p2 = Some (t, 0) \<Longrightarrow> gives env t v \<longleftrightarrow> (\<exists>b. gives env p1 (BoolV b) \<and>
      (if b = 0 then \<exists>c. gives env p2 (BoolV c) \<and> v = BoolV c else v = BoolV 1))"
    "do_logand p1 p2 = Some (t, 0) \<Longrightarrow> gives env t v \<longleftrightarrow> (\<exists>b. gives env p1 (BoolV b) \<and>
      (if b \<noteq> 0 then \<exists>c. gives env p2 (BoolV c) \<and> v = BoolV c else v = BoolV 0))"
proof -
  have b: "\<exists>c. v = BoolV c" if "gives env p2 v" "node_type p2 = Some FT_BOOL" for v
    using gives_typed [OF assms(2,3) that(1)] that(2) vtypeD(3) [of v] by auto
  show "gives env t v \<longleftrightarrow> (\<exists>b. gives env p1 (BoolV b) \<and>
      (if b = 0 then \<exists>c. gives env p2 (BoolV c) \<and> v = BoolV c else v = BoolV 1))" if t: "do_logor p1 p2 = Some (t, 0)"
  proof -
    have ty: "node_type p2 = Some FT_BOOL" using t by (auto simp: do_logor_def check_bool_def split: if_splits tree.splits fval.splits)
    from t consider (Lit) b where "p1 = Lit (BoolV b)" "t = (if b \<noteq> 0 then Lit (BoolV 1) else p2)" | (Node) "t = LogOr p1 p2"
      by (auto simp: do_logor_def check_bool_def split: if_splits tree.splits fval.splits)
    then show ?thesis
    proof cases
      case Lit
      then show ?thesis using b [OF _ ty] by (cases "b = 0") auto
    qed (simp only: gives_LogOr)
  qed
  show "gives env t v \<longleftrightarrow> (\<exists>b. gives env p1 (BoolV b) \<and>
      (if b \<noteq> 0 then \<exists>c. gives env p2 (BoolV c) \<and> v = BoolV c else v = BoolV 0))" if t: "do_logand p1 p2 = Some (t, 0)"
  proof -
    have ty: "node_type p2 = Some FT_BOOL" using t by (auto simp: do_logand_def check_bool_def split: if_splits tree.splits fval.splits)
    from t consider (Lit) b where "p1 = Lit (BoolV b)" "t = (if b \<noteq> 0 then p2 else Lit (BoolV 0))" | (Node) "t = LogAnd p1 p2"
      by (auto simp: do_logand_def check_bool_def split: if_splits tree.splits fval.splits)
    then show ?thesis
    proof cases
      case Lit
      then show ?thesis using b [OF _ ty] by (cases "b = 0") auto
    qed (simp only: gives_LogAnd)
  qed
qed

lemma bind_act_zero: "bind_act a f = Some (t, 0) \<longleftrightarrow> (\<exists>p. a = Some (p, 0) \<and> f p = Some (t, 0))"
  by (auto simp: bind_act_def bind_eq_Some_conv)

lemma build_wt: "safe mc e \<Longrightarrow> build mc e = Some (t, 0) \<Longrightarrow> wt t"
  using build_ok by fastforce

lemma gives_simple:
  "gives env (CurVar f) v \<longleftrightarrow> v = field_value env True (re_run_id (cur_run env)) (cur_run env) f"
  "gives env RunId v \<longleftrightarrow> v = IntV (fe_rid env)" "gives env Now v \<longleftrightarrow> v = TimeV (fe_cur_time env)"
  "gives env Start v \<longleftrightarrow> v = TimeV (rh_start_time (fe_head env))" "gives env Finish v \<longleftrightarrow> v = TimeV (rh_stop_time (fe_head env))"
  "gives env Total v \<longleftrightarrow> v = IntV (rtotal env)"
  "gives env CurTotalScore v \<longleftrightarrow> v = IntV (fe_score env (re_user_id (cur_run env)))"
  by (auto simp: gives_def)

lemma gives_group:
  "gives env (InUserGroup c) v \<longleftrightarrow> (\<exists>s b. gives env c (StrV s)
     \<and> check_user_group env (re_user_id (cur_run env)) (find_user_group env s) = Some b \<and> v = BoolV b)"
  unfolding gives_def by (auto simp: with_node_Inr Let_def split: option.splits prod.splits sum.splits fval.splits)

lemma gives_examinator:
  "gives env (Examinator l r) v \<longleftrightarrow> (\<exists>i j k. gives env l (IntV i) \<and> run_index env i = Inr j \<and> gives env r (IntV k) \<and> v = BoolV 0)"
  "gives env (CurExaminator c) v \<longleftrightarrow> (\<exists>i. gives env c (IntV i) \<and> v = BoolV 0)"
  unfolding gives_def by (auto split: option.splits prod.splits sum.splits fval.splits)

text \<open>
  C17: folding constants, exchanging the factors of a product and dropping casts to the type an expression
  already has does not change its value: on every run an accepted expression has a value exactly when its
  tree evaluates to that value.
\<close>

theorem folding_correct:
  assumes "safe (fe_mc env) e" "build (fe_mc env) e = Some (t, 0)" "env_ok env"
  shows "expr_value env e = Some (Inr v) \<longleftrightarrow> (\<exists>t'. do_eval env t = Some (Inr v, t'))"
proof -
  have "expr_value env e = Some (Inr v) \<longleftrightarrow> gives env t v"
    using assms(1,2)
  proof (induction e arbitrary: t v)
    case (EFieldOf f e)
    then obtain p where p: "build (fe_mc env) e = Some (p, 0)" "t = RunFun f p"
      by (auto simp: bind_act_zero with_checked_def check_int_def split: if_splits)
    then show ?case using EFieldOf by (auto simp: bind_val_Inr gives_RunFun map_res_Inr)
  next
    case (EExaminatorOf e1 e2)
    then obtain p1 p2 where p: "build (fe_mc env) e1 = Some (p1, 0)" "build (fe_mc env) e2 = Some (p2, 0)" "t = Examinator p1 p2"
      by (auto simp: bind_act_zero check_int_def split: if_splits)
    then have "wt t" using EExaminatorOf.prems build_wt by metis
    then have i: "\<exists>k. a = IntV k" if "gives env p2 a" for a
      using gives_typed [OF _ assms(3) that] p(3) vtypeD(1) [of a] by auto
    have ih: "expr_value env e1 = Some (Inr a) \<longleftrightarrow> gives env p1 a" "expr_value env e2 = Some (Inr a) \<longleftrightarrow> gives env p2 a" for a
      using EExaminatorOf p by simp_all
    have "expr_value env (EExaminatorOf e1 e2) = Some (Inr v)
        \<longleftrightarrow> (\<exists>k j. gives env p1 (IntV k) \<and> run_index env k = Inr j) \<and> (\<exists>a. gives env p2 a) \<and> v = BoolV 0"
      by (auto simp: bind_val_Inr ih map_res_Inr run_of_Inr)
    then show ?case using i unfolding p(3) gives_examinator by blast
  next
    case (EExaminator e)
    then obtain p where p: "build (fe_mc env) e = Some (p, 0)" "t = CurExaminator p"
      by (auto simp: bind_act_zero with_checked_def check_int_def split: if_splits)
    then have "wt t" using EExaminator.prems build_wt by metis
    then have "\<exists>i. a = IntV i" if "gives env p a" for a
      using gives_typed [OF _ assms(3) that] p(2) vtypeD(1) [of a] by auto
    then show ?case using EExaminator p by (fastforce simp: bind_val_Inr gives_examinator)
  next
    case (EInUserGroup e)
    then obtain p where p: "build (fe_mc env) e = Some (p, 0)" "t = InUserGroup p"
      by (auto simp: bind_act_zero with_checked_def check_string_def split: if_splits)
    then have "wt t" using EInUserGroup.prems build_wt by metis
    then have "\<exists>s. a = StrV s" if "gives env p a" for a
      using gives_typed [OF _ assms(3) that] p(2) vtypeD(2) [of a] by auto
    then show ?case using EInUserGroup p by (fastforce simp: bind_val_Inr gives_group vstr_def)
  next
    case (ECast ty e)
    then obtain p where p: "build (fe_mc env) e = Some (p, 0)" "do_cast (fe_mc env) ty p = Some (t, 0)"
      by (auto simp: bind_act_zero)
    then have "wt p" using ECast.prems build_wt by auto
    then show ?case
      using ECast p do_cast_gives [OF p(2) _ assms(3), of v] by (auto simp: bind_val_Inr)
  next
    case (EOr e1 e2)
    then obtain p1 p2 where p: "build (fe_mc env) e1 = Some (p1, 0)" "build (fe_mc env) e2 = Some (p2, 0)" "do_logor p1 p2 = Some (t, 0)"
      by (auto simp: bind_act_zero)
    then have w: "wt p1" "wt p2" "node_type p1 = Some FT_BOOL"
      using EOr.prems build_wt by (auto simp: do_logor_def check_bool_def split: if_splits tree.splits fval.splits)
    then have "\<exists>b. a = BoolV b" if "gives env p1 a" for a using gives_typed [OF _ assms(3) that] vtypeD(3) [of a] by auto
    then have b: "(\<exists>a. gives env p1 a \<and> Q a) \<longleftrightarrow> (\<exists>b. gives env p1 (BoolV b) \<and> Q (BoolV b))" for Q by metis
    have ih: "expr_value env e1 = Some (Inr a) \<longleftrightarrow> gives env p1 a" "expr_value env e2 = Some (Inr a) \<longleftrightarrow> gives env p2 a" for a
      using EOr p by simp_all
    show ?case unfolding do_log_gives(1) [OF w(1,2) assms(3) p(3)]
      by (simp add: bind_val_Inr ih b bool_val_Inr if_Inr) (auto simp: vnum_def)
  next
    case (EAnd e1 e2)
    then obtain p1 p2 where p: "build (fe_mc env) e1 = Some (p1, 0)" "build (fe_mc env) e2 = Some (p2, 0)" "do_logand p1 p2 = Some (t, 0)"
      by (auto simp: bind_act_zero)
    then have w: "wt p1" "wt p2" "node_type p1 = Some FT_BOOL"
      using EAnd.prems build_wt by (auto simp: do_logand_def check_bool_def split: if_splits tree.splits fval.splits)
    then have "\<exists>b. a = BoolV b" if "gives env p1 a" for a using gives_typed [OF _ assms(3) that] vtypeD(3) [of a] by auto
    then have b: "(\<exists>a. gives env p1 a \<and> Q a) \<longleftrightarrow> (\<exists>b. gives env p1 (BoolV b) \<and> Q (BoolV b))" for Q by metis
    have ih: "expr_value env e1 = Some (Inr a) \<longleftrightarrow> gives env p1 a" "expr_value env e2 = Some (Inr a) \<longleftrightarrow> gives env p2 a" for a
      using EAnd p by simp_all
    show ?case unfolding do_log_gives(2) [OF w(1,2) assms(3) p(3)]
      by (simp add: bind_val_Inr ih b bool_val_Inr if_Inr) (auto simp: vnum_def)
  next
    case (EBin op e1 e2)
    then obtain p1 p2 where "build (fe_mc env) e1 = Some (p1, 0)" "build (fe_mc env) e2 = Some (p2, 0)" "do_bin (fe_mc env) op p1 p2 = Some (t, 0)"
      by (auto simp: bind_act_zero)
    then show ?case using EBin do_bin_gives [of env op p1 p2 t v] by (auto simp: bind_val_Inr)
  next
    case (EUn op e)
    then obtain p where "build (fe_mc env) e = Some (p, 0)" "do_un op p = Some (t, 0)" by (auto simp: bind_act_zero)
    then show ?case using EUn do_un_gives [of op p t env v] by (auto simp: bind_val_Inr)
  next
    case (EPlus e)
    then obtain p where "build (fe_mc env) e = Some (p, 0)" "t = p"
      by (auto simp: bind_act_zero check_int_def split: if_splits)
    then show ?case using EPlus by auto
  qed (auto simp: gives_simple split: prod.splits)
  then show ?thesis by (simp add: gives_def)
qed

lemma folding_correct_witness:
  "expr_value ex_env (EBin MulOp (EInt ''2'') (EInt ''3'')) = Some (Inr (IntV 6))
    \<longleftrightarrow> (\<exists>t'. do_eval ex_env (Lit (IntV 6)) = Some (Inr (IntV 6), t'))"
proof (rule folding_correct [OF _ _ ex_env_ok])
  show "safe (fe_mc ex_env) (EBin MulOp (EInt ''2'') (EInt ''3''))" by simp
  have "handle_int ''2'' = (2, 0)" "handle_int ''3'' = (3, 0)" by code_simp+
  then show "build (fe_mc ex_env) (EBin MulOp (EInt ''2'') (EInt ''3'')) = Some (Lit (IntV 6), 0)"
    by (simp add: bind_act_def do_bin_def do_multiply_def mul_operand_def Let_def fold_bin_def eval_bin_def mul_node_def
        fit_int_def INT_MIN_def INT_MAX_def)
qed

end
