(* ===== verification/Packets.thy ===== *)
theory Packets
  imports Run_Status
begin

text \<open>
  The binary packets between the contest server and the compile and run servers
  (\<open>compile_packet_1.c\<close>, \<open>_2.c\<close>, \<open>_4.c\<close>, \<open>_5.c\<close>, \<open>run_packet_4.c\<close>, \<open>_5.c\<close> and the
  \<open>_priv.h\<close> layouts).  A buffer is a list of bytes; a header is a list of 32-bit little-endian
  words in the order of the struct, a 64-bit field taking two of them.  A reader or writer
  answers \<open>Refuse\<close> where the code jumps to \<open>failed\<close>, and \<open>Crash\<close> where it would read or write
  outside a buffer, follow a null pointer or overflow an int.  A character string is the
  contents of its buffer without the final terminator.
\<close>

section \<open>Outcomes\<close>

datatype 'a pkt_res = Crash | Refuse | Done 'a

fun pbind :: "'a pkt_res \<Rightarrow> ('a \<Rightarrow> 'b pkt_res) \<Rightarrow> 'b pkt_res" where
  "pbind Crash f = Crash"
| "pbind Refuse f = Refuse"
| "pbind (Done x) f = f x"

fun no_crash :: "'a pkt_res \<Rightarrow> bool" where
  "no_crash Crash = False"
| "no_crash Refuse = True"
| "no_crash (Done x) = True"

fun is_Done :: "'a pkt_res \<Rightarrow> bool" where
  "is_Done (Done x) = True"
| "is_Done r = False"

lemma no_crash_pbind: "no_crash m \<Longrightarrow> (\<And>x. m = Done x \<Longrightarrow> no_crash (f x)) \<Longrightarrow> no_crash (pbind m f)"
  by (cases m) auto

lemma pbind_cong: "m = m' \<Longrightarrow> (\<And>x. m' = Done x \<Longrightarrow> f x = g x) \<Longrightarrow> pbind m f = pbind m' g"
  by (cases m') auto

lemma pbind_Done: "pbind m f = Done y \<longleftrightarrow> (\<exists>x. m = Done x \<and> f x = Done y)"
  by (cases m) auto

section \<open>Bytes\<close>

type_synonym bytes = "8 word list"

definition EJ_MAX_CONTEST_ID :: int where "EJ_MAX_CONTEST_ID = 999999"
definition EJ_MAX_RUN_ID :: int where "EJ_MAX_RUN_ID = 999999"
definition EJ_MAX_TEST_NUM :: int where "EJ_MAX_TEST_NUM = 32766"
definition USEC_MAX :: int where "USEC_MAX = 999999"
definition EJ_MAX_COMPILE_PACKET_SIZE :: nat where "EJ_MAX_COMPILE_PACKET_SIZE = 65536"
definition EJ_MAX_COMPILE_RUN_BLOCK_LEN :: int where "EJ_MAX_COMPILE_RUN_BLOCK_LEN = 65536"
definition EJ_MAX_COMPILE_ENV_NUM :: int where "EJ_MAX_COMPILE_ENV_NUM = 65536"
definition EJ_MAX_COMPILE_ENV_LEN :: int where "EJ_MAX_COMPILE_ENV_LEN = 65535"
definition EJ_COMPILE_PACKET_VERSION :: int where "EJ_COMPILE_PACKET_VERSION = 5"

text \<open>The four bytes of a 32-bit field, and a field of a buffer by its word index.\<close>

definition put32 :: "32 word \<Rightarrow> bytes" where
  "put32 w = [ucast w, ucast (drop_bit 8 w), ucast (drop_bit 16 w), ucast (drop_bit 24 w)]"

definition get32 :: "8 word \<Rightarrow> 8 word \<Rightarrow> 8 word \<Rightarrow> 8 word \<Rightarrow> 32 word" where
  "get32 a b c d =
     ucast a OR push_bit 8 (ucast b) OR push_bit 16 (ucast c) OR push_bit 24 (ucast d)"

definition fld :: "bytes \<Rightarrow> nat \<Rightarrow> 32 word" where
  "fld bs i = get32 (bs ! (4 * i)) (bs ! (4 * i + 1)) (bs ! (4 * i + 2)) (bs ! (4 * i + 3))"

definition words_bytes :: "32 word list \<Rightarrow> bytes" where
  "words_bytes ws = concat (map put32 ws)"

text \<open>A \<open>ruint64_t\<close> is two words, the low one first.\<close>

definition lo32 :: "64 word \<Rightarrow> 32 word" where "lo32 w = ucast w"
definition hi32 :: "64 word \<Rightarrow> 32 word" where "hi32 w = ucast (drop_bit 32 w)"

definition fld64 :: "bytes \<Rightarrow> nat \<Rightarrow> 64 word" where
  "fld64 bs i = ucast (fld bs i) OR push_bit 32 (ucast (fld bs (i + 1)))"

definition fld_quad :: "bytes \<Rightarrow> nat \<Rightarrow> quad" where
  "fld_quad bs i = (fld bs i, fld bs (i + 1), fld bs (i + 2), fld bs (i + 3))"

fun quad_words :: "quad \<Rightarrow> 32 word list" where
  "quad_words (a, b, c, d) = [a, b, c, d]"

text \<open>\<open>pkt_bin_align\<close>: round up to a multiple of 16.\<close>

definition pkt_bin_align :: "nat \<Rightarrow> nat" where
  "pkt_bin_align v = (v + 15) div 16 * 16"

definition out_of :: "int \<Rightarrow> int \<Rightarrow> 32 word \<Rightarrow> bool" where
  "out_of lo hi w \<longleftrightarrow> sint w < lo \<or> sint w > hi"

definition len_of_word :: "32 word \<Rightarrow> nat" where
  "len_of_word w = nat (sint w)"

text \<open>\<open>memcpy\<close> of \<open>n\<close> bytes from offset \<open>p\<close> of a buffer, and to offset \<open>p\<close> of a buffer.\<close>

definition memcpy_from :: "bytes \<Rightarrow> nat \<Rightarrow> nat \<Rightarrow> bytes pkt_res" where
  "memcpy_from bs p n = (if p + n \<le> length bs then Done (take n (drop p bs)) else Crash)"

definition memcpy_to :: "bytes \<Rightarrow> nat \<Rightarrow> bytes \<Rightarrow> bytes pkt_res" where
  "memcpy_to buf p s =
    (if p + length s \<le> length buf then Done (take p buf @ s @ drop (p + length s) buf) else Crash)"

section \<open>C strings\<close>

text \<open>\<open>strlen\<close> stored in an int, and the bytes that many.\<close>

definition strlen_int :: "bytes \<Rightarrow> int" where
  "strlen_int s = sint (word_of_nat (length (takeWhile (\<lambda>b. b \<noteq> 0) s)) :: 32 word)"

definition c_str :: "bytes \<Rightarrow> bytes" where
  "c_str s = take (nat (strlen_int s)) s"

section \<open>The compile request\<close>

record compile_request =
  rq_judge_id :: "32 word"
  rq_contest_id :: "32 word"
  rq_run_id :: "32 word"
  rq_lang_id :: "32 word"
  rq_locale_id :: "32 word"
  rq_output_only :: "32 word"
  rq_style_check_only :: "32 word"
  rq_ts1 :: "32 word"
  rq_ts1_us :: "32 word"
  rq_use_uuid :: "32 word"
  rq_uuid :: quad
  rq_max_vm_size :: "64 word"
  rq_max_stack_size :: "64 word"
  rq_max_file_size :: "64 word"
  rq_style_checker :: "bytes option"
  rq_src_sfx :: "bytes option"
  rq_run_block_len :: "32 word"
  rq_run_block :: bytes
  rq_env_num :: "32 word"
  rq_sc_env_num :: "32 word"
  rq_env_vars :: "bytes option list option"
  rq_sc_env_vars :: "bytes option list option"

text \<open>The byte size of the header, and the index of the words of its fields.\<close>

definition request_header_size :: nat where "request_header_size = 112"

definition request_header ::
  "compile_request \<Rightarrow> nat \<Rightarrow> nat \<Rightarrow> nat \<Rightarrow> nat \<Rightarrow> nat \<Rightarrow> 32 word list" where
  "request_header p out_size style_checker_len src_sfx_len env_num sc_env_num =
    [word_of_nat out_size, word_of_int EJ_COMPILE_PACKET_VERSION, rq_judge_id p, rq_contest_id p,
     rq_run_id p, rq_lang_id p, rq_locale_id p, rq_output_only p,
     lo32 (rq_max_vm_size p), hi32 (rq_max_vm_size p),
     lo32 (rq_max_stack_size p), hi32 (rq_max_stack_size p),
     lo32 (rq_max_file_size p), hi32 (rq_max_file_size p),
     rq_style_check_only p, rq_ts1 p, rq_ts1_us p, word_of_nat style_checker_len,
     word_of_nat src_sfx_len, rq_run_block_len p, word_of_nat env_num, word_of_nat sc_env_num,
     rq_use_uuid p] @ quad_words (rq_uuid p) @ [0]"

subsection \<open>Reading\<close>

text \<open>An optional string of \<open>n\<close> bytes at \<open>p\<close>, with the pointer after it.\<close>

definition read_string :: "bytes \<Rightarrow> nat \<Rightarrow> int \<Rightarrow> 32 word \<Rightarrow> (bytes option \<times> nat) pkt_res" where
  "read_string bs p limit len =
    (if out_of 0 limit len then Refuse
     else if p + len_of_word len > length bs then Refuse
     else if len_of_word len > 0
     then pbind (memcpy_from bs p (len_of_word len))
            (\<lambda>s. Done (Some s, p + pkt_bin_align (len_of_word len)))
     else Done (None, p))"

fun read_strs :: "bytes \<Rightarrow> nat \<Rightarrow> nat list \<Rightarrow> (bytes list \<times> nat) pkt_res" where
  "read_strs bs p [] = Done ([], p)"
| "read_strs bs p (n # ns) =
    (if p + n > length bs then Refuse
     else pbind (memcpy_from bs p n)
       (\<lambda>s. pbind (read_strs bs (p + n) ns) (\<lambda>(ss, q). Done (s # ss, q))))"

definition read_env ::
  "bytes \<Rightarrow> nat \<Rightarrow> 32 word \<Rightarrow> (bytes option list option \<times> nat) pkt_res" where
  "read_env bs p env_num =
    (if out_of 0 EJ_MAX_COMPILE_ENV_NUM env_num then Refuse
     else let n = len_of_word env_num in
     if p + n * 4 > length bs then Refuse
     else if n = 0 then Done (None, p)
     else pbind (memcpy_from bs p (n * 4)) (\<lambda>tab.
       let str_lens = map (fld tab) [0..<n] in
       if list_ex (out_of 0 EJ_MAX_COMPILE_ENV_LEN) str_lens then Refuse
       else pbind (read_strs bs (p + pkt_bin_align (n * 4)) (map len_of_word str_lens))
         (\<lambda>(ss, q). Done (Some (map Some ss @ [None]), q))))"

definition compile_request_packet_read :: "nat \<Rightarrow> bytes \<Rightarrow> compile_request pkt_res" where
  "compile_request_packet_read path_max inp =
    (if length inp < request_header_size then Refuse
     else if uint (scast (fld inp 0) :: 64 word) \<noteq> int (length inp) then Refuse
     else if sint (fld inp 0) < 0 \<or> length inp > EJ_MAX_COMPILE_PACKET_SIZE then Refuse
     else if length inp mod 16 \<noteq> 0 then Refuse
     else if sint (fld inp 1) \<noteq> EJ_COMPILE_PACKET_VERSION then Refuse
     else if out_of 0 EJ_MAX_JUDGE_ID (fld inp 2) then Refuse
     else if out_of 0 EJ_MAX_CONTEST_ID (fld inp 3) then Refuse
     else if out_of 0 EJ_MAX_RUN_ID (fld inp 4) then Refuse
     else if sint (fld inp 3) > 0 \<and> sint (fld inp 5) < 0 then Refuse
     else if out_of 0 EJ_MAX_LOCALE_ID (fld inp 6) then Refuse
     else if out_of 0 1 (fld inp 7) then Refuse
     else if out_of 0 1 (fld inp 14) then Refuse
     else if out_of 0 USEC_MAX (fld inp 16) then Refuse
     else
       pbind (read_string inp request_header_size (int path_max) (fld inp 17)) (\<lambda>(style_checker, p1).
       pbind (read_string inp p1 (int path_max) (fld inp 18)) (\<lambda>(src_sfx, p2).
       pbind (read_string inp p2 EJ_MAX_COMPILE_RUN_BLOCK_LEN (fld inp 19)) (\<lambda>(run_block, p3).
       pbind (read_env inp p3 (fld inp 20)) (\<lambda>(env_vars, p4).
       pbind (read_env inp (pkt_bin_align p4) (fld inp 21)) (\<lambda>(sc_env_vars, p5).
       if pkt_bin_align p5 \<noteq> length inp then Refuse
       else Done
         \<lparr>rq_judge_id = fld inp 2, rq_contest_id = fld inp 3, rq_run_id = fld inp 4,
          rq_lang_id = fld inp 5, rq_locale_id = fld inp 6, rq_output_only = fld inp 7,
          rq_style_check_only = fld inp 14, rq_ts1 = fld inp 15, rq_ts1_us = fld inp 16,
          rq_use_uuid = fld inp 22, rq_uuid = fld_quad inp 23, rq_max_vm_size = fld64 inp 8,
          rq_max_stack_size = fld64 inp 10, rq_max_file_size = fld64 inp 12,
          rq_style_checker = style_checker, rq_src_sfx = src_sfx,
          rq_run_block_len = fld inp 19,
          rq_run_block = (case run_block of None \<Rightarrow> [] | Some b \<Rightarrow> b),
          rq_env_num = fld inp 20, rq_sc_env_num = fld inp 21,
          rq_env_vars = env_vars, rq_sc_env_vars = sc_env_vars\<rparr>))))))"

subsection \<open>Writing\<close>

text \<open>An \<open>int\<close> sum, which must not overflow.\<close>

definition add_int :: "nat \<Rightarrow> nat \<Rightarrow> nat pkt_res" where
  "add_int a b = (if a + b < 2 ^ 31 then Done (a + b) else Crash)"

fun add_lens :: "nat \<Rightarrow> bytes list \<Rightarrow> nat pkt_res" where
  "add_lens a [] = Done a"
| "add_lens a (s # ss) = pbind (add_int a (length s)) (\<lambda>b. add_lens b ss)"

text \<open>\<open>out_size = pkt_bin_align(out_size)\<close>\<close>

definition align_int :: "nat \<Rightarrow> nat pkt_res" where
  "align_int a = pbind (add_int a 15) (\<lambda>_. Done (pkt_bin_align a))"

text \<open>The number of strings, counted up to the null pointer when \<open>env_num\<close> is -1.\<close>

definition env_count :: "32 word \<Rightarrow> bytes option list option \<Rightarrow> int pkt_res" where
  "env_count env_num env_vars =
    (if sint env_num = - 1
     then (case env_vars of None \<Rightarrow> Done 0
           | Some vs \<Rightarrow> if None \<in> set vs then Done (int (length (takeWhile (\<lambda>v. v \<noteq> None) vs)))
                        else Crash)
     else Done (sint env_num))"

fun env_strs :: "nat \<Rightarrow> bytes option list \<Rightarrow> bytes list pkt_res" where
  "env_strs 0 vs = Done []"
| "env_strs (Suc n) [] = Crash"
| "env_strs (Suc n) (None # vs) = Crash"
| "env_strs (Suc n) (Some s # vs) =
    (if strlen_int s < 0 \<or> strlen_int s > EJ_MAX_COMPILE_ENV_LEN then Refuse
     else pbind (env_strs n vs) (\<lambda>ss. Done (c_str s # ss)))"

text \<open>The strings of an environment, each cut to its length.\<close>

definition env_list :: "32 word \<Rightarrow> bytes option list option \<Rightarrow> bytes list pkt_res" where
  "env_list env_num env_vars =
    pbind (env_count env_num env_vars) (\<lambda>n.
      if n < 0 \<or> n > EJ_MAX_COMPILE_ENV_NUM then Refuse
      else env_strs (nat n) (case env_vars of None \<Rightarrow> [] | Some vs \<Rightarrow> vs))"

text \<open>The output buffer with the position of \<open>out_ptr\<close>.\<close>

type_synonym out_buf = "bytes \<times> nat"

fun put_bytes :: "bytes \<Rightarrow> out_buf \<Rightarrow> out_buf pkt_res" where
  "put_bytes s (buf, p) = pbind (memcpy_to buf p s) (\<lambda>b. Done (b, p + length s))"

fun put_align :: "out_buf \<Rightarrow> out_buf pkt_res" where
  "put_align (buf, p) = Done (buf, pkt_bin_align p)"

definition put_block :: "bytes \<Rightarrow> out_buf \<Rightarrow> out_buf pkt_res" where
  "put_block s ob = (if s = [] then Done ob else pbind (put_bytes s ob) put_align)"

fun put_all :: "bytes list \<Rightarrow> out_buf \<Rightarrow> out_buf pkt_res" where
  "put_all [] ob = Done ob"
| "put_all (s # ss) ob = pbind (put_bytes s ob) (put_all ss)"

definition put_env :: "bytes list \<Rightarrow> out_buf \<Rightarrow> out_buf pkt_res" where
  "put_env ss ob =
    (if ss = [] then Done ob
     else pbind (put_block (words_bytes (map (\<lambda>s. word_of_nat (length s)) ss)) ob) (\<lambda>o1.
          pbind (put_all ss o1) put_align))"

definition opt_str :: "bytes option \<Rightarrow> bytes" where
  "opt_str s = (case s of None \<Rightarrow> [] | Some t \<Rightarrow> c_str t)"

definition opt_len :: "bytes option \<Rightarrow> int" where
  "opt_len s = (case s of None \<Rightarrow> 0 | Some t \<Rightarrow> strlen_int t)"

definition request_size ::
  "nat \<Rightarrow> nat \<Rightarrow> nat \<Rightarrow> bytes list \<Rightarrow> bytes list \<Rightarrow> nat pkt_res" where
  "request_size style_checker_len src_sfx_len run_block_len env sc_env =
    pbind (add_int request_header_size (pkt_bin_align style_checker_len)) (\<lambda>s1.
    pbind (add_int s1 (pkt_bin_align src_sfx_len)) (\<lambda>s2.
    pbind (add_int s2 (pkt_bin_align run_block_len)) (\<lambda>s3.
    pbind (add_int s3 (pkt_bin_align (length env * 4))) (\<lambda>s4.
    pbind (add_lens s4 env) (\<lambda>s5.
    pbind (align_int s5) (\<lambda>s6.
    pbind (add_int s6 (pkt_bin_align (length sc_env * 4))) (\<lambda>s7.
    pbind (add_lens s7 sc_env) align_int)))))))"

definition compile_request_packet_write :: "nat \<Rightarrow> compile_request \<Rightarrow> bytes pkt_res" where
  "compile_request_packet_write path_max p =
    (if out_of 0 EJ_MAX_JUDGE_ID (rq_judge_id p) then Refuse
     else if out_of 0 EJ_MAX_CONTEST_ID (rq_contest_id p) then Refuse
     else if out_of 0 EJ_MAX_RUN_ID (rq_run_id p) then Refuse
     else if out_of 0 EJ_MAX_LANG_ID (rq_lang_id p) then Refuse
     else if out_of 0 EJ_MAX_LOCALE_ID (rq_locale_id p) then Refuse
     else if out_of 0 1 (rq_output_only p) then Refuse
     else if out_of 0 1 (rq_style_check_only p) then Refuse
     else if out_of 0 USEC_MAX (rq_ts1_us p) then Refuse
     else if opt_len (rq_style_checker p) < 0 \<or> opt_len (rq_style_checker p) > int path_max then Refuse
     else if opt_len (rq_src_sfx p) < 0 \<or> opt_len (rq_src_sfx p) > int path_max then Refuse
     else if out_of 0 EJ_MAX_COMPILE_RUN_BLOCK_LEN (rq_run_block_len p) then Refuse
     else
       let style_checker = opt_str (rq_style_checker p); src_sfx = opt_str (rq_src_sfx p);
           block_len = len_of_word (rq_run_block_len p) in
       pbind (env_list (rq_env_num p) (rq_env_vars p)) (\<lambda>env.
       pbind (env_list (rq_sc_env_num p) (rq_sc_env_vars p)) (\<lambda>sc_env.
       pbind (request_size (length style_checker) (length src_sfx) block_len env sc_env) (\<lambda>out_size.
       if out_size < request_header_size \<or> out_size > EJ_MAX_COMPILE_PACKET_SIZE then Refuse
       else
         pbind (put_bytes
           (words_bytes (request_header p out_size (length style_checker) (length src_sfx)
             (length env) (length sc_env))) (replicate out_size 0, 0)) (\<lambda>o0.
         pbind (put_block style_checker o0) (\<lambda>o1.
         pbind (put_block src_sfx o1) (\<lambda>o2.
         pbind (memcpy_from (rq_run_block p) 0 block_len) (\<lambda>block.
         pbind (put_block block o2) (\<lambda>o3.
         pbind (put_env env o3) (\<lambda>o4.
         pbind (put_env sc_env o4) (\<lambda>o5. Done (fst o5))))))))))))"

section \<open>The compile reply\<close>

record compile_reply =
  cr_judge_id :: "32 word"
  cr_contest_id :: "32 word"
  cr_run_id :: "32 word"
  cr_status :: "32 word"
  cr_ts1 :: "32 word"
  cr_ts1_us :: "32 word"
  cr_ts2 :: "32 word"
  cr_ts2_us :: "32 word"
  cr_ts3 :: "32 word"
  cr_ts3_us :: "32 word"
  cr_run_block_len :: "32 word"
  cr_run_block :: bytes
  cr_use_uuid :: "32 word"
  cr_uuid :: quad

definition reply_header_size :: nat where "reply_header_size = 80"

definition bad_compile_status :: "32 word \<Rightarrow> bool" where
  "bad_compile_status w \<longleftrightarrow>
     sint w \<noteq> RUN_OK \<and> sint w \<noteq> RUN_COMPILE_ERR \<and> sint w \<noteq> RUN_CHECK_FAILED \<and>
     sint w \<noteq> RUN_STYLE_ERR"

definition compile_reply_packet_read :: "bytes \<Rightarrow> compile_reply pkt_res" where
  "compile_reply_packet_read inp =
    (if length inp < reply_header_size then Refuse
     else if uint (scast (fld inp 0) :: 64 word) \<noteq> int (length inp) then Refuse
     else if sint (fld inp 0) < 0 \<or> length inp > EJ_MAX_COMPILE_PACKET_SIZE then Refuse
     else if length inp mod 16 \<noteq> 0 then Refuse
     else if sint (fld inp 1) \<noteq> 1 then Refuse
     else if out_of 0 EJ_MAX_JUDGE_ID (fld inp 2) then Refuse
     else if out_of 1 EJ_MAX_CONTEST_ID (fld inp 3) then Refuse
     else if out_of 0 EJ_MAX_RUN_ID (fld inp 4) then Refuse
     else if bad_compile_status (fld inp 5) then Refuse
     else if out_of 0 USEC_MAX (fld inp 7) then Refuse
     else if out_of 0 USEC_MAX (fld inp 9) then Refuse
     else if out_of 0 USEC_MAX (fld inp 11) then Refuse
     else if out_of 0 EJ_MAX_COMPILE_RUN_BLOCK_LEN (fld inp 12) then Refuse
     else
       let n = len_of_word (fld inp 12) in
       if n > 0 \<and> reply_header_size + n > length inp then Refuse
       else pbind (if n > 0 then memcpy_from inp reply_header_size n else Done []) (\<lambda>run_block.
       if pkt_bin_align (reply_header_size + n) \<noteq> length inp then Refuse
       else Done
         \<lparr>cr_judge_id = fld inp 2, cr_contest_id = fld inp 3, cr_run_id = fld inp 4,
          cr_status = fld inp 5, cr_ts1 = fld inp 6, cr_ts1_us = fld inp 7, cr_ts2 = fld inp 8,
          cr_ts2_us = fld inp 9, cr_ts3 = fld inp 10, cr_ts3_us = fld inp 11,
          cr_run_block_len = fld inp 12, cr_run_block = run_block, cr_use_uuid = fld inp 13,
          cr_uuid = fld_quad inp 14\<rparr>))"

definition reply_header :: "compile_reply \<Rightarrow> nat \<Rightarrow> 32 word list" where
  "reply_header p out_size =
    [word_of_nat out_size, 1, cr_judge_id p, cr_contest_id p, cr_run_id p, cr_status p,
     cr_ts1 p, cr_ts1_us p, cr_ts2 p, cr_ts2_us p, cr_ts3 p, cr_ts3_us p, cr_run_block_len p,
     cr_use_uuid p] @ quad_words (cr_uuid p) @ [0, 0]"

definition compile_reply_packet_write :: "compile_reply \<Rightarrow> bytes pkt_res" where
  "compile_reply_packet_write p =
    (if out_of 0 EJ_MAX_JUDGE_ID (cr_judge_id p) then Refuse
     else if out_of 1 EJ_MAX_CONTEST_ID (cr_contest_id p) then Refuse
     else if out_of 0 EJ_MAX_RUN_ID (cr_run_id p) then Refuse
     else if bad_compile_status (cr_status p) then Refuse
     else if out_of 0 USEC_MAX (cr_ts1_us p) then Refuse
     else if out_of 0 USEC_MAX (cr_ts2_us p) then Refuse
     else if out_of 0 USEC_MAX (cr_ts3_us p) then Refuse
     else if out_of 0 EJ_MAX_COMPILE_RUN_BLOCK_LEN (cr_run_block_len p) then Refuse
     else
       let n = len_of_word (cr_run_block_len p);
           out_size = reply_header_size + pkt_bin_align n in
       if out_size > EJ_MAX_COMPILE_PACKET_SIZE then Refuse
       else pbind (put_bytes (words_bytes (reply_header p out_size)) (replicate out_size 0, 0)) (\<lambda>o0.
         pbind (memcpy_from (cr_run_block p) 0 n) (\<lambda>block.
         pbind (put_bytes block o0) (\<lambda>o1. Done (fst o1)))))"

section \<open>The run reply\<close>

record run_reply =
  rr_judge_id :: "32 word"
  rr_contest_id :: "32 word"
  rr_run_id :: "32 word"
  rr_status :: "32 word"
  rr_failed_test :: "32 word"
  rr_tests_passed :: "32 word"
  rr_score :: "32 word"
  rr_notify_flag :: "32 word"
  rr_marked_flag :: "32 word"
  rr_has_user_score :: "32 word"
  rr_user_status :: "32 word"
  rr_user_tests_passed :: "32 word"
  rr_user_score :: "32 word"
  rr_ts1 :: "32 word"
  rr_ts1_us :: "32 word"
  rr_ts2 :: "32 word"
  rr_ts2_us :: "32 word"
  rr_ts3 :: "32 word"
  rr_ts3_us :: "32 word"
  rr_ts4 :: "32 word"
  rr_ts4_us :: "32 word"
  rr_ts5 :: "32 word"
  rr_ts5_us :: "32 word"
  rr_ts6 :: "32 word"
  rr_ts6_us :: "32 word"
  rr_ts7 :: "32 word"
  rr_ts7_us :: "32 word"
  rr_uuid :: quad

definition FLAGS_NOTIFY :: "32 word" where "FLAGS_NOTIFY = 0x800"
definition FLAGS_MARKED :: "32 word" where "FLAGS_MARKED = 0x1000"
definition FLAGS_HAS_USER_SCORE :: "32 word" where "FLAGS_HAS_USER_SCORE = 0x8000"

definition run_reply_size :: nat where "run_reply_size = 132"

definition flag_of :: "32 word \<Rightarrow> 32 word \<Rightarrow> 32 word" where
  "flag_of flags f = (if flags AND f \<noteq> 0 then 1 else 0)"

definition run_reply_packet_read :: "bytes \<Rightarrow> run_reply pkt_res" where
  "run_reply_packet_read inp =
    (if length inp \<noteq> run_reply_size then Refuse
     else if uint (fld inp 0) \<noteq> int (length inp) then Refuse
     else if sint (fld inp 1) \<noteq> 1 then Refuse
     else if out_of 0 EJ_MAX_JUDGE_ID (fld inp 2) then Refuse
     else if out_of 1 EJ_MAX_CONTEST_ID (fld inp 3) then Refuse
     else if out_of 0 EJ_MAX_RUN_ID (fld inp 4) then Refuse
     else if out_of 0 RUN_MAX_STATUS (fld inp 5) then Refuse
     else if out_of (- 1) EJ_MAX_TEST_NUM (fld inp 6) then Refuse
     else if out_of (- 1) EJ_MAX_TEST_NUM (fld inp 7) then Refuse
     else if out_of (- 1) EJ_MAX_SCORE (fld inp 8) then Refuse
     else if out_of (- 1) RUN_MAX_STATUS (fld inp 9) then Refuse
     else if out_of (- 1) EJ_MAX_TEST_NUM (fld inp 10) then Refuse
     else if out_of (- 1) EJ_MAX_SCORE (fld inp 11) then Refuse
     else Done
       \<lparr>rr_judge_id = fld inp 2, rr_contest_id = fld inp 3, rr_run_id = fld inp 4,
        rr_status = fld inp 5, rr_failed_test = fld inp 6, rr_tests_passed = fld inp 7,
        rr_score = fld inp 8, rr_notify_flag = flag_of (fld inp 12) FLAGS_NOTIFY,
        rr_marked_flag = flag_of (fld inp 12) FLAGS_MARKED,
        rr_has_user_score = flag_of (fld inp 12) FLAGS_HAS_USER_SCORE,
        rr_user_status = fld inp 9, rr_user_tests_passed = fld inp 10, rr_user_score = fld inp 11,
        rr_ts1 = fld inp 13, rr_ts1_us = fld inp 14, rr_ts2 = fld inp 15,
        rr_ts2_us = fld inp 16, rr_ts3 = fld inp 17, rr_ts3_us = fld inp 18,
        rr_ts4 = fld inp 19, rr_ts4_us = fld inp 20, rr_ts5 = fld inp 21,
        rr_ts5_us = fld inp 22, rr_ts6 = fld inp 23, rr_ts6_us = fld inp 24,
        rr_ts7 = fld inp 25, rr_ts7_us = fld inp 26,
        rr_uuid = fld_quad inp 27\<rparr>)"

definition reply_flags :: "run_reply \<Rightarrow> 32 word" where
  "reply_flags p =
    (if rr_notify_flag p \<noteq> 0 then FLAGS_NOTIFY else 0) OR
    (if rr_marked_flag p \<noteq> 0 then FLAGS_MARKED else 0) OR
    (if rr_has_user_score p \<noteq> 0 then FLAGS_HAS_USER_SCORE else 0)"

definition run_reply_words :: "run_reply \<Rightarrow> 32 word list" where
  "run_reply_words p =
    [word_of_nat run_reply_size, 1, rr_judge_id p, rr_contest_id p, rr_run_id p, rr_status p,
     rr_failed_test p, rr_tests_passed p, rr_score p, rr_user_status p, rr_user_tests_passed p,
     rr_user_score p, reply_flags p,
     rr_ts1 p, rr_ts1_us p, rr_ts2 p, rr_ts2_us p, rr_ts3 p, rr_ts3_us p, rr_ts4 p,
     rr_ts4_us p, rr_ts5 p, rr_ts5_us p, rr_ts6 p, rr_ts6_us p, rr_ts7 p, rr_ts7_us p] @ quad_words (rr_uuid p) @ [0, 0]"

definition run_reply_packet_write :: "run_reply \<Rightarrow> bytes pkt_res" where
  "run_reply_packet_write p =
    (if out_of 0 EJ_MAX_JUDGE_ID (rr_judge_id p) then Refuse
     else if out_of 1 EJ_MAX_CONTEST_ID (rr_contest_id p) then Refuse
     else if out_of 0 EJ_MAX_RUN_ID (rr_run_id p) then Refuse
     else if out_of 0 RUN_MAX_STATUS (rr_status p) then Refuse
     else if out_of (- 1) EJ_MAX_TEST_NUM (rr_failed_test p) then Refuse
     else if out_of (- 1) EJ_MAX_TEST_NUM (rr_tests_passed p) then Refuse
     else if out_of (- 1) EJ_MAX_SCORE (rr_score p) then Refuse
     else Done (words_bytes (run_reply_words p)))"

end
