(* ===== verification/Packet_Laws.thy ===== *)
theory Packet_Laws
  imports Packets
begin

text \<open>
  Laws of the binary packets: what a writer lays out, that a reader finds it there, and that a
  reader never leaves its buffer.
\<close>

section \<open>Words and bytes\<close>

lemma get32_put32: "get32 (ucast w) (ucast (drop_bit 8 w)) (ucast (drop_bit 16 w)) (ucast (drop_bit 24 w)) = w"
  unfolding get32_def
proof (rule bit_word_eqI)
  fix n
  assume "n < LENGTH(32)"
  then consider "n < 8" | "8 \<le> n" "n < 16" | "16 \<le> n" "n < 24" | "24 \<le> n" "n < 32"
    by fastforce
  then show "bit ((ucast (ucast w :: 8 word) :: 32 word) OR push_bit 8 (ucast (ucast (drop_bit 8 w) :: 8 word)) OR
      push_bit 16 (ucast (ucast (drop_bit 16 w) :: 8 word)) OR
      push_bit 24 (ucast (ucast (drop_bit 24 w) :: 8 word))) n = bit w n"
    by cases (auto simp: bit_simps)
qed

lemma length_put32 [simp]: "length (put32 w) = 4"
  by (simp add: put32_def)

lemma length_words_bytes [simp]: "length (words_bytes ws) = 4 * length ws"
  by (induction ws) (simp_all add: words_bytes_def)

lemma words_bytes_Nil [simp]: "words_bytes ws = [] \<longleftrightarrow> ws = []"
  by (cases ws) (simp_all add: words_bytes_def put32_def)

lemma fld_words_bytes: "i < length ws \<Longrightarrow> fld (words_bytes ws @ r) i = ws ! i"
proof (induction ws arbitrary: i)
  case Nil
  then show ?case by simp
next
  case (Cons w ws)
  have split: "words_bytes (w # ws) @ r = put32 w @ (words_bytes ws @ r)"
    by (simp add: words_bytes_def)
  show ?case
  proof (cases i)
    case 0
    then show ?thesis by (simp add: split fld_def put32_def get32_put32)
  next
    case (Suc j)
    have "fld (put32 w @ (words_bytes ws @ r)) (Suc j) = fld (words_bytes ws @ r) j"
      by (simp add: fld_def nth_append add.commute)
    with Suc Cons show ?thesis by (simp add: split)
  qed
qed

lemma word64_halves: "(ucast (lo32 w) :: 64 word) OR push_bit 32 (ucast (hi32 w)) = w"
  unfolding lo32_def hi32_def
  by (rule bit_word_eqI) (auto simp: bit_simps not_less)

lemma sint_word_of_nat: "n < 2 ^ 31 \<Longrightarrow> sint (word_of_nat n :: 32 word) = int n"
  by (simp add: signed_of_nat signed_take_bit_int_eq_self)

lemma out_of_nat: "n < 2 ^ 31 \<Longrightarrow> out_of 0 hi (word_of_nat n) \<longleftrightarrow> int n > hi"
  by (simp add: out_of_def sint_word_of_nat)

lemma len_of_nat [simp]: "n < 2 ^ 31 \<Longrightarrow> len_of_word (word_of_nat n) = n"
  by (simp add: len_of_word_def sint_word_of_nat)

lemma uint_scast_of_nat: "n < 2 ^ 31 \<Longrightarrow> uint (scast (word_of_nat n :: 32 word) :: 64 word) = int n"
  by (simp add: sint_word_of_nat scast_eq unsigned_of_nat take_bit_nat_eq_self)

lemma c_str_length: "0 \<le> strlen_int s \<Longrightarrow> int (length (c_str s)) = strlen_int s"
proof -
  let ?n = "length (takeWhile (\<lambda>b. b \<noteq> 0) s)"
  assume nn: "0 \<le> strlen_int s"
  have "strlen_int s \<le> int ?n"
    using nn signed_take_bit_int_less_eq_self_iff [of 31 "int ?n"]
    by (simp add: strlen_int_def signed_of_nat)
  also have "?n \<le> length s" by (rule length_takeWhile_le)
  finally show ?thesis using nn by (simp add: c_str_def)
qed

section \<open>Alignment\<close>

lemma align_ge [simp]: "n \<le> pkt_bin_align n"
  unfolding pkt_bin_align_def by presburger

lemma align_mod [simp]: "pkt_bin_align n mod 16 = 0"
  by (simp add: pkt_bin_align_def)

lemma align_zero [simp]: "pkt_bin_align 0 = 0"
  by (simp add: pkt_bin_align_def)

lemma align_add: "m mod 16 = 0 \<Longrightarrow> pkt_bin_align (m + n) = m + pkt_bin_align n"
  unfolding pkt_bin_align_def by presburger

lemma mod16_add: "a mod 16 = 0 \<Longrightarrow> b mod 16 = 0 \<Longrightarrow> (a + b) mod 16 = (0 :: nat)"
  by presburger

lemma align_id: "m mod 16 = 0 \<Longrightarrow> pkt_bin_align m = m"
  unfolding pkt_bin_align_def by presburger

lemma align_le: "n \<le> m \<Longrightarrow> m mod 16 = 0 \<Longrightarrow> pkt_bin_align n \<le> m"
proof -
  assume "n \<le> m" and m: "m mod 16 = 0"
  then have "(n + 15) div 16 \<le> (m + 15) div 16" by (intro div_le_mono) simp
  then have "pkt_bin_align n \<le> pkt_bin_align m" by (simp add: pkt_bin_align_def)
  then show ?thesis by (simp add: align_id [OF m])
qed

definition padded :: "bytes \<Rightarrow> bytes" where
  "padded s = s @ replicate (pkt_bin_align (length s) - length s) 0"

lemma length_padded [simp]: "length (padded s) = pkt_bin_align (length s)"
  by (simp add: padded_def)

lemma padded_Nil [simp]: "padded [] = []"
  by (simp add: padded_def)

definition env_bytes :: "bytes list \<Rightarrow> bytes" where
  "env_bytes ss = padded (words_bytes (map (\<lambda>s. word_of_nat (length s)) ss)) @ padded (concat ss)"

lemma length_env_bytes:
  "length (env_bytes ss) = pkt_bin_align (4 * length ss) + pkt_bin_align (length (concat ss))"
  by (simp add: env_bytes_def del: length_concat)

lemma length_env_bytes_mod: "length (env_bytes ss) mod 16 = 0"
  unfolding length_env_bytes by (intro mod16_add align_mod)

lemma env_bytes_Nil [simp]: "env_bytes [] = []"
  by (simp add: env_bytes_def words_bytes_def)

section \<open>The output buffer\<close>

text \<open>The bytes written so far, followed by \<open>k\<close> untouched ones.\<close>

definition written :: "bytes \<Rightarrow> nat \<Rightarrow> out_buf" where
  "written d k = (d @ replicate k 0, length d)"

lemma put_bytes_written:
  "length s \<le> k \<Longrightarrow> put_bytes s (written d k) = Done (written (d @ s) (k - length s))"
  by (simp add: written_def memcpy_to_def)

lemma put_align_written:
  assumes "pkt_bin_align (length d) \<le> length d + k"
  shows "put_align (written d k) =
    Done (written (d @ replicate (pkt_bin_align (length d) - length d) 0)
      (k - (pkt_bin_align (length d) - length d)))"
proof -
  let ?a = "pkt_bin_align (length d) - length d"
  have "replicate k (0 :: 8 word) = replicate ?a 0 @ replicate (k - ?a) 0"
    using assms by (simp flip: replicate_add)
  then show ?thesis by (simp add: written_def)
qed

lemma pad_out:
  assumes d: "length d mod 16 = 0" and k: "pkt_bin_align (length s) \<le> k"
  shows "put_align (written (d @ s) (k - length s)) =
    Done (written (d @ padded s) (k - pkt_bin_align (length s)))"
proof -
  have al: "pkt_bin_align (length (d @ s)) = length (d @ s) + (pkt_bin_align (length s) - length s)"
    by (simp add: align_add [OF d])
  show ?thesis
    using k align_ge [of "length s"]
    by (subst put_align_written) (simp_all only: al padded_def append_assoc, simp_all)
qed

lemma put_block_written:
  assumes d: "length d mod 16 = 0" and k: "pkt_bin_align (length s) \<le> k"
  shows "put_block s (written d k) = Done (written (d @ padded s) (k - pkt_bin_align (length s)))"
proof (cases "s = []")
  case True
  then show ?thesis by (simp add: put_block_def)
next
  case False
  have "length s \<le> k" using k align_ge [of "length s"] by linarith
  then show ?thesis using False by (simp add: put_block_def put_bytes_written pad_out [OF d k])
qed

lemma put_all_written:
  "length (concat ss) \<le> k \<Longrightarrow>
    put_all ss (written d k) = Done (written (d @ concat ss) (k - length (concat ss)))"
proof (induction ss arbitrary: d k)
  case Nil
  then show ?case by simp
next
  case (Cons s ss)
  then show ?case
    using Cons.IH [of "k - length s" "d @ s"] by (simp add: put_bytes_written)
qed

lemma put_env_written:
  assumes d: "length d mod 16 = 0" and k: "length (env_bytes ss) \<le> k"
  shows "put_env ss (written d k) = Done (written (d @ env_bytes ss) (k - length (env_bytes ss)))"
proof (cases "ss = []")
  case True
  then show ?thesis by (simp add: put_env_def)
next
  case False
  define t where "t = words_bytes (map (\<lambda>s. word_of_nat (length s)) ss)"
  define c where "c = concat ss"
  have env: "env_bytes ss = padded t @ padded c" by (simp add: env_bytes_def t_def c_def)
  have len: "pkt_bin_align (length t) + pkt_bin_align (length c) \<le> k"
    using k by (simp add: env)
  have b: "put_block t (written d k) = Done (written (d @ padded t) (k - pkt_bin_align (length t)))"
    using len by (intro put_block_written d) simp
  have "length c \<le> k - pkt_bin_align (length t)"
    using len align_ge [of "length c"] by linarith
  note p = put_all_written [OF this [unfolded c_def], folded c_def]
  have m: "length (d @ padded t) mod 16 = 0" by (simp add: mod16_add d)
  have q: "pkt_bin_align (length c) \<le> k - pkt_bin_align (length t)" using len by linarith
  show ?thesis
    using False pad_out [OF m q]
    by (simp add: put_env_def t_def [symmetric] b p env del: put_align.simps)
qed

text \<open>A buffer of \<open>n\<close> bytes that starts with \<open>d\<close>.\<close>

definition filled :: "nat \<Rightarrow> bytes \<Rightarrow> out_buf" where
  "filled n d = written d (n - length d)"

lemma put_bytes_filled: "length s \<le> n \<Longrightarrow> put_bytes s (replicate n 0, 0) = Done (filled n s)"
  using put_bytes_written [of s n "[]"] by (simp add: written_def filled_def)

lemma put_block_filled:
  "length d mod 16 = 0 \<Longrightarrow> length (d @ padded s) \<le> n \<Longrightarrow>
    put_block s (filled n d) = Done (filled n (d @ padded s))"
  by (simp add: filled_def put_block_written)

lemma put_env_filled:
  "length d mod 16 = 0 \<Longrightarrow> length (d @ env_bytes ss) \<le> n \<Longrightarrow>
    put_env ss (filled n d) = Done (filled n (d @ env_bytes ss))"
  by (simp add: filled_def put_env_written)

lemma fst_filled: "length d = n \<Longrightarrow> fst (filled n d) = d"
  by (simp add: filled_def written_def)

section \<open>Finding a part of a buffer\<close>

definition at :: "bytes \<Rightarrow> nat \<Rightarrow> bytes \<Rightarrow> bool" where
  "at bs p s \<longleftrightarrow> (\<exists>d r. bs = d @ s @ r \<and> length d = p)"

lemma at_append: "at bs p (a @ b) \<longleftrightarrow> at bs p a \<and> at bs (p + length a) b"
proof
  assume "at bs p (a @ b)"
  then obtain d r where "bs = d @ a @ b @ r" "length d = p" by (auto simp: at_def)
  then have "bs = d @ a @ (b @ r) \<and> bs = (d @ a) @ b @ r \<and> length (d @ a) = p + length a" by simp
  with \<open>length d = p\<close> show "at bs p a \<and> at bs (p + length a) b" unfolding at_def by blast
next
  assume "at bs p a \<and> at bs (p + length a) b"
  then have "at bs p a" "at bs (p + length a) b" by simp_all
  then obtain d r d' r' where 1: "bs = (d @ a) @ r" "length d = p"
    and 2: "bs = d' @ b @ r'" "length d' = p + length a"
    unfolding at_def by (metis append_assoc)
  have "(d @ a) @ r = d' @ b @ r' \<and> length (d @ a) = length d'" using 1 2 by simp
  then have "r = b @ r'" by (metis append_eq_append_conv)
  then have "bs = d @ (a @ b) @ r'" using 1 by simp
  then show "at bs p (a @ b)" using 1 unfolding at_def by blast
qed

lemma at_self: "at bs 0 bs"
  by (simp add: at_def)

lemma at_bound: "at bs p s \<Longrightarrow> p + length s \<le> length bs"
  by (auto simp: at_def)

lemma at_memcpy: "at bs p s \<Longrightarrow> memcpy_from bs p (length s) = Done s"
  by (auto simp: at_def memcpy_from_def)

lemma at_fld: "at bs 0 (words_bytes ws) \<Longrightarrow> i < length ws \<Longrightarrow> fld bs i = ws ! i"
  by (auto simp: at_def fld_words_bytes)

lemma at_padded: "at bs p (padded s) \<Longrightarrow> at bs p s"
  by (simp add: padded_def at_append)

section \<open>Reading what was written\<close>

definition opt_bytes :: "bytes \<Rightarrow> bytes option" where
  "opt_bytes s = (if s = [] then None else Some s)"

lemma read_string_at:
  assumes "at bs p (padded s)" and "int (length s) \<le> limit" and "length s < 2 ^ 31"
  shows "read_string bs p limit (word_of_nat (length s)) = Done (opt_bytes s, p + pkt_bin_align (length s))"
  using assms at_bound [OF at_padded [OF assms(1)]] at_memcpy [OF at_padded [OF assms(1)]]
  by (simp add: read_string_def out_of_nat opt_bytes_def)

lemma read_strs_at:
  "at bs p (concat ss) \<Longrightarrow> read_strs bs p (map length ss) = Done (ss, p + length (concat ss))"
proof (induction ss arbitrary: p)
  case Nil
  then show ?case by simp
next
  case (Cons s ss)
  then have s: "at bs p s" and r: "at bs (p + length s) (concat ss)" by (simp_all add: at_append)
  show ?case
    using Cons.IH [OF r] at_bound [OF s] at_memcpy [OF s] by simp
qed

definition env_ok :: "bytes list \<Rightarrow> bool" where
  "env_ok ss \<longleftrightarrow> int (length ss) \<le> EJ_MAX_COMPILE_ENV_NUM \<and>
     (\<forall>s \<in> set ss. int (length s) \<le> EJ_MAX_COMPILE_ENV_LEN)"

definition opt_env :: "bytes list \<Rightarrow> bytes option list option" where
  "opt_env ss = (if ss = [] then None else Some (map Some ss @ [None]))"

lemma read_env_at:
  assumes b: "at bs p (env_bytes ss)" and ok: "env_ok ss" and p: "p mod 16 = 0"
  shows "\<exists>q. read_env bs p (word_of_nat (length ss)) = Done (opt_env ss, q) \<and>
    pkt_bin_align q = p + length (env_bytes ss)"
proof (cases "ss = []")
  case True
  then show ?thesis
    using at_bound [OF b]
    by (simp add: read_env_def out_of_def len_of_word_def opt_env_def align_id p
        EJ_MAX_COMPILE_ENV_NUM_def)
next
  case False
  let ?ws = "map (\<lambda>s. word_of_nat (length s)) ss :: 32 word list"
  let ?t = "words_bytes ?ws"
  have t: "at bs p ?t" and c: "at bs (p + pkt_bin_align (length ss * 4)) (concat ss)"
    using b by (auto simp: env_bytes_def at_append mult.commute dest: at_padded)
  have n: "length ss < 2 ^ 31" "int (length ss) \<le> EJ_MAX_COMPILE_ENV_NUM"
    using ok by (auto simp: env_ok_def EJ_MAX_COMPILE_ENV_NUM_def)
  have tab: "memcpy_from bs p (length ss * 4) = Done ?t"
    using at_memcpy [OF t] by (simp add: mult.commute)
  have lens: "map (fld ?t) [0..<length ss] = ?ws"
    using fld_words_bytes [of _ ?ws "[]"] by (intro nth_equalityI) auto
  have each: "length s < 2 ^ 31" "int (length s) \<le> EJ_MAX_COMPILE_ENV_LEN" if "s \<in> set ss" for s
    using ok that by (auto simp: env_ok_def EJ_MAX_COMPILE_ENV_LEN_def)
  have none: "\<not> list_ex (out_of 0 EJ_MAX_COMPILE_ENV_LEN) ?ws"
    using each by (simp add: list_ex_iff out_of_nat not_less)
  have nats: "map len_of_word ?ws = map length ss"
    using each by auto
  have "pkt_bin_align (p + pkt_bin_align (length ss * 4) + length (concat ss)) =
      p + length (env_bytes ss)"
    by (simp add: align_add mod16_add p length_env_bytes mult.commute add.assoc del: length_concat)
  then show ?thesis
    using False n at_bound [OF t] read_strs_at [OF c]
    by (simp add: read_env_def out_of_nat tab lens none nats opt_env_def mult.commute del: length_concat map_map)
qed

section \<open>The compile request\<close>

text \<open>The strings that are sent, and the packet the other side gets.\<close>

definition sent_env :: "32 word \<Rightarrow> bytes option list option \<Rightarrow> bytes list" where
  "sent_env n vars = (case env_list n vars of Done ss \<Rightarrow> ss | _ \<Rightarrow> [])"

definition request_received :: "compile_request \<Rightarrow> compile_request" where
  "request_received p =
    (let env = sent_env (rq_env_num p) (rq_env_vars p);
         sc_env = sent_env (rq_sc_env_num p) (rq_sc_env_vars p) in
     p\<lparr>rq_style_checker := opt_bytes (opt_str (rq_style_checker p)),
       rq_src_sfx := opt_bytes (opt_str (rq_src_sfx p)),
       rq_run_block := take (len_of_word (rq_run_block_len p)) (rq_run_block p),
       rq_env_num := word_of_nat (length env), rq_env_vars := opt_env env,
       rq_sc_env_num := word_of_nat (length sc_env), rq_sc_env_vars := opt_env sc_env\<rparr>)"

definition request_bytes :: "32 word list \<Rightarrow> bytes \<Rightarrow> bytes \<Rightarrow> bytes \<Rightarrow> bytes list \<Rightarrow> bytes list \<Rightarrow> bytes" where
  "request_bytes hdr sc sfx block env sc_env =
     words_bytes hdr @ padded sc @ padded sfx @ padded block @ env_bytes env @ env_bytes sc_env"

lemma length_request_header [simp]: "length (request_header p n a b c d) = 28"
  by (cases "rq_uuid p") (simp add: request_header_def)

lemma env_strs_ok:
  "env_strs n vs = Done ss \<Longrightarrow> length ss = n \<and> (\<forall>s \<in> set ss. int (length s) \<le> EJ_MAX_COMPILE_ENV_LEN)"
  by (induction n vs arbitrary: ss rule: env_strs.induct)
     (auto simp: pbind_Done c_str_length split: if_splits)

lemma env_list_ok: "env_list n vars = Done ss \<Longrightarrow> env_ok ss"
  by (auto simp: env_list_def pbind_Done env_ok_def split: if_splits dest!: env_strs_ok)

lemma add_int_Done: "add_int a b = Done c \<longleftrightarrow> c = a + b \<and> a + b < 2 ^ 31"
  by (auto simp: add_int_def)

lemma add_lens_Done: "add_lens a ss = Done c \<Longrightarrow> c = a + length (concat ss)"
  by (induction ss arbitrary: a) (fastforce simp: pbind_Done add_int_Done simp del: length_concat)+

lemma request_size_Done:
  assumes "request_size a b c env sc_env = Done n"
  shows "n = request_header_size + pkt_bin_align a + pkt_bin_align b + pkt_bin_align c +
    length (env_bytes env) + length (env_bytes sc_env)"
proof -
  define h where "h = request_header_size + pkt_bin_align a + pkt_bin_align b + pkt_bin_align c"
  have h: "h mod 16 = 0"
    unfolding h_def by (intro mod16_add align_mod) (simp add: request_header_size_def)
  define e where "e = h + pkt_bin_align (length env * 4) + pkt_bin_align (length (concat env))"
  have e: "pkt_bin_align (h + pkt_bin_align (length env * 4) + length (concat env)) = e"
    unfolding e_def by (intro align_add mod16_add h align_mod)
  have e16: "e mod 16 = 0" unfolding e_def by (intro mod16_add h align_mod)
  have "n = pkt_bin_align (e + pkt_bin_align (length sc_env * 4) + length (concat sc_env))"
    using assms
    by (auto simp: request_size_def pbind_Done add_int_Done align_int_def e [unfolded h_def] h_def
        dest!: add_lens_Done simp del: length_concat)
  also have "\<dots> = e + pkt_bin_align (length sc_env * 4) + pkt_bin_align (length (concat sc_env))"
    by (intro align_add mod16_add e16 align_mod)
  finally show ?thesis
    by (simp add: e_def h_def length_env_bytes mult.commute del: length_concat)
qed

lemma blocks_written:
  fixes env sc_env :: "bytes list"
  assumes hdr: "length hdr = 28" and n: "n = length (request_bytes hdr sc sfx block env sc_env)"
  shows "pbind (put_bytes (words_bytes hdr) (replicate n 0, 0)) (\<lambda>o0.
    pbind (put_block sc o0) (\<lambda>o1. pbind (put_block sfx o1) (\<lambda>o2.
    pbind (put_block block o2) (\<lambda>o3. pbind (put_env env o3) (\<lambda>o4.
    pbind (put_env sc_env o4) (\<lambda>o5. Done (fst o5))))))) =
    Done (request_bytes hdr sc sfx block env sc_env)"
proof -
  define hb where "hb = words_bytes hdr"
  define d1 where "d1 = hb @ padded sc"
  define d2 where "d2 = d1 @ padded sfx"
  define d3 where "d3 = d2 @ padded block"
  define d4 where "d4 = d3 @ env_bytes env"
  define d5 where "d5 = d4 @ env_bytes sc_env"
  have m0: "length hb mod 16 = 0" by (simp add: hb_def hdr)
  then have m: "length d1 mod 16 = 0" "length d2 mod 16 = 0" "length d3 mod 16 = 0" "length d4 mod 16 = 0"
    by (simp_all add: d1_def d2_def d3_def d4_def mod16_add length_env_bytes_mod)
  have d5: "request_bytes hdr sc sfx block env sc_env = d5"
    by (simp add: request_bytes_def d5_def d4_def d3_def d2_def d1_def hb_def)
  then have l5: "length d5 = n" using n by simp
  then have l: "length hb \<le> n" "length d1 \<le> n" "length d2 \<le> n" "length d3 \<le> n" "length d4 \<le> n"
    by (simp_all add: d5_def d4_def d3_def d2_def d1_def)
  show ?thesis
    using put_bytes_filled [OF l(1)] put_block_filled [OF m0 l(2) [unfolded d1_def]]
      put_block_filled [OF m(1) l(3) [unfolded d2_def]] put_block_filled [OF m(2) l(4) [unfolded d3_def]]
      put_env_filled [OF m(3) l(5) [unfolded d4_def]] put_env_filled [OF m(4), of sc_env n] l5
    by (simp add: d5 fst_filled flip: hb_def d1_def d2_def d3_def d4_def d5_def del: put_bytes.simps)
qed

text \<open>What the writer checks on the fields, and the block after block layout of what it writes.\<close>

definition request_guards :: "nat \<Rightarrow> compile_request \<Rightarrow> bool" where
  "request_guards path_max p \<longleftrightarrow>
    \<not> out_of 0 EJ_MAX_JUDGE_ID (rq_judge_id p) \<and> \<not> out_of 0 EJ_MAX_CONTEST_ID (rq_contest_id p) \<and>
    \<not> out_of 0 EJ_MAX_RUN_ID (rq_run_id p) \<and> \<not> out_of 0 EJ_MAX_LANG_ID (rq_lang_id p) \<and>
    \<not> out_of 0 EJ_MAX_LOCALE_ID (rq_locale_id p) \<and> \<not> out_of 0 1 (rq_output_only p) \<and>
    \<not> out_of 0 1 (rq_style_check_only p) \<and> \<not> out_of 0 USEC_MAX (rq_ts1_us p) \<and>
    0 \<le> opt_len (rq_style_checker p) \<and> opt_len (rq_style_checker p) \<le> int path_max \<and>
    0 \<le> opt_len (rq_src_sfx p) \<and> opt_len (rq_src_sfx p) \<le> int path_max \<and>
    \<not> out_of 0 EJ_MAX_COMPILE_RUN_BLOCK_LEN (rq_run_block_len p)"

lemma request_guardsD:
  assumes "request_guards path_max p"
  shows "\<not> out_of 0 EJ_MAX_JUDGE_ID (rq_judge_id p)" "\<not> out_of 0 EJ_MAX_CONTEST_ID (rq_contest_id p)"
    "\<not> out_of 0 EJ_MAX_RUN_ID (rq_run_id p)" "\<not> out_of 0 EJ_MAX_LANG_ID (rq_lang_id p)"
    "\<not> out_of 0 EJ_MAX_LOCALE_ID (rq_locale_id p)" "\<not> out_of 0 1 (rq_output_only p)"
    "\<not> out_of 0 1 (rq_style_check_only p)" "\<not> out_of 0 USEC_MAX (rq_ts1_us p)"
    "0 \<le> opt_len (rq_style_checker p)" "opt_len (rq_style_checker p) \<le> int path_max"
    "0 \<le> opt_len (rq_src_sfx p)" "opt_len (rq_src_sfx p) \<le> int path_max"
    "\<not> out_of 0 EJ_MAX_COMPILE_RUN_BLOCK_LEN (rq_run_block_len p)"
  using assms by (simp_all add: request_guards_def)

lemma request_size_bytes:
  assumes "request_size (length sc) (length sfx) (length block) env sc_env = Done n" "length hdr = 28"
  shows "n = length (request_bytes hdr sc sfx block env sc_env)"
  using request_size_Done [OF assms(1)] assms(2)
  by (simp add: request_bytes_def request_header_size_def)

lemma request_write_steps:
  assumes g: "request_guards path_max p"
  shows "compile_request_packet_write path_max p =
    pbind (env_list (rq_env_num p) (rq_env_vars p)) (\<lambda>env.
    pbind (env_list (rq_sc_env_num p) (rq_sc_env_vars p)) (\<lambda>sc_env.
    pbind (request_size (length (opt_str (rq_style_checker p))) (length (opt_str (rq_src_sfx p)))
      (len_of_word (rq_run_block_len p)) env sc_env) (\<lambda>n.
    if n > EJ_MAX_COMPILE_PACKET_SIZE then Refuse
    else if length (rq_run_block p) < len_of_word (rq_run_block_len p) then Crash
    else Done (request_bytes (request_header p n (length (opt_str (rq_style_checker p)))
        (length (opt_str (rq_src_sfx p))) (length env) (length sc_env))
        (opt_str (rq_style_checker p)) (opt_str (rq_src_sfx p))
        (take (len_of_word (rq_run_block_len p)) (rq_run_block p)) env sc_env))))"
proof -
  define sc where "sc = opt_str (rq_style_checker p)"
  define sfx where "sfx = opt_str (rq_src_sfx p)"
  define len where "len = len_of_word (rq_run_block_len p)"
  have step: "(if n < request_header_size \<or> n > EJ_MAX_COMPILE_PACKET_SIZE then Refuse
     else
         pbind (put_bytes (words_bytes (request_header p n (length sc) (length sfx)
             (length env) (length sc_env))) (replicate n 0, 0)) (\<lambda>o0.
         pbind (put_block sc o0) (\<lambda>o1.
         pbind (put_block sfx o1) (\<lambda>o2.
         pbind (memcpy_from (rq_run_block p) 0 len) (\<lambda>block.
         pbind (put_block block o2) (\<lambda>o3.
         pbind (put_env env o3) (\<lambda>o4.
         pbind (put_env sc_env o4) (\<lambda>o5. Done (fst o5)))))))))
    = (if n > EJ_MAX_COMPILE_PACKET_SIZE then Refuse
      else if length (rq_run_block p) < len then Crash
      else Done (request_bytes (request_header p n (length sc) (length sfx) (length env) (length sc_env))
        sc sfx (take len (rq_run_block p)) env sc_env))"
    if n: "request_size (length sc) (length sfx) len env sc_env = Done n" for env sc_env n
  proof -
    let ?hdr = "request_header p n (length sc) (length sfx) (length env) (length sc_env)"
    define block where "block = take len (rq_run_block p) @ replicate (len - length (rq_run_block p)) 0"
    have len: "length block = len" by (simp add: block_def)
    have size: "n = length (request_bytes ?hdr sc sfx block env sc_env)"
      using n by (intro request_size_bytes) (simp_all add: len)
    note all = blocks_written [OF length_request_header size]
    have nn: "\<not> n < request_header_size"
      using request_size_Done [OF n] by simp
    show ?thesis
    proof (cases "length (rq_run_block p) < len")
      case True
      then have m: "memcpy_from (rq_run_block p) 0 len = Crash" by (simp add: memcpy_from_def)
      show ?thesis using True nn all by (auto simp: m pbind_Done simp del: put_bytes.simps)
    next
      case False
      then have m: "memcpy_from (rq_run_block p) 0 len = Done block" and b: "block = take len (rq_run_block p)"
        by (simp_all add: memcpy_from_def block_def)
      show ?thesis using False nn all by (simp add: m b del: put_bytes.simps)
    qed
  qed
  show ?thesis
    using g
    by (simp add: request_guards_def compile_request_packet_write_def Let_def
        step [unfolded sc_def sfx_def len_def] cong: pbind_cong)
qed

text \<open>The reader gets back what the writer was given.\<close>

lemma request_write_guards:
  "compile_request_packet_write path_max p = Done bs \<Longrightarrow> request_guards path_max p"
  by (simp add: compile_request_packet_write_def request_guards_def split: if_splits)

lemma request_written:
  assumes w: "compile_request_packet_write path_max p = Done bs"
  obtains env sc_env block where
    "env_list (rq_env_num p) (rq_env_vars p) = Done env"
    "env_list (rq_sc_env_num p) (rq_sc_env_vars p) = Done sc_env"
    "block = take (len_of_word (rq_run_block_len p)) (rq_run_block p)"
    "length block = len_of_word (rq_run_block_len p)"
    "bs = request_bytes (request_header p (length bs) (length (opt_str (rq_style_checker p)))
      (length (opt_str (rq_src_sfx p))) (length env) (length sc_env)) (opt_str (rq_style_checker p))
      (opt_str (rq_src_sfx p)) block env sc_env"
    "length bs \<le> EJ_MAX_COMPILE_PACKET_SIZE"
proof -
  let ?n = "len_of_word (rq_run_block_len p)"
  from w [unfolded request_write_steps [OF request_write_guards [OF w]]]
  obtain env sc_env n where e: "env_list (rq_env_num p) (rq_env_vars p) = Done env"
    "env_list (rq_sc_env_num p) (rq_sc_env_vars p) = Done sc_env" and
    n: "request_size (length (opt_str (rq_style_checker p))) (length (opt_str (rq_src_sfx p))) ?n
      env sc_env = Done n" and
    le: "n \<le> EJ_MAX_COMPILE_PACKET_SIZE" "?n \<le> length (rq_run_block p)" and
    bs: "bs = request_bytes (request_header p n (length (opt_str (rq_style_checker p)))
      (length (opt_str (rq_src_sfx p))) (length env) (length sc_env)) (opt_str (rq_style_checker p))
      (opt_str (rq_src_sfx p)) (take ?n (rq_run_block p)) env sc_env"
    by (auto simp: pbind_Done split: if_splits)
  have l: "length (take ?n (rq_run_block p)) = ?n" using le(2) by simp
  have "length bs = n"
    unfolding bs by (rule request_size_bytes [symmetric]) (simp_all only: l n length_request_header)
  then show thesis using e bs le l by (intro that [of env sc_env]) simp_all
qed

lemma opt_str_length: "0 \<le> opt_len s \<Longrightarrow> int (length (opt_str s)) = opt_len s"
  by (cases s) (simp_all add: opt_len_def opt_str_def c_str_length)

lemma of_len_of_word: "0 \<le> sint w \<Longrightarrow> word_of_nat (len_of_word w) = w"
  by (simp add: len_of_word_def word_of_nat_eq_iff)

text \<open>C11: a compile request that the server writes is accepted by the compile server, which
  gets the same request: the strings up to their terminator, the environments as arrays that
  end in a null pointer.\<close>

theorem compile_request_roundtrip:
  "compile_request_packet_write path_max p = Done bs \<Longrightarrow>
    compile_request_packet_read path_max bs = Done (request_received p)"
proof -
  assume w: "compile_request_packet_write path_max p = Done bs"
  note g = request_guardsD [OF request_write_guards [OF w]]
  define sc where "sc = opt_str (rq_style_checker p)"
  define sfx where "sfx = opt_str (rq_src_sfx p)"
  obtain env sc_env block where
    env: "env_list (rq_env_num p) (rq_env_vars p) = Done env" and
    sc_env: "env_list (rq_sc_env_num p) (rq_sc_env_vars p) = Done sc_env" and
    block: "block = take (len_of_word (rq_run_block_len p)) (rq_run_block p)"
      "length block = len_of_word (rq_run_block_len p)" and
    bs: "bs = request_bytes (request_header p (length bs) (length sc) (length sfx) (length env)
      (length sc_env)) sc sfx block env sc_env" and
    small: "length bs \<le> EJ_MAX_COMPILE_PACKET_SIZE"
    using request_written [OF w] unfolding sc_def sfx_def by metis
  define hdr where "hdr = request_header p (length bs) (length sc) (length sfx) (length env) (length sc_env)"
  define p1 where "p1 = request_header_size + pkt_bin_align (length sc)"
  define p2 where "p2 = p1 + pkt_bin_align (length sfx)"
  define p3 where "p3 = p2 + pkt_bin_align (length block)"
  define p4 where "p4 = p3 + length (env_bytes env)"
  have bs': "bs = request_bytes hdr sc sfx block env sc_env" using bs by (simp add: hdr_def)
  have "at bs 0 (request_bytes hdr sc sfx block env sc_env)" using bs' at_self by metis
  then have ats: "at bs 0 (words_bytes hdr)" "at bs request_header_size (padded sc)"
    "at bs p1 (padded sfx)" "at bs p2 (padded block)" "at bs p3 (env_bytes env)"
    "at bs p4 (env_bytes sc_env)"
    by (simp_all add: request_bytes_def at_append p1_def p2_def p3_def p4_def add.assoc hdr_def
        request_header_size_def)
  have total: "length bs = p4 + length (env_bytes sc_env)"
    using arg_cong [OF bs', of length]
    by (simp add: request_bytes_def p1_def p2_def p3_def p4_def hdr_def request_header_size_def)
  have m: "p1 mod 16 = 0" "p2 mod 16 = 0" "p3 mod 16 = 0" "p4 mod 16 = 0" "length bs mod 16 = 0"
    unfolding total p4_def p3_def p2_def p1_def
    by (intro mod16_add align_mod length_env_bytes_mod; simp add: request_header_size_def)+
  have l: "length sc < 2 ^ 31" "length sfx < 2 ^ 31" "length block < 2 ^ 31" "length bs < 2 ^ 31"
    using small at_bound [OF at_padded [OF ats(2)]] at_bound [OF at_padded [OF ats(3)]]
      at_bound [OF at_padded [OF ats(4)]] by (simp_all add: EJ_MAX_COMPILE_PACKET_SIZE_def)
  have f: "fld bs i = hdr ! i" if "i < 28" for i
    using at_fld [OF ats(1)] that by (simp add: hdr_def)
  obtain u0 u1 u2 u3 where u: "rq_uuid p = (u0, u1, u2, u3)" by (cases "rq_uuid p")
  have len: "word_of_nat (length block) = rq_run_block_len p"
    using g(13) by (simp add: block(2) of_len_of_word out_of_def)
  have fs: "fld bs 0 = word_of_nat (length bs)" "fld bs 1 = word_of_int EJ_COMPILE_PACKET_VERSION"
    "fld bs 2 = rq_judge_id p" "fld bs 3 = rq_contest_id p" "fld bs 4 = rq_run_id p"
    "fld bs 5 = rq_lang_id p" "fld bs 6 = rq_locale_id p" "fld bs 7 = rq_output_only p"
    "fld bs 14 = rq_style_check_only p" "fld bs 15 = rq_ts1 p" "fld bs 16 = rq_ts1_us p"
    "fld bs 17 = word_of_nat (length sc)" "fld bs 18 = word_of_nat (length sfx)"
    "fld bs 19 = rq_run_block_len p" "fld bs 20 = word_of_nat (length env)"
    "fld bs 21 = word_of_nat (length sc_env)" "fld bs 22 = rq_use_uuid p"
    by (simp_all add: f hdr_def request_header_def)
  have fq: "fld_quad bs 23 = rq_uuid p"
    by (simp add: fld_quad_def f hdr_def request_header_def u)
  have f64: "fld64 bs 8 = rq_max_vm_size p" "fld64 bs 10 = rq_max_stack_size p"
    "fld64 bs 12 = rq_max_file_size p"
    by (simp_all add: fld64_def f hdr_def request_header_def word64_halves)
  have rsc: "read_string bs request_header_size (int path_max) (word_of_nat (length sc)) = Done (opt_bytes sc, p1)"
    using g(9,10) read_string_at [OF ats(2)] l(1)
    by (simp add: p1_def sc_def opt_str_length)
  have rsfx: "read_string bs p1 (int path_max) (word_of_nat (length sfx)) = Done (opt_bytes sfx, p2)"
    using g(11,12) read_string_at [OF ats(3)] l(2)
    by (simp add: p2_def sfx_def opt_str_length)
  have rblk: "read_string bs p2 EJ_MAX_COMPILE_RUN_BLOCK_LEN (rq_run_block_len p) = Done (opt_bytes block, p3)"
    using g(13) read_string_at [OF ats(4)] l(3) out_of_nat [OF l(3)]
    by (simp add: p3_def len)
  obtain q4 where renv: "read_env bs p3 (word_of_nat (length env)) = Done (opt_env env, q4)"
    and q4: "pkt_bin_align q4 = p4"
    using read_env_at [OF ats(5) env_list_ok [OF env] m(3)] by (auto simp: p4_def)
  obtain q5 where rsenv: "read_env bs p4 (word_of_nat (length sc_env)) = Done (opt_env sc_env, q5)"
    and q5: "pkt_bin_align q5 = length bs"
    using read_env_at [OF ats(6) env_list_ok [OF sc_env] m(4)] by (auto simp: total)
  have head: "request_header_size \<le> length bs" by (simp add: total p4_def p3_def p2_def p1_def)
  have ver: "sint (word_of_int EJ_COMPILE_PACKET_VERSION :: 32 word) = EJ_COMPILE_PACKET_VERSION"
    by (simp add: EJ_COMPILE_PACKET_VERSION_def)
  have blk: "(case opt_bytes block of None \<Rightarrow> [] | Some b \<Rightarrow> b) = block"
    by (simp add: opt_bytes_def)
  have norm: "request_received p = p\<lparr>rq_style_checker := opt_bytes sc, rq_src_sfx := opt_bytes sfx,
      rq_run_block := block, rq_env_num := word_of_nat (length env), rq_env_vars := opt_env env,
      rq_sc_env_num := word_of_nat (length sc_env), rq_sc_env_vars := opt_env sc_env\<rparr>"
    by (simp add: request_received_def sent_env_def env sc_env sc_def sfx_def block(1))
  show ?thesis
    using g head small m(5) l(4)
    by (simp add: compile_request_packet_read_def fs fs(2) [unfolded One_nat_def] fq f64 rsc rsfx rblk renv rsenv q4 q5 ver blk norm
        uint_scast_of_nat sint_word_of_nat out_of_def)
qed

definition example_request :: compile_request where
  "example_request =
    \<lparr>rq_judge_id = 7, rq_contest_id = 3, rq_run_id = 12, rq_lang_id = 2, rq_locale_id = 1,
     rq_output_only = 0, rq_style_check_only = 0, rq_ts1 = 1000, rq_ts1_us = 5, rq_use_uuid = 1,
     rq_uuid = (1, 2, 3, 4), rq_max_vm_size = 0x400000000, rq_max_stack_size = 0, rq_max_file_size = 9,
     rq_style_checker = Some [99, 99], rq_src_sfx = Some [46, 99], rq_run_block_len = 3,
     rq_run_block = [1, 0, 2], rq_env_num = - 1, rq_sc_env_num = 0,
     rq_env_vars = Some [Some [65, 61, 49], None], rq_sc_env_vars = None\<rparr>"

lemma example_request_written: "is_Done (compile_request_packet_write 4096 example_request)"
proof -
  have g: "request_guards 4096 example_request"
    by (simp add: request_guards_def example_request_def out_of_def opt_len_def strlen_int_def
        EJ_MAX_JUDGE_ID_def EJ_MAX_CONTEST_ID_def EJ_MAX_RUN_ID_def EJ_MAX_LANG_ID_def
        EJ_MAX_LOCALE_ID_def USEC_MAX_def EJ_MAX_COMPILE_RUN_BLOCK_LEN_def)
  have e: "env_list (- 1) (Some [Some [65, 61, 49], None]) = Done [[65, 61, 49]]" "env_list 0 None = Done []"
    by (simp_all add: env_list_def env_count_def strlen_int_def c_str_def EJ_MAX_COMPILE_ENV_NUM_def
        EJ_MAX_COMPILE_ENV_LEN_def)
  show ?thesis
    unfolding request_write_steps [OF g]
    by (simp add: example_request_def e opt_str_def c_str_def strlen_int_def len_of_word_def
        request_size_def add_int_def align_int_def pkt_bin_align_def request_header_size_def
        EJ_MAX_COMPILE_PACKET_SIZE_def)
qed

theorem compile_request_roundtrip_witness:
  "\<exists>bs. compile_request_packet_write 4096 example_request = Done bs \<and>
     compile_request_packet_read 4096 bs = Done (request_received example_request)"
proof -
  obtain bs where "compile_request_packet_write 4096 example_request = Done bs"
    using example_request_written
    by (cases "compile_request_packet_write 4096 example_request") auto
  then show ?thesis using compile_request_roundtrip by blast
qed

section \<open>The replies\<close>

lemma length_reply_header [simp]: "length (reply_header p n) = 20"
  by (cases "cr_uuid p") (simp add: reply_header_def)

lemma length_run_reply_words [simp]: "length (run_reply_words p) = 33"
  by (cases "rr_uuid p") (simp add: run_reply_words_def)

definition compile_reply_received :: "compile_reply \<Rightarrow> compile_reply" where
  "compile_reply_received p =
     p\<lparr>cr_run_block := take (len_of_word (cr_run_block_len p)) (cr_run_block p)\<rparr>"

text \<open>A compile reply that the compile server writes is accepted by the contest server, which
  gets the same reply with the declared part of the run block.\<close>

theorem compile_reply_roundtrip:
  "compile_reply_packet_write p = Done bs \<Longrightarrow>
    compile_reply_packet_read bs = Done (compile_reply_received p)"
proof -
  assume w: "compile_reply_packet_write p = Done bs"
  let ?n = "len_of_word (cr_run_block_len p)"
  define n where "n = reply_header_size + pkt_bin_align ?n"
  define hdr where "hdr = reply_header p n"
  from w obtain o0 block o1 where
    g: "\<not> out_of 0 EJ_MAX_JUDGE_ID (cr_judge_id p)" "\<not> out_of 1 EJ_MAX_CONTEST_ID (cr_contest_id p)"
      "\<not> out_of 0 EJ_MAX_RUN_ID (cr_run_id p)" "\<not> bad_compile_status (cr_status p)"
      "\<not> out_of 0 USEC_MAX (cr_ts1_us p)" "\<not> out_of 0 USEC_MAX (cr_ts2_us p)"
      "\<not> out_of 0 USEC_MAX (cr_ts3_us p)"
      "\<not> out_of 0 EJ_MAX_COMPILE_RUN_BLOCK_LEN (cr_run_block_len p)" and
    small: "n \<le> EJ_MAX_COMPILE_PACKET_SIZE" and
    o0: "put_bytes (words_bytes hdr) (replicate n 0, 0) = Done o0" and
    block: "memcpy_from (cr_run_block p) 0 ?n = Done block" and
    o1: "put_bytes block o0 = Done o1" and bs: "bs = fst o1"
    unfolding n_def hdr_def
    by (auto simp: compile_reply_packet_write_def Let_def pbind_Done split: if_splits
        simp del: put_bytes.simps)
  have blk: "block = take ?n (cr_run_block p)" "length block = ?n"
    using block by (auto simp: memcpy_from_def split: if_splits)
  have n: "n < 2 ^ 31" "length (words_bytes hdr) \<le> n" "length (words_bytes hdr) + length block \<le> n"
    using small align_ge [of ?n]
    by (simp_all add: n_def reply_header_size_def EJ_MAX_COMPILE_PACKET_SIZE_def hdr_def blk(2))
  have "o0 = filled n (words_bytes hdr)"
    using o0 n(2) by (simp add: put_bytes_filled del: put_bytes.simps)
  then have "o1 = written (words_bytes hdr @ block) (n - length (words_bytes hdr) - length block)"
    using o1 n(3) by (simp add: filled_def put_bytes_written del: put_bytes.simps)
  then have bs': "bs = words_bytes hdr @ block @ replicate (n - length (words_bytes hdr) - length block) 0"
    by (simp add: bs written_def)
  then have len: "length bs = n" using n(3) by simp
  have "at bs 0 (words_bytes hdr @ block)" unfolding at_def bs' by auto
  then have ats: "at bs 0 (words_bytes hdr)" "at bs reply_header_size block"
    by (simp_all add: at_append hdr_def reply_header_size_def)
  have f: "fld bs i = hdr ! i" if "i < 20" for i
    using at_fld [OF ats(1)] that by (simp add: hdr_def)
  obtain u0 u1 u2 u3 where u: "cr_uuid p = (u0, u1, u2, u3)" by (cases "cr_uuid p")
  have fs: "fld bs 0 = word_of_nat n" "fld bs (Suc 0) = 1" "fld bs 2 = cr_judge_id p"
    "fld bs 3 = cr_contest_id p" "fld bs 4 = cr_run_id p" "fld bs 5 = cr_status p"
    "fld bs 6 = cr_ts1 p" "fld bs 7 = cr_ts1_us p" "fld bs 8 = cr_ts2 p" "fld bs 9 = cr_ts2_us p"
    "fld bs 10 = cr_ts3 p" "fld bs 11 = cr_ts3_us p" "fld bs 12 = cr_run_block_len p"
    "fld bs 13 = cr_use_uuid p" "fld_quad bs 14 = cr_uuid p"
    by (simp_all add: fld_quad_def f hdr_def reply_header_def u)
  have m: "reply_header_size mod 16 = 0" by (simp add: reply_header_size_def)
  have "n mod 16 = 0" unfolding n_def by (intro mod16_add align_mod m)
  moreover have "memcpy_from bs reply_header_size ?n = Done block"
    using at_memcpy [OF ats(2)] by (simp add: blk(2))
  moreover have "pkt_bin_align (reply_header_size + ?n) = n"
    by (simp add: n_def align_add m)
  moreover have "reply_header_size + ?n \<le> n" "reply_header_size \<le> n" by (simp_all add: n_def)
  moreover have "?n = 0 \<Longrightarrow> block = []" using blk(2) by simp
  ultimately show ?thesis
    using g small n(1) blk(1)
    by (simp add: compile_reply_packet_read_def fs len uint_scast_of_nat sint_word_of_nat
        compile_reply_received_def Let_def)
qed

definition example_compile_reply :: compile_reply where
  "example_compile_reply =
    \<lparr>cr_judge_id = 7, cr_contest_id = 3, cr_run_id = 12, cr_status = 14, cr_ts1 = 1000, cr_ts1_us = 5,
     cr_ts2 = 1001, cr_ts2_us = 6, cr_ts3 = 1002, cr_ts3_us = 7, cr_run_block_len = 3,
     cr_run_block = [1, 0, 2], cr_use_uuid = 1, cr_uuid = (1, 2, 3, 4)\<rparr>"

lemma example_compile_reply_written: "is_Done (compile_reply_packet_write example_compile_reply)"
  by (simp add: example_compile_reply_def compile_reply_packet_write_def out_of_def bad_compile_status_def
      len_of_word_def reply_header_size_def pkt_bin_align_def memcpy_from_def memcpy_to_def
      EJ_MAX_JUDGE_ID_def EJ_MAX_CONTEST_ID_def EJ_MAX_RUN_ID_def USEC_MAX_def
      EJ_MAX_COMPILE_RUN_BLOCK_LEN_def EJ_MAX_COMPILE_PACKET_SIZE_def)

theorem compile_reply_roundtrip_witness:
  "\<exists>bs. compile_reply_packet_write example_compile_reply = Done bs \<and>
     compile_reply_packet_read bs = Done (compile_reply_received example_compile_reply)"
proof -
  obtain bs where "compile_reply_packet_write example_compile_reply = Done bs"
    using example_compile_reply_written
    by (cases "compile_reply_packet_write example_compile_reply") auto
  then show ?thesis using compile_reply_roundtrip by blast
qed

definition truth :: "32 word \<Rightarrow> 32 word" where
  "truth w = (if w = 0 then 0 else 1)"

definition run_reply_received :: "run_reply \<Rightarrow> run_reply" where
  "run_reply_received p =
     p\<lparr>rr_notify_flag := truth (rr_notify_flag p), rr_marked_flag := truth (rr_marked_flag p),
       rr_has_user_score := truth (rr_has_user_score p)\<rparr>"

lemma flags_read:
  "flag_of (reply_flags p) FLAGS_NOTIFY = truth (rr_notify_flag p)"
  "flag_of (reply_flags p) FLAGS_MARKED = truth (rr_marked_flag p)"
  "flag_of (reply_flags p) FLAGS_HAS_USER_SCORE = truth (rr_has_user_score p)"
  by (simp_all add: flag_of_def reply_flags_def truth_def FLAGS_NOTIFY_def FLAGS_MARKED_def
      FLAGS_HAS_USER_SCORE_def)

text \<open>The ranges that the reader wants and the writer does not look at.\<close>

definition user_part_ok :: "run_reply \<Rightarrow> bool" where
  "user_part_ok p \<longleftrightarrow> \<not> out_of (- 1) RUN_MAX_STATUS (rr_user_status p) \<and>
     \<not> out_of (- 1) EJ_MAX_TEST_NUM (rr_user_tests_passed p) \<and>
     \<not> out_of (- 1) EJ_MAX_SCORE (rr_user_score p)"

text \<open>C32: a run reply comes through with its flags as 0 or 1 when the part for the participant is
  in range, and otherwise the reader refuses the packet that the writer has just made.\<close>

theorem run_reply_roundtrip:
  "run_reply_packet_write p = Done bs \<Longrightarrow>
    run_reply_packet_read bs = (if user_part_ok p then Done (run_reply_received p) else Refuse)"
proof -
  assume w: "run_reply_packet_write p = Done bs"
  then have bs: "bs = words_bytes (run_reply_words p)" and
    g: "\<not> out_of 0 EJ_MAX_JUDGE_ID (rr_judge_id p)" "\<not> out_of 1 EJ_MAX_CONTEST_ID (rr_contest_id p)"
      "\<not> out_of 0 EJ_MAX_RUN_ID (rr_run_id p)" "\<not> out_of 0 RUN_MAX_STATUS (rr_status p)"
      "\<not> out_of (- 1) EJ_MAX_TEST_NUM (rr_failed_test p)"
      "\<not> out_of (- 1) EJ_MAX_TEST_NUM (rr_tests_passed p)" "\<not> out_of (- 1) EJ_MAX_SCORE (rr_score p)"
    by (simp_all add: run_reply_packet_write_def split: if_splits)
  have len: "length bs = run_reply_size" by (simp add: bs run_reply_size_def)
  obtain u0 u1 u2 u3 where u: "rr_uuid p = (u0, u1, u2, u3)" by (cases "rr_uuid p")
  have f: "fld bs i = run_reply_words p ! i" if "i < 33" for i
    using fld_words_bytes [of i "run_reply_words p" "[]"] that by (simp add: bs)
  have fs: "fld bs 0 = 132" "fld bs (Suc 0) = 1" "fld bs 2 = rr_judge_id p" "fld bs 3 = rr_contest_id p"
    "fld bs 4 = rr_run_id p" "fld bs 5 = rr_status p" "fld bs 6 = rr_failed_test p"
    "fld bs 7 = rr_tests_passed p" "fld bs 8 = rr_score p" "fld bs 9 = rr_user_status p"
    "fld bs 10 = rr_user_tests_passed p" "fld bs 11 = rr_user_score p" "fld bs 12 = reply_flags p"
    "fld bs 13 = rr_ts1 p" "fld bs 14 = rr_ts1_us p" "fld bs 15 = rr_ts2 p" "fld bs 16 = rr_ts2_us p"
    "fld bs 17 = rr_ts3 p" "fld bs 18 = rr_ts3_us p" "fld bs 19 = rr_ts4 p" "fld bs 20 = rr_ts4_us p"
    "fld bs 21 = rr_ts5 p" "fld bs 22 = rr_ts5_us p" "fld bs 23 = rr_ts6 p" "fld bs 24 = rr_ts6_us p"
    "fld bs 25 = rr_ts7 p" "fld bs 26 = rr_ts7_us p" "fld_quad bs 27 = rr_uuid p"
    by (simp_all add: fld_quad_def f run_reply_words_def u run_reply_size_def)
  show ?thesis
    using g by (simp add: run_reply_packet_read_def fs len run_reply_size_def flags_read user_part_ok_def
        run_reply_received_def)
qed

definition example_run_reply :: "32 word \<Rightarrow> run_reply" where
  "example_run_reply score =
    \<lparr>rr_judge_id = 7, rr_contest_id = 3, rr_run_id = 12, rr_status = 5, rr_failed_test = 2,
     rr_tests_passed = 1, rr_score = 50, rr_notify_flag = 2, rr_marked_flag = 0, rr_has_user_score = 1,
     rr_user_status = 5, rr_user_tests_passed = 1, rr_user_score = score, rr_ts1 = 1, rr_ts1_us = 2,
     rr_ts2 = 3, rr_ts2_us = 4, rr_ts3 = 5, rr_ts3_us = 6, rr_ts4 = 7, rr_ts4_us = 8, rr_ts5 = 9,
     rr_ts5_us = 10, rr_ts6 = 11, rr_ts6_us = 12, rr_ts7 = 13, rr_ts7_us = 14, rr_uuid = (1, 2, 3, 4)\<rparr>"

lemma example_run_reply_written: "is_Done (run_reply_packet_write (example_run_reply score))"
  by (simp add: example_run_reply_def run_reply_packet_write_def out_of_def EJ_MAX_JUDGE_ID_def
      EJ_MAX_CONTEST_ID_def EJ_MAX_RUN_ID_def EJ_MAX_TEST_NUM_def EJ_MAX_SCORE_def)

theorem run_reply_roundtrip_witness:
  "(\<exists>bs. run_reply_packet_write (example_run_reply 30) = Done bs \<and>
     run_reply_packet_read bs = Done (run_reply_received (example_run_reply 30))) \<and>
   (\<exists>bs. run_reply_packet_write (example_run_reply 1000000) = Done bs \<and>
     run_reply_packet_read bs = Refuse)"
proof -
  obtain a b where w: "run_reply_packet_write (example_run_reply 30) = Done a"
    "run_reply_packet_write (example_run_reply 1000000) = Done b"
    by (metis example_run_reply_written is_Done.elims(2))
  have "user_part_ok (example_run_reply 30)" "\<not> user_part_ok (example_run_reply 1000000)"
    by (simp_all add: user_part_ok_def example_run_reply_def out_of_def EJ_MAX_TEST_NUM_def EJ_MAX_SCORE_def)
  then show ?thesis using run_reply_roundtrip [OF w(1)] run_reply_roundtrip [OF w(2)] w by simp
qed

end
