(* ===== verification/Packet_Safety.thy ===== *)
theory Packet_Safety
  imports Packet_Laws
begin

text \<open>
  Memory safety of the packet readers and of the writer of compile requests, and the one input on
  which the writer's size computation goes wrong.
\<close>

section \<open>Readers\<close>

lemma read_string_safe: "no_crash (read_string bs p limit len)"
  by (simp add: read_string_def memcpy_from_def)

lemma read_strs_safe: "no_crash (read_strs bs p ns)"
  by (induction ns arbitrary: p) (auto simp: memcpy_from_def intro!: no_crash_pbind)

lemma read_env_safe: "no_crash (read_env bs p n)"
  by (auto simp: read_env_def Let_def memcpy_from_def intro!: no_crash_pbind read_strs_safe)

text \<open>
  The pointers of a request are sound: the block has its length, an environment with a count has
  that many strings, one with the count -1 ends in a null pointer, and the strings together are
  far below the range of int.
\<close>

definition env_sound :: "32 word \<Rightarrow> bytes option list option \<Rightarrow> bool" where
  "env_sound n vars \<longleftrightarrow>
    (case vars of None \<Rightarrow> sint n \<le> 0
     | Some vs \<Rightarrow> (if sint n = - 1 then None \<in> set vs
                  else nat (sint n) \<le> length vs \<and> None \<notin> set (take (nat (sint n)) vs))
                 \<and> (\<Sum>v\<leftarrow>vs. case v of None \<Rightarrow> 0 | Some s \<Rightarrow> length s) \<le> 2 ^ 29)"

definition request_sound :: "compile_request \<Rightarrow> bool" where
  "request_sound p \<longleftrightarrow> len_of_word (rq_run_block_len p) \<le> length (rq_run_block p) \<and>
    env_sound (rq_env_num p) (rq_env_vars p) \<and> env_sound (rq_sc_env_num p) (rq_sc_env_vars p)"

lemma env_strs_safe:
  "n \<le> length vs \<Longrightarrow> None \<notin> set (take n vs) \<Longrightarrow> no_crash (env_strs n vs)"
  by (induction n vs rule: env_strs.induct) (auto intro!: no_crash_pbind)

lemma env_strs_size:
  "env_strs n vs = Done ss \<Longrightarrow> length (concat ss) \<le> (\<Sum>v\<leftarrow>vs. case v of None \<Rightarrow> 0 | Some s \<Rightarrow> length s)"
proof (induction n vs arbitrary: ss rule: env_strs.induct)
  case (4 n s vs)
  then show ?case
    by (fastforce simp: pbind_Done c_str_def split: if_splits simp del: length_concat)
qed simp_all

lemma take_prefix: "take (length (takeWhile P xs)) xs = takeWhile P xs"
  by (induction xs) simp_all

lemma env_list_safe:
  assumes "env_sound n vars"
  shows "no_crash (env_list n vars)"
proof (cases vars)
  case None
  then show ?thesis using assms
    by (auto simp: env_list_def env_count_def env_sound_def)
next
  case (Some vs)
  have "no_crash (env_strs (length (takeWhile (\<lambda>v. v \<noteq> None) vs)) vs)"
    by (rule env_strs_safe) (auto simp: length_takeWhile_le take_prefix dest: set_takeWhileD)
  then show ?thesis using assms Some env_strs_safe [of "nat (sint n)" vs]
    by (auto simp: env_list_def env_count_def env_sound_def simp del: not_None_eq)
qed

lemma env_list_size:
  assumes "env_sound n vars" and "env_list n vars = Done ss"
  shows "length (concat ss) \<le> 2 ^ 29 \<and> length ss \<le> 65536"
proof -
  have "length (concat ss) \<le> (\<Sum>v\<leftarrow>(case vars of None \<Rightarrow> [] | Some vs \<Rightarrow> vs). case v of None \<Rightarrow> 0 | Some s \<Rightarrow> length s)"
    using assms(2) by (auto simp: env_list_def pbind_Done split: if_splits simp del: length_concat dest!: env_strs_size)
  moreover have "\<dots> \<le> 2 ^ 29" using assms(1) by (auto simp: env_sound_def split: option.splits)
  moreover have "length ss \<le> 65536"
    using env_list_ok [OF assms(2)] by (simp add: env_ok_def EJ_MAX_COMPILE_ENV_NUM_def)
  ultimately show ?thesis by linarith
qed

lemma add_lens_safe: "a + length (concat ss) < 2 ^ 31 \<Longrightarrow> add_lens a ss = Done (a + length (concat ss))"
  by (induction ss arbitrary: a) (simp_all add: add_int_def add.assoc del: length_concat)

lemma align_lt: "pkt_bin_align n < n + 16"
  unfolding pkt_bin_align_def by presburger

lemma request_size_safe:
  assumes "a \<le> 2 ^ 16" "b \<le> 2 ^ 16" "c \<le> 2 ^ 16" "length env \<le> 65536" "length sc_env \<le> 65536"
    "length (concat env) \<le> 2 ^ 29" "length (concat sc_env) \<le> 2 ^ 29"
  shows "no_crash (request_size a b c env sc_env)"
proof -
  define A B C E F e f where d: "A = pkt_bin_align a" "B = pkt_bin_align b" "C = pkt_bin_align c"
    "E = pkt_bin_align (length env * 4)" "F = pkt_bin_align (length sc_env * 4)"
    "e = length (concat env)" "f = length (concat sc_env)"
  have b: "A \<le> 65552" "B \<le> 65552" "C \<le> 65552" "E \<le> 262160" "F \<le> 262160" "e \<le> 2 ^ 29" "f \<le> 2 ^ 29"
    using assms align_lt [of a] align_lt [of b] align_lt [of c] align_lt [of "length env * 4"]
      align_lt [of "length sc_env * 4"] by (simp_all add: d del: length_concat)
  define S where "S = pkt_bin_align (112 + A + B + C + E + e)"
  have S: "S < 112 + A + B + C + E + e + 16" unfolding S_def by (rule align_lt)
  have l1: "add_lens (112 + A + B + C + E) env = Done (112 + A + B + C + E + e)"
    using b add_lens_safe [of "112 + A + B + C + E" env] by (simp add: d(6)[symmetric] del: length_concat)
  have l2: "add_lens (S + F) sc_env = Done (S + F + f)"
    using b S add_lens_safe [of "S + F" sc_env] by (simp add: d(7)[symmetric] del: length_concat)
  show ?thesis
    using b S
    by (simp add: request_size_def add_int_def align_int_def request_header_size_def l1 l2
        S_def [symmetric] del: length_concat flip: d)
qed

lemma request_write_no_crash:
  "request_sound p \<Longrightarrow> path_max \<le> 4096 \<Longrightarrow> no_crash (compile_request_packet_write path_max p)"
proof -
  assume s: "request_sound p" and m: "path_max \<le> 4096"
  show ?thesis
  proof (cases "request_guards path_max p")
    case True
    note g = request_guardsD [OF True]
    have lens: "length (opt_str (rq_style_checker p)) \<le> 2 ^ 16" "length (opt_str (rq_src_sfx p)) \<le> 2 ^ 16"
      "len_of_word (rq_run_block_len p) \<le> 2 ^ 16"
      using g(10,12,13) m opt_str_length [OF g(9)] opt_str_length [OF g(11)]
      by (simp_all add: out_of_def len_of_word_def EJ_MAX_COMPILE_RUN_BLOCK_LEN_def nat_le_iff not_less)
    show ?thesis
      unfolding request_write_steps [OF True]
      using s [unfolded request_sound_def]
      by (intro no_crash_pbind env_list_safe)
         (auto intro!: no_crash_pbind request_size_safe lens dest!: env_list_size simp del: length_concat)
  next
    case False
    then show ?thesis
      by (auto simp: request_guards_def compile_request_packet_write_def)
  qed
qed

lemma read_strs_Done:
  "read_strs bs p ns = Done (ss, q) \<Longrightarrow>
    map length ss = ns \<and> (ss \<noteq> [] \<longrightarrow> p + length (concat ss) \<le> length bs)"
proof (induction ns arbitrary: p ss q)
  case Nil
  then show ?case by simp
next
  case (Cons n ns)
  then obtain s ts where ss: "ss = s # ts" and s: "memcpy_from bs p n = Done s"
    and le: "p + n \<le> length bs" and ts: "read_strs bs (p + n) ns = Done (ts, q)"
    by (auto simp: pbind_Done split: if_splits)
  have "length s = n" using s le by (auto simp: memcpy_from_def)
  with Cons.IH [OF ts] le show ?case by (cases "ts = []") (simp_all add: ss del: length_concat)
qed

lemma read_env_sound:
  assumes "read_env bs p n = Done (vars, q)" and "length bs \<le> EJ_MAX_COMPILE_PACKET_SIZE"
  shows "env_sound n vars"
proof (cases vars)
  case None
  then show ?thesis using assms(1)
    by (auto simp: read_env_def env_sound_def Let_def pbind_Done out_of_def len_of_word_def split: if_splits)
next
  case (Some vs)
  then obtain ss p' where vs: "vs = map Some ss @ [None]" and pos: "0 < sint n" "\<not> out_of 0 EJ_MAX_COMPILE_ENV_NUM n"
    and r: "read_strs bs p' (map len_of_word (map (fld (take (len_of_word n * 4) (drop p bs))) [0..<len_of_word n])) = Done (ss, q)"
    using assms(1)
    by (auto simp: read_env_def Let_def pbind_Done memcpy_from_def len_of_word_def split: if_splits)
  have "length ss = len_of_word n"
    using arg_cong [OF conjunct1 [OF read_strs_Done [OF r]], of length] by simp
  moreover have "length (concat ss) \<le> 65536"
    using read_strs_Done [OF r] assms(2) by (cases "ss = []") (simp_all add: EJ_MAX_COMPILE_PACKET_SIZE_def del: length_concat)
  moreover have "(\<Sum>v\<leftarrow>vs. case v of None \<Rightarrow> 0 | Some s \<Rightarrow> length s) = length (concat ss)"
    by (simp add: vs length_concat comp_def)
  ultimately show ?thesis
    using pos by (auto simp: env_sound_def Some vs len_of_word_def simp del: length_concat)
qed


text \<open>The guards on the environment alone do not bound the sum of the lengths.\<close>

lemma add_lens_overflow: "ss \<noteq> [] \<Longrightarrow> 2 ^ 31 \<le> a + length (concat ss) \<Longrightarrow> add_lens a ss = Crash"
proof (induction ss arbitrary: a)
  case Nil
  then show ?case by simp
next
  case (Cons s ss)
  show ?case
  proof (cases "a + length s < 2 ^ 31")
    case True
    then have "ss \<noteq> []" using Cons.prems(2) by (cases ss) auto
    with True Cons show ?thesis by (simp add: add_int_def add.assoc del: length_concat)
  qed (simp add: add_int_def)
qed

lemma env_strs_replicate:
  "strlen_int s = int (length s) \<Longrightarrow> int (length s) \<le> EJ_MAX_COMPILE_ENV_LEN \<Longrightarrow>
    env_strs n (replicate n (Some s)) = Done (replicate n s)"
  by (induction n) (simp_all add: c_str_def)

definition huge_env_request :: compile_request where
  "huge_env_request = example_request
    \<lparr>rq_env_num := 65536, rq_env_vars := Some (replicate 65536 (Some (replicate 65535 1)))\<rparr>"

text \<open>C31: 65536 environment strings of 65535 bytes pass every test of the writer, and their
  total length overflows the int that holds the size of the packet.\<close>

theorem request_size_overflow:
  "request_guards 4096 huge_env_request \<and>
   is_Done (env_list (rq_env_num huge_env_request) (rq_env_vars huge_env_request)) \<and>
   compile_request_packet_write 4096 huge_env_request = Crash"
proof -
  define s where "s = replicate 65535 (1 :: 8 word)"
  define env where "env = replicate 65536 s"
  have len: "length s = 65535" by (simp add: s_def)
  have "takeWhile (\<lambda>b. b \<noteq> 0) s = s" by (simp add: s_def takeWhile_eq_all_conv)
  then have str: "strlen_int s = int (length s)" unfolding strlen_int_def by (simp only:) (simp add: len)
  have e: "env_list 65536 (Some (replicate 65536 (Some s))) = Done env"
    using env_strs_replicate [OF str, of 65536] len
    by (simp add: env_list_def env_count_def env_def EJ_MAX_COMPILE_ENV_NUM_def EJ_MAX_COMPILE_ENV_LEN_def)
  have e0: "env_list 0 None = Done []"
    by (simp add: env_list_def env_count_def EJ_MAX_COMPILE_ENV_NUM_def)
  have g: "request_guards 4096 huge_env_request"
    by (simp add: huge_env_request_def request_guards_def example_request_def out_of_def opt_len_def
        strlen_int_def EJ_MAX_JUDGE_ID_def EJ_MAX_CONTEST_ID_def EJ_MAX_RUN_ID_def EJ_MAX_LANG_ID_def
        EJ_MAX_LOCALE_ID_def USEC_MAX_def EJ_MAX_COMPILE_RUN_BLOCK_LEN_def)
  have "length (concat env) = 65536 * 65535" by (simp add: env_def length_concat sum_list_replicate len)
  then have ov: "add_lens a env = Crash" for a
    using len by (intro add_lens_overflow) (simp_all add: env_def)
  have size: "request_size a b c env [] = Crash" for a b c
    by (simp add: request_size_def add_int_def ov)
  have "compile_request_packet_write 4096 huge_env_request = Crash"
    unfolding request_write_steps [OF g]
    by (simp add: huge_env_request_def example_request_def e [unfolded s_def] e0 size)
  then show ?thesis
    using g by (simp add: huge_env_request_def e [unfolded s_def])
qed

end
