(* ===== verification/Ranking.thy ===== *)
theory Ranking
  imports Prelude "HOL-Library.Multiset" "HOL-Library.Product_Lexorder"
begin

text \<open>
  The ranking of the standings tables (\<open>html.c\<close>): every one of them sorts the participants by
  counting, in the number of solved problems, the score or the penalty, and then gives tied
  participants the same range of places.  An index outside a table is \<open>None\<close>.
\<close>

section \<open>Counting sort\<close>

text \<open>The largest key, or -1.\<close>

definition max_key :: "int list \<Rightarrow> int" where
  "max_key ks = fold (\<lambda>k m. if k > m then k else m) ks (- 1)"

text \<open>\<open>cnt[key]++\<close> for every key.\<close>

fun tally :: "int list \<Rightarrow> nat list \<Rightarrow> nat list option" where
  "tally [] cnt = Some cnt"
| "tally (k # ks) cnt =
    (if 0 \<le> k \<and> nat k < length cnt then tally ks (cnt[nat k := cnt ! nat k + 1]) else None)"

text \<open>The counters become starting positions in place, from the smallest or from the largest key.\<close>

definition starts_up :: "nat list \<Rightarrow> nat list option" where
  "starts_up cnt =
    (if cnt = [] then None
     else case fold (\<lambda>t (i, c). (c ! (t - 1) + i, c[t - 1 := i])) [1..<length cnt] (0, cnt) of
       (i, c) \<Rightarrow> Some (c[length cnt - 1 := i]))"

definition starts_down :: "nat list \<Rightarrow> nat list option" where
  "starts_down cnt =
    (if cnt = [] then None
     else case fold (\<lambda>t (i, c). (c ! (t + 1) + i, c[t + 1 := i])) (rev [0..<length cnt - 1]) (0, cnt) of
       (i, c) \<Rightarrow> Some (c[0 := i]))"

text \<open>The same with a second table.\<close>

definition table_up :: "nat list \<Rightarrow> nat list option" where
  "table_up cnt =
     Some (fold (\<lambda>i st. st[i := cnt ! (i - 1) + st ! (i - 1)]) [1..<length cnt] (replicate (length cnt) 0))"

definition table_down :: "nat list \<Rightarrow> nat list option" where
  "table_down cnt =
     Some (fold (\<lambda>i st. st[i := cnt ! (i + 1) + st ! (i + 1)]) (rev [0..<length cnt - 1])
       (replicate (length cnt) 0))"

text \<open>\<open>out[pos[key[t]]++] = t\<close> for every participant in the given order.\<close>

fun fill_places :: "int list \<Rightarrow> nat list \<Rightarrow> nat list \<Rightarrow> nat list \<Rightarrow> nat list option" where
  "fill_places ks [] pos out = Some out"
| "fill_places ks (t # ts) pos out =
    (if t < length ks \<and> 0 \<le> ks ! t \<and> nat (ks ! t) < length pos
        \<and> pos ! nat (ks ! t) < length out
     then fill_places ks ts (pos[nat (ks ! t) := pos ! nat (ks ! t) + 1]) (out[pos ! nat (ks ! t) := t])
     else None)"

definition counting_sort ::
  "(nat list \<Rightarrow> nat list option) \<Rightarrow> int list \<Rightarrow> nat list \<Rightarrow> nat list option" where
  "counting_sort starts ks order =
    (case tally ks (replicate (nat (max_key ks + 1)) 0) of
       None \<Rightarrow> None
     | Some cnt \<Rightarrow>
         (case starts cnt of
            None \<Rightarrow> None
          | Some pos \<Rightarrow> fill_places ks order pos (replicate (length ks) 0)))"

section \<open>Ties\<close>

text \<open>
  The participants from position \<open>i\<close> on: those that are level with the first one share the range
  of places from \<open>i\<close> to the last of them.
\<close>

function ties :: "(nat \<Rightarrow> nat \<Rightarrow> bool) \<Rightarrow> nat \<Rightarrow> nat list \<Rightarrow> (nat \<times> nat) list" where
  "ties level i [] = []"
| "ties level i (t # ts) =
    (let m = length (takeWhile (level t) ts) in
     replicate (m + 1) (i, i + m) @ ties level (i + m + 1) (drop m ts))"
  by pat_completeness auto
termination
  by (relation "measure (\<lambda>(level, i, ts). length ts)") auto

section \<open>Bubble sort\<close>

text \<open>
  One pass over the sorted table, which swaps neighbours with the same score and decreasing
  penalties and tells whether it did, and the passes until none swaps.
\<close>

fun bubble_pass :: "(nat \<Rightarrow> int) \<Rightarrow> (nat \<Rightarrow> int) \<Rightarrow> nat list \<Rightarrow> nat list \<times> bool" where
  "bubble_pass score pen (a # b # ts) =
    (if score a = score b \<and> pen a > pen b then (b # fst (bubble_pass score pen (a # ts)), True)
     else (a # fst (bubble_pass score pen (b # ts)), snd (bubble_pass score pen (b # ts))))"
| "bubble_pass score pen ts = (ts, False)"

partial_function (option) bubble_sort ::
  "(nat \<Rightarrow> int) \<Rightarrow> (nat \<Rightarrow> int) \<Rightarrow> nat list \<Rightarrow> nat list option" where
  "bubble_sort score pen ts =
    (case bubble_pass score pen ts of
       (ts', swapped) \<Rightarrow> if swapped then bubble_sort score pen ts' else Some ts')"

section \<open>What the tables of starting positions hold\<close>

text \<open>
  \<open>g\<close> orders the keys; the start of a key is the number of participants with a key before it.
\<close>

locale bucket_starts =
  fixes g :: "nat \<Rightarrow> int" and starts :: "nat list \<Rightarrow> nat list option"
  assumes inj_g: "inj g"
    and starts_sum: "cnt \<noteq> [] \<Longrightarrow> \<exists>pos. starts cnt = Some pos \<and> length pos = length cnt \<and>
      (\<forall>v < length cnt. pos ! v = (\<Sum>u\<in>{u. u < length cnt \<and> g u < g v}. cnt ! u))"

lemma max_key_ge: "k \<in> set ks \<Longrightarrow> k \<le> max_key ks"
proof -
  have "m \<le> fold (\<lambda>k m. if k > m then k else m) ks m \<and>
      (\<forall>k \<in> set ks. k \<le> fold (\<lambda>k m. if k > m then k else m) ks m)" for m :: int
  proof (induction ks arbitrary: m)
    case Nil
    then show ?case by simp
  next
    case (Cons a ks)
    show ?case using Cons.IH [of "if a > m then a else m"] by auto
  qed
  then show "k \<in> set ks \<Longrightarrow> k \<le> max_key ks" unfolding max_key_def by blast
qed

lemma max_key_in: "max_key ks = - 1 \<or> max_key ks \<in> set ks"
proof -
  have "fold (\<lambda>k m. if k > m then k else m) ks m = m \<or> fold (\<lambda>k m. if k > m then k else m) ks m \<in> set ks"
    for m :: int
  proof (induction ks arbitrary: m)
    case (Cons a ks)
    show ?case using Cons.IH [of "if a > m then a else m"] by auto
  qed simp
  then show ?thesis unfolding max_key_def by blast
qed

lemma tally_Some:
  "(\<And>k. k \<in> set ks \<Longrightarrow> 0 \<le> k \<and> nat k < length cnt) \<Longrightarrow>
    \<exists>c. tally ks cnt = Some c \<and> length c = length cnt \<and>
      (\<forall>v < length cnt. c ! v = cnt ! v + length (filter (\<lambda>k. nat k = v) ks))"
proof (induction ks arbitrary: cnt)
  case Nil
  then show ?case by simp
next
  case (Cons k ks)
  have k: "0 \<le> k" "nat k < length cnt" using Cons.prems by auto
  obtain c where "tally ks (cnt[nat k := cnt ! nat k + 1]) = Some c" "length c = length cnt"
    "\<forall>v < length cnt. c ! v = cnt[nat k := cnt ! nat k + 1] ! v + length (filter (\<lambda>k. nat k = v) ks)"
    using Cons.IH [of "cnt[nat k := cnt ! nat k + 1]"] Cons.prems by auto
  with k show ?case by (auto simp: nth_list_update)
qed

subsection \<open>Placing the participants\<close>

text \<open>The participants of the order with the key \<open>v\<close>.\<close>

definition bucket :: "int list \<Rightarrow> nat \<Rightarrow> nat list \<Rightarrow> nat list" where
  "bucket ks v ts = filter (\<lambda>t. nat (ks ! t) = v) ts"

definition valid_keys :: "int list \<Rightarrow> nat \<Rightarrow> nat list \<Rightarrow> bool" where
  "valid_keys ks m ts \<longleftrightarrow> (\<forall>t \<in> set ts. t < length ks \<and> 0 \<le> ks ! t \<and> nat (ks ! t) < m)"

lemma bucket_simps [simp]:
  "bucket ks v [] = []"
  "bucket ks v (ts @ us) = bucket ks v ts @ bucket ks v us"
  "bucket ks v [t] = (if nat (ks ! t) = v then [t] else [])"
  by (simp_all add: bucket_def)

lemma bucket_sort_key: "inj g \<Longrightarrow> bucket ks v (sort_key (\<lambda>t. g (nat (ks ! t))) ts) = bucket ks v ts"
proof -
  assume "inj g"
  then have eq: "nat (ks ! t) = v \<longleftrightarrow> g (nat (ks ! t)) = g v" for t by (simp add: inj_eq)
  show ?thesis
    unfolding bucket_def eq by (rule sort_key_stable)
qed

text \<open>Where a bucket lies in the sorted order.\<close>

lemma sorted_split:
  fixes f :: "'a \<Rightarrow> int"
  assumes "sorted (map f xs)"
  shows "xs = filter (\<lambda>x. f x < c) xs @ filter (\<lambda>x. f x = c) xs @ filter (\<lambda>x. c < f x) xs"
  using assms
proof (induction xs)
  case (Cons x xs)
  then have ih: "xs = filter (\<lambda>x. f x < c) xs @ filter (\<lambda>x. f x = c) xs @ filter (\<lambda>x. c < f x) xs"
    and le: "\<forall>y \<in> set xs. f x \<le> f y" by auto
  consider "f x < c" | "f x = c" | "c < f x" by linarith
  then show ?case
  proof cases
    case 1
    then show ?thesis using ih by simp
  next
    case 2
    then have "filter (\<lambda>x. f x < c) xs = []" using le by (auto simp: filter_empty_conv)
    then show ?thesis using ih 2 by simp
  next
    case 3
    then have "filter (\<lambda>x. f x < c) xs = []" "filter (\<lambda>x. f x = c) xs = []"
      using le by (auto simp: filter_empty_conv)
    then show ?thesis using ih 3 by simp
  qed
qed simp

context bucket_starts
begin

definition start :: "int list \<Rightarrow> nat list \<Rightarrow> nat \<Rightarrow> nat" where
  "start ks ts v = length (filter (\<lambda>t. g (nat (ks ! t)) < g v) ts)"

lemma start_before:
  assumes "g u < g v"
  shows "start ks ts u + length (bucket ks u ts) \<le> start ks ts v"
proof -
  have "length (filter (\<lambda>t. g (nat (ks ! t)) < g u) ts) + length (filter (\<lambda>t. nat (ks ! t) = u) ts)
      = length (filter (\<lambda>t. g (nat (ks ! t)) < g u \<or> nat (ks ! t) = u) ts)"
    by (induction ts) auto
  also have "\<dots> \<le> length (filter (\<lambda>t. g (nat (ks ! t)) < g v) ts)"
    using assms by (induction ts) auto
  finally show ?thesis by (simp add: start_def bucket_def)
qed

lemma start_bound: "start ks ts v + length (bucket ks v ts) \<le> length ts"
proof -
  have "length (filter (\<lambda>t. g (nat (ks ! t)) < g v) ts) + length (filter (\<lambda>t. nat (ks ! t) = v) ts)
      = length (filter (\<lambda>t. g (nat (ks ! t)) < g v \<or> nat (ks ! t) = v) ts)"
    by (induction ts) auto
  also have "\<dots> \<le> length ts" by (rule length_filter_le)
  finally show ?thesis by (simp add: start_def bucket_def)
qed

lemma start_apart:
  assumes "u \<noteq> v" and "i < length (bucket ks u ts)" and "j < length (bucket ks v ts)"
  shows "start ks ts u + i \<noteq> start ks ts v + j"
proof -
  have "g u < g v \<or> g v < g u" using assms(1) inj_g by (metis injD linorder_neqE)
  then show ?thesis
    using start_before [of u v ks ts] start_before [of v u ks ts] assms(2,3) by linarith
qed

text \<open>The state of the placement after the prefix \<open>ps\<close> of \<open>ps @ ts\<close>.\<close>

lemma place_state:
  assumes "valid_keys ks m (ps @ ts)"
    and "length pos = m" and "length out = length (ps @ ts)"
    and "\<And>v. v < m \<Longrightarrow> pos ! v = start ks (ps @ ts) v + length (bucket ks v ps)"
    and "\<And>v i. i < length (bucket ks v ps) \<Longrightarrow> out ! (start ks (ps @ ts) v + i) = bucket ks v ps ! i"
  shows "\<exists>res. fill_places ks ts pos out = Some res \<and> length res = length (ps @ ts) \<and>
    (\<forall>v i. i < length (bucket ks v (ps @ ts)) \<longrightarrow>
      res ! (start ks (ps @ ts) v + i) = bucket ks v (ps @ ts) ! i)"
  using assms
proof (induction ts arbitrary: ps pos out)
  case Nil
  then show ?case by simp
next
  case (Cons t ts)
  let ?all = "ps @ t # ts" and ?k = "nat (ks ! t)"
  let ?p = "pos ! ?k"
  have t: "t < length ks" "0 \<le> ks ! t" "?k < m" using Cons.prems(1) by (auto simp: valid_keys_def)
  have all: "(ps @ [t]) @ ts = ?all" by simp
  have in_b: "length (bucket ks ?k ps) < length (bucket ks ?k ?all)"
    using bucket_simps(2) [of ks ?k "ps @ [t]" ts] by simp
  have p: "?p = start ks ?all ?k + length (bucket ks ?k ps)" using Cons.prems(4) [OF t(3)] .
  have "?p < length out"
    using start_bound [of ks ?all ?k] in_b Cons.prems(3) p by linarith
  define pos' where "pos' = pos[?k := ?p + 1]"
  define out' where "out' = out[?p := t]"
  have "\<exists>res. fill_places ks ts pos' out' = Some res \<and> length res = length ((ps @ [t]) @ ts) \<and>
    (\<forall>v i. i < length (bucket ks v ((ps @ [t]) @ ts)) \<longrightarrow>
      res ! (start ks ((ps @ [t]) @ ts) v + i) = bucket ks v ((ps @ [t]) @ ts) ! i)"
  proof (rule Cons.IH)
    show "valid_keys ks m ((ps @ [t]) @ ts)" using Cons.prems(1) by simp
    show "length pos' = m" by (simp add: pos'_def Cons.prems(2))
    show "length out' = length ((ps @ [t]) @ ts)" using Cons.prems(3) by (simp add: out'_def)
    show "pos' ! v = start ks ((ps @ [t]) @ ts) v + length (bucket ks v (ps @ [t]))" if "v < m" for v
      using Cons.prems(2) Cons.prems(4) [OF that] p that by (auto simp: pos'_def nth_list_update)
    show "out' ! (start ks ((ps @ [t]) @ ts) v + i) = bucket ks v (ps @ [t]) ! i"
      if i: "i < length (bucket ks v (ps @ [t]))" for v i
    proof (cases "v = ?k \<and> i = length (bucket ks ?k ps)")
      case True
      then show ?thesis using \<open>?p < length out\<close> by (simp add: out'_def p [symmetric])
    next
      case False
      have i': "i < length (bucket ks v ps)" using False i by (auto split: if_splits)
      have "start ks ?all v + i \<noteq> ?p"
      proof (cases "v = ?k")
        case True
        then show ?thesis using False p by simp
      next
        case neq: False
        have "i < length (bucket ks v ?all)" using i' by simp
        then show ?thesis using start_apart [OF neq _ in_b] p by simp
      qed
      then show ?thesis
        using Cons.prems(5) [OF i'] i' by (simp add: out'_def nth_append)
    qed
  qed
  moreover have "fill_places ks (t # ts) pos out = fill_places ks ts pos' out'"
    using t Cons.prems(2) \<open>?p < length out\<close> by (simp add: pos'_def out'_def)
  ultimately show ?case by (simp del: bucket_simps)
qed

lemma place_sorted:
  assumes v: "valid_keys ks m ts" and pos: "length pos = m" "\<And>v. v < m \<Longrightarrow> pos ! v = start ks ts v"
    and out: "length out = length ts"
  shows "fill_places ks ts pos out = Some (sort_key (\<lambda>t. g (nat (ks ! t))) ts)"
proof -
  let ?f = "\<lambda>t. g (nat (ks ! t))"
  define ys where "ys = sort_key ?f ts"
  obtain res where res: "fill_places ks ts pos out = Some res" "length res = length ts"
    "\<And>v i. i < length (bucket ks v ts) \<Longrightarrow> res ! (start ks ts v + i) = bucket ks v ts ! i"
    using place_state [of ks m "[]" ts pos out] v pos out by auto
  have sorted: "sorted (map ?f ys)" by (simp add: ys_def)
  have same: "mset ys = mset ts" by (simp add: ys_def)
  have "res = ys"
  proof (rule nth_equalityI)
    show "length res = length ys" using res(2) by (simp add: ys_def)
    fix p
    assume "p < length res"
    then have p: "p < length ys" using res(2) by (simp add: ys_def)
    define w where "w = nat (ks ! (ys ! p))"
    let ?lo = "filter (\<lambda>t. ?f t < g w) ys" and ?mid = "filter (\<lambda>t. ?f t = g w) ys"
      and ?hi = "filter (\<lambda>t. g w < ?f t) ys"
    have split: "ys = ?lo @ ?mid @ ?hi" by (rule sorted_split [OF sorted])
    have mid: "?mid = bucket ks w ts"
      using bucket_sort_key [OF inj_g, of ks w ts] inj_g by (simp add: bucket_def ys_def inj_eq)
    have lo: "length ?lo = start ks ts w"
      unfolding start_def using same by (metis mset_filter size_mset)
    have at_p: "?f (ys ! p) = g w" by (simp add: w_def)
    have "length ?lo \<le> p"
    proof (rule ccontr)
      assume "\<not> length ?lo \<le> p"
      then have "ys ! p = ?lo ! p" "p < length ?lo" by (metis split nth_append not_le)+
      then have "?f (ys ! p) < g w" using nth_mem [of p ?lo] by (metis (mono_tags, lifting) mem_Collect_eq set_filter)
      then show False using at_p by simp
    qed
    then obtain i where i: "p = length ?lo + i" using le_Suc_ex by blast
    have nth: "ys ! p = (?mid @ ?hi) ! i" by (metis split i nth_append_length_plus)
    have "i < length ?mid"
    proof (rule ccontr)
      assume a: "\<not> i < length ?mid"
      have "length ys = length ?lo + (length ?mid + length ?hi)" by (metis split length_append)
      then have "i - length ?mid < length ?hi" using p i a by linarith
      then have "ys ! p \<in> set ?hi" using a nth nth_mem by (metis nth_append)
      then show False using at_p by simp
    qed
    then show "res ! p = ys ! p"
      using res(3) [of i w] nth by (simp add: i lo [symmetric] mid [symmetric] nth_append)
  qed
  with res show ?thesis by (simp add: ys_def)
qed

lemma sum_counts:
  "(\<And>k. k \<in> set ks \<Longrightarrow> nat k < m) \<Longrightarrow>
    (\<Sum>u\<in>{u. u < m \<and> P u}. length (filter (\<lambda>k. nat k = u) ks)) = length (filter (\<lambda>k. P (nat k)) ks)"
proof (induction ks)
  case (Cons k ks)
  have "(\<Sum>u\<in>{u. u < m \<and> P u}. length (filter (\<lambda>k. nat k = u) (k # ks))) =
      (\<Sum>u\<in>{u. u < m \<and> P u}. (if u = nat k then 1 else 0) + length (filter (\<lambda>k. nat k = u) ks))"
    by (intro sum.cong) auto
  also have "\<dots> = (if P (nat k) then 1 else 0) + length (filter (\<lambda>k. P (nat k)) ks)"
    using Cons by (simp add: sum.distrib)
  finally show ?case by simp
qed simp

text \<open>The counting sort is the stable sort by the key.\<close>

lemma counting_sort_correct:
  assumes ne: "ks \<noteq> []" and pos: "\<And>k. k \<in> set ks \<Longrightarrow> 0 \<le> k"
    and perm: "mset order = mset [0..<length ks]"
  shows "counting_sort starts ks order = Some (sort_key (\<lambda>t. g (nat (ks ! t))) order)"
proof -
  define m where "m = nat (max_key ks + 1)"
  have lt: "nat k < m" if "k \<in> set ks" for k
    using max_key_ge [OF that] pos [OF that] by (simp add: m_def nat_less_eq_zless)
  obtain cnt where cnt: "tally ks (replicate m 0) = Some cnt" "length cnt = m"
    "\<forall>v < m. cnt ! v = length (filter (\<lambda>k. nat k = v) ks)"
    using tally_Some [of ks "replicate m 0"] pos lt by auto
  have m0: "cnt \<noteq> []" using lt [of "hd ks"] ne cnt(2) by auto
  obtain st where st: "starts cnt = Some st" "length st = m"
    "\<And>v. v < m \<Longrightarrow> st ! v = (\<Sum>u\<in>{u. u < m \<and> g u < g v}. cnt ! u)"
    using starts_sum [OF m0] cnt(2) by auto
  have set: "set order = {0..<length ks}" using perm by (metis set_mset_mset set_upt)
  have len: "length order = length ks" using perm by (metis size_mset length_upt minus_nat.diff_0)
  have valid: "valid_keys ks m order"
    unfolding valid_keys_def set using pos lt by auto
  have start: "st ! v = start ks order v" if "v < m" for v
  proof -
    have "st ! v = (\<Sum>u\<in>{u. u < m \<and> g u < g v}. length (filter (\<lambda>k. nat k = u) ks))"
      using st(3) [OF that] cnt(3) by simp
    also have "\<dots> = length (filter (\<lambda>k. g (nat k) < g v) ks)" using lt by (rule sum_counts)
    also have "ks = map ((!) ks) [0..<length ks]" by (simp add: map_nth)
    also have "length (filter (\<lambda>k. g (nat k) < g v) (map ((!) ks) [0..<length ks])) =
        length (filter (\<lambda>t. g (nat (ks ! t)) < g v) [0..<length ks])"
      by (simp add: filter_map comp_def)
    also have "\<dots> = start ks order v"
      unfolding start_def using perm by (metis mset_filter size_mset)
    finally show ?thesis .
  qed
  show ?thesis
    using cnt(1) st(1) place_sorted [OF valid st(2) start, of "replicate (length ks) 0"] len
    by (simp add: counting_sort_def m_def)
qed

end

subsection \<open>The four ways of computing them\<close>

lemma starts_up_fold:
  "k < length cnt \<Longrightarrow>
    fold (\<lambda>t (i, c). (c ! (t - 1) + i, c[t - 1 := i])) [1..<Suc k] (0, cnt) =
      (\<Sum>u<k. cnt ! u, map (\<lambda>v. if v < k then \<Sum>u<v. cnt ! u else cnt ! v) [0..<length cnt])"
proof (induction k)
  case 0
  then show ?case by (simp add: map_nth)
next
  case (Suc k)
  have eq: "[1..<Suc (Suc k)] = [1..<Suc k] @ [Suc k]" by simp
  show ?case
    unfolding eq fold_append comp_def Suc.IH [OF Suc_lessD [OF Suc.prems]]
    using Suc.prems by (auto intro!: nth_equalityI simp: nth_list_update add.commute)
qed

lemma starts_down_fold:
  "k < length cnt \<Longrightarrow>
    fold (\<lambda>t (i, c). (c ! (t + 1) + i, c[t + 1 := i])) (rev [length cnt - 1 - k..<length cnt - 1]) (0, cnt) =
      (\<Sum>u\<in>{length cnt - 1 - k<..<length cnt}. cnt ! u,
       map (\<lambda>v. if length cnt - 1 - k < v then \<Sum>u\<in>{v<..<length cnt}. cnt ! u else cnt ! v) [0..<length cnt])"
proof (induction k)
  case 0
  have none: "{length cnt - 1<..<length cnt} = {}" by auto
  have "map (\<lambda>v. if length cnt - 1 < v then \<Sum>u\<in>{v<..<length cnt}. cnt ! u else cnt ! v) [0..<length cnt] = cnt"
    by (rule nth_equalityI) auto
  then show ?case by (simp add: none [simplified])
next
  case (Suc k)
  let ?n = "length cnt" and ?t = "length cnt - 1 - Suc k"
  have t: "?n - 1 - k = Suc ?t" using Suc.prems by simp
  have eq: "[?t..<?n - 1] = ?t # [Suc ?t..<?n - 1]" using Suc.prems by (intro upt_conv_Cons) simp
  have set: "{?t<..<?n} = insert (Suc ?t) {Suc ?t<..<?n}" using Suc.prems by auto
  show ?case
    unfolding eq rev.simps fold_append comp_def Suc.IH [OF Suc_lessD [OF Suc.prems], unfolded t]
    using Suc.prems by (auto intro!: nth_equalityI simp: nth_list_update set [simplified])
qed

lemma table_up_fold:
  "k < length cnt \<Longrightarrow>
    fold (\<lambda>i st. st[i := cnt ! (i - 1) + st ! (i - 1)]) [1..<Suc k] (replicate (length cnt) 0) =
      map (\<lambda>v. if v \<le> k then \<Sum>u<v. cnt ! u else 0) [0..<length cnt]"
proof (induction k)
  case 0
  have "replicate (length cnt) 0 = map (\<lambda>v. if v \<le> 0 then \<Sum>u<v. cnt ! u else 0) [0..<length cnt]"
    by (rule nth_equalityI) (auto simp: nth_upt)
  then show ?case by simp
next
  case (Suc k)
  have eq: "[1..<Suc (Suc k)] = [1..<Suc k] @ [Suc k]" by simp
  show ?case
    unfolding eq fold_append comp_def Suc.IH [OF Suc_lessD [OF Suc.prems]]
    using Suc.prems by (auto intro!: nth_equalityI simp: nth_list_update le_Suc_eq add.commute)
qed

lemma table_down_fold:
  "k < length cnt \<Longrightarrow>
    fold (\<lambda>i st. st[i := cnt ! (i + 1) + st ! (i + 1)]) (rev [length cnt - 1 - k..<length cnt - 1])
        (replicate (length cnt) 0) =
      map (\<lambda>v. if length cnt - 1 - k \<le> v then \<Sum>u\<in>{v<..<length cnt}. cnt ! u else 0) [0..<length cnt]"
proof (induction k)
  case 0
  have last: "{v<..<length cnt} = {}" if "length cnt - 1 \<le> v" for v using that by auto
  have "replicate (length cnt) 0 =
      map (\<lambda>v. if length cnt - 1 \<le> v then \<Sum>u\<in>{v<..<length cnt}. cnt ! u else 0) [0..<length cnt]"
    by (rule nth_equalityI) (simp_all add: last)
  then show ?case by simp
next
  case (Suc k)
  let ?n = "length cnt" and ?t = "length cnt - 1 - Suc k"
  have t: "?n - 1 - k = Suc ?t" using Suc.prems by simp
  have eq: "[?t..<?n - 1] = ?t # [Suc ?t..<?n - 1]" using Suc.prems by (intro upt_conv_Cons) simp
  have set: "{?t<..<?n} = insert (Suc ?t) {Suc ?t<..<?n}" using Suc.prems by auto
  show ?case
    unfolding eq rev.simps fold_append comp_def Suc.IH [OF Suc_lessD [OF Suc.prems], unfolded t]
    using Suc.prems by (auto intro!: nth_equalityI simp: nth_list_update set [simplified])
qed

definition ascending :: "nat \<Rightarrow> int" where "ascending v = int v"
definition descending :: "nat \<Rightarrow> int" where "descending v = - int v"

lemma before_ascending: "v < n \<Longrightarrow> {u. u < n \<and> ascending u < ascending v} = {..<v}"
  by (auto simp: ascending_def)

lemma before_descending: "{u. u < n \<and> descending u < descending v} = {v<..<n}"
  by (auto simp: descending_def)

interpretation up: bucket_starts ascending starts_up
proof
  show "inj ascending" by (simp add: inj_def ascending_def)
  fix cnt :: "nat list"
  assume "cnt \<noteq> []"
  then have n: "length cnt - 1 < length cnt" "Suc (length cnt - 1) = length cnt" by (auto simp: Suc_diff_1)
  show "\<exists>pos. starts_up cnt = Some pos \<and> length pos = length cnt \<and>
      (\<forall>v < length cnt. pos ! v = (\<Sum>u\<in>{u. u < length cnt \<and> ascending u < ascending v}. cnt ! u))"
    using starts_up_fold [OF n(1)] \<open>cnt \<noteq> []\<close> unfolding starts_up_def n(2)
    by (auto simp: nth_list_update before_ascending)
qed

interpretation down: bucket_starts descending starts_down
proof
  show "inj descending" by (simp add: inj_def descending_def)
  fix cnt :: "nat list"
  assume "cnt \<noteq> []"
  then have n: "length cnt - 1 < length cnt" by simp
  show "\<exists>pos. starts_down cnt = Some pos \<and> length pos = length cnt \<and>
      (\<forall>v < length cnt. pos ! v = (\<Sum>u\<in>{u. u < length cnt \<and> descending u < descending v}. cnt ! u))"
    using starts_down_fold [OF n] \<open>cnt \<noteq> []\<close> unfolding starts_down_def
    by (auto simp: nth_list_update before_descending)
qed

interpretation tab_up: bucket_starts ascending table_up
proof
  show "inj ascending" by (rule up.inj_g)
  fix cnt :: "nat list"
  assume "cnt \<noteq> []"
  then have n: "length cnt - 1 < length cnt" "Suc (length cnt - 1) = length cnt" by (auto simp: Suc_diff_1)
  show "\<exists>pos. table_up cnt = Some pos \<and> length pos = length cnt \<and>
      (\<forall>v < length cnt. pos ! v = (\<Sum>u\<in>{u. u < length cnt \<and> ascending u < ascending v}. cnt ! u))"
    using table_up_fold [OF n(1)] unfolding table_up_def n(2)
    by (auto simp: before_ascending)
qed

interpretation tab_down: bucket_starts descending table_down
proof
  show "inj descending" by (rule down.inj_g)
  fix cnt :: "nat list"
  assume "cnt \<noteq> []"
  then have n: "length cnt - 1 < length cnt" by simp
  show "\<exists>pos. table_down cnt = Some pos \<and> length pos = length cnt \<and>
      (\<forall>v < length cnt. pos ! v = (\<Sum>u\<in>{u. u < length cnt \<and> descending u < descending v}. cnt ! u))"
    using table_down_fold [OF n] unfolding table_down_def
    by (auto simp: before_descending)
qed

lemmas counting_sorts =
  up.counting_sort_correct down.counting_sort_correct
  tab_up.counting_sort_correct tab_down.counting_sort_correct

section \<open>Sorting twice\<close>

text \<open>A stable sort after another one: the later key comes first.\<close>

lemma insort_key_cong:
  "\<forall>y \<in> set xs. (h x \<le> h y) = (g x \<le> g y) \<Longrightarrow> insort_key h x xs = insort_key g x xs"
  by (induction xs) auto

lemma sort_key_cong_set: "\<forall>t \<in> set xs. f t = g t \<Longrightarrow> sort_key f xs = sort_key g xs"
proof (induction xs)
  case (Cons x xs)
  then show ?case by (simp add: insort_key_cong [of _ f _ g])
qed simp

lemma sort_key_const:
  fixes f :: "'a \<Rightarrow> 'b::linorder" and g :: "'a \<Rightarrow> 'c::linorder"
  shows "\<forall>x \<in> set xs. f x = k \<Longrightarrow> sort_key (\<lambda>x. (f x, g x)) xs = sort_key g xs"
proof (induction xs)
  case (Cons x xs)
  then show ?case by (simp add: insort_key_cong [of _ "\<lambda>x. (f x, g x)" _ g] less_eq_prod_def)
qed simp

lemma sort_key_lex:
  fixes f :: "'a \<Rightarrow> 'b::linorder" and g :: "'a \<Rightarrow> 'c::linorder"
  shows "sort_key f (sort_key g xs) = sort_key (\<lambda>x. (f x, g x)) xs"
proof (rule properties_for_sort_key)
  show "mset (sort_key (\<lambda>x. (f x, g x)) xs) = mset (sort_key g xs)" by simp
  show "filter (\<lambda>x. f k = f x) (sort_key (\<lambda>x. (f x, g x)) xs) = filter (\<lambda>x. f k = f x) (sort_key g xs)" for k
    unfolding filter_sort by (rule sort_key_const [where k = "f k"]) simp
  have "sorted_wrt (\<lambda>x y. f x \<le> f y) (sort_key (\<lambda>x. (f x, g x)) xs)"
    using sorted_sort_key [of "\<lambda>x. (f x, g x)" xs, unfolded sorted_map]
    by (rule sorted_wrt_mono_rel [rotated]) (auto simp: less_eq_prod_def)
  then show "sorted (map f (sort_key (\<lambda>x. (f x, g x)) xs))" by (simp add: sorted_map)
qed

lemma Max_insert_0: "finite S \<Longrightarrow> Max (insert 0 (insert a S)) = max (Max (insert 0 S)) (a :: int)"
  unfolding insert_commute [of 0 a S] using Max_insert [of "insert 0 S" a] by (simp add: max.commute del: Max_insert)

section \<open>What the ranges of places say\<close>

text \<open>
  Of a list sorted by \<open>f\<close>, whose equal values are level, the range of a participant goes from the
  number of the better ones to the number of those who are not worse.
\<close>

lemma ties_ranges:
  fixes f :: "nat \<Rightarrow> 'k::linorder"
  assumes level: "\<And>a b. level a b \<longleftrightarrow> f a = f b" and "sorted (map f ts)"
  shows "length (ties level i ts) = length ts \<and>
    (\<forall>p < length ts. ties level i ts ! p =
      (i + length (filter (\<lambda>t. f t < f (ts ! p)) ts),
       i + length (filter (\<lambda>t. f t \<le> f (ts ! p)) ts) - 1))"
  using assms(2)
proof (induction "length ts" arbitrary: i ts rule: less_induct)
  case less
  show ?case
  proof (cases ts)
    case Nil
    then show ?thesis by simp
  next
    case (Cons t us)
    define m where "m = length (takeWhile (level t) us)"
    define vs where "vs = drop m us"
    let ?same = "takeWhile (level t) us"
    have us: "us = ?same @ vs" by (simp add: vs_def m_def dropWhile_eq_drop [symmetric])
    have le: "\<forall>u \<in> set us. f t \<le> f u" using less.prems Cons by auto
    have eq: "f u = f t" if "u \<in> set ?same" for u
      using that level by (metis set_takeWhileD)
    have gt: "f t < f u" if "u \<in> set vs" for u
    proof -
      have drop: "vs = dropWhile (level t) us" by (simp add: vs_def m_def dropWhile_eq_drop)
      have ne: "vs \<noteq> []" using that by (cases vs) auto
      have "\<not> level t (hd vs)" using hd_dropWhile [of "level t" us] ne unfolding drop by blast
      moreover have "hd vs \<in> set us" using ne us by (metis hd_in_set in_set_conv_decomp append_Cons append_assoc UnCI set_append)
      ultimately have "f t < f (hd vs)" using le level by (metis order_le_less)
      moreover have "sorted (map f vs)" using less.prems Cons us by (metis list.simps(9) map_append sorted_append sorted_wrt.simps(2))
      then have "f (hd vs) \<le> f u" using that ne by (cases vs) auto
      ultimately show ?thesis by order
    qed
    have ih: "length (ties level (i + m + 1) vs) = length vs \<and>
        (\<forall>p < length vs. ties level (i + m + 1) vs ! p =
          (i + m + 1 + length (filter (\<lambda>t. f t < f (vs ! p)) vs),
           i + m + 1 + length (filter (\<lambda>t. f t \<le> f (vs ! p)) vs) - 1))"
      using less.prems Cons us
      by (intro less.hyps) (simp_all add: vs_def sorted_wrt_drop drop_map [symmetric])
    have unfold: "ties level i ts = replicate (m + 1) (i, i + m) @ ties level (i + m + 1) vs"
      by (simp add: Cons Let_def m_def vs_def)
    have ts: "ts = (t # ?same) @ vs" using us Cons by simp
    have all: "filter P ts = filter P (t # ?same) @ filter P vs" for P by (subst ts) simp
    have m: "length (t # ?same) = m + 1" by (simp add: m_def)
    show ?thesis
    proof (intro conjI allI impI)
      show "length (ties level i ts) = length ts"
        using ih m unfolding unfold by (subst ts) simp
      fix p
      assume p: "p < length ts"
      show "ties level i ts ! p =
        (i + length (filter (\<lambda>t. f t < f (ts ! p)) ts), i + length (filter (\<lambda>t. f t \<le> f (ts ! p)) ts) - 1)"
      proof (cases "p < m + 1")
        case True
        have "ts ! p \<in> set (t # ?same)" using True m by (metis nth_append nth_mem ts)
        then have fp: "f (ts ! p) = f t" using eq by auto
        have "filter (\<lambda>t. f t < f (ts ! p)) ts = []"
          unfolding all fp using eq gt by (auto simp: filter_empty_conv dest: order_less_asym)
        moreover have "filter (\<lambda>t. f t \<le> f (ts ! p)) ts = t # ?same"
          unfolding all fp using eq gt by (auto simp: filter_empty_conv filter_id_conv not_le)
        moreover have "(replicate (m + 1) (i, i + m) @ ties level (i + m + 1) vs) ! p = (i, i + m)"
          using True by (simp only: nth_append length_replicate nth_replicate if_True)
        ultimately show ?thesis using m unfolding unfold by simp
      next
        case False
        define q where "q = p - (m + 1)"
        have q: "p = m + 1 + q" using False by (simp add: q_def)
        have nth: "ts ! p = vs ! q" using q m by (metis nth_append_length_plus ts)
        have "q < length vs" using p q m by (metis length_append nat_add_left_cancel_less ts)
        then have in_vs: "vs ! q \<in> set vs" by simp
        have "filter (\<lambda>t. f t < f (vs ! q)) (t # ?same) = t # ?same"
          "filter (\<lambda>t. f t \<le> f (vs ! q)) (t # ?same) = t # ?same"
          using eq gt [OF in_vs] by (auto simp: filter_id_conv less_imp_le)
        then show ?thesis
          using ih \<open>q < length vs\<close> m unfolding unfold all nth
          by (simp add: q nth_append del: replicate_Suc)
      qed
    qed
  qed
qed

lemma count_participants: "length (filter P [0..<n]) = card {t. t < n \<and> P t}"
proof -
  have "length (filter P [0..<n]) = card (set (filter P [0..<n]))"
    by (rule distinct_card [symmetric]) simp
  also have "set (filter P [0..<n]) = {t. t < n \<and> P t}" by auto
  finally show ?thesis .
qed

text \<open>The same over the numbers of the participants.\<close>

lemma ties_places:
  fixes f :: "nat \<Rightarrow> 'k::linorder"
  assumes level: "\<And>a b. level a b \<longleftrightarrow> f a = f b" and sorted: "sorted (map f ts)"
    and perm: "mset ts = mset [0..<n]" and p: "p < n"
  shows "ties level 0 ts ! p =
    (card {t. t < n \<and> f t < f (ts ! p)}, card {t. t < n \<and> f t \<le> f (ts ! p)} - 1)"
proof -
  have count: "length (filter P ts) = card {t. t < n \<and> P t}" for P
    using perm by (metis count_participants mset_filter size_mset)
  have "length ts = n" using perm by (metis size_mset length_upt minus_nat.diff_0)
  then show ?thesis using ties_ranges [OF level sorted, of 0] p by (simp add: count)
qed

text \<open>The rows of a table whose order is sorted by a key, and their places.\<close>

lemma table_places:
  fixes f :: "nat \<Rightarrow> 'k::linorder"
  assumes level: "\<And>a b. level a b \<longleftrightarrow> f a = f b" and sorted: "sorted (map f ts)"
    and perm: "mset ts = mset [0..<n]" and better: "\<And>a b. better a b \<longleftrightarrow> f a < f b"
  shows "(\<forall>i < n. \<forall>j < i. \<not> better (ts ! i) (ts ! j)) \<and>
    (\<forall>i < n. ties level 0 ts ! i =
      (card {u. u < n \<and> better u (ts ! i)}, card {u. u < n \<and> \<not> better (ts ! i) u} - 1))"
proof -
  have len: "length ts = n" using perm by (metis size_mset length_upt minus_nat.diff_0)
  have "\<forall>i < n. \<forall>j < i. \<not> better (ts ! i) (ts ! j)"
    using sorted len unfolding better not_less sorted_iff_nth_mono_less by simp
  moreover have "ties level 0 ts ! i =
      (card {u. u < n \<and> better u (ts ! i)}, card {u. u < n \<and> \<not> better (ts ! i) u} - 1)" if "i < n" for i
    unfolding ties_places [OF level sorted perm that] better not_less ..
  ultimately show ?thesis by blast
qed

section \<open>The bubble sort ends and sorts\<close>

text \<open>The number of pairs in the wrong order.\<close>

fun inversions :: "('a \<Rightarrow> int) \<Rightarrow> 'a list \<Rightarrow> nat" where
  "inversions f [] = 0"
| "inversions f (a # ts) = length (filter (\<lambda>b. f b < f a) ts) + inversions f ts"

lemma bubble_pass_mset: "mset (fst (bubble_pass score pen ts)) = mset ts"
  by (induction score pen ts rule: bubble_pass.induct) auto

lemma bubble_pass_count: "length (filter P (fst (bubble_pass score pen ts))) = length (filter P ts)"
  using bubble_pass_mset by (metis mset_filter size_mset)

lemma bubble_pass_inversions:
  "inversions pen (fst (bubble_pass score pen ts)) \<le> inversions pen ts \<and>
   (snd (bubble_pass score pen ts) \<longrightarrow> inversions pen (fst (bubble_pass score pen ts)) < inversions pen ts)"
  by (induction score pen ts rule: bubble_pass.induct) (auto simp: bubble_pass_count)

lemma bubble_pass_filter:
  "filter (\<lambda>t. (- score t, pen t) = k) (fst (bubble_pass score pen ts)) =
    filter (\<lambda>t. (- score t, pen t) = k) ts"
  by (induction score pen ts rule: bubble_pass.induct) auto

lemma bubble_pass_scores: "map score (fst (bubble_pass score pen ts)) = map score ts"
  by (induction score pen ts rule: bubble_pass.induct) auto

lemma bubble_pass_quiet:
  "\<not> snd (bubble_pass score pen ts) \<Longrightarrow> sorted (map (\<lambda>t. - score t) ts) \<Longrightarrow>
    fst (bubble_pass score pen ts) = ts \<and> sorted (map (\<lambda>t. (- score t, pen t)) ts)"
proof (induction score pen ts rule: bubble_pass.induct)
  case (1 score pen a b ts)
  then have sw: "\<not> (score a = score b \<and> pen a > pen b)" by (auto split: if_splits)
  with 1 have ih: "fst (bubble_pass score pen (b # ts)) = b # ts"
    "sorted (map (\<lambda>t. (- score t, pen t)) (b # ts))"
    by auto
  have "(- score a, pen a) \<le> (- score b, pen b)" using "1.prems"(2) sw by auto
  then have "sorted (map (\<lambda>t. (- score t, pen t)) (a # b # ts))"
    using ih(2) unfolding list.map sorted2 by blast
  then show ?case using ih(1) sw by (simp only: bubble_pass.simps if_False fst_conv simp_thms)
qed simp_all

lemma bubble_sort_sorts:
  assumes "sorted (map (\<lambda>t. - score t) ts)"
  shows "bubble_sort score pen ts = Some (sort_key (\<lambda>t. (- score t, pen t)) ts)"
  using assms
proof (induction "inversions pen ts" arbitrary: ts rule: less_induct)
  case less
  let ?f = "\<lambda>t. (- score t, pen t)"
  obtain ts' swapped where pass: "bubble_pass score pen ts = (ts', swapped)" by fastforce
  have "map (\<lambda>t. - score t) ts' = map uminus (map score ts')" by simp
  also have "map score ts' = map score ts" using bubble_pass_scores [of score pen ts] pass by simp
  finally have sorted: "sorted (map (\<lambda>t. - score t) ts')" using less.prems by (simp add: comp_def)
  have "sort_key ?f ts' = sort_key ?f ts"
  proof (rule properties_for_sort_key)
    show "mset (sort_key ?f ts) = mset ts'"
      using bubble_pass_mset [of score pen ts] pass by simp
    show "sorted (map ?f (sort_key ?f ts))" by simp
    show "filter (\<lambda>x. ?f k = ?f x) (sort_key ?f ts) = filter (\<lambda>x. ?f k = ?f x) ts'" for k
      using bubble_pass_filter [of score pen "?f k" ts] sort_key_stable [of ?f "?f k" ts] pass
      by (simp add: eq_commute)
  qed
  moreover have "bubble_sort score pen ts' = Some (sort_key ?f ts')" if swapped
    using bubble_pass_inversions [of pen score ts] pass that sorted by (intro less.hyps) auto
  moreover have "ts' = sort_key ?f ts" if "\<not> swapped"
  proof -
    have "ts' = ts" "sorted (map ?f ts)"
      using bubble_pass_quiet [of score pen ts] pass that less.prems by auto
    then show ?thesis by (simp add: sort_key_id_if_sorted)
  qed
  ultimately show ?case
    by (subst bubble_sort.simps) (simp add: pass)
qed

end
