(* ===== verification/Stand_Data.thy ===== *)
theory Stand_Data
  imports Ranking Runlog "HOL-Library.Signed_Division"
begin

text \<open>
  What the standings tables of \<open>html.c\<close> are computed from: the problems and the settings of the
  contest (\<open>prepare.h\<close>), the columns of the table (\<open>get_problem_map\<close>) and its rows
  (\<open>teamdb_get_user_map\<close> of \<open>teamdb_2.c\<close>).  \<open>None\<close> is an access outside an array, a null pointer or
  a failed ASSERT.  Sums of points and penalties are taken to fit an int.
\<close>

section \<open>Problems and settings\<close>

record penalty_info =
  pi_date :: int
  pi_penalty :: int
  pi_scale :: int
  pi_decay :: int

record problem =
  pb_short_name :: string
  pb_stand_name :: string
  pb_stand_column :: string
  pb_hidden :: int
  pb_start_date :: int
  pb_stand_last_column :: int
  pb_type :: int
  pb_full_score :: int
  pb_full_user_score :: int
  pb_variable_full_score :: int
  pb_run_penalty :: int
  pb_acm_run_penalty :: int
  pb_disqualified_penalty :: int
  pb_score_multiplier :: int
  pb_score_bonus_val :: "int list"
  pb_dp_infos :: "penalty_info list"
  pb_ignore_compile_errors :: int
  pb_ignore_penalty :: int
  pb_ignore_unmarked :: int
  pb_tests_to_accept :: int
  pb_score_latest :: int
  pb_score_latest_or_unmarked :: int
  pb_stand_hide_time :: int
  pb_stand_ignore_score :: int
  pb_provide_ok :: "string list"

record stand_global =
  sg_score_system :: int
  sg_is_virtual :: int
  sg_rounding_mode :: int
  sg_prune_empty_users :: int
  sg_disable_user_database :: int
  sg_ignore_success_time :: int
  sg_stand_ignore_after :: int
  sg_stand_sort_by_solved :: int
  sg_stand_enable_penalty :: int
  sg_score_n_best_problems :: int
  sg_separate_user_score :: int

definition SEC_CEIL :: int where [simp]: "SEC_CEIL = 0"
definition SEC_FLOOR :: int where [simp]: "SEC_FLOOR = 1"
definition SEC_ROUND :: int where [simp]: "SEC_ROUND = 2"

definition sec_to_min :: "int \<Rightarrow> int \<Rightarrow> int option" where
  "sec_to_min rounding_mode secs =
    (if rounding_mode = SEC_CEIL then Some ((secs + 59) sdiv 60)
     else if rounding_mode = SEC_FLOOR then Some (secs sdiv 60)
     else if rounding_mode = SEC_ROUND then Some ((secs + 30) sdiv 60)
     else None)"

text \<open>A loop whose body may abort.\<close>

fun fold_opt :: "('b \<Rightarrow> 'a \<Rightarrow> 'a option) \<Rightarrow> 'b list \<Rightarrow> 'a \<Rightarrow> 'a option" where
  "fold_opt f [] a = Some a"
| "fold_opt f (x # xs) a = Option.bind (f x a) (fold_opt f xs)"

lemma fold_opt_append: "fold_opt f (xs @ ys) a = Option.bind (fold_opt f xs a) (fold_opt f ys)"
  by (induction xs arbitrary: a) (auto split: Option.bind_splits)

section \<open>The columns\<close>

text \<open>
  \<open>p_rev\<close>, \<open>p_ind\<close> and the variable behind \<open>p_last_col_ind\<close>, \<open>None\<close> when the caller passes a null
  pointer.
\<close>

type_synonym prob_map = "int list \<times> nat list \<times> int option"

text \<open>\<open>keep\<close> is the verdict of the filter on problems of the viewer.\<close>

definition add_column ::
  "int \<Rightarrow> problem option list \<Rightarrow> (nat \<Rightarrow> bool) \<Rightarrow> nat \<Rightarrow> prob_map \<Rightarrow> prob_map option" where
  "add_column cur_time probs keep i m =
    (case (probs ! i, m) of
       (None, _) \<Rightarrow> Some m
     | (Some prob, (p_rev, p_ind, last_col)) \<Rightarrow>
         if pb_hidden prob > 0 \<or> pb_stand_column prob \<noteq> []
            \<or> pb_start_date prob > 0 \<and> cur_time < pb_start_date prob \<or> \<not> keep i
         then Some m
         else
           let cols = (p_rev[i := int (length p_ind)], p_ind @ [i]) in
           if pb_stand_last_column prob > 0
           then (case last_col of
                   None \<Rightarrow> None
                 | Some l \<Rightarrow> Some (fst cols, snd cols,
                     Some (if l \<noteq> 0 \<and> l < 0 then int (length p_ind) else l)))
           else Some (fst cols, snd cols, last_col))"

definition get_problem_map ::
  "int \<Rightarrow> problem option list \<Rightarrow> (nat \<Rightarrow> bool) \<Rightarrow> int option \<Rightarrow> prob_map option" where
  "get_problem_map cur_time probs keep last_col =
     fold_opt (add_column cur_time probs keep) [1..<length probs]
       (replicate (length probs) (- 1), [], last_col)"

text \<open>A problem with \<open>stand_column\<close> is shown in the column of the problem of that name.\<close>

definition same_column :: "problem \<Rightarrow> problem option \<Rightarrow> bool" where
  "same_column prob q =
    (case q of None \<Rightarrow> False
     | Some p \<Rightarrow> pb_stand_column prob = pb_short_name p \<or> pb_stand_column prob = pb_stand_name p)"

definition alias_column :: "int \<Rightarrow> problem option list \<Rightarrow> nat \<Rightarrow> int list \<Rightarrow> int list" where
  "alias_column cur_time probs i p_rev =
    (case probs ! i of
       None \<Rightarrow> p_rev
     | Some prob \<Rightarrow>
         if pb_stand_column prob = [] \<or> pb_start_date prob > 0 \<and> cur_time < pb_start_date prob
         then p_rev
         else fold (\<lambda>j r. if same_column prob (probs ! j) then r[i := r ! j] else r)
                [1..<length probs] p_rev)"

definition alias_columns :: "int \<Rightarrow> problem option list \<Rightarrow> int list \<Rightarrow> int list" where
  "alias_columns cur_time probs p_rev =
     fold (alias_column cur_time probs) [1..<length probs] p_rev"

section \<open>The rows\<close>

definition shown_user :: "mask \<Rightarrow> bool" where
  "shown_user f \<longleftrightarrow>
     \<not> has f (USERLIST_UC_INVISIBLE OR USERLIST_UC_BANNED OR USERLIST_UC_DISQUALIFIED)"

definition add_row :: "(nat \<Rightarrow> bool) \<Rightarrow> nat \<Rightarrow> int list \<times> nat list \<Rightarrow> int list \<times> nat list" where
  "add_row shown i m =
    (case m of (u_rev, u_ind) \<Rightarrow>
       if shown i then (u_rev[i := int (length u_ind)], u_ind @ [i]) else m)"

text \<open>
  \<open>u_runs\<close> marks the users that stay, \<open>keep\<close> is the verdict of the filter on users, \<open>u_rev0\<close> is
  what the array holds before the call.
\<close>

definition teamdb_get_user_map ::
  "teamdb \<Rightarrow> nat \<Rightarrow> bool list \<Rightarrow> int list \<Rightarrow> (nat \<Rightarrow> bool) \<Rightarrow> (int list \<times> nat list) option" where
  "teamdb_get_user_map tdb u_max u_runs u_rev0 keep =
    (if tdb_disabled tdb then Some (fold (add_row (\<lambda>i. u_runs ! i)) [1..<u_max] (u_rev0, []))
     else if tdb_user_map_size tdb \<le> 0 then Some (u_rev0, [])
     else
       case tdb_u_contests tdb of
         None \<Rightarrow> None
       | Some us \<Rightarrow>
           let n = min u_max (nat (tdb_user_map_size tdb)) in
           Some (fold (add_row (\<lambda>i. case us ! i of None \<Rightarrow> False
                                | Some f \<Rightarrow> shown_user f \<and> u_runs ! i \<and> keep i))
             [1..<n] (replicate n (- 1) @ drop n u_rev0, [])))"

text \<open>
  Which users have sent something, in the three tables; the one of the Kirov table tests the range
  with a conjunction that is never true, so a larger id is written outside the array.
\<close>

definition acm_prune :: "run_entry list \<Rightarrow> nat \<Rightarrow> bool list" where
  "acm_prune es t_max =
     fold (\<lambda>e t. if re_status e = RUN_EMPTY \<or> re_user_id e \<le> 0 \<or> re_user_id e \<ge> int t_max
                    \<or> re_is_hidden e \<noteq> 0
                 then t else t[nat (re_user_id e) := True]) es (replicate t_max False)"

definition kirov_prune :: "run_entry list \<Rightarrow> nat \<Rightarrow> bool list option" where
  "kirov_prune es t_max =
     fold_opt (\<lambda>e t. if re_status e = RUN_EMPTY \<or> re_status e = RUN_VIRTUAL_START
                       \<or> re_status e = RUN_VIRTUAL_STOP \<or> re_is_hidden e \<noteq> 0
                       \<or> re_user_id e \<le> 0 \<and> re_user_id e \<ge> int t_max
                     then Some t
                     else if 0 \<le> re_user_id e \<and> re_user_id e < int t_max
                     then Some (t[nat (re_user_id e) := True]) else None)
       es (replicate t_max False)"

definition moscow_prune :: "run_entry list \<Rightarrow> nat \<Rightarrow> bool list" where
  "moscow_prune es t_max =
     fold (\<lambda>e t. if re_status e \<noteq> RUN_EMPTY \<and> re_user_id e > 0 \<and> re_user_id e < int t_max
                    \<and> re_is_hidden e = 0
                 then t[nat (re_user_id e) := True] else t) es (replicate t_max False)"

text \<open>The size of the table of users.\<close>

definition stand_t_max :: "stand_global \<Rightarrow> teamdb \<Rightarrow> runlog \<Rightarrow> nat" where
  "stand_t_max g tdb s =
    (if sg_disable_user_database g > 0 then nat (fst (run_get_max_user_id s) + 1)
     else if tdb_disabled tdb then 1 else nat (tdb_user_map_size tdb))"

definition stand_prunes :: "stand_global \<Rightarrow> bool" where
  "stand_prunes g \<longleftrightarrow> sg_prune_empty_users g \<noteq> 0 \<or> sg_disable_user_database g > 0"

section \<open>Laws of the maps\<close>

text \<open>
  A table of the two maps: the rows are numbered from 0, \<open>ind\<close> gives the id of a row and \<open>vs\<close> the
  row of an id, or -1.
\<close>

definition map_ok :: "int list \<Rightarrow> nat list \<Rightarrow> bool" where
  "map_ok vs ind \<longleftrightarrow> (\<forall>i < length vs. - 1 \<le> vs ! i \<and> vs ! i < int (length ind)) \<and>
     (\<forall>r < length ind. ind ! r < length vs)"

lemma map_ok_add:
  "map_ok vs ind \<Longrightarrow> i < length vs \<Longrightarrow> map_ok (vs[i := int (length ind)]) (ind @ [i])"
  by (auto simp: map_ok_def nth_list_update nth_append less_Suc_eq)

lemma add_row_ok: "map_ok (fst m) (snd m) \<Longrightarrow> i < length (fst m) \<Longrightarrow>
    map_ok (fst (add_row shown i m)) (snd (add_row shown i m)) \<and>
    length (fst (add_row shown i m)) = length (fst m)"
  by (auto simp: add_row_def map_ok_add split: prod.splits)

lemma fold_add_row_ok:
  "map_ok (fst m) (snd m) \<Longrightarrow> \<forall>i \<in> set js. i < length (fst m) \<Longrightarrow>
    map_ok (fst (fold (add_row shown) js m)) (snd (fold (add_row shown) js m)) \<and>
    length (fst (fold (add_row shown) js m)) = length (fst m)"
  by (induction js arbitrary: m) (auto simp: add_row_ok)

end
