(* ===== verification/Stand_Acm.thy ===== *)
theory Stand_Acm
  imports Stand_Data
begin

text \<open>
  The ACM standings (\<open>do_write_standings\<close> of \<open>html.c\<close>): the scan of the log into the tables of
  attempts, the ranking and the places.  The tables with a cell per participant and problem are
  lists, their rows as long as the power of two not less than the number of problems.
\<close>

section \<open>The scan of the log\<close>

text \<open>
  What the loop works with: \<open>ac_keep\<close> is the verdict of the filter on runs, \<open>ac_cur_dur\<close> is
  \<open>current_dur\<close>, \<open>ac_dur\<close> the duration of the contest.
\<close>

record acm_ctx =
  ac_global :: stand_global
  ac_probs :: "problem option list"
  ac_log :: runlog
  ac_t_rev :: "int list"
  ac_t_ind :: "nat list"
  ac_p_rev :: "int list"
  ac_p_ind :: "nat list"
  ac_start_time :: int
  ac_dur :: int
  ac_cur_dur :: int
  ac_client_flag :: int
  ac_user_id :: int
  ac_keep :: "nat \<Rightarrow> bool"

record acm_table =
  calc :: "int list"
  ok_time :: "int list"
  trans_flag :: "int list"
  pr_flag :: "int list"
  disq_flag :: "int list"
  cf_flag :: "int list"
  t_prob :: "int list"
  t_pen :: "int list"
  succ_att :: "int list"
  tot_att :: "int list"
  last_success_run :: int
  last_success_time :: int
  last_success_start :: int

text \<open>\<open>for (row_sz = 1; row_sz < p_tot; row_sz <<= 1);\<close>\<close>

definition row_sz :: "nat \<Rightarrow> nat" where
  "row_sz p_tot = double_upto p_tot 1"

definition acm_empty :: "nat \<Rightarrow> nat \<Rightarrow> acm_table" where
  "acm_empty t_tot p_tot =
    (let z = replicate (t_tot * row_sz p_tot) 0 in
     \<lparr>calc = z, ok_time = z, trans_flag = z, pr_flag = z, disq_flag = z, cf_flag = z,
      t_prob = replicate t_tot 0, t_pen = replicate t_tot 0, succ_att = replicate p_tot 0,
      tot_att = replicate p_tot 0, last_success_run = - 1, last_success_time = 0,
      last_success_start = 0\<rparr>)"

text \<open>A run either is skipped or counts in a cell, with its time and the start it is measured from.\<close>

datatype 'a pick = Skip | Take 'a

text \<open>\<open>run_get_virtual_start_time\<close>, whose only effect is on the table of users of the log.\<close>

definition virtual_start :: "runlog \<Rightarrow> int \<Rightarrow> int option" where
  "virtual_start s uid = map_option fst (run_get_virtual_start_time uid s)"

definition acm_time :: "acm_ctx \<Rightarrow> run_entry \<Rightarrow> (int \<times> int) pick option" where
  "acm_time c pe =
    (if sg_is_virtual (ac_global c) \<noteq> 0 then
       (case virtual_start (ac_log c) (re_user_id pe) of
          None \<Rightarrow> None
        | Some tstart \<Rightarrow>
            if re_time pe < tstart then None
            else if re_time pe - tstart > ac_dur c then None
            else if ac_user_id c > 0 \<and> re_time pe - tstart > ac_cur_dur c then Some Skip
            else Some (Take (re_time pe, tstart)))
     else if ac_client_flag c \<noteq> 1 \<or> ac_user_id c \<noteq> 0 then
       (let run_time = max (re_time pe) (ac_start_time c) in
        if ac_cur_dur c > 0 \<and> run_time - ac_start_time c > ac_cur_dur c then Some Skip
        else if sg_stand_ignore_after (ac_global c) > 0
                \<and> re_time pe \<ge> sg_stand_ignore_after (ac_global c) then Some Skip
        else Some (Take (run_time, ac_start_time c)))
     else Some (Take (re_time pe, ac_start_time c)))"

definition acm_counts :: "acm_ctx \<Rightarrow> nat \<Rightarrow> run_entry \<Rightarrow> bool" where
  "acm_counts c k pe \<longleftrightarrow>
     \<not> (re_status pe = RUN_VIRTUAL_START \<or> re_status pe = RUN_VIRTUAL_STOP
        \<or> re_status pe = RUN_EMPTY
        \<or> re_user_id pe \<le> 0 \<or> re_user_id pe \<ge> int (length (ac_t_rev c))
        \<or> ac_t_rev c ! nat (re_user_id pe) < 0
        \<or> re_prob_id pe \<le> 0 \<or> re_prob_id pe > int (length (ac_probs c)) - 1
        \<or> ac_p_rev c ! nat (re_prob_id pe) < 0
        \<or> (case ac_probs c ! nat (re_prob_id pe) of None \<Rightarrow> True | Some p \<Rightarrow> pb_hidden p \<noteq> 0)
        \<or> re_is_hidden pe \<noteq> 0
        \<or> \<not> ac_keep c k)"

definition set_flag :: "nat \<Rightarrow> int list \<Rightarrow> int list" where
  "set_flag i xs = xs[i := 1]"

text \<open>The attempts that cost a penalty.\<close>

definition acm_failed :: "problem \<Rightarrow> int \<Rightarrow> bool" where
  "acm_failed prob status \<longleftrightarrow>
     (status = RUN_COMPILE_ERR \<or> status = RUN_STYLE_ERR \<or> status = RUN_REJECTED)
       \<and> pb_ignore_compile_errors prob = 0
     \<or> run_is_failed_attempt status \<noteq> 0"

definition acm_accept ::
  "acm_ctx \<Rightarrow> nat \<Rightarrow> problem \<Rightarrow> nat \<Rightarrow> nat \<Rightarrow> nat \<Rightarrow> int \<Rightarrow> int \<Rightarrow> acm_table \<Rightarrow> acm_table option" where
  "acm_accept c k prob tt pp i run_time tstart a =
    (if calc a ! i > 0 then Some a
     else
       let time = (if sg_is_virtual (ac_global c) \<noteq> 0 then run_time
                   else max run_time (ac_start_time c)) in
       case sec_to_min (sg_rounding_mode (ac_global c)) (time - tstart) of
         None \<Rightarrow> None
       | Some mins \<Rightarrow> Some (a
           \<lparr>last_success_run := int k,
            t_pen := (t_pen a)[tt := t_pen a ! tt + pb_acm_run_penalty prob * - (calc a ! i)
              + (if sg_ignore_success_time (ac_global c) = 0 then mins else 0)],
            calc := (calc a)[i := 1 - calc a ! i],
            t_prob := (t_prob a)[tt := t_prob a ! tt + 1],
            succ_att := (succ_att a)[pp := succ_att a ! pp + 1],
            tot_att := (tot_att a)[pp := tot_att a ! pp + 1],
            ok_time := (ok_time a)[i := mins],
            last_success_time := time, last_success_start := tstart\<rparr>))"

definition acm_fail :: "nat \<Rightarrow> nat \<Rightarrow> acm_table \<Rightarrow> acm_table" where
  "acm_fail pp i a =
    (if calc a ! i \<le> 0
     then a\<lparr>calc := (calc a)[i := calc a ! i - 1], tot_att := (tot_att a)[pp := tot_att a ! pp + 1]\<rparr>
     else a)"

definition acm_count ::
  "acm_ctx \<Rightarrow> nat \<Rightarrow> run_entry \<Rightarrow> problem \<Rightarrow> int \<Rightarrow> int \<Rightarrow> acm_table \<Rightarrow> acm_table option" where
  "acm_count c k pe prob run_time tstart a =
    (let tt = nat (ac_t_rev c ! nat (re_user_id pe)); pp = nat (ac_p_rev c ! nat (re_prob_id pe));
         i = tt * row_sz (length (ac_p_ind c)) + pp; status = re_status pe in
     if i \<ge> length (calc a) \<or> tt \<ge> length (t_prob a) \<or> pp \<ge> length (tot_att a) then None
     else if status = RUN_OK then acm_accept c k prob tt pp i run_time tstart a
     else if acm_failed prob status then Some (acm_fail pp i a)
     else if status = RUN_DISQUALIFIED then Some (a\<lparr>disq_flag := set_flag i (disq_flag a)\<rparr>)
     else if status = RUN_PENDING_REVIEW then Some (a\<lparr>pr_flag := set_flag i (pr_flag a)\<rparr>)
     else if status = RUN_PENDING \<or> status = RUN_ACCEPTED
             \<or> status \<ge> RUN_TRANSIENT_FIRST \<and> status \<le> RUN_TRANSIENT_LAST
     then Some (a\<lparr>trans_flag := set_flag i (trans_flag a)\<rparr>)
     else if status = RUN_CHECK_FAILED then Some (a\<lparr>cf_flag := set_flag i (cf_flag a)\<rparr>)
     else Some a)"

definition acm_step :: "acm_ctx \<Rightarrow> nat \<Rightarrow> acm_table \<Rightarrow> acm_table option" where
  "acm_step c k a =
    (let pe = log (ac_log c) ! k in
     if \<not> acm_counts c k pe then Some a
     else
       case (acm_time c pe, ac_probs c ! nat (re_prob_id pe)) of
         (Some Skip, _) \<Rightarrow> Some a
       | (Some (Take (run_time, tstart)), Some prob) \<Rightarrow> acm_count c k pe prob run_time tstart a
       | _ \<Rightarrow> None)"

definition acm_scan :: "acm_ctx \<Rightarrow> acm_table option" where
  "acm_scan c =
     fold_opt (acm_step c) [0..<length (log (ac_log c))]
       (acm_empty (length (ac_t_ind c)) (length (ac_p_ind c)))"

section \<open>The ranking\<close>

text \<open>First by the penalty, then, keeping that order, by the number of solved problems.\<close>

definition acm_sort :: "int list \<Rightarrow> int list \<Rightarrow> nat list option" where
  "acm_sort probs pens =
    (if probs = [] then Some []
     else Option.bind (counting_sort starts_up pens [0..<length pens])
            (counting_sort starts_down probs))"

definition acm_level :: "int list \<Rightarrow> int list \<Rightarrow> nat \<Rightarrow> nat \<Rightarrow> bool" where
  "acm_level probs pens a b \<longleftrightarrow> probs ! a = probs ! b \<and> pens ! a = pens ! b"

section \<open>The table\<close>

text \<open>The times the table is computed for; a contest that has not started has no table.\<close>

definition acm_times ::
  "stand_global \<Rightarrow> runlog \<Rightarrow> int \<Rightarrow> int \<Rightarrow> (int \<times> int \<times> int) option option" where
  "acm_times g s user_id cur_time0 =
    (let h = head s; dur = rh_duration h;
         times = (if rh_start_time h \<noteq> 0 \<and> sg_is_virtual g \<noteq> 0 \<and> user_id > 0
                  then Option.bind (run_get_virtual_start_time user_id s) (\<lambda>(start, s').
                       map_option (\<lambda>(stop, _). (start, stop)) (run_get_virtual_stop_time user_id 0 s'))
                  else Some (rh_start_time h, rh_stop_time h)) in
     case times of
       None \<Rightarrow> None
     | Some (start_time, stop_time0) \<Rightarrow>
         let cur1 = (if start_time > 0 \<and> cur_time0 < start_time then start_time else cur_time0);
             stop_time = (if start_time > 0 \<and> dur > 0 \<and> stop_time0 \<le> 0 \<and> cur1 \<ge> start_time + dur
                          then start_time + dur else stop_time0);
             cur_time = (if start_time > 0 \<and> dur > 0 \<and> stop_time > 0 \<and> cur1 > stop_time
                         then stop_time else cur1) in
         if start_time = 0 then Some None
         else Some (Some (start_time, cur_time, cur_time - start_time)))"

record acm_standings =
  as_ctx :: acm_ctx
  as_table :: acm_table
  as_sort :: "nat list"
  as_places :: "(nat \<times> nat) list"

definition acm_setup ::
  "stand_global \<Rightarrow> teamdb \<Rightarrow> problem option list \<Rightarrow> runlog \<Rightarrow> int \<Rightarrow> int \<Rightarrow> int \<Rightarrow> int \<Rightarrow> int
    \<Rightarrow> (nat \<Rightarrow> bool) \<Rightarrow> (nat \<Rightarrow> bool) \<Rightarrow> (nat \<Rightarrow> bool) \<Rightarrow> acm_ctx option" where
  "acm_setup g tdb probs s client_flag user_id start_time cur_time cur_dur keep_user keep_prob keep_run =
    (let t_max = stand_t_max g tdb s;
         t_runs = (if stand_prunes g then acm_prune (log s) t_max else replicate t_max True) in
     case teamdb_get_user_map tdb t_max t_runs (replicate t_max 0) keep_user of
       None \<Rightarrow> None
     | Some (t_rev, t_ind) \<Rightarrow>
         (case get_problem_map cur_time probs keep_prob None of
            None \<Rightarrow> None
          | Some (p_rev, p_ind, _) \<Rightarrow>
              Some \<lparr>ac_global = g, ac_probs = probs, ac_log = s, ac_t_rev = t_rev, ac_t_ind = t_ind,
                ac_p_rev = alias_columns cur_time probs p_rev, ac_p_ind = p_ind,
                ac_start_time = start_time, ac_dur = rh_duration (head s), ac_cur_dur = cur_dur,
                ac_client_flag = client_flag, ac_user_id = user_id, ac_keep = keep_run\<rparr>))"

text \<open>The outer option is an abort, the inner one a contest that has not started.\<close>

definition do_write_standings ::
  "stand_global \<Rightarrow> teamdb \<Rightarrow> problem option list \<Rightarrow> runlog \<Rightarrow> int \<Rightarrow> int \<Rightarrow> int
    \<Rightarrow> (nat \<Rightarrow> bool) \<Rightarrow> (nat \<Rightarrow> bool) \<Rightarrow> (nat \<Rightarrow> bool) \<Rightarrow> acm_standings option option" where
  "do_write_standings g tdb probs s client_flag user_id cur_time0 keep_user keep_prob keep_run =
    (case acm_times g s user_id cur_time0 of
       None \<Rightarrow> None
     | Some None \<Rightarrow> Some None
     | Some (Some (start_time, cur_time, cur_dur)) \<Rightarrow>
         Option.bind (acm_setup g tdb probs s client_flag user_id start_time cur_time cur_dur
                        keep_user keep_prob keep_run) (\<lambda>c.
         Option.bind (acm_scan c) (\<lambda>a.
         Option.bind (acm_sort (t_prob a) (t_pen a)) (\<lambda>order.
           Some (Some \<lparr>as_ctx = c, as_table = a, as_sort = order,
             as_places = ties (acm_level (t_prob a) (t_pen a)) 0 order\<rparr>)))))"

text \<open>
  A row of the raw table: the range of places, the user, per problem the failed attempts, whether
  it is solved and the time, and the totals.
\<close>

definition acm_raw_cell :: "acm_table \<Rightarrow> nat \<Rightarrow> int \<times> int \<times> int option" where
  "acm_raw_cell a i =
    (if calc a ! i < 0 then (- (calc a ! i), 0, None)
     else if calc a ! i > 0 then (calc a ! i - 1, 1, Some (ok_time a ! i))
     else (0, 0, None))"

definition acm_raw_row ::
  "acm_standings \<Rightarrow> nat \<Rightarrow> nat \<times> nat \<times> nat \<times> (int \<times> int \<times> int option) list \<times> int \<times> int" where
  "acm_raw_row st i =
    (let c = as_ctx st; a = as_table st; t = as_sort st ! i; p_tot = length (ac_p_ind c) in
     (fst (as_places st ! i) + 1, snd (as_places st ! i) + 1, ac_t_ind c ! t,
      map (\<lambda>j. acm_raw_cell a (t * row_sz p_tot + j)) [0..<p_tot], t_prob a ! t, t_pen a ! t))"

end
