(* ===== verification/Acm_Laws.thy ===== *)
theory Acm_Laws
  imports Stand_Acm
begin

text \<open>
  What the ACM table says: the totals of a participant in terms of the runs in the log, and the
  places in terms of the totals.
\<close>

section \<open>The reference: the runs of a cell\<close>

definition acm_run :: "acm_ctx \<Rightarrow> nat \<Rightarrow> run_entry" where
  "acm_run c k = log (ac_log c) ! k"

definition run_prob :: "acm_ctx \<Rightarrow> nat \<Rightarrow> problem" where
  "run_prob c k = the (ac_probs c ! nat (re_prob_id (acm_run c k)))"

definition run_row :: "acm_ctx \<Rightarrow> nat \<Rightarrow> nat" where
  "run_row c k = nat (ac_t_rev c ! nat (re_user_id (acm_run c k)))"

definition run_col :: "acm_ctx \<Rightarrow> nat \<Rightarrow> nat" where
  "run_col c k = nat (ac_p_rev c ! nat (re_prob_id (acm_run c k)))"

text \<open>The runs among the first \<open>n\<close> that count for participant \<open>t\<close> and problem \<open>p\<close>.\<close>

definition taken :: "acm_ctx \<Rightarrow> nat \<Rightarrow> bool" where
  "taken c k \<longleftrightarrow> acm_counts c k (acm_run c k) \<and> (\<exists>x. acm_time c (acm_run c k) = Some (Take x))"

definition cell_runs :: "acm_ctx \<Rightarrow> nat \<Rightarrow> nat \<Rightarrow> nat \<Rightarrow> nat list" where
  "cell_runs c n t p = filter (\<lambda>k. taken c k \<and> run_row c k = t \<and> run_col c k = p) [0..<n]"

definition accepted :: "acm_ctx \<Rightarrow> nat \<Rightarrow> bool" where
  "accepted c k \<longleftrightarrow> re_status (acm_run c k) = RUN_OK"

definition rejected :: "acm_ctx \<Rightarrow> nat \<Rightarrow> bool" where
  "rejected c k \<longleftrightarrow> acm_failed (run_prob c k) (re_status (acm_run c k))"

definition solved :: "acm_ctx \<Rightarrow> nat list \<Rightarrow> bool" where
  "solved c ks \<longleftrightarrow> (\<exists>k \<in> set ks. accepted c k)"

text \<open>Failed attempts before the first success, and the penalty for a solved problem.\<close>

definition fails :: "acm_ctx \<Rightarrow> nat list \<Rightarrow> int" where
  "fails c ks = int (length (filter (rejected c) (takeWhile (\<lambda>k. \<not> accepted c k) ks)))"

text \<open>The time from the start, in minutes as the contest rounds them.\<close>

definition minutes :: "acm_ctx \<Rightarrow> nat \<Rightarrow> int" where
  "minutes c k =
    (case acm_time c (acm_run c k) of
       Some (Take (run_time, tstart)) \<Rightarrow>
         the (sec_to_min (sg_rounding_mode (ac_global c))
           ((if sg_is_virtual (ac_global c) \<noteq> 0 then run_time else max run_time (ac_start_time c)) - tstart))
     | _ \<Rightarrow> 0)"

definition cost :: "acm_ctx \<Rightarrow> nat list \<Rightarrow> int" where
  "cost c ks =
    (case dropWhile (\<lambda>k. \<not> accepted c k) ks of
       [] \<Rightarrow> 0
     | k # _ \<Rightarrow> pb_acm_run_penalty (run_prob c k) * fails c ks
         + (if sg_ignore_success_time (ac_global c) = 0 then minutes c k else 0))"

definition calc_of :: "acm_ctx \<Rightarrow> nat list \<Rightarrow> int" where
  "calc_of c ks = (if solved c ks then 1 + fails c ks else - fails c ks)"

section \<open>One more run in a cell\<close>

lemma fails_ge [simp]: "0 \<le> fails c ks"
  by (simp add: fails_def)

lemma not_solved: "\<not> solved c ks \<Longrightarrow> takeWhile (\<lambda>k. \<not> accepted c k) ks = ks \<and> dropWhile (\<lambda>k. \<not> accepted c k) ks = []"
  by (auto simp: solved_def)

lemma cost_not_solved: "\<not> solved c ks \<Longrightarrow> cost c ks = 0"
  by (simp add: cost_def not_solved)

lemma solved_snoc_keep: "solved c ks \<Longrightarrow>
    solved c (ks @ [k]) \<and> fails c (ks @ [k]) = fails c ks \<and> cost c (ks @ [k]) = cost c ks"
proof -
  assume "solved c ks"
  then obtain x where x: "x \<in> set ks" "accepted c x" by (auto simp: solved_def)
  have t: "takeWhile (\<lambda>k. \<not> accepted c k) (ks @ [k]) = takeWhile (\<lambda>k. \<not> accepted c k) ks"
    using takeWhile_append1 [of x ks "\<lambda>k. \<not> accepted c k"] x by simp
  have d: "dropWhile (\<lambda>k. \<not> accepted c k) (ks @ [k]) = dropWhile (\<lambda>k. \<not> accepted c k) ks @ [k]"
    using dropWhile_append1 [of x ks "\<lambda>k. \<not> accepted c k"] x by simp
  have "dropWhile (\<lambda>k. \<not> accepted c k) ks \<noteq> []" using x by auto
  then show ?thesis using x by (auto simp: solved_def fails_def cost_def t d split: list.splits)
qed

lemma snoc_accepted: "\<not> solved c ks \<Longrightarrow> accepted c k \<Longrightarrow>
    solved c (ks @ [k]) \<and> fails c (ks @ [k]) = fails c ks \<and>
    cost c (ks @ [k]) = pb_acm_run_penalty (run_prob c k) * fails c ks
      + (if sg_ignore_success_time (ac_global c) = 0 then minutes c k else 0)"
proof -
  assume s: "\<not> solved c ks" and k: "accepted c k"
  have all: "\<forall>x \<in> set ks. \<not> accepted c x" using s by (auto simp: solved_def)
  note w = not_solved [OF s, THEN conjunct1] not_solved [OF s, THEN conjunct2]
  have t: "takeWhile (\<lambda>k. \<not> accepted c k) (ks @ [k]) = ks @ takeWhile (\<lambda>k. \<not> accepted c k) [k]"
    and d: "dropWhile (\<lambda>k. \<not> accepted c k) (ks @ [k]) = dropWhile (\<lambda>k. \<not> accepted c k) [k]"
    using all by (simp_all add: takeWhile_append2 dropWhile_append2)
  show ?thesis using k s by (auto simp: solved_def fails_def cost_def t d w)
qed

lemma snoc_other: "\<not> solved c ks \<Longrightarrow> \<not> accepted c k \<Longrightarrow>
    \<not> solved c (ks @ [k]) \<and> fails c (ks @ [k]) = fails c ks + (if rejected c k then 1 else 0) \<and>
    cost c (ks @ [k]) = 0 \<and> cost c ks = 0"
proof -
  assume s: "\<not> solved c ks" and k: "\<not> accepted c k"
  have all: "\<forall>x \<in> set ks. \<not> accepted c x" using s by (auto simp: solved_def)
  note w = not_solved [OF s, THEN conjunct1] not_solved [OF s, THEN conjunct2]
  have t: "takeWhile (\<lambda>k. \<not> accepted c k) (ks @ [k]) = ks @ takeWhile (\<lambda>k. \<not> accepted c k) [k]"
    and d: "dropWhile (\<lambda>k. \<not> accepted c k) (ks @ [k]) = dropWhile (\<lambda>k. \<not> accepted c k) [k]"
    using all by (simp_all add: takeWhile_append2 dropWhile_append2)
  show ?thesis using k s by (auto simp: solved_def fails_def cost_def t d w)
qed

section \<open>The scan\<close>

definition acm_inv :: "acm_ctx \<Rightarrow> nat \<Rightarrow> acm_table \<Rightarrow> bool" where
  "acm_inv c n a \<longleftrightarrow>
    (let T = length (ac_t_ind c); P = length (ac_p_ind c) in
     length (calc a) = T * row_sz P \<and> length (t_prob a) = T \<and> length (t_pen a) = T \<and>
     length (tot_att a) = P \<and>
     (\<forall>t < T. \<forall>p < P. calc a ! (t * row_sz P + p) = calc_of c (cell_runs c n t p)) \<and>
     (\<forall>t < T. t_prob a ! t = (\<Sum>p<P. if solved c (cell_runs c n t p) then 1 else 0)) \<and>
     (\<forall>t < T. t_pen a ! t = (\<Sum>p<P. cost c (cell_runs c n t p))))"

lemma row_sz_ge: "p \<le> row_sz p"
  by (simp add: row_sz_def double_upto_ge)

lemma cell_index:
  assumes "p < r" "q < r" "t * r + p = u * r + q"
  shows "t = u \<and> p = (q :: nat)"
proof -
  have "(t * r + p) div r = t" "(u * r + q) div r = u" using assms(1,2) by auto
  with assms show ?thesis by auto
qed

lemma cell_index_lt: "t < T \<Longrightarrow> p < r \<Longrightarrow> t * r + p < T * (r :: nat)"
proof -
  assume a: "t < T" "p < r"
  have "t * r + p < Suc t * r" using a(2) by simp
  also have "\<dots> \<le> T * r" using a(1) by (intro mult_le_mono1) simp
  finally show ?thesis .
qed

lemma cell_runs_Suc:
  "cell_runs c (Suc n) t p = cell_runs c n t p
     @ (if taken c n \<and> run_row c n = t \<and> run_col c n = p then [n] else [])"
  by (auto simp: cell_runs_def)

lemma taken_cell:
  assumes "taken c n" and "acm_step c n a = Some a'"
  shows "run_row c n < length (t_prob a)" "run_col c n < length (tot_att a)"
    "run_row c n * row_sz (length (ac_p_ind c)) + run_col c n < length (calc a)"
    "ac_probs c ! nat (re_prob_id (acm_run c n)) = Some (run_prob c n)"
proof -
  have cnt: "acm_counts c n (acm_run c n)" using assms(1) by (simp add: taken_def)
  then show prob: "ac_probs c ! nat (re_prob_id (acm_run c n)) = Some (run_prob c n)"
    by (auto simp: acm_counts_def run_prob_def split: option.splits)
  show "run_row c n < length (t_prob a)" "run_col c n < length (tot_att a)"
    "run_row c n * row_sz (length (ac_p_ind c)) + run_col c n < length (calc a)"
    using assms cnt prob
    by (auto simp: taken_def acm_step_def acm_run_def run_row_def run_col_def acm_count_def Let_def
        split: if_splits)
qed

lemma sum_change:
  fixes f g :: "nat \<Rightarrow> int"
  assumes "q < n" and "\<And>p. p \<noteq> q \<Longrightarrow> g p = f p"
  shows "(\<Sum>p<n. g p) = (\<Sum>p<n. f p) + (g q - f q)"
proof -
  have "(\<Sum>p<n. g p) = g q + (\<Sum>p\<in>{..<n} - {q}. g p)" using assms(1) by (simp add: sum.remove)
  also have "(\<Sum>p\<in>{..<n} - {q}. g p) = (\<Sum>p\<in>{..<n} - {q}. f p)" using assms(2) by (intro sum.cong) auto
  also have "g q + \<dots> = (\<Sum>p<n. f p) + (g q - f q)" using assms(1) by (simp add: sum.remove)
  finally show ?thesis .
qed

text \<open>Only the cell of the run changes.\<close>

lemma acm_count_cases:
  assumes "acm_count c k pe prob run_time tstart a = Some a'"
    and "tt = nat (ac_t_rev c ! nat (re_user_id pe))" and "pp = nat (ac_p_rev c ! nat (re_prob_id pe))"
    and "i = tt * row_sz (length (ac_p_ind c)) + pp"
  obtains
    (keep) "re_status pe = RUN_OK \<and> calc a ! i > 0
        \<or> re_status pe \<noteq> RUN_OK \<and> (\<not> acm_failed prob (re_status pe) \<or> calc a ! i > 0)"
      "calc a' = calc a" "t_prob a' = t_prob a" "t_pen a' = t_pen a" "length (tot_att a') = length (tot_att a)"
  | (fail) "re_status pe \<noteq> RUN_OK" "acm_failed prob (re_status pe)" "calc a ! i \<le> 0"
      "calc a' = (calc a)[i := calc a ! i - 1]" "t_prob a' = t_prob a" "t_pen a' = t_pen a"
      "length (tot_att a') = length (tot_att a)"
  | (accept) mins where "re_status pe = RUN_OK" "calc a ! i \<le> 0"
      "sec_to_min (sg_rounding_mode (ac_global c)) ((if sg_is_virtual (ac_global c) \<noteq> 0 then run_time
         else max run_time (ac_start_time c)) - tstart) = Some mins"
      "calc a' = (calc a)[i := 1 - calc a ! i]" "t_prob a' = (t_prob a)[tt := t_prob a ! tt + 1]"
      "t_pen a' = (t_pen a)[tt := t_pen a ! tt + pb_acm_run_penalty prob * - (calc a ! i)
              + (if sg_ignore_success_time (ac_global c) = 0 then mins else 0)]"
      "length (tot_att a') = length (tot_att a)"
proof -
  let ?r = "acm_accept c k prob tt pp i run_time tstart a"
  consider (ok) "re_status pe = RUN_OK" "?r = Some a'"
    | (bad) "re_status pe \<noteq> RUN_OK" "acm_failed prob (re_status pe)" "a' = acm_fail pp i a"
    | (other) "re_status pe \<noteq> RUN_OK" "\<not> acm_failed prob (re_status pe)" "calc a' = calc a"
        "t_prob a' = t_prob a" "t_pen a' = t_pen a" "length (tot_att a') = length (tot_att a)"
    using assms(1) unfolding acm_count_def Let_def assms(2-4) [symmetric]
    by (cases "acm_failed prob (re_status pe)") (auto split: if_splits)
  then show thesis
  proof cases
    case ok
    show thesis
    proof (cases "calc a ! i > 0")
      case True
      then have "a' = a" using ok by (simp add: acm_accept_def)
      then show thesis using ok True by (intro keep) auto
    next
      case False
      then obtain mins where "sec_to_min (sg_rounding_mode (ac_global c)) ((if sg_is_virtual (ac_global c) \<noteq> 0
          then run_time else max run_time (ac_start_time c)) - tstart) = Some mins"
        using ok by (auto simp: acm_accept_def Let_def split: option.splits)
      then show thesis
        using ok False by (intro accept [of mins]) (auto simp: acm_accept_def Let_def)
    qed
  next
    case bad
    then show thesis
      by (cases "calc a ! i > 0") (auto simp: acm_fail_def intro: keep fail)
  next
    case other
    then show thesis by (intro keep) auto
  qed
qed

lemma failed_not_ok: "acm_failed prob st \<Longrightarrow> st \<noteq> RUN_OK"
  by (auto simp: acm_failed_def run_is_failed_attempt_def is_failed_attempt_table_def c_bool_def)

lemma acm_inv_step:
  assumes step: "acm_step c n a = Some a'" and inv: "acm_inv c n a"
  shows "acm_inv c (Suc n) a'"
proof (cases "taken c n")
  case False
  then have "a' = a" using step
    by (auto simp: acm_step_def Let_def taken_def acm_run_def split: if_splits option.splits pick.splits prod.splits)
  moreover have "cell_runs c (Suc n) t p = cell_runs c n t p" for t p
    using False by (simp add: cell_runs_Suc)
  ultimately show ?thesis using inv by (simp add: acm_inv_def)
next
  case True
  let ?T = "length (ac_t_ind c)" and ?P = "length (ac_p_ind c)"
  let ?tt = "run_row c n" and ?pp = "run_col c n"
  let ?i = "?tt * row_sz ?P + ?pp"
  let ?ks = "cell_runs c n ?tt ?pp"
  obtain run_time tstart where time: "acm_time c (acm_run c n) = Some (Take (run_time, tstart))"
    and cnt: "acm_counts c n (acm_run c n)"
    using True by (auto simp: taken_def)
  have prob: "ac_probs c ! nat (re_prob_id (acm_run c n)) = Some (run_prob c n)"
    using taken_cell [OF True step] by simp
  have count: "acm_count c n (acm_run c n) (run_prob c n) run_time tstart a = Some a'"
    using step cnt time prob by (simp add: acm_step_def acm_run_def [symmetric])
  have I: "length (calc a) = ?T * row_sz ?P" "length (t_prob a) = ?T" "length (t_pen a) = ?T"
    "length (tot_att a) = ?P"
    "\<And>t p. t < ?T \<Longrightarrow> p < ?P \<Longrightarrow> calc a ! (t * row_sz ?P + p) = calc_of c (cell_runs c n t p)"
    "\<And>t. t < ?T \<Longrightarrow> t_prob a ! t = (\<Sum>p<?P. if solved c (cell_runs c n t p) then 1 else 0)"
    "\<And>t. t < ?T \<Longrightarrow> t_pen a ! t = (\<Sum>p<?P. cost c (cell_runs c n t p))"
    using inv by (auto simp: acm_inv_def Let_def)
  have lt: "?tt < ?T" "?pp < ?P" using taken_cell [OF True step] I(2,4) by simp_all
  have pp: "?pp < row_sz ?P" using lt(2) row_sz_ge [of ?P] by linarith
  have new: "cell_runs c (Suc n) t p = (if t = ?tt \<and> p = ?pp then ?ks @ [n] else cell_runs c n t p)" for t p
    using True by (auto simp: cell_runs_Suc)
  have calc_i: "calc a ! ?i = calc_of c ?ks" using I(5) [OF lt(1,2)] .
  have i_lt: "?i < length (calc a)" unfolding I(1) by (rule cell_index_lt [OF lt(1) pp])
  have pos: "calc_of c ?ks > 0 \<longleftrightarrow> solved c ?ks" using fails_ge [of c ?ks] by (auto simp: calc_of_def simp del: fails_ge)
  have upd: "(calc a)[?i := calc_of c (?ks @ [n])] ! (t * row_sz ?P + p) =
      calc_of c (cell_runs c (Suc n) t p)" if "t < ?T" "p < ?P" for t p
  proof (cases "t = ?tt \<and> p = ?pp")
    case True
    then show ?thesis using i_lt by (simp add: new)
  next
    case False
    have "p < row_sz ?P" using that(2) row_sz_ge [of ?P] by linarith
    then have "t * row_sz ?P + p \<noteq> ?i" using cell_index [OF _ pp] False by blast
    then show ?thesis using False I(5) [OF that] by (auto simp: new)
  qed
  have sums: "(\<Sum>p<?P. f (cell_runs c (Suc n) t p)) = (\<Sum>p<?P. f (cell_runs c n t p)) +
      (if t = ?tt then f (?ks @ [n]) - f ?ks else 0)" for f :: "nat list \<Rightarrow> int" and t
    using sum_change [OF lt(2), of "\<lambda>p. f (cell_runs c (Suc n) t p)" "\<lambda>p. f (cell_runs c n t p)"]
    by (cases "t = ?tt") (simp_all add: new)
  have min_eq: "minutes c n = m" if "sec_to_min (sg_rounding_mode (ac_global c))
      ((if sg_is_virtual (ac_global c) \<noteq> 0 then run_time else max run_time (ac_start_time c)) - tstart) = Some m"
    for m using that by (simp add: minutes_def time)
  have defs: "?tt = nat (ac_t_rev c ! nat (re_user_id (acm_run c n)))"
    "?pp = nat (ac_p_rev c ! nat (re_prob_id (acm_run c n)))"
    by (simp_all add: run_row_def run_col_def)
  have same: "acm_inv c (Suc n) a'"
    if c1: "calc a' = (calc a)[?i := calc_of c (?ks @ [n])]"
      and p1: "t_prob a' = (t_prob a)[?tt := t_prob a ! ?tt +
        ((if solved c (?ks @ [n]) then 1 else 0) - (if solved c ?ks then 1 else 0))]"
      and q1: "t_pen a' = (t_pen a)[?tt := t_pen a ! ?tt + (cost c (?ks @ [n]) - cost c ?ks)]"
      and l1: "length (tot_att a') = length (tot_att a)"
  proof -
    have "t_prob a' ! t = (\<Sum>p<?P. if solved c (cell_runs c (Suc n) t p) then 1 else 0)" if "t < ?T" for t
      using that I(2) I(6) [OF that] by (subst sums) (auto simp: p1)
    moreover have "t_pen a' ! t = (\<Sum>p<?P. cost c (cell_runs c (Suc n) t p))" if "t < ?T" for t
      using that I(3) I(7) [OF that] by (subst sums) (auto simp: q1)
    ultimately show ?thesis
      using upd I(1-4) by (simp add: acm_inv_def Let_def c1 p1 q1 l1)
  qed
  show ?thesis
  proof (rule acm_count_cases [OF count defs refl])
    assume k: "re_status (acm_run c n) = RUN_OK \<and> calc a ! ?i > 0
        \<or> re_status (acm_run c n) \<noteq> RUN_OK \<and> (\<not> acm_failed (run_prob c n) (re_status (acm_run c n)) \<or> calc a ! ?i > 0)"
      and e: "calc a' = calc a" "t_prob a' = t_prob a" "t_pen a' = t_pen a" "length (tot_att a') = length (tot_att a)"
    have all: "calc_of c (?ks @ [n]) = calc_of c ?ks \<and> solved c (?ks @ [n]) = solved c ?ks
        \<and> cost c (?ks @ [n]) = cost c ?ks"
    proof (cases "solved c ?ks")
      case True
      then show ?thesis using solved_snoc_keep [OF True, of n] by (simp add: calc_of_def)
    next
      case False
      then have "\<not> accepted c n" "\<not> rejected c n"
        using k calc_i pos by (auto simp: accepted_def rejected_def)
      then show ?thesis using snoc_other [OF False, of n] False by (simp add: calc_of_def)
    qed
    have "calc_of c (?ks @ [n]) = calc a ! ?i" using all calc_i by simp
    then show ?thesis using e all by (intro same) simp_all
  next
    assume k: "re_status (acm_run c n) \<noteq> RUN_OK" "acm_failed (run_prob c n) (re_status (acm_run c n))" "calc a ! ?i \<le> 0"
      and e: "calc a' = (calc a)[?i := calc a ! ?i - 1]" "t_prob a' = t_prob a" "t_pen a' = t_pen a"
      "length (tot_att a') = length (tot_att a)"
    have s: "\<not> solved c ?ks" "\<not> accepted c n" "rejected c n"
      using k calc_i pos by (auto simp: accepted_def rejected_def)
    have "calc_of c (?ks @ [n]) = calc a ! ?i - 1"
      using s snoc_other [OF s(1,2)] by (simp add: calc_i calc_of_def)
    then show ?thesis using e s(1) snoc_other [OF s(1,2)] by (intro same) simp_all
  next
    fix mins
    assume k: "re_status (acm_run c n) = RUN_OK" "calc a ! ?i \<le> 0"
      and m: "sec_to_min (sg_rounding_mode (ac_global c)) ((if sg_is_virtual (ac_global c) \<noteq> 0 then run_time
         else max run_time (ac_start_time c)) - tstart) = Some mins"
      and e: "calc a' = (calc a)[?i := 1 - calc a ! ?i]" "t_prob a' = (t_prob a)[?tt := t_prob a ! ?tt + 1]"
      "t_pen a' = (t_pen a)[?tt := t_pen a ! ?tt + pb_acm_run_penalty (run_prob c n) * - (calc a ! ?i)
              + (if sg_ignore_success_time (ac_global c) = 0 then mins else 0)]"
      "length (tot_att a') = length (tot_att a)"
    have s: "\<not> solved c ?ks" "accepted c n"
      using k calc_i pos by (auto simp: accepted_def)
    have "calc_of c (?ks @ [n]) = 1 - calc a ! ?i"
      using s snoc_accepted [OF s] by (simp add: calc_i calc_of_def)
    moreover have "calc a ! ?i = - fails c ?ks" using s(1) by (simp add: calc_i calc_of_def)
    ultimately show ?thesis using e s(1) snoc_accepted [OF s] min_eq [OF m] cost_not_solved [OF s(1)]
      by (intro same) (simp_all add: add.assoc)
  qed
qed

lemma acm_inv_empty: "acm_inv c 0 (acm_empty (length (ac_t_ind c)) (length (ac_p_ind c)))"
proof -
  have "t * row_sz P + p < T * row_sz P" if "t < T" "p < P" for t T p P
    using cell_index_lt [of t T p "row_sz P"] that row_sz_ge [of P] by simp
  then show ?thesis
    by (simp add: acm_inv_def acm_empty_def Let_def cell_runs_def calc_of_def solved_def fails_def cost_def)
qed

lemma acm_inv_fold:
  "fold_opt (acm_step c) [0..<n] (acm_empty (length (ac_t_ind c)) (length (ac_p_ind c))) = Some a
    \<Longrightarrow> acm_inv c n a"
proof (induction n arbitrary: a)
  case 0
  then show ?case using acm_inv_empty [of c] by (metis fold_opt.simps(1) option.inject upt_0)
next
  case (Suc n)
  then show ?case
    by (auto simp: fold_opt_append bind_eq_Some_conv split: Option.bind_splits intro: acm_inv_step)
qed

lemma acm_scan_inv: "acm_scan c = Some a \<Longrightarrow> acm_inv c (length (log (ac_log c))) a"
  unfolding acm_scan_def by (rule acm_inv_fold)

lemma do_write_standings_parts:
  assumes "do_write_standings g tdb probs s client_flag user_id cur_time keep_user keep_prob keep_run = Some (Some st)"
  shows "acm_scan (as_ctx st) = Some (as_table st)"
    "acm_sort (t_prob (as_table st)) (t_pen (as_table st)) = Some (as_sort st)"
    "as_places st = ties (acm_level (t_prob (as_table st)) (t_pen (as_table st))) 0 (as_sort st)"
  using assms
  by (auto simp: do_write_standings_def bind_eq_Some_conv split: option.splits)

section \<open>The totals\<close>

text \<open>A contest with one problem and two participants, the first of whom fails once.\<close>

definition small_problem :: problem where
  "small_problem =
    \<lparr>pb_short_name = ''A'', pb_stand_name = [], pb_stand_column = [], pb_hidden = 0,
     pb_start_date = 0, pb_stand_last_column = 0, pb_type = 0, pb_full_score = 100,
     pb_full_user_score = - 1, pb_variable_full_score = 0, pb_run_penalty = 1,
     pb_acm_run_penalty = 20, pb_disqualified_penalty = 1, pb_score_multiplier = 0,
     pb_score_bonus_val = [], pb_dp_infos = [], pb_ignore_compile_errors = 1,
     pb_ignore_penalty = 0, pb_ignore_unmarked = 0, pb_tests_to_accept = 1, pb_score_latest = 0,
     pb_score_latest_or_unmarked = 0, pb_stand_hide_time = 0, pb_stand_ignore_score = 0,
     pb_provide_ok = []\<rparr>"

definition small_global :: stand_global where
  "small_global =
    \<lparr>sg_score_system = 0, sg_is_virtual = 0, sg_rounding_mode = 0, sg_prune_empty_users = 0,
     sg_disable_user_database = 0, sg_ignore_success_time = 0, sg_stand_ignore_after = 0,
     sg_stand_sort_by_solved = 0, sg_stand_enable_penalty = 0, sg_score_n_best_problems = 0,
     sg_separate_user_score = 0\<rparr>"

definition small_run :: "int \<Rightarrow> int \<Rightarrow> int \<Rightarrow> run_entry" where
  "small_run uid status t =
     zero_entry\<lparr>re_user_id := uid, re_prob_id := 1, re_status := status, re_time := t\<rparr>"

definition small_log :: runlog where
  "small_log = run_init\<lparr>head := zero_header\<lparr>rh_start_time := 1000, rh_duration := 18000\<rparr>,
     runs := [small_run 1 RUN_WRONG_ANSWER_ERR 1060, small_run 1 RUN_OK 1120, small_run 2 RUN_OK 1180],
     run_u := 3\<rparr>"

definition small_teams :: teamdb where
  "small_teams = \<lparr>tdb_disabled = False, tdb_user_map_size = 3, tdb_u_contests = Some [None, Some 0, Some 0]\<rparr>"

definition small_standings :: "acm_standings option option" where
  "small_standings = do_write_standings small_global small_teams [None, Some small_problem] small_log
     0 0 5000 (\<lambda>_. True) (\<lambda>_. True) (\<lambda>_. True)"

lemmas small_defs = small_problem_def small_global_def small_run_def small_log_def small_teams_def
  zero_entry_def zero_header_def

lemma small_standings_eq:
  "\<exists>st. small_standings = Some (Some st) \<and> calc (as_table st) = [2, 1] \<and> t_prob (as_table st) = [1, 1]
    \<and> t_pen (as_table st) = [22, 3] \<and> as_sort st = [1, 0] \<and> length (ac_t_ind (as_ctx st)) = 2
    \<and> length (ac_p_ind (as_ctx st)) = 1"
proof -
  have "map_option (map_option (\<lambda>st. (calc (as_table st), t_prob (as_table st), t_pen (as_table st),
      as_sort st, length (ac_t_ind (as_ctx st)), length (ac_p_ind (as_ctx st))))) small_standings
    = Some (Some ([2, 1], [1, 1], [22, 3], [1, 0], 2, 1))"
    by code_simp
  then show ?thesis by auto
qed

lemma card_below_Suc: "card {p. p < Suc n \<and> P p} = card {p. p < n \<and> P p} + (if P n then 1 else 0)"
proof -
  have "{p. p < Suc n \<and> P p} = (if P n then insert n {p. p < n \<and> P p} else {p. p < n \<and> P p})"
    by (auto simp: less_Suc_eq)
  then show ?thesis by simp
qed

text \<open>
  C3: the table of ACM standings holds, for every participant, the number of solved problems and
  the sum of the penalties of the solved problems: the penalty of the problem for every failed
  attempt before the first accepted run, plus the minutes of that run; runs after it change
  nothing.  A cell of the table shows the failed attempts before the first success and whether
  the problem is solved.
\<close>

theorem acm_totals:
  assumes "do_write_standings g tdb probs s client_flag user_id cur_time keep_user keep_prob keep_run
      = Some (Some st)"
    and "c = as_ctx st" and "a = as_table st" and "cells = cell_runs c (length (log (ac_log c)))"
    and "t < length (ac_t_ind c)"
  shows "t_prob a ! t = int (card {p. p < length (ac_p_ind c) \<and> solved c (cells t p)}) \<and>
    t_pen a ! t = (\<Sum>p<length (ac_p_ind c). cost c (cells t p)) \<and>
    (\<forall>p < length (ac_p_ind c).
       \<exists>shown. acm_raw_cell a (t * row_sz (length (ac_p_ind c)) + p) =
         (fails c (cells t p), if solved c (cells t p) then 1 else 0, shown))"
proof -
  have inv: "acm_inv c (length (log (ac_log c))) a"
    using acm_scan_inv do_write_standings_parts(1) [OF assms(1)] assms(2,3) by simp
  have "(\<Sum>p<n. if P p then 1 else 0 :: int) = int (card {p. p < n \<and> P p})" for P and n :: nat
    by (induction n) (auto simp: card_below_Suc)
  then have sums: "t_prob a ! t = int (card {p. p < length (ac_p_ind c) \<and> solved c (cells t p)}) \<and>
    t_pen a ! t = (\<Sum>p<length (ac_p_ind c). cost c (cells t p))"
    using inv assms(4,5) by (simp add: acm_inv_def Let_def)
  have "calc a ! (t * row_sz (length (ac_p_ind c)) + p) = calc_of c (cells t p)" if "p < length (ac_p_ind c)" for p
    using inv assms(4,5) that by (simp add: acm_inv_def Let_def)
  then have "\<exists>shown. acm_raw_cell a (t * row_sz (length (ac_p_ind c)) + p) =
         (fails c (cells t p), if solved c (cells t p) then 1 else 0, shown)" if "p < length (ac_p_ind c)" for p
    using that fails_ge [of c "cells t p"] by (simp add: acm_raw_cell_def calc_of_def del: fails_ge)
  then show ?thesis using sums by blast
qed

theorem acm_totals_witness:
  "\<exists>st. small_standings = Some (Some st) \<and> t_pen (as_table st) ! 0 = 22 \<and>
     cost (as_ctx st) (cell_runs (as_ctx st) (length (log (ac_log (as_ctx st)))) 0 0) = 22"
proof -
  obtain st where st: "small_standings = Some (Some st)" "t_pen (as_table st) = [22, 3]"
    "length (ac_t_ind (as_ctx st)) = 2" "length (ac_p_ind (as_ctx st)) = 1"
    using small_standings_eq by blast
  then show ?thesis using acm_totals [OF st(1) [unfolded small_standings_def] refl refl refl, of 0] by auto
qed

section \<open>The places\<close>

text \<open>More problems is better; with as many problems, less penalty is.\<close>

definition acm_better :: "acm_table \<Rightarrow> nat \<Rightarrow> nat \<Rightarrow> bool" where
  "acm_better a t u \<longleftrightarrow> t_prob a ! t > t_prob a ! u
     \<or> t_prob a ! t = t_prob a ! u \<and> t_pen a ! t < t_pen a ! u"

lemma tally_nonneg: "tally ks cnt = Some c \<Longrightarrow> k \<in> set ks \<Longrightarrow> 0 \<le> k"
  by (induction ks arbitrary: cnt) (auto split: if_splits)

lemma counting_sort_nonneg: "counting_sort starts ks order = Some r \<Longrightarrow> k \<in> set ks \<Longrightarrow> 0 \<le> k"
  by (auto simp: counting_sort_def tally_nonneg split: option.splits)

lemma acm_sort_result:
  assumes "acm_sort probs pens = Some order" and "length probs = length pens"
  shows "mset order = mset [0..<length probs] \<and> sorted (map (\<lambda>t. (- (probs ! t), pens ! t)) order)"
proof (cases "probs = []")
  case True
  then show ?thesis using assms by (simp add: acm_sort_def)
next
  case False
  obtain mid where mid: "counting_sort starts_up pens [0..<length pens] = Some mid"
    and order: "counting_sort starts_down probs mid = Some order"
    using assms False by (auto simp: acm_sort_def bind_eq_Some_conv)
  have ge: "\<And>k. k \<in> set pens \<Longrightarrow> 0 \<le> k" "\<And>k. k \<in> set probs \<Longrightarrow> 0 \<le> k"
    using counting_sort_nonneg mid order by blast+
  have "pens \<noteq> []" using False assms(2) by auto
  then have m: "mid = sort_key (\<lambda>t. int (nat (pens ! t))) [0..<length pens]"
    using up.counting_sort_correct [of pens "[0..<length pens]"] ge(1) mid by (simp add: ascending_def)
  then have order_mid: "order = sort_key (\<lambda>t. - int (nat (probs ! t))) mid"
    using down.counting_sort_correct [of probs mid] ge(2) order False assms(2) by (simp add: descending_def)
  let ?k = "\<lambda>t. (- int (nat (probs ! t)), int (nat (pens ! t)))"
  have o: "order = sort_key ?k [0..<length pens]"
    unfolding order_mid m by (rule sort_key_lex)
  have "?k t = (- (probs ! t), pens ! t)" if "t \<in> set order" for t
    using that ge assms(2) unfolding o by (simp add: nth_mem)
  then have "map ?k order = map (\<lambda>t. (- (probs ! t), pens ! t)) order" by (rule map_cong [OF refl])
  moreover have "sorted (map ?k order)" unfolding o by (rule sorted_sort_key)
  ultimately have "sorted (map (\<lambda>t. (- (probs ! t), pens ! t)) order)" by metis
  moreover have "mset order = mset [0..<length probs]" unfolding o assms(2) by simp
  ultimately show ?thesis by blast
qed

text \<open>
  C4: the ACM standings list every participant once, best first, and participant \<open>t\<close> in row
  \<open>i\<close> gets the range of places from the number of better participants to the number of those
  who are not worse.
\<close>

theorem acm_places:
  assumes "do_write_standings g tdb probs s client_flag user_id cur_time keep_user keep_prob keep_run
      = Some (Some st)"
    and "a = as_table st" and "n = length (ac_t_ind (as_ctx st))"
  shows "mset (as_sort st) = mset [0..<n] \<and>
    (\<forall>i < n. \<forall>j < i. \<not> acm_better a (as_sort st ! i) (as_sort st ! j)) \<and>
    (\<forall>i < n. as_places st ! i =
       (card {u. u < n \<and> acm_better a u (as_sort st ! i)},
        card {u. u < n \<and> \<not> acm_better a (as_sort st ! i) u} - 1))"
proof -
  note parts = do_write_standings_parts [OF assms(1), folded assms(2)]
  have len: "length (t_prob a) = n" "length (t_pen a) = n"
    using acm_scan_inv [OF parts(1)] assms(3) by (simp_all add: acm_inv_def Let_def)
  let ?f = "\<lambda>t. (- (t_prob a ! t), t_pen a ! t)"
  have perm: "mset (as_sort st) = mset [0..<n]" and sorted: "sorted (map ?f (as_sort st))"
    using acm_sort_result [OF parts(2)] len by simp_all
  have "acm_better a t u \<longleftrightarrow> ?f t < ?f u" "acm_level (t_prob a) (t_pen a) t u \<longleftrightarrow> ?f t = ?f u" for t u
    by (auto simp: acm_better_def less_prod_def acm_level_def)
  then show ?thesis
    using perm table_places [OF _ sorted perm, of "acm_level (t_prob a) (t_pen a)" "acm_better a"]
    unfolding parts(3) by simp
qed

theorem acm_places_witness:
  "\<exists>st. small_standings = Some (Some st) \<and> as_sort st = [1, 0] \<and>
    \<not> acm_better (as_table st) (as_sort st ! 1) (as_sort st ! 0)"
proof -
  obtain st where st: "small_standings = Some (Some st)" "as_sort st = [1, 0]" "length (ac_t_ind (as_ctx st)) = 2"
    using small_standings_eq by blast
  have "\<forall>i < 2. \<forall>j < i. \<not> acm_better (as_table st) (as_sort st ! i) (as_sort st ! j)"
    using acm_places [OF st(1) [unfolded small_standings_def] refl refl] st(3) by metis
  then have "\<not> acm_better (as_table st) (as_sort st ! 1) (as_sort st ! 0)"
    by (metis one_less_numeral_iff semiring_norm(76) zero_less_one)
  then show ?thesis using st by blast
qed

section \<open>The column of the last success\<close>

text \<open>A problem that gets a column of its own.\<close>

definition own_column :: "int \<Rightarrow> problem option list \<Rightarrow> (nat \<Rightarrow> bool) \<Rightarrow> nat \<Rightarrow> bool" where
  "own_column cur_time probs keep i \<longleftrightarrow>
    (\<exists>prob. probs ! i = Some prob \<and> pb_hidden prob \<le> 0 \<and> pb_stand_column prob = []
       \<and> \<not> (pb_start_date prob > 0 \<and> cur_time < pb_start_date prob) \<and> keep i)"

definition last_column :: "problem option list \<Rightarrow> nat \<Rightarrow> bool" where
  "last_column probs i \<longleftrightarrow> (case probs ! i of None \<Rightarrow> False | Some p \<Rightarrow> pb_stand_last_column p > 0)"

lemma add_column_null:
  "add_column cur_time probs keep i (r, ind, None) =
    (if own_column cur_time probs keep i
     then (if last_column probs i then None else Some (r[i := int (length ind)], ind @ [i], None))
     else Some (r, ind, None))"
  by (auto simp: add_column_def own_column_def last_column_def Let_def split: option.splits)

lemma columns_null:
  "fold_opt (add_column cur_time probs keep) is (r, ind, None) = None \<longleftrightarrow>
    (\<exists>i \<in> set is. own_column cur_time probs keep i \<and> last_column probs i)"
  by (induction "is" arbitrary: r ind) (auto simp: add_column_null)

text \<open>
  The tables that pass a null pointer for the last column (ACM and Moscow) abort, by reading
  through it, exactly when some problem with a column of its own has \<open>stand_last_column\<close> set.
\<close>

lemma null_last_column:
  "get_problem_map cur_time probs keep None = None \<longleftrightarrow>
    (\<exists>i. 1 \<le> i \<and> i < length probs \<and> own_column cur_time probs keep i \<and> last_column probs i)"
  unfolding get_problem_map_def columns_null by auto

end
