(* ===== verification/Stand_Kirov.thy ===== *)
theory Stand_Kirov
  imports Acm_Laws C_Text
begin

text \<open>
  The Kirov and olympiad standings (\<open>do_write_kirov_standings\<close> of \<open>html.c\<close>) and the score of a run
  (\<open>calc_kirov_score\<close>).  The tables with an entry per participant and problem are one list of
  cells, a cell being the entries of all of them at an index.
\<close>

section \<open>The score of a run\<close>

definition SCORE_OLYMPIAD :: int where [simp]: "SCORE_OLYMPIAD = 2"

text \<open>The status and the score a run starts from.\<close>

definition kirov_init_score ::
  "int \<Rightarrow> int \<Rightarrow> run_entry \<Rightarrow> problem \<Rightarrow> int \<times> int" where
  "kirov_init_score separate_user_score user_mode pe pr =
    (let reviewed = (\<lambda>s. if s = RUN_PENDING_REVIEW then RUN_OK else s) in
     if separate_user_score > 0 \<and> user_mode > 0 \<and> re_is_saved pe \<noteq> 0 then
       (let status = reviewed (re_saved_status pe) in
        (status,
         if status = RUN_OK \<and> pb_variable_full_score pr = 0
         then (if pb_full_user_score pr \<ge> 0 then pb_full_user_score pr else pb_full_user_score pr)
         else re_saved_score pe))
     else
       (let status = reviewed (re_status pe) in
        (status,
         if status = RUN_OK \<and> pb_variable_full_score pr = 0 then pb_full_score pr
         else re_score pe)))"

text \<open>
  The penalty of the period the run falls into; \<open>base\<close> is where the period starts, 0 when that is
  not known.
\<close>

definition date_penalty :: "int \<Rightarrow> problem \<Rightarrow> int \<Rightarrow> int" where
  "date_penalty start_time pr t =
    (let infos = pb_dp_infos pr;
         dpi = length (takeWhile (\<lambda>p. \<not> t < pi_date p) infos);
         base0 = (if infos = [] then 0 else if pb_start_date pr > 0 then pb_start_date pr
                  else if start_time > 0 then start_time else 0);
         base = (if dpi < length infos \<and> dpi > 0 then pi_date (infos ! (dpi - 1)) else base0) in
     if dpi < length infos \<and> base > 0 then
       pi_penalty (infos ! dpi)
         + (if pi_scale (infos ! dpi) > 0
            then pi_decay (infos ! dpi) * (max (t - base) 0 sdiv pi_scale (infos ! dpi)) else 0)
     else 0)"

definition score_bonus :: "problem \<Rightarrow> int \<Rightarrow> int \<Rightarrow> int" where
  "score_bonus pr status prev_successes =
    (if status = RUN_OK \<and> prev_successes \<ge> 0
        \<and> prev_successes < int (length (pb_score_bonus_val pr))
     then pb_score_bonus_val pr ! nat prev_successes else 0)"

definition score_mult :: "problem \<Rightarrow> int" where
  "score_mult pr = (if pb_score_multiplier pr > 1 then pb_score_multiplier pr else 1)"

text \<open>The score and the date penalty; \<open>None\<close> is the failed ASSERT.\<close>

definition calc_kirov_score ::
  "int \<Rightarrow> int \<Rightarrow> int \<Rightarrow> run_entry \<Rightarrow> problem \<Rightarrow> int \<Rightarrow> int \<Rightarrow> int \<Rightarrow> (int \<times> int) option" where
  "calc_kirov_score start_time separate_user_score user_mode pe pr attempts disq_attempts prev_successes =
    (if attempts < 0 then None
     else
       case kirov_init_score separate_user_score user_mode pe pr of
         (status, init_score) \<Rightarrow>
           let dp = date_penalty start_time pr (re_time pe);
               score = init_score * score_mult pr - attempts * pb_run_penalty pr + dp
                 + re_score_adj pe - disq_attempts * pb_disqualified_penalty pr
                 + score_bonus pr status prev_successes in
           Some (if score < 0 then 0 else score, dp))"

section \<open>A cell of the table\<close>

record kirov_cell =
  prob_score :: int
  att_num :: int
  disq_num :: int
  full_sol :: int
  sol_time :: int
  sol_att :: int
  trans_num :: int
  k_pr_flag :: int
  k_penalty :: int
  cf_num :: int
  marked_flag :: int

definition empty_cell :: kirov_cell where
  "empty_cell = \<lparr>prob_score = 0, att_num = 0, disq_num = 0, full_sol = 0, sol_time = 0, sol_att = 0,
     trans_num = 0, k_pr_flag = 0, k_penalty = 0, cf_num = 0, marked_flag = 0\<rparr>"

definition inc_att :: "kirov_cell \<Rightarrow> kirov_cell" where
  "inc_att x = x\<lparr>att_num := att_num x + 1\<rparr>"

definition inc_trans :: "kirov_cell \<Rightarrow> kirov_cell" where
  "inc_trans x = x\<lparr>trans_num := trans_num x + 1\<rparr>"

definition inc_disq :: "kirov_cell \<Rightarrow> kirov_cell" where
  "inc_disq x = x\<lparr>disq_num := disq_num x + 1\<rparr>"

definition inc_cf :: "kirov_cell \<Rightarrow> kirov_cell" where
  "inc_cf x = x\<lparr>cf_num := cf_num x + 1\<rparr>"

definition inc_sol_att :: "kirov_cell \<Rightarrow> kirov_cell" where
  "inc_sol_att x = x\<lparr>sol_att := sol_att x + 1\<rparr>"

text \<open>\<open>if (!full_sol[up_ind]) sol_att[up_ind]++\<close>\<close>

definition inc_unsolved :: "kirov_cell \<Rightarrow> kirov_cell" where
  "inc_unsolved x = (if full_sol x = 0 then inc_sol_att x else x)"

definition set_score :: "int \<Rightarrow> kirov_cell \<Rightarrow> kirov_cell" where
  "set_score score x = x\<lparr>prob_score := score\<rparr>"

text \<open>The statuses the olympiad variants treat as a wrong answer.\<close>

definition oly_failed :: "int \<Rightarrow> bool" where
  "oly_failed status \<longleftrightarrow> status \<in> {RUN_COMPILE_ERR, RUN_TIME_LIMIT_ERR, RUN_WALL_TIME_LIMIT_ERR,
     RUN_RUN_TIME_ERR, RUN_WRONG_ANSWER_ERR, RUN_PRESENTATION_ERR, RUN_MEM_LIMIT_ERR,
     RUN_SECURITY_ERR, RUN_STYLE_ERR, RUN_REJECTED}"

definition partial_status :: "problem \<Rightarrow> int \<Rightarrow> int" where
  "partial_status prob status =
    (if status = RUN_WRONG_ANSWER_ERR \<and> pb_type prob \<noteq> 0 then RUN_PARTIAL else status)"

text \<open>The accepting round of an olympiad.\<close>

definition oly_accepting :: "problem \<Rightarrow> int \<Rightarrow> int \<Rightarrow> int \<Rightarrow> kirov_cell \<Rightarrow> kirov_cell" where
  "oly_accepting prob run_status run_score0 run_tests0 x =
    (let run_score = max run_score0 0; run_tests = max run_tests0 0;
         status = partial_status prob run_status;
         tests = min run_tests (pb_tests_to_accept prob) in
     if status = RUN_OK \<or> status = RUN_ACCEPTED \<or> status = RUN_PENDING_REVIEW then
       (let y = inc_att ((inc_unsolved x)\<lparr>full_sol := 1, prob_score := pb_tests_to_accept prob\<rparr>) in
        if status = RUN_PENDING_REVIEW then y\<lparr>k_pr_flag := 1\<rparr> else y)
     else if status = RUN_PARTIAL then
       (let y = inc_unsolved x in
        inc_att ((if tests > prob_score y then set_score tests y else y)\<lparr>full_sol := 1\<rparr>))
     else if oly_failed status then
       (let y = inc_unsolved x in
        inc_att (if tests > prob_score y then set_score run_score y else y))
     else if status = RUN_DISQUALIFIED then inc_disq (inc_unsolved x)
     else if status = RUN_PENDING then inc_trans (inc_att (inc_unsolved x))
     else if status = RUN_COMPILING \<or> status = RUN_RUNNING then inc_trans x
     else if status = RUN_CHECK_FAILED then inc_cf x
     else x)"

text \<open>The minutes that count as a penalty in the judging round.\<close>

definition oly_penalty ::
  "stand_global \<Rightarrow> problem \<Rightarrow> int \<Rightarrow> kirov_cell \<Rightarrow> kirov_cell option" where
  "oly_penalty g prob secs x =
    (if sg_stand_enable_penalty g \<noteq> 0 \<and> pb_ignore_penalty prob \<le> 0
     then map_option (\<lambda>m. x\<lparr>k_penalty := k_penalty x + m\<rparr>) (sec_to_min (sg_rounding_mode g) secs)
     else Some x)"

definition oly_judging ::
  "stand_global \<Rightarrow> problem \<Rightarrow> int \<Rightarrow> run_entry \<Rightarrow> int \<Rightarrow> int \<Rightarrow> kirov_cell \<Rightarrow> kirov_cell option" where
  "oly_judging g prob start_time pe run_status run_score0 x =
    (let run_score = max (run_score0 + re_score_adj pe) 0; status = partial_status prob run_status in
     if status = RUN_OK then
       oly_penalty g prob (re_time pe - start_time)
         (inc_att (x\<lparr>full_sol := 1, trans_num := 0, prob_score := run_score\<rparr>))
     else if status = RUN_PARTIAL then
       oly_penalty g prob (re_time pe - start_time)
         (inc_att (x\<lparr>prob_score := run_score, full_sol := 0, trans_num := 0\<rparr>))
     else if status = RUN_ACCEPTED then Some (inc_trans (inc_att x))
     else if status = RUN_PENDING_REVIEW then Some ((inc_trans (inc_att x))\<lparr>k_pr_flag := 1\<rparr>)
     else if status = RUN_PENDING then Some (inc_trans (inc_att x))
     else if oly_failed status then Some (inc_att x)
     else if status = RUN_DISQUALIFIED then Some (inc_disq x)
     else if status = RUN_COMPILING \<or> status = RUN_RUNNING then Some (inc_trans x)
     else if status = RUN_CHECK_FAILED then Some (inc_cf x)
     else Some x)"

section \<open>The scan of the log\<close>

record kirov_ctx =
  kc_global :: stand_global
  kc_probs :: "problem option list"
  kc_log :: runlog
  kc_t_rev :: "int list"
  kc_t_ind :: "nat list"
  kc_p_rev :: "int list"
  kc_p_ind :: "nat list"
  kc_start_time :: int
  kc_stop_time :: int
  kc_cur_dur :: int
  kc_client_flag :: int
  kc_user_id :: int
  kc_user_mode :: int
  kc_accepting :: bool
  kc_separate :: int
  kc_keep :: "nat \<Rightarrow> bool"

record kirov_table =
  cells :: "kirov_cell list"
  k_succ_att :: "int list"
  k_tot_att :: "int list"
  k_last_submit_run :: int
  k_last_success_run :: int
  total_trans :: int
  total_prs :: int

definition kirov_empty :: "nat \<Rightarrow> nat \<Rightarrow> kirov_table" where
  "kirov_empty t_tot p_tot =
    \<lparr>cells = replicate (t_tot * row_sz p_tot) empty_cell, k_succ_att = replicate p_tot 0,
     k_tot_att = replicate p_tot 0, k_last_submit_run = - 1, k_last_success_run = - 1,
     total_trans = 0, total_prs = 0\<rparr>"

definition kirov_counts :: "kirov_ctx \<Rightarrow> nat \<Rightarrow> run_entry \<Rightarrow> bool" where
  "kirov_counts c k pe \<longleftrightarrow>
     \<not> (re_status pe = RUN_VIRTUAL_START \<or> re_status pe = RUN_VIRTUAL_STOP
        \<or> re_status pe = RUN_EMPTY
        \<or> re_user_id pe \<le> 0 \<or> re_user_id pe \<ge> int (length (kc_t_rev c))
        \<or> re_prob_id pe \<le> 0 \<or> re_prob_id pe > int (length (kc_probs c)) - 1
        \<or> re_is_hidden pe \<noteq> 0
        \<or> \<not> kc_keep c k
        \<or> (case kc_probs c ! nat (re_prob_id pe) of None \<Rightarrow> True | Some p \<Rightarrow> pb_hidden p \<noteq> 0)
        \<or> kc_t_rev c ! nat (re_user_id pe) < 0
        \<or> kc_p_rev c ! nat (re_prob_id pe) < 0)"

text \<open>Runs that are not to be seen yet, in the table of a contestant.\<close>

definition kirov_in_time :: "kirov_ctx \<Rightarrow> run_entry \<Rightarrow> bool" where
  "kirov_in_time c pe \<longleftrightarrow>
    (if kc_client_flag c = 0 \<or> kc_user_id c > 0 then
       (let t1 = max (re_time pe) (kc_start_time c);
            run_time = (if kc_stop_time c \<noteq> 0 \<and> t1 > kc_stop_time c then kc_stop_time c else t1) in
        \<not> run_time - kc_start_time c > kc_cur_dur c
        \<and> \<not> (sg_stand_ignore_after (kc_global c) > 0
              \<and> re_time pe \<ge> sg_stand_ignore_after (kc_global c)))
     else True)"

text \<open>The status, the score and the number of tests the table uses.\<close>

definition kirov_view :: "kirov_ctx \<Rightarrow> run_entry \<Rightarrow> problem \<Rightarrow> int \<times> int \<times> int" where
  "kirov_view c pe prob =
    (if kc_separate c > 0 \<and> kc_user_mode c \<noteq> 0 \<and> re_is_saved pe \<noteq> 0 then
       (re_saved_status pe,
        (if re_saved_status pe = RUN_OK \<and> pb_variable_full_score prob = 0
         then (if pb_full_user_score prob \<ge> 0 then pb_full_user_score prob else pb_full_score prob)
         else re_saved_score pe),
        re_saved_test pe)
     else
       (re_status pe,
        (if re_status pe = RUN_OK \<and> pb_variable_full_score prob = 0 then pb_full_score prob
         else re_score pe),
        if re_passed_mode pe > 0 then re_test pe else re_test pe - 1))"

definition update_cell :: "nat \<Rightarrow> kirov_cell \<Rightarrow> kirov_table \<Rightarrow> kirov_table" where
  "update_cell i x tb = tb\<lparr>cells := (cells tb)[i := x]\<rparr>"

definition inc_succ :: "nat \<Rightarrow> kirov_table \<Rightarrow> kirov_table" where
  "inc_succ p tb = tb\<lparr>k_succ_att := (k_succ_att tb)[p := k_succ_att tb ! p + 1]\<rparr>"

definition inc_tot :: "nat \<Rightarrow> kirov_table \<Rightarrow> kirov_table" where
  "inc_tot p tb = tb\<lparr>k_tot_att := (k_tot_att tb)[p := k_tot_att tb ! p + 1]\<rparr>"

definition submit_run :: "nat \<Rightarrow> kirov_table \<Rightarrow> kirov_table" where
  "submit_run k tb = tb\<lparr>k_last_submit_run := int k\<rparr>"

definition success_run :: "nat \<Rightarrow> kirov_table \<Rightarrow> kirov_table" where
  "success_run k tb = tb\<lparr>k_last_submit_run := int k, k_last_success_run := int k\<rparr>"

text \<open>The time of the solution, unless it is hidden.\<close>

definition set_time :: "problem \<Rightarrow> int \<Rightarrow> kirov_cell \<Rightarrow> kirov_cell" where
  "set_time prob t x = (if pb_stand_hide_time prob = 0 then x\<lparr>sol_time := t\<rparr> else x)"

definition kirov_score ::
  "kirov_ctx \<Rightarrow> run_entry \<Rightarrow> problem \<Rightarrow> kirov_cell \<Rightarrow> int \<Rightarrow> int option" where
  "kirov_score c pe prob x prev_successes =
     map_option fst (calc_kirov_score (kc_start_time c) (kc_separate c) (kc_user_mode c) pe prob
       (att_num x) (disq_num x) prev_successes)"

definition prev_succ :: "kirov_cell \<Rightarrow> int \<Rightarrow> int" where
  "prev_succ x succ = (if full_sol x \<noteq> 0 then RUN_TOO_MANY else succ)"

text \<open>The attempts without a score that all variants treat alike.\<close>

definition kirov_unscored ::
  "problem \<Rightarrow> nat \<Rightarrow> int \<Rightarrow> nat \<Rightarrow> nat \<Rightarrow> kirov_table \<Rightarrow> kirov_table" where
  "kirov_unscored prob k status i p tb =
    (let x = cells tb ! i in
     if (status = RUN_COMPILE_ERR \<or> status = RUN_STYLE_ERR \<or> status = RUN_REJECTED)
        \<and> pb_ignore_compile_errors prob = 0
     then submit_run k ((if full_sol x = 0 then inc_tot p else id)
            (update_cell i (inc_att (inc_unsolved x)) tb))
     else if status = RUN_DISQUALIFIED then update_cell i (inc_disq (inc_unsolved x)) tb
     else if status = RUN_PENDING_REVIEW
     then (update_cell i (x\<lparr>k_pr_flag := 1\<rparr>) tb)\<lparr>total_prs := total_prs tb + 1\<rparr>
     else if status = RUN_PENDING \<or> status = RUN_ACCEPTED \<or> status = RUN_COMPILING
             \<or> status = RUN_RUNNING
     then (update_cell i (inc_trans x) tb)\<lparr>total_trans := total_trans tb + 1\<rparr>
     else if status = RUN_CHECK_FAILED then update_cell i (inc_cf x) tb
     else tb)"

text \<open>
  \<open>score_latest_or_unmarked\<close>: the latest marked run, or the best one when none is marked.
\<close>

definition marked_or_best :: "problem \<Rightarrow> run_entry \<Rightarrow> int \<Rightarrow> kirov_cell \<Rightarrow> kirov_cell" where
  "marked_or_best prob pe score x =
    (if re_is_marked pe \<noteq> 0 then set_time prob (re_time pe) (x\<lparr>marked_flag := 1, prob_score := score\<rparr>)
     else if marked_flag x \<noteq> 0 then x
     else if score > prob_score x then set_time prob (re_time pe) (set_score score x)
     else x)"

definition kirov_latest_or_unmarked ::
  "kirov_ctx \<Rightarrow> nat \<Rightarrow> run_entry \<Rightarrow> problem \<Rightarrow> int \<Rightarrow> nat \<Rightarrow> nat \<Rightarrow> kirov_table \<Rightarrow> kirov_table option" where
  "kirov_latest_or_unmarked c k pe prob status i p tb =
    (let x = cells tb ! i in
     if status = RUN_OK then
       (case kirov_score c pe prob x (prev_succ x (k_succ_att tb ! p)) of
          None \<Rightarrow> None
        | Some score \<Rightarrow>
            Some (success_run k (inc_tot p (inc_succ p (update_cell i
              ((inc_att (inc_sol_att (marked_or_best prob pe score x)))\<lparr>full_sol := 1\<rparr>) tb)))))
     else if status = RUN_PARTIAL \<or> status = RUN_WRONG_ANSWER_ERR \<and> pb_type prob \<noteq> 0 then
       (case kirov_score c pe prob x RUN_TOO_MANY of
          None \<Rightarrow> None
        | Some score \<Rightarrow>
            Some (submit_run k ((if full_sol x = 0 then inc_tot p else id) (update_cell i
              ((inc_att (inc_unsolved (marked_or_best prob pe score x)))\<lparr>full_sol := 0\<rparr>) tb))))
     else Some (kirov_unscored prob k status i p tb))"

text \<open>A better score, or the latest one.\<close>

definition latest_or_best :: "problem \<Rightarrow> int \<Rightarrow> kirov_cell \<Rightarrow> bool" where
  "latest_or_best prob score x \<longleftrightarrow> pb_score_latest prob > 0 \<or> score > prob_score x"

text \<open>A full solution with its score: the common part of a success and of a provided success.\<close>

definition kirov_success ::
  "problem \<Rightarrow> run_entry \<Rightarrow> int \<Rightarrow> kirov_cell \<Rightarrow> kirov_cell" where
  "kirov_success prob pe score x0 =
    (let x1 = inc_unsolved (x0\<lparr>marked_flag := re_is_marked pe\<rparr>);
         x2 = (if latest_or_best prob score x1 then set_time prob (re_time pe) (set_score score x1)
               else x1);
         x3 = (if sol_time x2 = 0 then set_time prob (re_time pe) x2 else x2) in
     (inc_att x3)\<lparr>full_sol := 1\<rparr>)"

text \<open>The problems in \<open>provide_ok\<close> count as solved together with this one.\<close>

definition find_column :: "kirov_ctx \<Rightarrow> string \<Rightarrow> nat option" where
  "find_column c name =
     List.find (\<lambda>j. case kc_probs c ! (kc_p_ind c ! j) of None \<Rightarrow> False
                  | Some q \<Rightarrow> name = pb_short_name q) [0..<length (kc_p_ind c)]"

definition provide_one ::
  "kirov_ctx \<Rightarrow> run_entry \<Rightarrow> nat \<Rightarrow> string \<Rightarrow> kirov_table \<Rightarrow> kirov_table" where
  "provide_one c pe tt name tb =
    (case find_column c name of
       None \<Rightarrow> tb
     | Some j \<Rightarrow>
         (case kc_probs c ! (kc_p_ind c ! j) of
            None \<Rightarrow> tb
          | Some dst \<Rightarrow>
              let i = tt * row_sz (length (kc_p_ind c)) + j; x = cells tb ! i in
              (if full_sol x = 0 then (\<lambda>tb. inc_tot j (inc_succ j tb)) else id)
                (update_cell i (kirov_success dst pe (pb_full_score dst) x) tb)))"

definition kirov_plain ::
  "kirov_ctx \<Rightarrow> nat \<Rightarrow> run_entry \<Rightarrow> problem \<Rightarrow> int \<Rightarrow> nat \<Rightarrow> nat \<Rightarrow> nat \<Rightarrow> kirov_table
    \<Rightarrow> kirov_table option" where
  "kirov_plain c k pe prob status tt i p tb =
    (let x = cells tb ! i;
         considered = (marked_flag x = 0 \<or> pb_ignore_unmarked prob \<le> 0 \<or> re_is_marked pe \<noteq> 0) in
     if status = RUN_OK then
       (if \<not> considered then Some tb
        else
          case kirov_score c pe prob x (prev_succ x (k_succ_att tb ! p)) of
            None \<Rightarrow> None
          | Some score \<Rightarrow>
              Some (fold (provide_one c pe tt) (pb_provide_ok prob) (success_run k
                ((if full_sol x = 0 then (\<lambda>tb. inc_tot p (inc_succ p tb)) else id)
                  (update_cell i (kirov_success prob pe score x) tb)))))
     else if status = RUN_PARTIAL then
       (if \<not> considered then Some tb
        else
          case kirov_score c pe prob x RUN_TOO_MANY of
            None \<Rightarrow> None
          | Some score \<Rightarrow>
              let x1 = inc_unsolved (x\<lparr>marked_flag := re_is_marked pe\<rparr>);
                  x2 = (if latest_or_best prob score x1 then set_score score x1 else x1);
                  x3 = inc_att (if pb_score_latest prob > 0 then x2\<lparr>full_sol := 0\<rparr> else x2) in
              Some (submit_run k ((if full_sol x3 = 0 then inc_tot p else id) (update_cell i x3 tb))))
     else if status = RUN_WRONG_ANSWER_ERR \<and> pb_type prob \<noteq> 0 then
       (case kirov_score c pe prob x RUN_TOO_MANY of
          None \<Rightarrow> None
        | Some score \<Rightarrow>
            let x1 = inc_unsolved x;
                x2 = inc_att (if latest_or_best prob score x1 then set_score score x1 else x1) in
            Some (submit_run k ((if full_sol x2 = 0 then inc_tot p else id) (update_cell i x2 tb))))
     else Some (kirov_unscored prob k status i p tb))"

definition kirov_count ::
  "kirov_ctx \<Rightarrow> nat \<Rightarrow> run_entry \<Rightarrow> problem \<Rightarrow> kirov_table \<Rightarrow> kirov_table option" where
  "kirov_count c k pe prob tb =
    (let tt = nat (kc_t_rev c ! nat (re_user_id pe)); p = nat (kc_p_rev c ! nat (re_prob_id pe));
         i = tt * row_sz (length (kc_p_ind c)) + p in
     if i \<ge> length (cells tb) \<or> p \<ge> length (k_tot_att tb) then None
     else
       case kirov_view c pe prob of
         (status, score, tests) \<Rightarrow>
           if sg_score_system (kc_global c) = SCORE_OLYMPIAD \<and> kc_accepting c then
             Some (update_cell i (oly_accepting prob status score tests (cells tb ! i)) tb)
           else if sg_score_system (kc_global c) = SCORE_OLYMPIAD then
             map_option (\<lambda>x. update_cell i x tb)
               (oly_judging (kc_global c) prob (kc_start_time c) pe status score (cells tb ! i))
           else if pb_score_latest_or_unmarked prob > 0 then
             kirov_latest_or_unmarked c k pe prob status i p tb
           else kirov_plain c k pe prob status tt i p tb)"

definition kirov_step :: "kirov_ctx \<Rightarrow> nat \<Rightarrow> kirov_table \<Rightarrow> kirov_table option" where
  "kirov_step c k tb =
    (let pe = log (kc_log c) ! k in
     if kirov_counts c k pe \<and> kirov_in_time c pe then
       (case kc_probs c ! nat (re_prob_id pe) of
          None \<Rightarrow> None
        | Some prob \<Rightarrow> kirov_count c k pe prob tb)
     else Some tb)"

definition kirov_scan :: "kirov_ctx \<Rightarrow> kirov_table option" where
  "kirov_scan c =
     fold_opt (kirov_step c) [0..<length (log (kc_log c))]
       (kirov_empty (length (kc_t_ind c)) (length (kc_p_ind c)))"

section \<open>The totals\<close>

text \<open>The score, the number of full solutions and the penalty of a participant.\<close>

type_synonym kirov_sums = "int \<times> int \<times> int"

definition add_cell :: "kirov_cell \<Rightarrow> kirov_sums \<Rightarrow> kirov_sums" where
  "add_cell x m = (case m of (score, full, pen) \<Rightarrow>
     (score + prob_score x, full + full_sol x, pen + k_penalty x))"

text \<open>The column with the best score that has not been used yet.\<close>

definition best_unused :: "kirov_cell list \<Rightarrow> bool list \<Rightarrow> nat option" where
  "best_unused xs marks =
     fst (fold (\<lambda>j (ind, mx). if \<not> marks ! j \<and> prob_score (xs ! j) > 0
                               \<and> (ind = None \<or> prob_score (xs ! j) > mx)
                            then (Some j, prob_score (xs ! j)) else (ind, mx))
            [0..<length xs] (None, - 1 :: int))"

fun n_best :: "nat \<Rightarrow> kirov_cell list \<Rightarrow> bool list \<Rightarrow> kirov_sums \<Rightarrow> kirov_sums" where
  "n_best 0 xs marks m = m"
| "n_best (Suc n) xs marks m =
    (case best_unused xs marks of
       None \<Rightarrow> m
     | Some j \<Rightarrow> n_best n xs (marks[j := True]) (add_cell (xs ! j) m))"

definition counted_problem :: "problem option \<Rightarrow> bool" where
  "counted_problem p = (case p of None \<Rightarrow> False | Some q \<Rightarrow> pb_stand_ignore_score q \<le> 0)"

definition kirov_total :: "kirov_ctx \<Rightarrow> kirov_cell list \<Rightarrow> kirov_sums" where
  "kirov_total c xs =
    (let n = sg_score_n_best_problems (kc_global c) in
     if n > 0 \<and> xs \<noteq> [] then n_best (nat n) xs (replicate (length xs) False) (0, 0, 0)
     else fold (\<lambda>j. if counted_problem (kc_probs c ! (kc_p_ind c ! j)) then add_cell (xs ! j) else id)
            [0..<length xs] (0, 0, 0))"

definition kirov_row :: "kirov_ctx \<Rightarrow> kirov_table \<Rightarrow> nat \<Rightarrow> kirov_cell list" where
  "kirov_row c tb t =
    (let p_tot = length (kc_p_ind c) in map (\<lambda>j. cells tb ! (t * row_sz p_tot + j)) [0..<p_tot])"

definition kirov_totals :: "kirov_ctx \<Rightarrow> kirov_table \<Rightarrow> kirov_sums list" where
  "kirov_totals c tb = map (\<lambda>t. kirov_total c (kirov_row c tb t)) [0..<length (kc_t_ind c)]"

section \<open>The ranking\<close>

text \<open>
  The four orders of the table, and when two participants share their places.  The number of
  solved problems is counted in every one of them.
\<close>

definition kirov_sort ::
  "kirov_ctx \<Rightarrow> int list \<Rightarrow> int list \<Rightarrow> int list \<Rightarrow> nat list option" where
  "kirov_sort c scores fulls pens =
    (let start = [0..<length scores] in
     case (counting_sort starts_down fulls start, counting_sort starts_down scores start) of
       (Some by_full, Some by_score) \<Rightarrow>
         (if kc_accepting c then Some by_full
          else if sg_stand_sort_by_solved (kc_global c) \<noteq> 0
          then counting_sort starts_down fulls by_score
          else if sg_stand_enable_penalty (kc_global c) \<noteq> 0
          then bubble_sort (\<lambda>t. scores ! t) (\<lambda>t. pens ! t) by_score
          else Some by_score)
     | _ \<Rightarrow> None)"

definition kirov_level ::
  "kirov_ctx \<Rightarrow> int list \<Rightarrow> int list \<Rightarrow> int list \<Rightarrow> nat \<Rightarrow> nat \<Rightarrow> bool" where
  "kirov_level c scores fulls pens a b \<longleftrightarrow>
    (if kc_accepting c then fulls ! a = fulls ! b
     else if sg_stand_sort_by_solved (kc_global c) \<noteq> 0
     then fulls ! a = fulls ! b \<and> scores ! a = scores ! b
     else if sg_stand_enable_penalty (kc_global c) \<noteq> 0
     then pens ! a = pens ! b \<and> scores ! a = scores ! b
     else scores ! a = scores ! b)"

record kirov_standings =
  ks_ctx :: kirov_ctx
  ks_table :: kirov_table
  ks_scores :: "int list"
  ks_fulls :: "int list"
  ks_pens :: "int list"
  ks_sort :: "nat list"
  ks_places :: "(nat \<times> nat) list"

definition kirov_rank :: "kirov_ctx \<Rightarrow> kirov_table \<Rightarrow> kirov_standings option" where
  "kirov_rank c tb =
    (let ms = kirov_totals c tb; scores = map fst ms; fulls = map (\<lambda>m. fst (snd m)) ms;
         pens = map (\<lambda>m. snd (snd m)) ms;
         result = (\<lambda>order. \<lparr>ks_ctx = c, ks_table = tb, ks_scores = scores, ks_fulls = fulls,
           ks_pens = pens, ks_sort = order,
           ks_places = ties (kirov_level c scores fulls pens) 0 order\<rparr>) in
     if ms = [] then Some (result []) else map_option result (kirov_sort c scores fulls pens))"

section \<open>The table\<close>

definition kirov_setup ::
  "stand_global \<Rightarrow> teamdb \<Rightarrow> problem option list \<Rightarrow> runlog \<Rightarrow> int \<Rightarrow> int \<Rightarrow> int \<Rightarrow> bool
    \<Rightarrow> int \<Rightarrow> int \<Rightarrow> int \<Rightarrow> int \<Rightarrow> (nat \<Rightarrow> bool) \<Rightarrow> (nat \<Rightarrow> bool) \<Rightarrow> (nat \<Rightarrow> bool) \<Rightarrow> kirov_ctx option" where
  "kirov_setup g tdb probs s client_flag user_id user_mode accepting separate start_time stop_time
     cur_time keep_user keep_prob keep_run =
    (let t_max = stand_t_max g tdb s in
     case (if stand_prunes g then kirov_prune (log s) t_max else Some (replicate t_max True)) of
       None \<Rightarrow> None
     | Some t_runs \<Rightarrow>
         (case teamdb_get_user_map tdb t_max t_runs (replicate t_max 0) keep_user of
            None \<Rightarrow> None
          | Some (t_rev, t_ind) \<Rightarrow>
              (case get_problem_map cur_time probs keep_prob (Some (- 1)) of
                 None \<Rightarrow> None
               | Some (p_rev, p_ind, _) \<Rightarrow>
                   Some \<lparr>kc_global = g, kc_probs = probs, kc_log = s, kc_t_rev = t_rev, kc_t_ind = t_ind,
                     kc_p_rev = alias_columns cur_time probs p_rev, kc_p_ind = p_ind,
                     kc_start_time = start_time, kc_stop_time = stop_time,
                     kc_cur_dur = cur_time - start_time, kc_client_flag = client_flag,
                     kc_user_id = user_id, kc_user_mode = user_mode, kc_accepting = accepting,
                     kc_separate = separate, kc_keep = keep_run\<rparr>)))"

text \<open>
  \<open>judge_score\<close> is \<open>online_view_judge_score\<close>.  The outer option is an abort, the inner one a contest
  that has not started.  The table is the one without \<open>stand_collate_name\<close>.
\<close>

definition do_write_kirov_standings ::
  "stand_global \<Rightarrow> teamdb \<Rightarrow> problem option list \<Rightarrow> runlog \<Rightarrow> int \<Rightarrow> int \<Rightarrow> int \<Rightarrow> bool
    \<Rightarrow> int \<Rightarrow> int \<Rightarrow> (nat \<Rightarrow> bool) \<Rightarrow> (nat \<Rightarrow> bool) \<Rightarrow> (nat \<Rightarrow> bool)
    \<Rightarrow> kirov_standings option option" where
  "do_write_kirov_standings g tdb probs s client_flag user_id user_mode accepting judge_score cur_time0
     keep_user keep_prob keep_run =
    (let start_time = rh_start_time (head s); stop_time = rh_stop_time (head s);
         cur_time = (if stop_time \<noteq> 0 \<and> cur_time0 > stop_time then stop_time else cur_time0);
         separate = (if sg_separate_user_score g > 0 \<and> judge_score \<le> 0 then 1 else 0) in
     if start_time = 0 \<or> cur_time0 < start_time then Some None
     else
       Option.bind (kirov_setup g tdb probs s client_flag user_id user_mode accepting separate
                      start_time stop_time cur_time keep_user keep_prob keep_run) (\<lambda>c.
       Option.bind (kirov_scan c) (\<lambda>tb. map_option Some (kirov_rank c tb))))"

text \<open>A row of the raw table.\<close>

definition kirov_raw_cell :: "kirov_cell \<Rightarrow> int \<times> int \<times> int option" where
  "kirov_raw_cell x =
    (if att_num x = 0 then (0, 0, None)
     else if full_sol x \<noteq> 0 then (att_num x, 1, Some (prob_score x))
     else (att_num x, 0, Some (prob_score x)))"

definition kirov_raw_row ::
  "kirov_standings \<Rightarrow> nat \<Rightarrow> nat \<times> nat \<times> nat \<times> (int \<times> int \<times> int option) list \<times> int \<times> int" where
  "kirov_raw_row st i =
    (let c = ks_ctx st; t = ks_sort st ! i in
     (fst (ks_places st ! i) + 1, snd (ks_places st ! i) + 1, kc_t_ind c ! t,
      map kirov_raw_cell (kirov_row c (ks_table st) t), ks_fulls st ! t, ks_scores st ! t))"

end
