(* ===== verification/Kirov_Laws.thy ===== *)
theory Kirov_Laws
  imports Stand_Kirov
begin

text \<open>
  What the Kirov table says: it is always produced, the order and the places follow from the totals,
  the total of the best problems is the largest possible, and a cell holds the best score of the
  runs of its participant.
\<close>

section \<open>The table is produced\<close>

definition cell_ok :: "kirov_cell \<Rightarrow> bool" where
  "cell_ok x \<longleftrightarrow> 0 \<le> prob_score x \<and> 0 \<le> full_sol x \<and> 0 \<le> att_num x"

definition table_ok :: "kirov_ctx \<Rightarrow> kirov_table \<Rightarrow> bool" where
  "table_ok c tb \<longleftrightarrow>
     length (cells tb) = length (kc_t_ind c) * row_sz (length (kc_p_ind c)) \<and>
     length (k_tot_att tb) = length (kc_p_ind c) \<and> length (k_succ_att tb) = length (kc_p_ind c) \<and>
     (\<forall>x \<in> set (cells tb). cell_ok x)"

text \<open>The maps are those the set-up builds, and the settings make sense.\<close>

definition kirov_ctx_ok :: "kirov_ctx \<Rightarrow> bool" where
  "kirov_ctx_ok c \<longleftrightarrow>
     (\<forall>i < length (kc_t_rev c). kc_t_rev c ! i < int (length (kc_t_ind c))) \<and>
     length (kc_p_rev c) = length (kc_probs c) \<and>
     (\<forall>i < length (kc_p_rev c). kc_p_rev c ! i < int (length (kc_p_ind c))) \<and>
     sg_rounding_mode (kc_global c) \<in> {0, 1, 2} \<and>
     (\<forall>i < length (kc_probs c). \<forall>p. kc_probs c ! i = Some p \<longrightarrow>
        0 \<le> pb_full_score p \<and> 0 \<le> pb_tests_to_accept p) \<and>
     (\<forall>r < length (kc_p_ind c). kc_p_ind c ! r < length (kc_probs c))"

named_theorems kirov_simps

lemmas [kirov_simps] = cell_ok_def inc_att_def inc_trans_def inc_disq_def inc_cf_def inc_sol_att_def
  inc_unsolved_def set_score_def set_time_def

lemma table_simps [simp]:
  "cells (inc_tot p tb) = cells tb" "cells (inc_succ p tb) = cells tb"
  "cells (submit_run k tb) = cells tb" "cells (success_run k tb) = cells tb"
  "cells (update_cell i x tb) = (cells tb)[i := x]"
  "k_tot_att (update_cell i x tb) = k_tot_att tb" "k_succ_att (update_cell i x tb) = k_succ_att tb"
  "k_succ_att (inc_tot p tb) = k_succ_att tb" "k_tot_att (inc_succ p tb) = k_tot_att tb"
  "k_succ_att (submit_run k tb) = k_succ_att tb" "k_tot_att (submit_run k tb) = k_tot_att tb"
  "k_succ_att (success_run k tb) = k_succ_att tb" "k_tot_att (success_run k tb) = k_tot_att tb"
  "length (k_tot_att (inc_tot p tb)) = length (k_tot_att tb)"
  "length (k_succ_att (inc_succ p tb)) = length (k_succ_att tb)"
  "k_succ_att (inc_succ p tb) = (k_succ_att tb)[p := k_succ_att tb ! p + 1]"
  by (simp_all add: inc_tot_def inc_succ_def submit_run_def success_run_def update_cell_def)

lemma table_ok_update: "table_ok c tb \<Longrightarrow> cell_ok x \<Longrightarrow> table_ok c (update_cell i x tb)"
  by (auto simp: table_ok_def dest: subsetD [OF set_update_subset_insert])

lemma table_ok_simps [simp]:
  "table_ok c (inc_tot p tb) = table_ok c tb" "table_ok c (inc_succ p tb) = table_ok c tb"
  "table_ok c (submit_run k tb) = table_ok c tb" "table_ok c (success_run k tb) = table_ok c tb"
  "table_ok c (tb\<lparr>total_prs := n\<rparr>) = table_ok c tb" "table_ok c (tb\<lparr>total_trans := n\<rparr>) = table_ok c tb"
  by (simp_all add: table_ok_def)

lemma table_ok_cell: "table_ok c tb \<Longrightarrow> i < length (cells tb) \<Longrightarrow> cell_ok (cells tb ! i)"
  by (simp add: table_ok_def)

lemma kirov_score_ok: "cell_ok x \<Longrightarrow> \<exists>v \<ge> 0. kirov_score c pe prob x prev = Some v"
  by (auto simp: kirov_score_def calc_kirov_score_def cell_ok_def Let_def split: prod.splits)

lemma oly_accepting_ok: "cell_ok x \<Longrightarrow> 0 \<le> pb_tests_to_accept prob \<Longrightarrow> cell_ok (oly_accepting prob st sc tests x)"
  by (auto simp: oly_accepting_def Let_def kirov_simps)

lemma oly_penalty_ok: "cell_ok x \<Longrightarrow> sg_rounding_mode g \<in> {0, 1, 2} \<Longrightarrow>
    \<exists>y. oly_penalty g prob secs x = Some y \<and> cell_ok y"
  by (auto simp: oly_penalty_def sec_to_min_def cell_ok_def)

lemma oly_judging_ok: "cell_ok x \<Longrightarrow> sg_rounding_mode g \<in> {0, 1, 2} \<Longrightarrow>
    \<exists>y. oly_judging g prob start pe st sc x = Some y \<and> cell_ok y"
  by (auto simp: oly_judging_def Let_def intro!: oly_penalty_ok) (auto simp: kirov_simps)

lemma kirov_unscored_ok: "table_ok c tb \<Longrightarrow> i < length (cells tb) \<Longrightarrow>
    table_ok c (kirov_unscored prob k st i p tb)"
  using table_ok_cell [of c tb i]
  by (auto simp: kirov_unscored_def Let_def kirov_simps intro!: table_ok_update)

lemma marked_or_best_ok: "cell_ok x \<Longrightarrow> 0 \<le> v \<Longrightarrow> cell_ok (marked_or_best prob pe v x)"
  by (auto simp: marked_or_best_def kirov_simps)

lemma kirov_success_ok: "cell_ok x \<Longrightarrow> 0 \<le> v \<Longrightarrow> cell_ok (kirov_success prob pe v x)"
  by (auto simp: kirov_success_def Let_def kirov_simps)

lemma inc_ok: "cell_ok x \<Longrightarrow> cell_ok ((inc_att (inc_sol_att x))\<lparr>full_sol := 1\<rparr>)"
  "cell_ok x \<Longrightarrow> cell_ok ((inc_att (inc_unsolved x))\<lparr>full_sol := 0\<rparr>)"
  by (auto simp: kirov_simps)

lemma kirov_latest_ok: "table_ok c tb \<Longrightarrow> i < length (cells tb) \<Longrightarrow>
    \<exists>tb'. kirov_latest_or_unmarked c k pe prob st i p tb = Some tb' \<and> table_ok c tb'"
  using table_ok_cell [of c tb i] kirov_score_ok [of "cells tb ! i" c pe prob]
  by (auto simp: kirov_latest_or_unmarked_def Let_def kirov_unscored_ok split: option.splits
      intro!: table_ok_update inc_ok marked_or_best_ok) (metis option.distinct(1) option.inject)+

lemma provide_one_ok:
  assumes "kirov_ctx_ok c" and "tt < length (kc_t_ind c)" and "table_ok c tb"
  shows "table_ok c (provide_one c pe tt name tb)"
proof (cases "find_column c name")
  case None
  then show ?thesis using assms by (simp add: provide_one_def)
next
  case (Some j)
  then have j: "j < length (kc_p_ind c)"
    by (auto simp: find_column_def find_Some_iff)
  have "j < row_sz (length (kc_p_ind c))" using j row_sz_ge less_le_trans by blast
  then have "tt * row_sz (length (kc_p_ind c)) + j < length (cells tb)"
    using cell_index_lt assms(2,3) by (simp add: table_ok_def)
  moreover have "0 \<le> pb_full_score dst" if "kc_probs c ! (kc_p_ind c ! j) = Some dst" for dst
    using assms(1) j that by (auto simp: kirov_ctx_ok_def)
  ultimately show ?thesis
    using Some assms(3) table_ok_cell [OF assms(3)]
    by (auto simp: provide_one_def Let_def split: option.splits intro!: table_ok_update kirov_success_ok)
qed

lemma provide_ok: "kirov_ctx_ok c \<Longrightarrow> tt < length (kc_t_ind c) \<Longrightarrow> table_ok c tb \<Longrightarrow>
    table_ok c (fold (provide_one c pe tt) names tb)"
  by (induction names arbitrary: tb) (simp_all add: provide_one_ok)

lemma kirov_plain_ok:
  assumes "kirov_ctx_ok c" and "tt < length (kc_t_ind c)" and "table_ok c tb" and "i < length (cells tb)"
  shows "\<exists>tb'. kirov_plain c k pe prob st tt i p tb = Some tb' \<and> table_ok c tb'"
proof -
  have x: "cell_ok (cells tb ! i)" using table_ok_cell assms(3,4) .
  obtain v where v: "kirov_score c pe prob (cells tb ! i) (prev_succ (cells tb ! i) (k_succ_att tb ! p)) = Some v" "0 \<le> v"
    using kirov_score_ok [OF x] by blast
  obtain w where w: "kirov_score c pe prob (cells tb ! i) RUN_TOO_MANY = Some w" "0 \<le> w"
    using kirov_score_ok [OF x] by blast
  have cell: "cell_ok (inc_att (if latest_or_best prob w y then set_score w y else y))" if "cell_ok y" for y
    using that w(2) by (auto simp: kirov_simps)
  have unsolved: "cell_ok (inc_unsolved (cells tb ! i))"
    "cell_ok (inc_unsolved ((cells tb ! i)\<lparr>marked_flag := m\<rparr>))" for m
    using x by (auto simp: kirov_simps)
  have drop: "cell_ok (inc_att (if b then y\<lparr>full_sol := 0\<rparr> else y))" if "cell_ok y" for b y
    using that by (auto simp: kirov_simps)
  have cell2: "cell_ok (if latest_or_best prob w y then set_score w y else y)" if "cell_ok y" for y
    using that w(2) by (auto simp: kirov_simps)
  have succ: "cell_ok (kirov_success prob pe v (cells tb ! i))" using kirov_success_ok x v(2) .
  consider "st = RUN_OK" | "st = RUN_PARTIAL" | "st = RUN_WRONG_ANSWER_ERR \<and> pb_type prob \<noteq> 0"
    | "st \<noteq> RUN_OK \<and> st \<noteq> RUN_PARTIAL \<and> \<not> (st = RUN_WRONG_ANSWER_ERR \<and> pb_type prob \<noteq> 0)" by blast
  then show ?thesis
  proof cases
    case 1
    then show ?thesis
      using assms v(1) succ by (simp add: kirov_plain_def Let_def provide_ok table_ok_update)
  next
    case 2
    then show ?thesis using assms(3) w(1) table_ok_update [OF assms(3) drop [OF cell2 [OF unsolved(2)]]]
      by (simp add: kirov_plain_def Let_def)
  next
    case 3
    then show ?thesis using assms(3) w(1) table_ok_update [OF assms(3) cell [OF unsolved(1)]]
      by (simp add: kirov_plain_def Let_def)
  next
    case 4
    then show ?thesis using kirov_unscored_ok [OF assms(3,4)] by (auto simp: kirov_plain_def Let_def)
  qed
qed

lemma kirov_counts_range:
  assumes "kirov_ctx_ok c" and "kirov_counts c k pe"
  shows "nat (kc_t_rev c ! nat (re_user_id pe)) < length (kc_t_ind c)"
    "nat (kc_p_rev c ! nat (re_prob_id pe)) < length (kc_p_ind c)"
    "\<exists>prob. kc_probs c ! nat (re_prob_id pe) = Some prob \<and> 0 \<le> pb_tests_to_accept prob"
proof -
  have r: "0 < re_user_id pe" "re_user_id pe < int (length (kc_t_rev c))" "0 \<le> kc_t_rev c ! nat (re_user_id pe)"
    "0 < re_prob_id pe" "re_prob_id pe < int (length (kc_probs c))" "0 \<le> kc_p_rev c ! nat (re_prob_id pe)"
    "kc_probs c ! nat (re_prob_id pe) \<noteq> None"
    using assms(2) by (auto simp: kirov_counts_def split: option.splits)
  then show "nat (kc_t_rev c ! nat (re_user_id pe)) < length (kc_t_ind c)"
    "nat (kc_p_rev c ! nat (re_prob_id pe)) < length (kc_p_ind c)"
    using assms(1) by (simp_all add: kirov_ctx_ok_def nat_less_iff)
  have "nat (re_prob_id pe) < length (kc_probs c)" using r by (simp add: nat_less_iff)
  then show "\<exists>prob. kc_probs c ! nat (re_prob_id pe) = Some prob \<and> 0 \<le> pb_tests_to_accept prob"
    using assms(1) r(7) by (auto simp: kirov_ctx_ok_def)
qed

lemma kirov_step_ok:
  assumes "kirov_ctx_ok c" and "table_ok c tb"
  shows "\<exists>tb'. kirov_step c k tb = Some tb' \<and> table_ok c tb'"
proof (cases "kirov_counts c k (log (kc_log c) ! k) \<and> kirov_in_time c (log (kc_log c) ! k)")
  case False
  then have "kirov_step c k tb = Some tb" unfolding kirov_step_def Let_def by (rule if_not_P)
  then show ?thesis using assms by simp
next
  case True
  let ?pe = "log (kc_log c) ! k"
  let ?tt = "nat (kc_t_rev c ! nat (re_user_id ?pe))" and ?p = "nat (kc_p_rev c ! nat (re_prob_id ?pe))"
  let ?i = "?tt * row_sz (length (kc_p_ind c)) + ?p"
  obtain prob where prob: "kc_probs c ! nat (re_prob_id ?pe) = Some prob" "0 \<le> pb_tests_to_accept prob"
    and lt: "?tt < length (kc_t_ind c)" "?p < length (kc_p_ind c)"
    using kirov_counts_range [OF assms(1)] True by blast
  have i: "?i < length (cells tb)"
    using cell_index_lt [OF lt(1), of ?p] lt(2) row_sz_ge less_le_trans assms(2) by (simp add: table_ok_def) blast
  have x: "cell_ok (cells tb ! ?i)" using table_ok_cell [OF assms(2) i] .
  obtain st sc tests where view: "kirov_view c ?pe prob = (st, sc, tests)" by (metis prod_cases3)
  obtain y where "oly_judging (kc_global c) prob (kc_start_time c) ?pe st sc (cells tb ! ?i) = Some y" "cell_ok y"
    using oly_judging_ok [OF x] assms(1) unfolding kirov_ctx_ok_def by blast
  then show ?thesis
    using True prob lt i x view assms kirov_latest_ok [OF assms(2) i] kirov_plain_ok [OF assms(1) lt(1) assms(2) i]
      oly_accepting_ok [OF x prob(2)]
    by (auto simp: kirov_step_def kirov_count_def Let_def table_ok_def [of c tb] intro!: table_ok_update)
qed

lemma kirov_empty_ok: "table_ok c (kirov_empty (length (kc_t_ind c)) (length (kc_p_ind c)))"
  by (auto simp: table_ok_def kirov_empty_def cell_ok_def empty_cell_def)

lemma kirov_prefix_ok:
  "kirov_ctx_ok c \<Longrightarrow> \<exists>tb. fold_opt (kirov_step c) ks (kirov_empty (length (kc_t_ind c)) (length (kc_p_ind c))) = Some tb
     \<and> table_ok c tb"
proof (induction ks rule: rev_induct)
  case Nil
  then show ?case by (simp add: kirov_empty_ok)
next
  case (snoc k ks)
  then obtain tb where tb: "fold_opt (kirov_step c) ks (kirov_empty (length (kc_t_ind c)) (length (kc_p_ind c))) = Some tb"
    "table_ok c tb" by blast
  then obtain tb' where "kirov_step c k tb = Some tb'" "table_ok c tb'"
    using kirov_step_ok snoc.prems by blast
  then show ?case using tb by (simp add: fold_opt_append)
qed

section \<open>The order and the places\<close>

text \<open>What the table is sorted by.\<close>

definition kirov_key :: "kirov_ctx \<Rightarrow> int list \<Rightarrow> int list \<Rightarrow> int list \<Rightarrow> nat \<Rightarrow> int \<times> int" where
  "kirov_key c scores fulls pens t =
    (if kc_accepting c then (- (fulls ! t), 0)
     else if sg_stand_sort_by_solved (kc_global c) \<noteq> 0 then (- (fulls ! t), - (scores ! t))
     else if sg_stand_enable_penalty (kc_global c) \<noteq> 0 then (- (scores ! t), pens ! t)
     else (- (scores ! t), 0))"

lemma sort_key_0: "sort_key (\<lambda>t. (f t, 0 :: int)) xs = sort_key f xs" for f :: "'a \<Rightarrow> int"
proof -
  have "insort_key (\<lambda>t. (f t, 0 :: int)) x xs = insort_key f x xs" for x xs
    by (rule insort_key_cong) (auto simp: less_eq_prod_def)
  then show ?thesis by (induction xs) simp_all
qed

lemma sort_key_same: "\<forall>x \<in> set xs. f x = k \<Longrightarrow> sort_key f xs = xs"
  by (rule sort_key_id_if_sorted) (induction xs, auto)

lemma descending_sort:
  assumes "ks \<noteq> []" and "\<And>k. k \<in> set ks \<Longrightarrow> 0 \<le> k" and "mset order = mset [0..<length ks]"
  shows "counting_sort starts_down ks order = Some (sort_key (\<lambda>t. - (ks ! t)) order)"
proof -
  have "set order = {0..<length ks}" using assms(3) by (metis set_mset_mset set_upt)
  then have "sort_key (\<lambda>t. - int (nat (ks ! t))) order = sort_key (\<lambda>t. - (ks ! t)) order"
    using assms(2) by (intro sort_key_cong_set) simp
  then show ?thesis using down.counting_sort_correct [OF assms] by (simp add: descending_def)
qed

lemma kirov_sort_key:
  assumes "scores \<noteq> []" and "length fulls = length scores"
    and "\<And>k. k \<in> set scores \<Longrightarrow> 0 \<le> k" and "\<And>k. k \<in> set fulls \<Longrightarrow> 0 \<le> k"
  shows "kirov_sort c scores fulls pens =
    Some (sort_key (kirov_key c scores fulls pens) [0..<length scores])"
proof -
  have ne: "fulls \<noteq> []" using assms(1,2) by auto
  let ?s = "sort_key (\<lambda>t. - (scores ! t)) [0..<length scores]"
  have s: "counting_sort starts_down scores [0..<length scores] = Some ?s"
    and f: "counting_sort starts_down fulls [0..<length scores] = Some (sort_key (\<lambda>t. - (fulls ! t)) [0..<length scores])"
    and fs: "counting_sort starts_down fulls ?s = Some (sort_key (\<lambda>t. - (fulls ! t)) ?s)"
    using descending_sort [OF assms(1,3), of "[0..<length scores]"]
      descending_sort [OF ne assms(4)] assms(2) by simp_all
  have b: "bubble_sort (\<lambda>t. scores ! t) (\<lambda>t. pens ! t) ?s =
      Some (sort_key (\<lambda>t. (- (scores ! t), pens ! t)) ?s)"
    by (rule bubble_sort_sorts) (rule sorted_sort_key)
  have bb: "sort_key (\<lambda>t. (- (scores ! t), pens ! t)) ?s =
      sort_key (\<lambda>t. (- (scores ! t), pens ! t)) [0..<length scores]"
  proof (rule properties_for_sort_key)
    show "filter (\<lambda>x. (- (scores ! k), pens ! k) = (- (scores ! x), pens ! x))
        (sort_key (\<lambda>t. (- (scores ! t), pens ! t)) [0..<length scores]) =
      filter (\<lambda>x. (- (scores ! k), pens ! k) = (- (scores ! x), pens ! x)) ?s" for k
    proof -
      let ?xs = "filter (\<lambda>x. (- (scores ! k), pens ! k) = (- (scores ! x), pens ! x)) [0..<length scores]"
      have "sort_key (\<lambda>t. (- (scores ! t), pens ! t)) ?xs = ?xs"
        by (rule sort_key_same [where k = "(- (scores ! k), pens ! k)"]) simp
      moreover have "sort_key (\<lambda>t. - (scores ! t)) ?xs = ?xs"
        by (rule sort_key_same [where k = "- (scores ! k)"]) simp
      ultimately show ?thesis unfolding filter_sort by (rule trans [OF _ sym])
    qed
  qed simp_all
  show ?thesis
    unfolding kirov_sort_def kirov_key_def Let_def s f prod.case option.case fs b bb
    by (simp add: sort_key_lex sort_key_0)
qed

lemma bind_totals: "fold (\<lambda>j. if P j then add_cell (xs ! j) else id) js m =
    fold (\<lambda>x. add_cell x) (map (\<lambda>j. xs ! j) (filter P js)) m"
  by (induction js arbitrary: m) auto

lemma add_cells_ok: "0 \<le> fst m \<Longrightarrow> 0 \<le> fst (snd m) \<Longrightarrow> \<forall>x \<in> set xs. cell_ok x \<Longrightarrow>
    0 \<le> fst (fold add_cell xs m) \<and> 0 \<le> fst (snd (fold add_cell xs m))"
  by (induction xs arbitrary: m) (auto simp: add_cell_def cell_ok_def split: prod.splits)

text \<open>The column the search has found among the first \<open>n\<close>.\<close>

definition best_so_far :: "kirov_cell list \<Rightarrow> bool list \<Rightarrow> nat \<Rightarrow> nat option \<Rightarrow> bool" where
  "best_so_far xs marks n ind \<longleftrightarrow>
    (case ind of
       None \<Rightarrow> \<forall>i < n. \<not> marks ! i \<longrightarrow> prob_score (xs ! i) \<le> 0
     | Some j \<Rightarrow> j < n \<and> \<not> marks ! j \<and> 0 < prob_score (xs ! j) \<and>
         (\<forall>i < n. \<not> marks ! i \<longrightarrow> prob_score (xs ! i) \<le> prob_score (xs ! j)))"

lemma best_unused_fold:
  "\<exists>ind mx. fold (\<lambda>j (ind, mx). if \<not> marks ! j \<and> prob_score (xs ! j) > 0
                               \<and> (ind = None \<or> prob_score (xs ! j) > mx)
                            then (Some j, prob_score (xs ! j)) else (ind, mx))
            [0..<n] (None, - 1 :: int) = (ind, mx) \<and> best_so_far xs marks n ind \<and>
     (\<forall>j. ind = Some j \<longrightarrow> mx = prob_score (xs ! j))"
proof (induction n)
  case (Suc n)
  then obtain ind mx where "fold (\<lambda>j (ind, mx). if \<not> marks ! j \<and> prob_score (xs ! j) > 0
                               \<and> (ind = None \<or> prob_score (xs ! j) > mx)
                            then (Some j, prob_score (xs ! j)) else (ind, mx))
            [0..<n] (None, - 1 :: int) = (ind, mx)" "best_so_far xs marks n ind"
     "\<forall>j. ind = Some j \<longrightarrow> mx = prob_score (xs ! j)" by blast
  then show ?case
    by (cases ind) (auto simp: best_so_far_def less_Suc_eq not_less intro: order_trans less_imp_le)
qed (simp add: best_so_far_def)

lemma best_unused: "best_so_far xs marks (length xs) (best_unused xs marks)"
  using best_unused_fold [of marks xs "length xs"] by (auto simp: best_unused_def)

definition unmarked :: "bool list \<Rightarrow> nat set" where
  "unmarked marks = {i. i < length marks \<and> \<not> marks ! i}"

lemma unmarked_simps [simp]: "finite (unmarked marks)"
  "j < length marks \<Longrightarrow> unmarked (marks[j := True]) = unmarked marks - {j}"
  by (auto simp: unmarked_def nth_list_update)

text \<open>No \<open>n\<close> unmarked columns have a larger total, and some have the same.\<close>

lemma n_best_le:
  assumes "length marks = length xs" and "J \<subseteq> unmarked marks" and "card J \<le> n"
  shows "(\<Sum>j\<in>J. prob_score (xs ! j)) \<le> fst (n_best n xs marks m) - fst m"
  using assms
proof (induction n arbitrary: marks m J)
  case 0
  have "J = {}" using 0 finite_subset [OF 0(2)] by simp
  then show ?case by simp
next
  case (Suc n)
  have fin: "finite J" using finite_subset [OF Suc.prems(2)] by simp
  show ?case
  proof (cases "best_unused xs marks")
    case None
    then have "prob_score (xs ! j) \<le> 0" if "j \<in> J" for j
      using best_unused [of xs marks] Suc.prems(1,2) that by (auto simp: best_so_far_def unmarked_def)
    then show ?thesis using None by (simp add: sum_nonpos)
  next
    case (Some b)
    then have b: "b < length marks" "\<not> marks ! b" "0 < prob_score (xs ! b)"
      "\<And>i. i \<in> unmarked marks \<Longrightarrow> prob_score (xs ! i) \<le> prob_score (xs ! b)"
      using best_unused [of xs marks] Suc.prems(1) by (auto simp: best_so_far_def unmarked_def)
    have ih: "(\<Sum>j\<in>K. prob_score (xs ! j)) \<le> fst (n_best (Suc n) xs marks m) - fst m - prob_score (xs ! b)"
      if "K \<subseteq> unmarked marks - {b}" "card K \<le> n" for K
      using Suc.IH [of "marks[b := True]" K "add_cell (xs ! b) m"] that Suc.prems(1) b(1) Some
      by (simp add: add_cell_def split: prod.splits)
    show ?thesis
    proof (cases "J = {}")
      case True
      then show ?thesis using ih [of "{}"] b(3) by simp
    next
      case False
      then obtain i where i: "i \<in> J" "b \<in> J \<Longrightarrow> i = b" by (cases "b \<in> J") auto
      have "prob_score (xs ! i) \<le> prob_score (xs ! b)" using b(4) i(1) Suc.prems(2) by blast
      moreover have "J - {i} \<subseteq> unmarked marks - {b}" using Suc.prems(2) i(2) by auto
      moreover have "card (J - {i}) \<le> n" using i(1) fin Suc.prems(3) by simp
      ultimately show ?thesis using ih [of "J - {i}"] i(1) fin by (simp add: sum.remove)
    qed
  qed
qed

lemma n_best_attained:
  assumes "length marks = length xs"
  shows "\<exists>J \<subseteq> unmarked marks. card J \<le> n \<and>
    n_best n xs marks m =
      (fst m + (\<Sum>j\<in>J. prob_score (xs ! j)), fst (snd m) + (\<Sum>j\<in>J. full_sol (xs ! j)),
       snd (snd m) + (\<Sum>j\<in>J. k_penalty (xs ! j)))"
  using assms
proof (induction n arbitrary: marks m)
  case 0
  show ?case by (rule exI [of _ "{}"]) simp
next
  case (Suc n)
  show ?case
  proof (cases "best_unused xs marks")
    case None
    then show ?thesis by (intro exI [of _ "{}"]) simp
  next
    case (Some b)
    then have b: "b \<in> unmarked marks"
      using best_unused [of xs marks] Suc.prems by (auto simp: best_so_far_def unmarked_def)
    then have lt: "b < length marks" by (simp add: unmarked_def)
    obtain J where J: "J \<subseteq> unmarked marks - {b}" "card J \<le> n" and eq:
      "n_best n xs (marks[b := True]) (add_cell (xs ! b) m) =
        (fst (add_cell (xs ! b) m) + (\<Sum>j\<in>J. prob_score (xs ! j)),
         fst (snd (add_cell (xs ! b) m)) + (\<Sum>j\<in>J. full_sol (xs ! j)),
         snd (snd (add_cell (xs ! b) m)) + (\<Sum>j\<in>J. k_penalty (xs ! j)))"
      using Suc.IH [of "marks[b := True]" "add_cell (xs ! b) m"] Suc.prems lt by auto
    have "finite J" using J(1) finite_subset by (metis finite_Diff unmarked_simps(1))
    moreover have "b \<notin> J" using J(1) by auto
    ultimately show ?thesis
      using J b Some eq by (intro exI [of _ "insert b J"]) (auto simp: add_cell_def split: prod.splits)
  qed
qed

lemma kirov_row_ok: "table_ok c tb \<Longrightarrow> t < length (kc_t_ind c) \<Longrightarrow> x \<in> set (kirov_row c tb t) \<Longrightarrow> cell_ok x"
proof -
  assume a: "table_ok c tb" "t < length (kc_t_ind c)" "x \<in> set (kirov_row c tb t)"
  then obtain p where p: "p < length (kc_p_ind c)" "x = cells tb ! (t * row_sz (length (kc_p_ind c)) + p)"
    by (auto simp: kirov_row_def Let_def)
  have "t * row_sz (length (kc_p_ind c)) + p < length (cells tb)"
    using cell_index_lt [OF a(2), of p] p(1) row_sz_ge less_le_trans a(1) by (simp add: table_ok_def) blast
  then show ?thesis using a(1) p(2) by (simp add: table_ok_cell)
qed

lemma kirov_total_ok:
  assumes "\<forall>x \<in> set xs. cell_ok x"
  shows "0 \<le> fst (kirov_total c xs) \<and> 0 \<le> fst (snd (kirov_total c xs))"
proof (cases "sg_score_n_best_problems (kc_global c) > 0 \<and> xs \<noteq> []")
  case True
  then obtain J where J: "J \<subseteq> unmarked (replicate (length xs) False)"
    "kirov_total c xs = ((\<Sum>j\<in>J. prob_score (xs ! j)), (\<Sum>j\<in>J. full_sol (xs ! j)), \<Sum>j\<in>J. k_penalty (xs ! j))"
    using n_best_attained [of "replicate (length xs) False" xs "nat (sg_score_n_best_problems (kc_global c))" "(0, 0, 0)"]
    by (auto simp: kirov_total_def Let_def)
  then have "cell_ok (xs ! j)" if "j \<in> J" for j
    using that assms by (auto simp: unmarked_def)
  then show ?thesis unfolding J(2) by (simp add: cell_ok_def sum_nonneg)
next
  case False
  have "\<forall>x \<in> set (map (\<lambda>j. xs ! j) (filter P [0..<length xs])). cell_ok x" for P
    using assms by auto
  then show ?thesis
    unfolding kirov_total_def Let_def if_not_P [OF False] bind_totals by (intro add_cells_ok) simp_all
qed

lemma kirov_totals_ok:
  assumes "table_ok c tb" and "m \<in> set (kirov_totals c tb)"
  shows "0 \<le> fst m \<and> 0 \<le> fst (snd m)"
  using assms kirov_total_ok kirov_row_ok by (auto simp: kirov_totals_def)

lemma kirov_rank_key:
  assumes "table_ok c tb"
  shows "\<exists>st. kirov_rank c tb = Some st \<and> ks_ctx st = c \<and> ks_table st = tb \<and>
    ks_scores st = map fst (kirov_totals c tb) \<and> ks_fulls st = map (\<lambda>m. fst (snd m)) (kirov_totals c tb) \<and>
    ks_sort st = sort_key (kirov_key c (ks_scores st) (ks_fulls st) (ks_pens st)) [0..<length (kc_t_ind c)] \<and>
    ks_places st = ties (kirov_level c (ks_scores st) (ks_fulls st) (ks_pens st)) 0 (ks_sort st)"
proof (cases "kirov_totals c tb = []")
  case True
  then have "kc_t_ind c = []" by (simp add: kirov_totals_def)
  then show ?thesis using True by (simp add: kirov_rank_def Let_def)
next
  case False
  let ?ms = "kirov_totals c tb"
  have "length ?ms = length (kc_t_ind c)" by (simp add: kirov_totals_def)
  moreover have "kirov_sort c (map fst ?ms) (map (\<lambda>m. fst (snd m)) ?ms) (map (\<lambda>m. snd (snd m)) ?ms) =
      Some (sort_key (kirov_key c (map fst ?ms) (map (\<lambda>m. fst (snd m)) ?ms) (map (\<lambda>m. snd (snd m)) ?ms))
        [0..<length (map fst ?ms)])"
    using False kirov_totals_ok [OF assms] by (intro kirov_sort_key) auto
  ultimately show ?thesis using False by (simp add: kirov_rank_def Let_def)
qed


definition small_kirov :: kirov_ctx where
  "small_kirov =
    \<lparr>kc_global = small_global\<lparr>sg_score_system := 1, sg_stand_enable_penalty := 1, sg_score_n_best_problems := 1\<rparr>,
     kc_probs = [None, Some small_problem], kc_log = small_log, kc_t_rev = [- 1, 0, 1], kc_t_ind = [1, 2],
     kc_p_rev = [- 1, 0], kc_p_ind = [1], kc_start_time = 1000, kc_stop_time = 0, kc_cur_dur = 4000,
     kc_client_flag = 0, kc_user_id = 0, kc_user_mode = 0, kc_accepting = False, kc_separate = 0,
     kc_keep = (\<lambda>_. True)\<rparr>"

lemma small_kirov_ok: "kirov_ctx_ok small_kirov"
  by (auto simp: kirov_ctx_ok_def small_kirov_def small_global_def small_problem_def less_Suc_eq
      numeral_2_eq_2 numeral_3_eq_3 nth_Cons split: nat.splits)


text \<open>Which of two participants is ranked higher in the four kinds of table.\<close>

definition kirov_better :: "kirov_standings \<Rightarrow> nat \<Rightarrow> nat \<Rightarrow> bool" where
  "kirov_better st a b \<longleftrightarrow>
    (let score = (\<lambda>t. ks_scores st ! t); full = (\<lambda>t. ks_fulls st ! t); pen = (\<lambda>t. ks_pens st ! t);
         g = kc_global (ks_ctx st) in
     if kc_accepting (ks_ctx st) then full a > full b
     else if sg_stand_sort_by_solved g \<noteq> 0 then full a > full b \<or> full a = full b \<and> score a > score b
     else if sg_stand_enable_penalty g \<noteq> 0 then score a > score b \<or> score a = score b \<and> pen a < pen b
     else score a > score b)"

text \<open>
  C34: the Kirov and olympiad tables list every participant once, best first (by solved problems in
  the accepting round; else by solved problems and score, by score and penalty, or by score, as the
  contest says), and the place of a row is the range from the number of better participants to the
  number of those who are not worse.
\<close>

theorem kirov_places:
  assumes "kirov_ctx_ok c" and "kirov_scan c = Some tb" and "kirov_rank c tb = Some st"
    and "n = length (kc_t_ind c)"
  shows "mset (ks_sort st) = mset [0..<n] \<and>
    (\<forall>i < n. \<forall>j < i. \<not> kirov_better st (ks_sort st ! i) (ks_sort st ! j)) \<and>
    (\<forall>i < n. ks_places st ! i =
       (card {u. u < n \<and> kirov_better st u (ks_sort st ! i)},
        card {u. u < n \<and> \<not> kirov_better st (ks_sort st ! i) u} - 1))"
proof -
  have ok: "table_ok c tb"
    using kirov_prefix_ok [OF assms(1)] assms(2) unfolding kirov_scan_def by (metis option.inject)
  let ?f = "kirov_key c (ks_scores st) (ks_fulls st) (ks_pens st)"
  have st: "ks_ctx st = c" "ks_sort st = sort_key ?f [0..<n]"
    "ks_places st = ties (kirov_level c (ks_scores st) (ks_fulls st) (ks_pens st)) 0 (ks_sort st)"
    using kirov_rank_key [OF ok] assms(3,4) by auto
  have level: "kirov_level c (ks_scores st) (ks_fulls st) (ks_pens st) a b \<longleftrightarrow> ?f a = ?f b" for a b
    by (auto simp: kirov_level_def kirov_key_def)
  have better: "kirov_better st a b \<longleftrightarrow> ?f a < ?f b" for a b
    by (auto simp: kirov_better_def kirov_key_def Let_def st(1) less_prod_def)
  have perm: "mset (ks_sort st) = mset [0..<n]" and sorted: "sorted (map ?f (ks_sort st))"
    unfolding st(2) by simp_all
  show ?thesis using perm table_places [OF level sorted perm better] unfolding st(3) by simp
qed

theorem kirov_places_witness:
  "\<exists>tb st. kirov_scan small_kirov = Some tb \<and> kirov_rank small_kirov tb = Some st
    \<and> \<not> kirov_better st (ks_sort st ! 1) (ks_sort st ! 0)"
proof -
  obtain tb st where s: "kirov_scan small_kirov = Some tb" "kirov_rank small_kirov tb = Some st"
    using kirov_prefix_ok [OF small_kirov_ok] kirov_rank_key unfolding kirov_scan_def by metis
  have "length (kc_t_ind small_kirov) = 2" by (simp add: small_kirov_def)
  then have "\<forall>i < 2. \<forall>j < i. \<not> kirov_better st (ks_sort st ! i) (ks_sort st ! j)"
    using kirov_places [OF small_kirov_ok s refl] by metis
  then have "\<not> kirov_better st (ks_sort st ! 1) (ks_sort st ! 0)"
    by (metis one_less_numeral_iff semiring_norm(76) zero_less_one)
  then show ?thesis using s by blast
qed

section \<open>The best problems\<close>

text \<open>
  C16: when only the \<open>score_n_best_problems\<close> best problems count, the total score of a participant
  is the largest sum of scores over that many columns: some of them have it, and none more.
\<close>

theorem n_best_maximal:
  assumes "n = sg_score_n_best_problems (kc_global c)" and "n > 0" and "xs \<noteq> []"
  shows "(\<exists>J \<subseteq> {..<length xs}. int (card J) \<le> n \<and> fst (kirov_total c xs) = (\<Sum>j\<in>J. prob_score (xs ! j))) \<and>
    (\<forall>J \<subseteq> {..<length xs}. int (card J) \<le> n \<longrightarrow> (\<Sum>j\<in>J. prob_score (xs ! j)) \<le> fst (kirov_total c xs))"
proof -
  let ?m = "replicate (length xs) False"
  have u: "unmarked ?m = {..<length xs}" by (auto simp: unmarked_def)
  have t: "kirov_total c xs = n_best (nat n) xs ?m (0, 0, 0)"
    using assms by (simp add: kirov_total_def Let_def)
  have n: "int k \<le> n \<longleftrightarrow> k \<le> nat n" for k using assms(2) by linarith
  show ?thesis
    unfolding n t using n_best_attained [of ?m xs "nat n" "(0, 0, 0)"] n_best_le [of ?m xs _ "nat n" "(0, 0, 0)"]
    unfolding u by auto
qed

theorem n_best_maximal_witness:
  "(\<Sum>j\<in>{1}. prob_score ([empty_cell, empty_cell\<lparr>prob_score := 7\<rparr>] ! j))
    \<le> fst (kirov_total small_kirov [empty_cell, empty_cell\<lparr>prob_score := 7\<rparr>])"
proof -
  have "sg_score_n_best_problems (kc_global small_kirov) = 1" by (simp add: small_kirov_def)
  then show ?thesis
    using conjunct2 [OF n_best_maximal [of 1 small_kirov "[empty_cell, empty_cell\<lparr>prob_score := 7\<rparr>]"],
        THEN spec, of "{1}"] by simp
qed

section \<open>The score of a saved run\<close>

text \<open>
  For a contestant who sees saved scores, an accepted saved run of a problem whose
  \<open>full_user_score\<close> is not set starts from that unset value in \<open>calc_kirov_score\<close>, although the
  table itself falls back to \<open>full_score\<close>: with the default of -1 and no bonus or adjustment the
  accepted run is worth nothing.
\<close>

lemma saved_score_unset:
  assumes "kc_separate c > 0" and "kc_user_mode c > 0" and "re_is_saved pe \<noteq> 0"
    and "re_saved_status pe = RUN_OK" and "pb_variable_full_score prob = 0"
    and "pb_full_user_score prob = - 1" and "re_score_adj pe = 0" and "pb_dp_infos prob = []"
    and "pb_score_bonus_val prob = []"
  shows "calc_kirov_score (kc_start_time c) (kc_separate c) (kc_user_mode c) pe prob 0 0 prev = Some (0, 0) \<and>
    kirov_view c pe prob = (RUN_OK, pb_full_score prob, re_saved_test pe)"
  using assms
  by (simp add: calc_kirov_score_def kirov_init_score_def kirov_view_def date_penalty_def score_bonus_def
      score_mult_def Let_def)

lemma saved_score_unset_applies:
  "calc_kirov_score 1000 1 1 ((small_run 1 RUN_OK 1120)\<lparr>re_is_saved := 1\<rparr>) small_problem 0 0 0 = Some (0, 0)"
  using saved_score_unset [of "small_kirov\<lparr>kc_separate := 1, kc_user_mode := 1\<rparr>"
      "(small_run 1 RUN_OK 1120)\<lparr>re_is_saved := 1\<rparr>" small_problem 0]
  by (simp add: small_run_def small_problem_def zero_entry_def small_kirov_def)

section \<open>Who has sent a run\<close>

text \<open>
  The test of the user id is a conjunction no id satisfies, so a run of a user outside the table of
  users is written outside the array.
\<close>

lemma kirov_prune_None:
  assumes "0 < t_max"
  shows "kirov_prune es t_max = None \<longleftrightarrow>
    (\<exists>e \<in> set es. re_status e \<notin> {RUN_EMPTY, RUN_VIRTUAL_START, RUN_VIRTUAL_STOP} \<and> re_is_hidden e = 0
       \<and> (re_user_id e < 0 \<or> int t_max \<le> re_user_id e))"
proof -
  have "fold_opt (\<lambda>e t. if re_status e = RUN_EMPTY \<or> re_status e = RUN_VIRTUAL_START
                       \<or> re_status e = RUN_VIRTUAL_STOP \<or> re_is_hidden e \<noteq> 0
                       \<or> re_user_id e \<le> 0 \<and> re_user_id e \<ge> int t_max
                     then Some t
                     else if 0 \<le> re_user_id e \<and> re_user_id e < int t_max
                     then Some (t[nat (re_user_id e) := True]) else None) es t = None \<longleftrightarrow>
    (\<exists>e \<in> set es. re_status e \<notin> {RUN_EMPTY, RUN_VIRTUAL_START, RUN_VIRTUAL_STOP} \<and> re_is_hidden e = 0
       \<and> (re_user_id e < 0 \<or> int t_max \<le> re_user_id e))" for t
    using assms by (induction es arbitrary: t) auto
  then show ?thesis by (simp add: kirov_prune_def)
qed

end
