(* ===== verification/Kirov_Cells.thy ===== *)
theory Kirov_Cells
  imports Kirov_Laws
begin

text \<open>
  A cell of the Kirov table, for the contests where the best run counts: the score in terms of the
  runs in the log alone.
\<close>

section \<open>The reference\<close>

definition k_run :: "kirov_ctx \<Rightarrow> nat \<Rightarrow> run_entry" where
  "k_run c k = log (kc_log c) ! k"

definition k_prob :: "kirov_ctx \<Rightarrow> nat \<Rightarrow> problem" where
  "k_prob c k = the (kc_probs c ! nat (re_prob_id (k_run c k)))"

definition k_status :: "kirov_ctx \<Rightarrow> nat \<Rightarrow> int" where
  "k_status c k = fst (kirov_view c (k_run c k) (k_prob c k))"

definition k_row :: "kirov_ctx \<Rightarrow> nat \<Rightarrow> nat" where
  "k_row c k = nat (kc_t_rev c ! nat (re_user_id (k_run c k)))"

definition k_col :: "kirov_ctx \<Rightarrow> nat \<Rightarrow> nat" where
  "k_col c k = nat (kc_p_rev c ! nat (re_prob_id (k_run c k)))"

text \<open>Run \<open>k\<close> counts, for participant \<open>t\<close> and column \<open>p\<close>.\<close>

definition k_in :: "kirov_ctx \<Rightarrow> nat \<Rightarrow> nat \<Rightarrow> nat \<Rightarrow> bool" where
  "k_in c t p k \<longleftrightarrow> kirov_counts c k (k_run c k) \<and> kirov_in_time c (k_run c k)
     \<and> k_row c k = t \<and> k_col c k = p"

definition k_ok :: "kirov_ctx \<Rightarrow> nat \<Rightarrow> bool" where
  "k_ok c k \<longleftrightarrow> k_status c k = RUN_OK"

definition k_scored :: "kirov_ctx \<Rightarrow> nat \<Rightarrow> bool" where
  "k_scored c k \<longleftrightarrow> k_ok c k \<or> k_status c k = RUN_PARTIAL
     \<or> k_status c k = RUN_WRONG_ANSWER_ERR \<and> pb_type (k_prob c k) \<noteq> 0"

definition k_attempt :: "kirov_ctx \<Rightarrow> nat \<Rightarrow> bool" where
  "k_attempt c k \<longleftrightarrow> k_scored c k
     \<or> k_status c k \<in> {RUN_COMPILE_ERR, RUN_STYLE_ERR, RUN_REJECTED}
       \<and> pb_ignore_compile_errors (k_prob c k) = 0"

definition k_tries :: "kirov_ctx \<Rightarrow> nat \<Rightarrow> nat \<Rightarrow> nat \<Rightarrow> int" where
  "k_tries c n t p = int (card {k. k < n \<and> k_in c t p k \<and> k_attempt c k})"

definition k_disq :: "kirov_ctx \<Rightarrow> nat \<Rightarrow> nat \<Rightarrow> nat \<Rightarrow> int" where
  "k_disq c n t p = int (card {k. k < n \<and> k_in c t p k \<and> k_status c k = RUN_DISQUALIFIED})"

definition k_solved :: "kirov_ctx \<Rightarrow> nat \<Rightarrow> nat \<Rightarrow> nat \<Rightarrow> bool" where
  "k_solved c n t p \<longleftrightarrow> (\<exists>k < n. k_in c t p k \<and> k_ok c k)"

definition k_solvers :: "kirov_ctx \<Rightarrow> nat \<Rightarrow> nat \<Rightarrow> int" where
  "k_solvers c n p = int (card {t. t < length (kc_t_ind c) \<and> k_solved c n t p})"

text \<open>
  What a run is worth: its score after the attempts and disqualified runs of the participant that
  came before, with the bonus for the number of participants that had solved the problem, if this
  is the first success of the participant.
\<close>

definition k_award :: "kirov_ctx \<Rightarrow> nat \<Rightarrow> int" where
  "k_award c k =
    (let t = k_row c k; p = k_col c k in
     fst (the (calc_kirov_score (kc_start_time c) (kc_separate c) (kc_user_mode c) (k_run c k)
       (k_prob c k) (k_tries c k t p) (k_disq c k t p)
       (if k_ok c k \<and> \<not> k_solved c k t p then k_solvers c k p else RUN_TOO_MANY))))"

definition k_best :: "kirov_ctx \<Rightarrow> nat \<Rightarrow> nat \<Rightarrow> nat \<Rightarrow> int" where
  "k_best c n t p = Max (insert 0 (k_award c ` {k. k < n \<and> k_in c t p k \<and> k_scored c k}))"

text \<open>The best run counts, whatever is marked, and no problem provides another.\<close>

definition best_run_mode :: "kirov_ctx \<Rightarrow> bool" where
  "best_run_mode c \<longleftrightarrow> sg_score_system (kc_global c) \<noteq> SCORE_OLYMPIAD \<and>
     (\<forall>i < length (kc_probs c). \<forall>q. kc_probs c ! i = Some q \<longrightarrow>
        pb_score_latest q \<le> 0 \<and> pb_score_latest_or_unmarked q \<le> 0 \<and> pb_ignore_unmarked q \<le> 0
        \<and> pb_provide_ok q = [])"

section \<open>One more run\<close>

lemma below_Suc: "{k. k < Suc n \<and> P k} = (if P n then insert n {k. k < n \<and> P k} else {k. k < n \<and> P k})"
  by (auto simp: less_Suc_eq)

lemma k_best_Suc: "k_best c (Suc n) t p =
    (if k_in c t p n \<and> k_scored c n then max (k_best c n t p) (k_award c n) else k_best c n t p)"
  by (simp add: k_best_def below_Suc Max_insert_0 del: Max_insert)

lemma k_tries_Suc: "k_tries c (Suc n) t p = k_tries c n t p + (if k_in c t p n \<and> k_attempt c n then 1 else 0)"
  by (simp add: k_tries_def card_below_Suc)

lemma k_disq_Suc: "k_disq c (Suc n) t p =
    k_disq c n t p + (if k_in c t p n \<and> k_status c n = RUN_DISQUALIFIED then 1 else 0)"
  by (simp add: k_disq_def card_below_Suc)

lemma k_solved_Suc: "k_solved c (Suc n) t p \<longleftrightarrow> k_solved c n t p \<or> k_in c t p n \<and> k_ok c n"
  by (auto simp: k_solved_def less_Suc_eq)

lemma k_solvers_Suc:
  assumes "k_row c n < length (kc_t_ind c)"
  shows "k_solvers c (Suc n) p = k_solvers c n p +
    (if k_in c (k_row c n) p n \<and> k_ok c n \<and> \<not> k_solved c n (k_row c n) p then 1 else 0)"
proof -
  let ?t = "k_row c n" and ?S = "{t. t < length (kc_t_ind c) \<and> k_solved c n t p}"
  have "{t. t < length (kc_t_ind c) \<and> k_solved c (Suc n) t p} =
      (if k_in c ?t p n \<and> k_ok c n then insert ?t ?S else ?S)"
    using assms by (auto simp: k_solved_Suc k_in_def)
  moreover have "?t \<in> ?S \<longleftrightarrow> k_solved c n ?t p" using assms by simp
  ultimately show ?thesis using assms by (simp add: k_solvers_def card_insert_if)
qed

lemmas k_Suc = k_best_Suc k_tries_Suc k_disq_Suc k_solved_Suc

text \<open>What a counted run does to its cell and to the successes of the column.\<close>

lemma kirov_success_fields:
  assumes "pb_score_latest prob \<le> 0"
  shows "prob_score (kirov_success prob pe v x) = max (prob_score x) v"
    "full_sol (kirov_success prob pe v x) = 1" "att_num (kirov_success prob pe v x) = att_num x + 1"
    "disq_num (kirov_success prob pe v x) = disq_num x"
  using assms by (auto simp: kirov_success_def Let_def latest_or_best_def inc_att_def inc_unsolved_def
      inc_sol_att_def set_score_def set_time_def)

lemma kirov_unscored_effect:
  fixes prob st
  defines "att \<equiv> st \<in> {RUN_COMPILE_ERR, RUN_STYLE_ERR, RUN_REJECTED} \<and> pb_ignore_compile_errors prob = 0"
  assumes "i < length (cells tb)"
  shows "\<exists>x. cells (kirov_unscored prob k st i p tb) = (cells tb)[i := x] \<and>
    prob_score x = prob_score (cells tb ! i) \<and> full_sol x = full_sol (cells tb ! i) \<and>
    att_num x = att_num (cells tb ! i) + (if att then 1 else 0) \<and>
    disq_num x = disq_num (cells tb ! i) + (if st = RUN_DISQUALIFIED then 1 else 0) \<and>
    k_succ_att (kirov_unscored prob k st i p tb) = k_succ_att tb"
  unfolding att_def
  by (auto simp: kirov_unscored_def Let_def inc_att_def inc_unsolved_def inc_sol_att_def inc_disq_def
      inc_trans_def inc_cf_def split: if_splits
      intro: exI [of _ "cells tb ! i"] list_update_id [symmetric])

lemma kirov_plain_effect:
  fixes prob pe st i and tb :: kirov_table
  defines "scored \<equiv> st = RUN_OK \<or> st = RUN_PARTIAL \<or> st = RUN_WRONG_ANSWER_ERR \<and> pb_type prob \<noteq> 0"
  defines "att \<equiv> scored \<or> st \<in> {RUN_COMPILE_ERR, RUN_STYLE_ERR, RUN_REJECTED} \<and> pb_ignore_compile_errors prob = 0"
  defines "x0 \<equiv> cells tb ! i"
  assumes "kirov_plain c k pe prob st tt i p tb = Some tb'" and "i < length (cells tb)"
    and "pb_score_latest prob \<le> 0" "pb_ignore_unmarked prob \<le> 0" "pb_provide_ok prob = []"
    and v: "kirov_score c pe prob x0 (if st = RUN_OK then prev_succ x0 (k_succ_att tb ! p) else RUN_TOO_MANY) = Some v"
  shows "\<exists>x. cells tb' = (cells tb)[i := x] \<and>
    prob_score x = (if scored then max (prob_score x0) v else prob_score x0) \<and>
    full_sol x = (if st = RUN_OK then 1 else full_sol x0) \<and>
    att_num x = att_num x0 + (if att then 1 else 0) \<and>
    disq_num x = disq_num x0 + (if st = RUN_DISQUALIFIED then 1 else 0) \<and>
    k_succ_att tb' = (if st = RUN_OK \<and> full_sol x0 = 0 then (k_succ_att tb)[p := k_succ_att tb ! p + 1] else k_succ_att tb)"
proof -
  consider (ok) "st = RUN_OK" | (partial) "st = RUN_PARTIAL"
    | (wrong) "st = RUN_WRONG_ANSWER_ERR" "pb_type prob \<noteq> 0"
    | (other) "\<not> scored" by (auto simp: scored_def)
  then show ?thesis
  proof cases
    case ok
    then show ?thesis
      using assms kirov_success_fields [OF assms(6), of pe v x0]
      by (intro exI [of _ "kirov_success prob pe v x0"]) (auto simp: kirov_plain_def Let_def split: if_splits)
  next
    case partial
    let ?x1 = "inc_unsolved (x0\<lparr>marked_flag := re_is_marked pe\<rparr>)"
    let ?x = "inc_att (if latest_or_best prob v ?x1 then set_score v ?x1 else ?x1)"
    have "cells tb' = (cells tb)[i := ?x]" "k_succ_att tb' = k_succ_att tb"
      using partial assms by (auto simp: kirov_plain_def Let_def split: if_splits)
    then show ?thesis
      using partial assms(6) by (intro exI [of _ ?x])
        (auto simp: scored_def att_def latest_or_best_def inc_att_def inc_unsolved_def inc_sol_att_def set_score_def)
  next
    case wrong
    let ?x1 = "inc_unsolved x0"
    let ?x = "inc_att (if latest_or_best prob v ?x1 then set_score v ?x1 else ?x1)"
    have "cells tb' = (cells tb)[i := ?x]" "k_succ_att tb' = k_succ_att tb"
      using wrong assms by (auto simp: kirov_plain_def Let_def split: if_splits)
    then show ?thesis
      using wrong assms(6) by (intro exI [of _ ?x])
        (auto simp: scored_def att_def latest_or_best_def inc_att_def inc_unsolved_def inc_sol_att_def set_score_def)
  next
    case other
    then have "tb' = kirov_unscored prob k st i p tb" "st \<noteq> RUN_OK"
      using assms(4) by (auto simp: kirov_plain_def Let_def scored_def split: if_splits)
    then show ?thesis
      using other kirov_unscored_effect [OF assms(5), of prob k st p] by (simp add: att_def x0_def)
  qed
qed

section \<open>The scan\<close>

definition cell_says :: "kirov_ctx \<Rightarrow> nat \<Rightarrow> nat \<Rightarrow> nat \<Rightarrow> kirov_cell \<Rightarrow> bool" where
  "cell_says c n t p x \<longleftrightarrow>
     prob_score x = k_best c n t p \<and> full_sol x = (if k_solved c n t p then 1 else 0) \<and>
     att_num x = k_tries c n t p \<and> disq_num x = k_disq c n t p"

definition k_inv :: "kirov_ctx \<Rightarrow> nat \<Rightarrow> kirov_table \<Rightarrow> bool" where
  "k_inv c n tb \<longleftrightarrow> table_ok c tb \<and>
     (\<forall>t < length (kc_t_ind c). \<forall>p < length (kc_p_ind c).
        cell_says c n t p (cells tb ! (t * row_sz (length (kc_p_ind c)) + p))) \<and>
     (\<forall>p < length (kc_p_ind c). k_succ_att tb ! p = k_solvers c n p)"

lemma cell_at: "table_ok c tb \<Longrightarrow> t < length (kc_t_ind c) \<Longrightarrow> p < length (kc_p_ind c) \<Longrightarrow>
    t * row_sz (length (kc_p_ind c)) + p < length (cells tb)"
  using cell_index_lt row_sz_ge [of "length (kc_p_ind c)"] by (simp add: table_ok_def)

lemma kirov_step_outside:
  assumes "\<not> (kirov_counts c n (k_run c n) \<and> kirov_in_time c (k_run c n))"
    and "k_inv c n tb" and "kirov_step c n tb = Some tb'"
  shows "k_inv c (Suc n) tb'"
proof -
  have "tb' = tb" using assms(1,3) by (auto simp: kirov_step_def Let_def k_run_def split: if_splits)
  moreover have no: "\<not> k_in c t p n" for t p using assms(1) by (auto simp: k_in_def)
  moreover have "k_solvers c (Suc n) p = k_solvers c n p" for p
    by (simp add: k_solvers_def k_solved_Suc no)
  ultimately show ?thesis using assms(2) by (simp add: k_inv_def cell_says_def k_Suc)
qed

lemma kirov_step_inv:
  assumes ok: "kirov_ctx_ok c" and mode: "best_run_mode c" and inv: "k_inv c n tb"
    and step: "kirov_step c n tb = Some tb'"
  shows "k_inv c (Suc n) tb'"
proof (cases "kirov_counts c n (k_run c n) \<and> kirov_in_time c (k_run c n)")
  case False
  then show ?thesis using kirov_step_outside inv step by blast
next
  case True
  let ?pe = "k_run c n" and ?prob = "k_prob c n" and ?st = "k_status c n"
  let ?t = "k_row c n" and ?p = "k_col c n" and ?P = "length (kc_p_ind c)"
  let ?i = "?t * row_sz ?P + ?p"
  let ?x0 = "cells tb ! ?i"
  have tb: "table_ok c tb" using inv by (simp add: k_inv_def)
  have lt: "?t < length (kc_t_ind c)" "?p < ?P"
    using kirov_counts_range(1,2) [OF ok, of n ?pe] True by (simp_all add: k_row_def k_col_def)
  have prob: "kc_probs c ! nat (re_prob_id ?pe) = Some ?prob"
    using kirov_counts_range(3) [OF ok, of n ?pe] True by (auto simp: k_prob_def)
  have "nat (re_prob_id ?pe) < length (kc_probs c)"
    using True by (auto simp: kirov_counts_def nat_less_iff)
  then have m: "sg_score_system (kc_global c) \<noteq> SCORE_OLYMPIAD" "pb_score_latest ?prob \<le> 0"
    "\<not> pb_score_latest_or_unmarked ?prob > 0" "pb_ignore_unmarked ?prob \<le> 0" "pb_provide_ok ?prob = []"
    using mode prob unfolding best_run_mode_def by (auto simp: not_less)
  have i: "?i < length (cells tb)" using cell_at [OF tb lt] .
  have x0: "cell_says c n ?t ?p ?x0" and succ: "k_succ_att tb ! ?p = k_solvers c n ?p"
    using inv lt by (simp_all add: k_inv_def)
  have "\<not> ?i \<ge> length (cells tb) \<and> \<not> ?p \<ge> length (k_tot_att tb)" using i lt(2) tb by (simp add: table_ok_def)
  then have plain: "kirov_plain c n ?pe ?prob ?st ?t ?i ?p tb = Some tb'"
    using step True prob m
    by (simp add: kirov_step_def kirov_count_def Let_def k_run_def k_row_def k_col_def k_status_def
        split: prod.splits)
  let ?prev = "if ?st = RUN_OK then prev_succ ?x0 (k_succ_att tb ! ?p) else RUN_TOO_MANY"
  have "?prev = (if k_ok c n \<and> \<not> k_solved c n ?t ?p then k_solvers c n ?p else RUN_TOO_MANY)"
    using x0 succ by (simp add: k_ok_def prev_succ_def cell_says_def)
  moreover obtain v where v: "kirov_score c ?pe ?prob ?x0 ?prev = Some v"
    using kirov_score_ok [OF table_ok_cell [OF tb i]] by blast
  ultimately have award: "v = k_award c n"
    using x0 by (auto simp: k_award_def Let_def kirov_score_def cell_says_def)
  obtain x where x: "cells tb' = (cells tb)[?i := x]" and says: "cell_says c (Suc n) ?t ?p x"
    and succ': "k_succ_att tb' = (if k_ok c n \<and> \<not> k_solved c n ?t ?p
        then (k_succ_att tb)[?p := k_succ_att tb ! ?p + 1] else k_succ_att tb)"
  proof -
    obtain x where "cells tb' = (cells tb)[?i := x]"
      "prob_score x = (if k_scored c n then max (prob_score ?x0) v else prob_score ?x0)"
      "full_sol x = (if k_ok c n then 1 else full_sol ?x0)"
      "att_num x = att_num ?x0 + (if k_attempt c n then 1 else 0)"
      "disq_num x = disq_num ?x0 + (if ?st = RUN_DISQUALIFIED then 1 else 0)"
      "k_succ_att tb' = (if k_ok c n \<and> full_sol ?x0 = 0
        then (k_succ_att tb)[?p := k_succ_att tb ! ?p + 1] else k_succ_att tb)"
      using kirov_plain_effect [OF plain i m(2,4,5) v] unfolding k_scored_def k_attempt_def k_ok_def by blast
    moreover have "k_in c ?t ?p n" using True by (simp add: k_in_def)
    ultimately show ?thesis using x0 by (intro that [of x]) (auto simp: cell_says_def k_Suc award)
  qed
  have tb': "table_ok c tb'" using kirov_step_ok [OF ok tb, of n] step by simp
  have "cell_says c (Suc n) t p (cells tb' ! (t * row_sz ?P + p))" if "t < length (kc_t_ind c)" "p < ?P" for t p
  proof (cases "t = ?t \<and> p = ?p")
    case True
    then show ?thesis using says i by (simp add: x)
  next
    case False
    have "p < row_sz ?P" "?p < row_sz ?P" using that(2) lt(2) row_sz_ge [of ?P] by linarith+
    then have "t * row_sz ?P + p \<noteq> ?i" using cell_index False by blast
    moreover have "\<not> k_in c t p n" using False by (auto simp: k_in_def)
    ultimately show ?thesis using inv that by (simp add: x k_inv_def cell_says_def k_Suc)
  qed
  moreover have "k_succ_att tb' ! p = k_solvers c (Suc n) p" if "p < ?P" for p
    using inv that lt(2) tb True
    by (auto simp: succ' k_solvers_Suc [OF lt(1)] k_inv_def nth_list_update table_ok_def k_in_def)
  ultimately show ?thesis using tb' by (simp add: k_inv_def)
qed

lemma k_inv_empty: "k_inv c 0 (kirov_empty (length (kc_t_ind c)) (length (kc_p_ind c)))"
  using cell_at [OF kirov_empty_ok, of _ c]
  by (simp add: k_inv_def kirov_empty_ok) (auto simp: kirov_empty_def cell_says_def empty_cell_def k_best_def
      k_solved_def k_tries_def k_disq_def k_solvers_def)

lemma k_inv_fold:
  "kirov_ctx_ok c \<Longrightarrow> best_run_mode c \<Longrightarrow>
    fold_opt (kirov_step c) [0..<n] (kirov_empty (length (kc_t_ind c)) (length (kc_p_ind c))) = Some tb \<Longrightarrow> k_inv c n tb"
proof (induction n arbitrary: tb)
  case 0
  then show ?case using k_inv_empty [of c] by (metis fold_opt.simps(1) option.inject upt_0)
next
  case (Suc n)
  then show ?case
    by (auto simp: fold_opt_append bind_eq_Some_conv split: Option.bind_splits intro: kirov_step_inv)
qed

text \<open>
  C5: in the Kirov table of a contest where the best run counts, the score of a participant for a
  problem is the largest of what the runs are worth, or 0; a run is worth its score with the
  penalties for the attempts and disqualified runs made before it and the bonus for the number of
  participants that had solved the problem.  The cell counts the attempts and the disqualified runs
  and says whether the problem is solved.
\<close>

theorem kirov_cells:
  assumes "kirov_ctx_ok c" and "best_run_mode c" and "kirov_scan c = Some tb"
    and "n = length (log (kc_log c))" and "t < length (kc_t_ind c)" and "p < length (kc_p_ind c)"
    and "x = kirov_row c tb t ! p"
  shows "prob_score x = Max (insert 0 (k_award c ` {k. k < n \<and> k_in c t p k \<and> k_scored c k})) \<and>
    full_sol x = (if \<exists>k < n. k_in c t p k \<and> k_ok c k then 1 else 0) \<and>
    att_num x = int (card {k. k < n \<and> k_in c t p k \<and> k_attempt c k}) \<and>
    disq_num x = int (card {k. k < n \<and> k_in c t p k \<and> k_status c k = RUN_DISQUALIFIED})"
proof -
  have "k_inv c n tb"
    using k_inv_fold [OF assms(1,2)] assms(3,4) by (simp add: kirov_scan_def)
  then have "cell_says c n t p x"
    using assms(5-7) by (simp add: k_inv_def kirov_row_def Let_def)
  then show ?thesis by (simp add: cell_says_def k_best_def k_solved_def k_tries_def k_disq_def)
qed

theorem kirov_cells_witness:
  "\<exists>tb. kirov_scan small_kirov = Some tb \<and> full_sol (kirov_row small_kirov tb 0 ! 0) =
     (if \<exists>k < length (log (kc_log small_kirov)). k_in small_kirov 0 0 k \<and> k_ok small_kirov k then 1 else 0)"
proof -
  obtain tb where tb: "kirov_scan small_kirov = Some tb"
    using kirov_prefix_ok [OF small_kirov_ok] unfolding kirov_scan_def by blast
  have "best_run_mode small_kirov"
    by (auto simp: best_run_mode_def small_kirov_def small_global_def small_problem_def less_Suc_eq
        numeral_2_eq_2)
  moreover have "0 < length (kc_t_ind small_kirov)" "0 < length (kc_p_ind small_kirov)"
    by (simp_all add: small_kirov_def)
  ultimately show ?thesis
    using kirov_cells [OF small_kirov_ok _ tb refl, of 0 0] tb by blast
qed

end
