(* ===== verification/Stand_Moscow.thy ===== *)
theory Stand_Moscow
  imports Acm_Laws
begin

text \<open>
  The Moscow standings (\<open>do_write_moscow_standings\<close> of \<open>html.c\<close>): partial scores, and a penalty for
  the attempts before the best one and for its time.  As in the Kirov table a cell holds the entries
  of all the tables with an entry per user and problem.
\<close>

section \<open>The scan of the log\<close>

record moscow_cell =
  up_score :: int
  up_att :: int
  up_totatt :: int
  up_time :: int
  up_pen :: int
  up_solved :: int
  up_trans :: int
  up_cf :: int

definition moscow_zero :: moscow_cell where
  "moscow_zero = \<lparr>up_score = 0, up_att = 0, up_totatt = 0, up_time = 0, up_pen = 0, up_solved = 0,
     up_trans = 0, up_cf = 0\<rparr>"

record moscow_ctx =
  mc_global :: stand_global
  mc_probs :: "problem option list"
  mc_log :: runlog
  mc_u_rev :: "int list"
  mc_u_ind :: "nat list"
  mc_p_rev :: "int list"
  mc_p_ind :: "nat list"
  mc_start_time :: int
  mc_dur :: int
  mc_cur_dur :: int
  mc_client_flag :: int
  mc_user_id :: int
  mc_keep :: "nat \<Rightarrow> bool"

record moscow_table =
  m_cells :: "moscow_cell list"
  p_att :: "int list"
  p_succ :: "int list"
  m_last_success :: "int \<times> int \<times> int"
  m_last_submit :: "int \<times> int \<times> int"

definition moscow_empty :: "moscow_ctx \<Rightarrow> moscow_table" where
  "moscow_empty c =
    (let p_tot = length (mc_p_ind c) in
     \<lparr>m_cells = replicate (length (mc_u_ind c) * row_sz p_tot) moscow_zero, p_att = replicate p_tot 0,
      p_succ = replicate p_tot 0, m_last_success = (- 1, 0, rh_start_time (head (mc_log c))),
      m_last_submit = (- 1, 0, rh_start_time (head (mc_log c)))\<rparr>)"

definition moscow_counts :: "moscow_ctx \<Rightarrow> nat \<Rightarrow> run_entry \<Rightarrow> bool" where
  "moscow_counts c k pe \<longleftrightarrow>
     \<not> (re_is_hidden pe \<noteq> 0
        \<or> re_status pe > RUN_MAX_STATUS \<and> re_status pe < RUN_TRANSIENT_FIRST
        \<or> re_status pe > RUN_TRANSIENT_LAST
        \<or> re_user_id pe \<le> 0 \<or> re_user_id pe \<ge> int (length (mc_u_rev c))
        \<or> mc_u_rev c ! nat (re_user_id pe) < 0
        \<or> re_prob_id pe \<le> 0 \<or> re_prob_id pe > int (length (mc_probs c)) - 1
        \<or> mc_p_rev c ! nat (re_prob_id pe) < 0
        \<or> \<not> mc_keep c k)"

text \<open>The time of the run, the start it is measured from and the time since then.\<close>

definition moscow_time :: "moscow_ctx \<Rightarrow> run_entry \<Rightarrow> (int \<times> int \<times> int) pick option" where
  "moscow_time c pe =
    (let g = mc_global c in
     if sg_is_virtual g \<noteq> 0 then
       (case virtual_start (mc_log c) (re_user_id pe) of
          None \<Rightarrow> None
        | Some ustart \<Rightarrow>
            let run_time = max (re_time pe) ustart; udur = min (run_time - ustart) (mc_dur c) in
            if mc_user_id c > 0 \<and> udur > mc_cur_dur c then Some Skip
            else Some (Take (run_time, ustart, udur)))
     else
       (let run_time = max (re_time pe) (mc_start_time c); udur = run_time - mc_start_time c in
        if mc_client_flag c \<noteq> 1 \<or> mc_user_id c \<noteq> 0 then
          (if mc_cur_dur c > 0 \<and> udur > mc_cur_dur c then Some Skip
           else if sg_stand_ignore_after g > 0 \<and> re_time pe \<ge> sg_stand_ignore_after g then Some Skip
           else Some (Take (run_time, mc_start_time c, udur)))
        else Some (Take (run_time, mc_start_time c, udur))))"

text \<open>A run with a better result: its score, time, penalty and the attempts before it.\<close>

definition moscow_better ::
  "stand_global \<Rightarrow> int \<Rightarrow> int \<Rightarrow> int \<Rightarrow> moscow_cell \<Rightarrow> moscow_cell option" where
  "moscow_better g score run_time udur x =
     map_option (\<lambda>mins. x\<lparr>up_att := up_totatt x, up_pen := mins, up_time := run_time, up_score := score\<rparr>)
       (sec_to_min (sg_rounding_mode g) udur)"

definition moscow_attempt :: "moscow_cell \<Rightarrow> moscow_cell" where
  "moscow_attempt x = x\<lparr>up_totatt := up_totatt x + 1\<rparr>"

definition moscow_rejected :: "int \<Rightarrow> bool" where
  "moscow_rejected status \<longleftrightarrow> status \<in> {RUN_COMPILE_ERR, RUN_STYLE_ERR, RUN_REJECTED}"

text \<open>The cell after a run with these times; transient runs are settled before.\<close>

definition moscow_cell_step ::
  "moscow_ctx \<Rightarrow> run_entry \<Rightarrow> problem \<Rightarrow> int \<Rightarrow> int \<Rightarrow> moscow_cell \<Rightarrow> moscow_cell option" where
  "moscow_cell_step c pe prob run_time udur x =
    (let status = re_status pe; g = mc_global c in
     if status = RUN_OK then
       map_option (\<lambda>y. (moscow_attempt y)\<lparr>up_solved := 1\<rparr>)
         (moscow_better g (if pb_variable_full_score prob \<noteq> 0 then re_score pe else pb_full_score prob)
            run_time udur x)
     else if run_is_failed_attempt status \<noteq> 0 then
       map_option moscow_attempt
         (if re_score pe > up_score x then moscow_better g (re_score pe) run_time udur x else Some x)
     else if moscow_rejected status \<and> pb_ignore_compile_errors prob = 0 then Some (moscow_attempt x)
     else if moscow_rejected status then Some x
     else if status = RUN_CHECK_FAILED then Some (x\<lparr>up_cf := 1\<rparr>)
     else Some x)"

text \<open>The attempts on the problem and the last runs of the table.\<close>

definition moscow_note ::
  "moscow_ctx \<Rightarrow> nat \<Rightarrow> run_entry \<Rightarrow> problem \<Rightarrow> nat \<Rightarrow> int \<Rightarrow> moscow_table \<Rightarrow> moscow_table" where
  "moscow_note c k pe prob p ustart a =
    (let status = re_status pe; real = sg_is_virtual (mc_global c) = 0; here = (int k, re_time pe, ustart);
         att = a\<lparr>p_att := (p_att a)[p := p_att a ! p + 1]\<rparr>;
         submit = (\<lambda>b. if real then b\<lparr>m_last_submit := here\<rparr> else b);
         success = (\<lambda>b. if real then b\<lparr>m_last_success := here\<rparr> else b) in
     if status = RUN_OK then submit (success (att\<lparr>p_succ := (p_succ a)[p := p_succ a ! p + 1]\<rparr>))
     else if run_is_failed_attempt status \<noteq> 0
             \<or> moscow_rejected status \<and> pb_ignore_compile_errors prob = 0
     then submit att
     else a)"

definition moscow_count :: "moscow_ctx \<Rightarrow> nat \<Rightarrow> run_entry \<Rightarrow> moscow_table \<Rightarrow> moscow_table option" where
  "moscow_count c k pe a =
    (let u = nat (mc_u_rev c ! nat (re_user_id pe)); p = nat (mc_p_rev c ! nat (re_prob_id pe));
         i = u * row_sz (length (mc_p_ind c)) + p; x = m_cells a ! i; status = re_status pe in
     if i \<ge> length (m_cells a) \<or> p \<ge> length (p_att a) then None
     else if up_solved x \<noteq> 0 then Some a
     else if status \<ge> RUN_TRANSIENT_FIRST \<and> status \<le> RUN_TRANSIENT_LAST \<or> status = RUN_PENDING
     then Some (a\<lparr>m_cells := (m_cells a)[i := x\<lparr>up_trans := 1\<rparr>]\<rparr>)
     else
       case (moscow_time c pe, mc_probs c ! nat (re_prob_id pe)) of
         (Some Skip, _) \<Rightarrow> Some a
       | (Some (Take (run_time, ustart, udur)), Some prob) \<Rightarrow>
           (case moscow_cell_step c pe prob run_time udur x of
              None \<Rightarrow> None
            | Some y \<Rightarrow> Some (moscow_note c k pe prob p ustart (a\<lparr>m_cells := (m_cells a)[i := y]\<rparr>)))
       | _ \<Rightarrow> None)"

definition moscow_step :: "moscow_ctx \<Rightarrow> nat \<Rightarrow> moscow_table \<Rightarrow> moscow_table option" where
  "moscow_step c k a =
    (let pe = log (mc_log c) ! k in if moscow_counts c k pe then moscow_count c k pe a else Some a)"

definition moscow_scan :: "moscow_ctx \<Rightarrow> moscow_table option" where
  "moscow_scan c = fold_opt (moscow_step c) [0..<length (log (mc_log c))] (moscow_empty c)"

section \<open>The totals and the ranking\<close>

definition moscow_row :: "moscow_ctx \<Rightarrow> moscow_table \<Rightarrow> nat \<Rightarrow> moscow_cell list" where
  "moscow_row c a u =
    (let p_tot = length (mc_p_ind c) in map (\<lambda>p. m_cells a ! (u * row_sz p_tot + p)) [0..<p_tot])"

definition run_penalty_of :: "problem option \<Rightarrow> int" where
  "run_penalty_of q = (case q of None \<Rightarrow> 0 | Some p \<Rightarrow> pb_acm_run_penalty p)"

text \<open>The score and the penalty of a user.\<close>

definition moscow_total :: "moscow_ctx \<Rightarrow> moscow_cell list \<Rightarrow> int \<times> int" where
  "moscow_total c xs =
     fold (\<lambda>p (score, pen).
       (score + up_score (xs ! p),
        pen + (if sg_ignore_success_time (mc_global c) = 0 then up_pen (xs ! p) else 0)
          + run_penalty_of (mc_probs c ! (mc_p_ind c ! p)) * up_att (xs ! p)))
       [0..<length xs] (0, 0)"

text \<open>
  With no penalty that is not negative the first table stays zero, and with no such score the order
  stays that of the index.
\<close>

definition moscow_sort :: "int list \<Rightarrow> int list \<Rightarrow> nat list option" where
  "moscow_sort scores pens =
    (case (if max_key pens \<ge> 0 then counting_sort table_up pens [0..<length pens]
           else Some (replicate (length pens) 0)) of
       None \<Rightarrow> None
     | Some mid \<Rightarrow>
         if max_key scores \<ge> 0 then counting_sort table_down scores mid
         else Some [0..<length scores])"

definition moscow_level :: "int list \<Rightarrow> int list \<Rightarrow> nat \<Rightarrow> nat \<Rightarrow> bool" where
  "moscow_level scores pens a b \<longleftrightarrow> scores ! a = scores ! b \<and> pens ! a = pens ! b"

record moscow_standings =
  ms_ctx :: moscow_ctx
  ms_table :: moscow_table
  ms_scores :: "int list"
  ms_pens :: "int list"
  ms_sort :: "nat list"
  ms_places :: "(nat \<times> nat) list"

definition moscow_rank :: "moscow_ctx \<Rightarrow> moscow_table \<Rightarrow> moscow_standings option" where
  "moscow_rank c a =
    (let ts = map (\<lambda>u. moscow_total c (moscow_row c a u)) [0..<length (mc_u_ind c)];
         scores = map fst ts; pens = map snd ts in
     map_option (\<lambda>order. \<lparr>ms_ctx = c, ms_table = a, ms_scores = scores, ms_pens = pens, ms_sort = order,
         ms_places = ties (moscow_level scores pens) 0 order\<rparr>)
       (moscow_sort scores pens))"

section \<open>The table\<close>

definition moscow_times ::
  "stand_global \<Rightarrow> runlog \<Rightarrow> int \<Rightarrow> int \<Rightarrow> (int \<times> int \<times> int) option option" where
  "moscow_times g s user_id cur_time0 =
    (let h = head s; dur = rh_duration h;
         times = (if rh_start_time h \<noteq> 0 \<and> sg_is_virtual g \<noteq> 0 \<and> user_id > 0
                  then Option.bind (run_get_virtual_start_time user_id s) (\<lambda>(start, s').
                       map_option (\<lambda>(stop, _). (start, stop)) (run_get_virtual_stop_time user_id 0 s'))
                  else Some (rh_start_time h, rh_stop_time h)) in
     case times of
       None \<Rightarrow> None
     | Some (start_time, stop_time0) \<Rightarrow>
         let stop_time = (if start_time \<noteq> 0 \<and> stop_time0 = 0 \<and> cur_time0 \<ge> start_time + dur
                          then start_time + dur else stop_time0);
             cur1 = (if start_time \<noteq> 0 \<and> cur_time0 < start_time then start_time else cur_time0);
             cur_time = (if stop_time \<noteq> 0 \<and> cur1 > stop_time then stop_time else cur1) in
         if start_time = 0 then Some None
         else Some (Some (start_time, cur_time, cur_time - start_time)))"

text \<open>\<open>u_rev0\<close> is what the stack holds where \<open>u_rev\<close> is allocated.\<close>

definition moscow_setup ::
  "stand_global \<Rightarrow> teamdb \<Rightarrow> problem option list \<Rightarrow> runlog \<Rightarrow> int list \<Rightarrow> int \<Rightarrow> int \<Rightarrow> int \<Rightarrow> int \<Rightarrow> int
    \<Rightarrow> (nat \<Rightarrow> bool) \<Rightarrow> (nat \<Rightarrow> bool) \<Rightarrow> (nat \<Rightarrow> bool) \<Rightarrow> moscow_ctx option" where
  "moscow_setup g tdb probs s u_rev0 client_flag user_id start_time cur_time cur_dur keep_user keep_prob keep_run =
    (let u_max = stand_t_max g tdb s;
         u_runs = (if stand_prunes g then moscow_prune (log s) u_max else replicate u_max True) in
     case teamdb_get_user_map tdb u_max u_runs (take u_max u_rev0) keep_user of
       None \<Rightarrow> None
     | Some (u_rev, u_ind) \<Rightarrow>
         (case get_problem_map cur_time probs keep_prob None of
            None \<Rightarrow> None
          | Some (p_rev, p_ind, _) \<Rightarrow>
              Some \<lparr>mc_global = g, mc_probs = probs, mc_log = s, mc_u_rev = u_rev, mc_u_ind = u_ind,
                mc_p_rev = alias_columns cur_time probs p_rev, mc_p_ind = p_ind,
                mc_start_time = start_time, mc_dur = rh_duration (head s), mc_cur_dur = cur_dur,
                mc_client_flag = client_flag, mc_user_id = user_id, mc_keep = keep_run\<rparr>))"

definition do_write_moscow_standings ::
  "stand_global \<Rightarrow> teamdb \<Rightarrow> problem option list \<Rightarrow> runlog \<Rightarrow> int list \<Rightarrow> int \<Rightarrow> int \<Rightarrow> int
    \<Rightarrow> (nat \<Rightarrow> bool) \<Rightarrow> (nat \<Rightarrow> bool) \<Rightarrow> (nat \<Rightarrow> bool) \<Rightarrow> moscow_standings option option" where
  "do_write_moscow_standings g tdb probs s u_rev0 client_flag user_id cur_time0 keep_user keep_prob keep_run =
    (case moscow_times g s user_id cur_time0 of
       None \<Rightarrow> None
     | Some None \<Rightarrow> Some None
     | Some (Some (start_time, cur_time, cur_dur)) \<Rightarrow>
         Option.bind (moscow_setup g tdb probs s u_rev0 client_flag user_id start_time cur_time cur_dur
                        keep_user keep_prob keep_run) (\<lambda>c.
         Option.bind (moscow_scan c) (\<lambda>a. map_option Some (moscow_rank c a))))"

text \<open>A row of the raw table.\<close>

definition moscow_raw_row ::
  "moscow_standings \<Rightarrow> nat \<Rightarrow> nat \<times> nat \<times> nat \<times> (int \<times> int \<times> int \<times> int \<times> int) list \<times> int \<times> int" where
  "moscow_raw_row st i =
    (let c = ms_ctx st; u = ms_sort st ! i in
     (fst (ms_places st ! i) + 1, snd (ms_places st ! i) + 1, mc_u_ind c ! u,
      map (\<lambda>x. (up_solved x, up_score x, up_att x, up_time x, up_totatt x)) (moscow_row c (ms_table st) u),
      ms_scores st ! u, ms_pens st ! u))"

end
