(* ===== verification/Moscow_Laws.thy ===== *)
theory Moscow_Laws
  imports Stand_Moscow
begin

text \<open>
  What the Moscow table says: a cell in terms of the runs of its user, and the places in terms of
  the totals.
\<close>

section \<open>The reference\<close>

definition m_run :: "moscow_ctx \<Rightarrow> nat \<Rightarrow> run_entry" where
  "m_run c k = log (mc_log c) ! k"

definition m_prob :: "moscow_ctx \<Rightarrow> nat \<Rightarrow> problem" where
  "m_prob c k = the (mc_probs c ! nat (re_prob_id (m_run c k)))"

definition m_user :: "moscow_ctx \<Rightarrow> nat \<Rightarrow> nat" where
  "m_user c k = nat (mc_u_rev c ! nat (re_user_id (m_run c k)))"

definition m_col :: "moscow_ctx \<Rightarrow> nat \<Rightarrow> nat" where
  "m_col c k = nat (mc_p_rev c ! nat (re_prob_id (m_run c k)))"

text \<open>A run that waits for its verdict.\<close>

definition m_transient :: "moscow_ctx \<Rightarrow> nat \<Rightarrow> bool" where
  "m_transient c k \<longleftrightarrow> re_status (m_run c k) \<ge> RUN_TRANSIENT_FIRST \<and> re_status (m_run c k) \<le> RUN_TRANSIENT_LAST
     \<or> re_status (m_run c k) = RUN_PENDING"

text \<open>Run \<open>k\<close> is shown in the table, in the cell of user \<open>u\<close> and column \<open>p\<close>.\<close>

definition m_in :: "moscow_ctx \<Rightarrow> nat \<Rightarrow> nat \<Rightarrow> nat \<Rightarrow> bool" where
  "m_in c u p k \<longleftrightarrow> moscow_counts c k (m_run c k) \<and> \<not> m_transient c k
     \<and> (\<exists>x. moscow_time c (m_run c k) = Some (Take x)) \<and> m_user c k = u \<and> m_col c k = p"

definition m_ok :: "moscow_ctx \<Rightarrow> nat \<Rightarrow> bool" where
  "m_ok c k \<longleftrightarrow> re_status (m_run c k) = RUN_OK"

definition m_failed :: "moscow_ctx \<Rightarrow> nat \<Rightarrow> bool" where
  "m_failed c k \<longleftrightarrow> run_is_failed_attempt (re_status (m_run c k)) \<noteq> 0"

definition m_attempt :: "moscow_ctx \<Rightarrow> nat \<Rightarrow> bool" where
  "m_attempt c k \<longleftrightarrow> m_ok c k \<or> m_failed c k
     \<or> moscow_rejected (re_status (m_run c k)) \<and> pb_ignore_compile_errors (m_prob c k) = 0"

text \<open>The runs of a cell up to the first success.\<close>

fun upto_first :: "('a \<Rightarrow> bool) \<Rightarrow> 'a list \<Rightarrow> 'a list" where
  "upto_first P [] = []"
| "upto_first P (x # xs) = (if P x then [x] else x # upto_first P xs)"

definition m_runs :: "moscow_ctx \<Rightarrow> nat \<Rightarrow> nat \<Rightarrow> nat \<Rightarrow> nat list" where
  "m_runs c n u p = upto_first (m_ok c) (filter (m_in c u p) [0..<n])"

definition m_full :: "moscow_ctx \<Rightarrow> nat \<Rightarrow> int" where
  "m_full c k = (if pb_variable_full_score (m_prob c k) \<noteq> 0 then re_score (m_run c k)
     else pb_full_score (m_prob c k))"

text \<open>The score of a list of runs: of the success that ends it, or the best of the failures.\<close>

definition m_score :: "moscow_ctx \<Rightarrow> nat list \<Rightarrow> int" where
  "m_score c ks =
    (if ks \<noteq> [] \<and> m_ok c (last ks) then m_full c (last ks)
     else Max (insert 0 ((\<lambda>k. re_score (m_run c k)) ` {k \<in> set ks. m_failed c k})))"

definition moscow_says :: "moscow_ctx \<Rightarrow> nat list \<Rightarrow> moscow_cell \<Rightarrow> bool" where
  "moscow_says c ks x \<longleftrightarrow>
     (up_solved x \<noteq> 0 \<longleftrightarrow> (\<exists>k \<in> set ks. m_ok c k)) \<and> up_score x = m_score c ks \<and>
     up_totatt x = int (length (filter (m_attempt c) ks))"

section \<open>One more run\<close>

lemma upto_first_snoc:
  "upto_first P (xs @ [x]) = (if \<exists>y \<in> set xs. P y then upto_first P xs else upto_first P xs @ [x])"
  by (induction xs) auto

lemma upto_first_ex: "(\<exists>y \<in> set (upto_first P xs). P y) \<longleftrightarrow> (\<exists>y \<in> set xs. P y)"
  by (induction xs) auto

lemma m_runs_Suc: "m_runs c (Suc n) u p =
    (if m_in c u p n \<and> \<not> (\<exists>k \<in> set (m_runs c n u p). m_ok c k) then m_runs c n u p @ [n] else m_runs c n u p)"
  by (auto simp: m_runs_def upto_first_snoc upto_first_ex)

lemma failed_not_m_ok: "m_failed c k \<Longrightarrow> \<not> m_ok c k"
  by (auto simp: m_failed_def m_ok_def run_is_failed_attempt_def is_failed_attempt_table_def c_bool_def)

lemma m_score_snoc:
  assumes "\<not> (\<exists>k \<in> set ks. m_ok c k)"
  shows "m_score c (ks @ [n]) =
    (if m_ok c n then m_full c n
     else if m_failed c n then max (m_score c ks) (re_score (m_run c n)) else m_score c ks)"
proof -
  have no: "\<not> (ks \<noteq> [] \<and> m_ok c (last ks))" using assms last_in_set by blast
  have "{k \<in> set (ks @ [n]). m_failed c k} =
      (if m_failed c n then insert n {k \<in> set ks. m_failed c k} else {k \<in> set ks. m_failed c k})" by auto
  note set_eq = this
  show ?thesis
  proof (cases "m_ok c n")
    case False
    then have neg: "\<not> (ks @ [n] \<noteq> [] \<and> m_ok c (last (ks @ [n])))" by simp
    show ?thesis
      unfolding m_score_def if_not_P [OF no] if_not_P [OF neg] set_eq
      using False by (simp add: Max_insert_0 del: Max_insert)
  qed (simp add: m_score_def)
qed

lemma moscow_cell_says:
  assumes "moscow_cell_step c (m_run c n) (m_prob c n) run_time udur x = Some y"
    and "moscow_says c ks x" and "\<not> (\<exists>k \<in> set ks. m_ok c k)"
  shows "moscow_says c (ks @ [n]) y"
  using assms failed_not_m_ok [of c n]
  by (auto simp: moscow_cell_step_def moscow_says_def m_score_snoc m_attempt_def m_ok_def m_failed_def
      moscow_better_def moscow_attempt_def m_full_def Let_def max_def split: if_splits)

section \<open>The scan\<close>

definition moscow_inv :: "moscow_ctx \<Rightarrow> nat \<Rightarrow> moscow_table \<Rightarrow> bool" where
  "moscow_inv c n a \<longleftrightarrow>
     length (m_cells a) = length (mc_u_ind c) * row_sz (length (mc_p_ind c)) \<and>
     length (p_att a) = length (mc_p_ind c) \<and>
     (\<forall>u < length (mc_u_ind c). \<forall>p < length (mc_p_ind c).
        moscow_says c (m_runs c n u p) (m_cells a ! (u * row_sz (length (mc_p_ind c)) + p)))"

lemma moscow_note_simps [simp]:
  "m_cells (moscow_note c k pe prob p ustart a) = m_cells a"
  "length (p_att (moscow_note c k pe prob p ustart a)) = length (p_att a)"
  by (simp_all add: moscow_note_def Let_def)

text \<open>What a step does: nothing, or one cell, for its run.\<close>

lemma moscow_step_cases:
  assumes "moscow_step c n a = Some a'" and "moscow_inv c n a"
  obtains
    (skip) "m_cells a' = m_cells a" "length (p_att a') = length (p_att a)"
      "\<And>u p. m_in c u p n \<Longrightarrow> u < length (mc_u_ind c) \<and> p < length (mc_p_ind c) \<and> (\<exists>k \<in> set (m_runs c n u p). m_ok c k)"
  | (wait) u p where "u < length (mc_u_ind c)" "p < length (mc_p_ind c)"
      "m_cells a' = (m_cells a)[u * row_sz (length (mc_p_ind c)) + p :=
        (m_cells a ! (u * row_sz (length (mc_p_ind c)) + p))\<lparr>up_trans := 1\<rparr>]"
      "length (p_att a') = length (p_att a)" "\<And>u p. \<not> m_in c u p n"
  | (count) y u p where "u < length (mc_u_ind c)" "p < length (mc_p_ind c)" "m_in c u p n"
      "\<not> (\<exists>k \<in> set (m_runs c n u p). m_ok c k)"
      "m_cells a' = (m_cells a)[u * row_sz (length (mc_p_ind c)) + p := y]"
      "length (p_att a') = length (p_att a)" "moscow_says c (m_runs c n u p @ [n]) y"
proof (cases "moscow_counts c n (m_run c n)")
  case False
  then have "a' = a" using assms(1) by (simp add: moscow_step_def m_run_def Let_def)
  then show thesis using False by (intro skip) (auto simp: m_in_def)
next
  case True
  let ?pe = "m_run c n" and ?P = "length (mc_p_ind c)"
  let ?u = "m_user c n" and ?p = "m_col c n"
  let ?i = "?u * row_sz ?P + ?p"
  let ?x = "m_cells a ! ?i"
  have step: "moscow_count c n ?pe a = Some a'" using assms(1) True by (simp add: moscow_step_def m_run_def Let_def)
  then have ilt: "?i < length (m_cells a)" and plt: "?p < ?P"
    using assms(2) by (auto simp: moscow_count_def Let_def m_user_def m_col_def moscow_inv_def not_le split: if_splits)
  have "?u * row_sz ?P < length (mc_u_ind c) * row_sz ?P" using ilt assms(2) unfolding moscow_inv_def by linarith
  then have ult: "?u < length (mc_u_ind c)" by simp
  have says: "moscow_says c (m_runs c n ?u ?p) ?x" using assms(2) ult plt by (simp add: moscow_inv_def)
  have here: "m_in c u p n \<Longrightarrow> u = ?u \<and> p = ?p" for u p by (simp add: m_in_def)
  have bounds: "\<not> (?i \<ge> length (m_cells a) \<or> ?p \<ge> length (p_att a))"
    using ilt plt assms(2) by (simp add: moscow_inv_def)
  have rest: "(if up_solved ?x \<noteq> 0 then Some a
     else if m_transient c n then Some (a\<lparr>m_cells := (m_cells a)[?i := ?x\<lparr>up_trans := 1\<rparr>]\<rparr>)
     else
       case (moscow_time c ?pe, mc_probs c ! nat (re_prob_id ?pe)) of
         (Some Skip, _) \<Rightarrow> Some a
       | (Some (Take (run_time, ustart, udur)), Some prob) \<Rightarrow>
           (case moscow_cell_step c ?pe prob run_time udur ?x of
              None \<Rightarrow> None
            | Some y \<Rightarrow> Some (moscow_note c n ?pe prob ?p ustart (a\<lparr>m_cells := (m_cells a)[?i := y]\<rparr>)))
       | _ \<Rightarrow> None) = Some a'"
    using step unfolding moscow_count_def Let_def m_user_def [symmetric] m_col_def [symmetric]
      m_transient_def [symmetric] if_not_P [OF bounds] .
  consider (solved) "up_solved ?x \<noteq> 0" "a' = a"
    | (trans) "up_solved ?x = 0" "m_transient c n" "a' = a\<lparr>m_cells := (m_cells a)[?i := ?x\<lparr>up_trans := 1\<rparr>]\<rparr>"
    | (hid) "moscow_time c ?pe = Some Skip" "a' = a"
    | (go) run_time ustart udur y where "up_solved ?x = 0" "\<not> m_transient c n"
        "moscow_time c ?pe = Some (Take (run_time, ustart, udur))"
        "moscow_cell_step c ?pe (m_prob c n) run_time udur ?x = Some y"
        "m_cells a' = (m_cells a)[?i := y]" "length (p_att a') = length (p_att a)"
    using rest by (auto simp: m_prob_def split: if_splits option.splits pick.splits prod.splits)
  then show thesis
  proof cases
    case solved
    then show thesis using here ult plt says by (intro skip) (auto simp: moscow_says_def)
  next
    case trans
    then show thesis using ult plt by (intro wait [of ?u ?p]) (auto simp: m_in_def)
  next
    case hid
    then show thesis by (intro skip) (auto simp: m_in_def)
  next
    case go
    have no: "\<not> (\<exists>k \<in> set (m_runs c n ?u ?p). m_ok c k)" using go(1) says by (simp add: moscow_says_def)
    have "moscow_says c (m_runs c n ?u ?p @ [n]) y" using moscow_cell_says [OF go(4) says no] .
    then show thesis using go True no ult plt by (intro count [of ?u ?p y]) (auto simp: m_in_def)
  qed
qed

lemma moscow_says_trans: "moscow_says c ks x \<Longrightarrow> moscow_says c ks (x\<lparr>up_trans := 1\<rparr>)"
  by (simp add: moscow_says_def)

text \<open>Replacing the cell of \<open>u\<close> and \<open>p\<close> leaves the others.\<close>

lemma moscow_inv_update:
  assumes "moscow_inv c n a" and "u < length (mc_u_ind c)" "p < length (mc_p_ind c)"
    and "m_cells a' = (m_cells a)[u * row_sz (length (mc_p_ind c)) + p := y]"
    and "length (p_att a') = length (p_att a)" and "moscow_says c (m_runs c (Suc n) u p) y"
    and "\<And>v q. (v, q) \<noteq> (u, p) \<Longrightarrow> m_runs c (Suc n) v q = m_runs c n v q"
  shows "moscow_inv c (Suc n) a'"
proof -
  let ?P = "length (mc_p_ind c)"
  have "moscow_says c (m_runs c (Suc n) v q) (m_cells a' ! (v * row_sz ?P + q))"
    if "v < length (mc_u_ind c)" "q < ?P" for v q
  proof -
    have "q < row_sz ?P" "p < row_sz ?P" using that(2) assms(3) row_sz_ge [of ?P] by linarith+
    then have ne: "(v, q) \<noteq> (u, p) \<Longrightarrow> v * row_sz ?P + q \<noteq> u * row_sz ?P + p" using cell_index by blast
    have "u * row_sz ?P + p < length (m_cells a)"
      using cell_index_lt [OF assms(2) \<open>p < row_sz ?P\<close>] assms(1) by (simp add: moscow_inv_def)
    then show ?thesis
      using assms(1,4,6,7) ne that by (cases "(v, q) = (u, p)") (simp_all add: moscow_inv_def)
  qed
  then show ?thesis using assms(1,4,5) by (simp add: moscow_inv_def)
qed

lemma moscow_step_inv:
  assumes "moscow_step c n a = Some a'" and inv: "moscow_inv c n a"
  shows "moscow_inv c (Suc n) a'"
  using assms
proof (cases rule: moscow_step_cases)
  case skip
  then have "m_runs c (Suc n) u p = m_runs c n u p" for u p by (auto simp: m_runs_Suc)
  then show ?thesis using inv skip(1,2) by (simp add: moscow_inv_def)
next
  case (wait u p)
  then have same: "m_runs c (Suc n) v q = m_runs c n v q" for v q by (simp add: m_runs_Suc)
  have "moscow_says c (m_runs c n u p) (m_cells a ! (u * row_sz (length (mc_p_ind c)) + p))"
    using inv wait(1,2) by (simp add: moscow_inv_def)
  then show ?thesis
    using moscow_inv_update [OF inv wait(1-4)] moscow_says_trans same by metis
next
  case (count y u p)
  have "m_runs c (Suc n) u p = m_runs c n u p @ [n]" using count(3,4) by (simp add: m_runs_Suc)
  moreover have "m_runs c (Suc n) v q = m_runs c n v q" if "(v, q) \<noteq> (u, p)" for v q
    using that count(3) by (auto simp: m_runs_Suc m_in_def)
  ultimately show ?thesis using moscow_inv_update [OF inv count(1,2,5,6)] count(7) by simp
qed

lemma moscow_inv_scan: "moscow_scan c = Some a \<Longrightarrow> moscow_inv c (length (log (mc_log c))) a"
proof -
  have "fold_opt (moscow_step c) [0..<n] (moscow_empty c) = Some a \<Longrightarrow> moscow_inv c n a" for n
  proof (induction n arbitrary: a)
    case 0
    have "u * row_sz P + p < U * row_sz P" if "u < U" "p < P" for u U p P :: nat
      using cell_index_lt [of u U p "row_sz P"] that row_sz_ge [of P] by simp
    then have "moscow_inv c 0 (moscow_empty c)"
      by (simp add: moscow_inv_def moscow_empty_def Let_def moscow_says_def m_runs_def m_score_def moscow_zero_def)
    then show ?case using 0 by (metis fold_opt.simps(1) option.inject upt_0)
  next
    case (Suc n)
    then show ?case
      by (auto simp: fold_opt_append bind_eq_Some_conv split: Option.bind_splits intro: moscow_step_inv)
  qed
  then show "moscow_scan c = Some a \<Longrightarrow> ?thesis" unfolding moscow_scan_def .
qed

definition small_moscow :: moscow_ctx where
  "small_moscow =
    \<lparr>mc_global = small_global\<lparr>sg_score_system := 3, sg_ignore_success_time := 1\<rparr>,
     mc_probs = [None, Some (small_problem\<lparr>pb_full_score := 2, pb_acm_run_penalty := 1\<rparr>)],
     mc_log = small_log, mc_u_rev = [- 1, 0, 1], mc_u_ind = [1, 2], mc_p_rev = [- 1, 0], mc_p_ind = [1],
     mc_start_time = 1000, mc_dur = 18000, mc_cur_dur = 4000, mc_client_flag = 0, mc_user_id = 0,
     mc_keep = (\<lambda>_. True)\<rparr>"

lemma small_moscow_eq:
  "\<exists>a st. moscow_scan small_moscow = Some a \<and> moscow_rank small_moscow a = Some st \<and>
    ms_scores st = [2, 2] \<and> ms_pens st = [1, 0] \<and> ms_sort st = [1, 0] \<and>
    length (mc_u_ind small_moscow) = 2 \<and> length (mc_p_ind small_moscow) = 1"
proof -
  have "Option.bind (moscow_scan small_moscow) (\<lambda>a. map_option (\<lambda>st. (ms_scores st, ms_pens st, ms_sort st))
      (moscow_rank small_moscow a)) = Some ([2, 2], [1, 0], [1, 0])"
    by code_simp
  then show ?thesis by (auto simp: bind_eq_Some_conv small_moscow_def)
qed

text \<open>
  C6: in the Moscow table a problem is solved when some visible run of the user is accepted; the
  score is the one of the first accepted run, or else the best of the failed runs; and the attempts
  are the counted runs up to the first accepted one.
\<close>

theorem moscow_cells:
  assumes "moscow_scan c = Some a" and "u < length (mc_u_ind c)" and "p < length (mc_p_ind c)"
    and "x = moscow_row c a u ! p" and "ks = m_runs c (length (log (mc_log c))) u p"
  shows "(up_solved x \<noteq> 0 \<longleftrightarrow> (\<exists>k \<in> set ks. m_ok c k)) \<and> up_score x = m_score c ks \<and>
    up_totatt x = int (length (filter (m_attempt c) ks))"
  using moscow_inv_scan [OF assms(1)] assms(2-5)
  by (simp add: moscow_inv_def moscow_row_def Let_def moscow_says_def)

theorem moscow_cells_witness:
  "\<exists>a. moscow_scan small_moscow = Some a \<and> up_score (moscow_row small_moscow a 0 ! 0) =
     m_score small_moscow (m_runs small_moscow (length (log (mc_log small_moscow))) 0 0)"
proof -
  obtain a where "moscow_scan small_moscow = Some a" "0 < length (mc_u_ind small_moscow)"
    "0 < length (mc_p_ind small_moscow)"
    using small_moscow_eq by (auto simp: small_moscow_def)
  then show ?thesis using moscow_cells [OF _ _ _ refl refl] by blast
qed

section \<open>The order and the places\<close>

text \<open>More score is better; with as much score, less penalty is.\<close>

definition moscow_ahead :: "moscow_standings \<Rightarrow> nat \<Rightarrow> nat \<Rightarrow> bool" where
  "moscow_ahead st a b \<longleftrightarrow> ms_scores st ! a > ms_scores st ! b
     \<or> ms_scores st ! a = ms_scores st ! b \<and> ms_pens st ! a < ms_pens st ! b"

lemma max_key_nonneg: "ks \<noteq> [] \<Longrightarrow> (\<And>k. k \<in> set ks \<Longrightarrow> 0 \<le> k) \<Longrightarrow> 0 \<le> max_key ks"
  using max_key_ge [of "hd ks" ks] hd_in_set order_trans by metis

lemma moscow_sort_key:
  assumes "moscow_sort scores pens = Some order" and "length scores = length pens"
    and s: "\<And>k. k \<in> set scores \<Longrightarrow> 0 \<le> k" and p: "\<And>k. k \<in> set pens \<Longrightarrow> 0 \<le> k"
  shows "order = sort_key (\<lambda>t. (- (scores ! t), pens ! t)) [0..<length pens]"
proof (cases "pens = []")
  case True
  then show ?thesis using assms(1,2) by (simp add: moscow_sort_def max_key_def)
next
  case False
  then have ne: "scores \<noteq> []" using assms(2) by auto
  let ?mid = "sort_key (\<lambda>t. pens ! t) [0..<length pens]"
  have "sort_key (\<lambda>t. int (nat (pens ! t))) [0..<length pens] = ?mid"
    using p by (intro sort_key_cong_set) simp
  then have mid: "counting_sort table_up pens [0..<length pens] = Some ?mid"
    using tab_up.counting_sort_correct [OF False p, of "[0..<length pens]"] by (simp add: ascending_def)
  have "sort_key (\<lambda>t. - int (nat (scores ! t))) ?mid = sort_key (\<lambda>t. - (scores ! t)) ?mid"
    using s assms(2) by (intro sort_key_cong_set) simp
  then have "counting_sort table_down scores ?mid = Some (sort_key (\<lambda>t. - (scores ! t)) ?mid)"
    using tab_down.counting_sort_correct [OF ne s, of ?mid] assms(2) by (simp add: descending_def)
  then show ?thesis
    using assms(1) mid max_key_nonneg [OF False p] max_key_nonneg [OF ne s]
    by (simp add: moscow_sort_def sort_key_lex)
qed

text \<open>
  C35: the Moscow table lists every user once, best first by score and then by penalty, with the
  range of places from the number of users that are ahead to the number of those that are not behind.
\<close>

theorem moscow_places:
  assumes "moscow_rank c a = Some st" and "n = length (mc_u_ind c)"
    and "\<forall>v \<in> set (ms_scores st) \<union> set (ms_pens st). 0 \<le> v"
  shows "mset (ms_sort st) = mset [0..<n] \<and>
    (\<forall>i < n. \<forall>j < i. \<not> moscow_ahead st (ms_sort st ! i) (ms_sort st ! j)) \<and>
    (\<forall>i < n. ms_places st ! i =
       (card {u. u < n \<and> moscow_ahead st u (ms_sort st ! i)},
        card {u. u < n \<and> \<not> moscow_ahead st (ms_sort st ! i) u} - 1))"
proof -
  let ?f = "\<lambda>t. (- (ms_scores st ! t), ms_pens st ! t)"
  have st: "moscow_sort (ms_scores st) (ms_pens st) = Some (ms_sort st)"
    "ms_places st = ties (moscow_level (ms_scores st) (ms_pens st)) 0 (ms_sort st)"
    "length (ms_scores st) = n" "length (ms_pens st) = n"
    using assms(1,2) by (auto simp: moscow_rank_def Let_def)
  have order: "ms_sort st = sort_key ?f [0..<n]"
    using moscow_sort_key [OF st(1)] assms(3) st(3,4) by simp
  have perm: "mset (ms_sort st) = mset [0..<n]" and sorted: "sorted (map ?f (ms_sort st))"
    unfolding order by simp_all
  have "moscow_ahead st t u \<longleftrightarrow> ?f t < ?f u" "moscow_level (ms_scores st) (ms_pens st) t u \<longleftrightarrow> ?f t = ?f u" for t u
    by (auto simp: moscow_ahead_def less_prod_def moscow_level_def)
  then show ?thesis
    using perm table_places [OF _ sorted perm, of "moscow_level (ms_scores st) (ms_pens st)" "moscow_ahead st"]
    unfolding st(2) by simp
qed

theorem moscow_places_witness:
  "\<exists>a st. moscow_scan small_moscow = Some a \<and> moscow_rank small_moscow a = Some st \<and>
    \<not> moscow_ahead st (ms_sort st ! 1) (ms_sort st ! 0)"
proof -
  obtain a st where s: "moscow_scan small_moscow = Some a" "moscow_rank small_moscow a = Some st"
    "ms_scores st = [2, 2]" "ms_pens st = [1, 0]" "length (mc_u_ind small_moscow) = 2"
    using small_moscow_eq by blast
  have "\<forall>i < 2. \<forall>j < i. \<not> moscow_ahead st (ms_sort st ! i) (ms_sort st ! j)"
    using moscow_places [OF s(2) refl] s(3-5) by simp
  then have "\<not> moscow_ahead st (ms_sort st ! 1) (ms_sort st ! 0)"
    by (metis one_less_numeral_iff semiring_norm(76) zero_less_one)
  then show ?thesis using s by blast
qed

end
