(* ===== verification/Event_Queue.thy ===== *)
theory Event_Queue
  imports Prelude
begin

text \<open>
  The queue of events of a contest (\<open>struct serve_event_queue\<close> of \<open>serve_state.h\<close> and the functions
  \<open>serve_event_*\<close> of \<open>serve_state.c\<close>): a doubly linked list in memory, ordered by time, and the list
  it implements.
\<close>

section \<open>Memory\<close>

text \<open>
  An event, and a node of the list.  A pointer is the address of a node or \<open>None\<close>, the null pointer;
  \<open>ev_handler\<close> tells whether a callback is set.
\<close>

record event =
  ev_time :: int
  ev_type :: int
  ev_user :: int
  ev_handler :: bool
  ev_real_time :: int

record node =
  en_next :: "nat option"
  en_prev :: "nat option"
  en_event :: event

text \<open>\<open>q_fresh\<close> is the allocator: the next address \<open>calloc\<close> gives; a freed address is not used again.\<close>

record queue =
  q_mem :: "nat \<Rightarrow> node option"
  q_first :: "nat option"
  q_last :: "nat option"
  q_fresh :: nat

definition empty_queue :: queue where
  "empty_queue = \<lparr>q_mem = (\<lambda>_. None), q_first = None, q_last = None, q_fresh = 0\<rparr>"

definition load_node :: "queue \<Rightarrow> nat \<Rightarrow> node option" where
  "load_node q a = q_mem q a"

text \<open>A store through a pointer; \<open>None\<close> when it does not point to a node.\<close>

definition store_node :: "nat \<Rightarrow> (node \<Rightarrow> node) \<Rightarrow> queue \<Rightarrow> queue option" where
  "store_node a f q =
     map_option (\<lambda>n. q\<lparr>q_mem := (\<lambda>b. if b = a then Some (f n) else q_mem q b)\<rparr>) (q_mem q a)"

definition free_node :: "nat \<Rightarrow> queue \<Rightarrow> queue option" where
  "free_node a q =
     map_option (\<lambda>_. q\<lparr>q_mem := (\<lambda>b. if b = a then None else q_mem q b)\<rparr>) (q_mem q a)"

definition new_node :: "event \<Rightarrow> queue \<Rightarrow> nat \<times> queue" where
  "new_node e q =
     (q_fresh q, q\<lparr>q_mem := (\<lambda>b. if b = q_fresh q then Some \<lparr>en_next = None, en_prev = None, en_event = e\<rparr>
                           else q_mem q b),
       q_fresh := q_fresh q + 1\<rparr>)"

definition set_next :: "nat option \<Rightarrow> node \<Rightarrow> node" where "set_next p n = n\<lparr>en_next := p\<rparr>"

definition set_prev :: "nat option \<Rightarrow> node \<Rightarrow> node" where "set_prev p n = n\<lparr>en_prev := p\<rparr>"

section \<open>The operations\<close>

text \<open>The first node that is not earlier than \<open>t\<close>.\<close>

partial_function (option) seek :: "queue \<Rightarrow> int \<Rightarrow> nat option \<Rightarrow> nat option option" where
  "seek q t p =
    (case p of
       None \<Rightarrow> Some None
     | Some a \<Rightarrow>
         (case load_node q a of
            None \<Rightarrow> None
          | Some n \<Rightarrow> if ev_time (en_event n) < t then seek q t (en_next n) else Some (Some a)))"

definition link_end :: "nat \<Rightarrow> queue \<Rightarrow> queue option" where
  "link_end e q =
    (case q_first q of
       None \<Rightarrow> Some (q\<lparr>q_first := Some e, q_last := Some e\<rparr>)
     | Some _ \<Rightarrow>
         (case q_last q of
            None \<Rightarrow> None
          | Some l \<Rightarrow>
              Option.bind (store_node e (set_prev (Some l)) q) (\<lambda>q1.
              map_option (\<lambda>q2. q2\<lparr>q_last := Some e\<rparr>) (store_node l (set_next (Some e)) q1))))"

definition link_before :: "nat \<Rightarrow> nat \<Rightarrow> queue \<Rightarrow> queue option" where
  "link_before e p q =
    (case load_node q p of
       None \<Rightarrow> None
     | Some n \<Rightarrow>
         Option.bind
           (case en_prev n of
              None \<Rightarrow> Some (q\<lparr>q_first := Some e\<rparr>)
            | Some b \<Rightarrow> Option.bind (store_node e (set_prev (Some b)) q) (store_node b (set_next (Some e))))
           (\<lambda>q1. Option.bind (store_node p (set_prev (Some e)) q1) (store_node e (set_next (Some p)))))"

definition new_event :: "int \<Rightarrow> int \<Rightarrow> int \<Rightarrow> bool \<Rightarrow> event" where
  "new_event t ty uid handler =
     \<lparr>ev_time = t, ev_type = ty, ev_user = uid, ev_handler = handler, ev_real_time = t\<rparr>"

definition serve_event_add :: "int \<Rightarrow> int \<Rightarrow> int \<Rightarrow> bool \<Rightarrow> queue \<Rightarrow> queue option" where
  "serve_event_add t ty uid handler q0 =
    (if \<not> t > 0 \<or> \<not> ty > 0 \<or> \<not> uid > 0 then None
     else
       case new_node (new_event t ty uid handler) q0 of
         (e, q) \<Rightarrow>
           (case seek q t (q_first q) of
              None \<Rightarrow> None
            | Some None \<Rightarrow> link_end e q
            | Some (Some p) \<Rightarrow> link_before e p q))"

definition serve_event_remove :: "nat \<Rightarrow> queue \<Rightarrow> queue option" where
  "serve_event_remove a q =
    (case load_node q a of
       None \<Rightarrow> None
     | Some n \<Rightarrow>
         Option.bind
           (case en_prev n of
              None \<Rightarrow> Some (q\<lparr>q_first := en_next n\<rparr>)
            | Some b \<Rightarrow> store_node b (set_next (en_next n)) q)
           (\<lambda>q1. Option.bind
             (case en_next n of
                None \<Rightarrow> Some (q1\<lparr>q_last := en_prev n\<rparr>)
              | Some b \<Rightarrow> store_node b (set_prev (en_prev n)) q1)
             (free_node a)))"

partial_function (option) destroy_from :: "nat option \<Rightarrow> queue \<Rightarrow> queue option" where
  "destroy_from p q =
    (case p of
       None \<Rightarrow> Some (q\<lparr>q_first := None, q_last := None\<rparr>)
     | Some a \<Rightarrow>
         (case load_node q a of
            None \<Rightarrow> None
          | Some n \<Rightarrow>
              (case free_node a q of None \<Rightarrow> None | Some q' \<Rightarrow> destroy_from (en_next n) q')))"

definition serve_event_destroy_queue :: "queue \<Rightarrow> queue option" where
  "serve_event_destroy_queue q = destroy_from (q_first q) q"

text \<open>A time, type or user that is not positive matches every event.\<close>

definition event_matches :: "int \<Rightarrow> int \<Rightarrow> int \<Rightarrow> event \<Rightarrow> bool" where
  "event_matches t ty uid e \<longleftrightarrow>
     \<not> (t > 0 \<and> t \<noteq> ev_time e) \<and> \<not> (ty > 0 \<and> ty \<noteq> ev_type e) \<and> \<not> (uid > 0 \<and> uid \<noteq> ev_user e)"

partial_function (option) remove_from ::
  "(event \<Rightarrow> bool) \<Rightarrow> nat option \<Rightarrow> int \<Rightarrow> queue \<Rightarrow> (int \<times> queue) option" where
  "remove_from m p count q =
    (case p of
       None \<Rightarrow> Some (count, q)
     | Some a \<Rightarrow>
         (case load_node q a of
            None \<Rightarrow> None
          | Some n \<Rightarrow>
              if m (en_event n)
              then (case serve_event_remove a q of
                      None \<Rightarrow> None
                    | Some q' \<Rightarrow> remove_from m (en_next n) (count + 1) q')
              else remove_from m (en_next n) count q))"

definition serve_event_remove_matching :: "int \<Rightarrow> int \<Rightarrow> int \<Rightarrow> queue \<Rightarrow> (int \<times> queue) option" where
  "serve_event_remove_matching t ty uid q = remove_from (event_matches t ty uid) (q_first q) 0 q"

section \<open>The list a queue implements\<close>

text \<open>
  \<open>segment m p as n\<close>: the nodes at the addresses \<open>as\<close> are linked in this order, after \<open>p\<close> and before
  \<open>n\<close>.
\<close>

fun segment :: "(nat \<Rightarrow> node option) \<Rightarrow> nat option \<Rightarrow> nat list \<Rightarrow> nat option \<Rightarrow> bool" where
  "segment mem p [] n = True"
| "segment mem p (a # as) n =
    ((case mem a of None \<Rightarrow> False
      | Some x \<Rightarrow> en_prev x = p \<and> en_next x = (case as of [] \<Rightarrow> n | b # _ \<Rightarrow> Some b))
     \<and> segment mem (Some a) as n)"

definition first_of :: "nat list \<Rightarrow> nat option \<Rightarrow> nat option" where
  "first_of as n = (case as of [] \<Rightarrow> n | b # _ \<Rightarrow> Some b)"

definition last_of :: "nat option \<Rightarrow> nat list \<Rightarrow> nat option" where
  "last_of p as = (if as = [] then p else Some (last as))"

definition chained :: "queue \<Rightarrow> nat list \<Rightarrow> bool" where
  "chained q as \<longleftrightarrow> distinct as \<and> segment (q_mem q) None as None \<and> q_first q = first_of as None
     \<and> q_last q = last_of None as \<and> (\<forall>a. q_mem q a \<noteq> None \<longleftrightarrow> a \<in> set as) \<and> (\<forall>a \<in> set as. a < q_fresh q)"

definition event_at :: "queue \<Rightarrow> nat \<Rightarrow> event" where
  "event_at q a = en_event (the (q_mem q a))"

definition events_of :: "queue \<Rightarrow> nat list \<Rightarrow> event list" where
  "events_of q as = map (event_at q) as"

lemma first_of_simps [simp]: "first_of [] n = n" "first_of (a # as) n = Some a"
  by (simp_all add: first_of_def)

lemma last_of_simps [simp]: "last_of p [] = p" "last_of p (a # as) = last_of (Some a) as"
  "last_of p (as @ [a]) = Some a"
  by (simp_all add: last_of_def)

lemma first_of_append [simp]: "first_of (as @ bs) n = first_of as (first_of bs n)"
  by (cases as) simp_all

lemma last_of_append [simp]: "last_of p (as @ bs) = last_of (last_of p as) bs"
  by (simp add: last_of_def)

lemma segment_Cons: "segment mem p (a # as) n \<longleftrightarrow>
    (\<exists>x. mem a = Some x \<and> en_prev x = p \<and> en_next x = first_of as n) \<and> segment mem (Some a) as n"
  by (auto simp: first_of_def split: option.splits)

declare segment.simps(2) [simp del]
declare segment_Cons [simp]

lemma segment_append:
  "segment mem p (as @ bs) n \<longleftrightarrow> segment mem p as (first_of bs n) \<and> segment mem (last_of p as) bs n"
  by (induction as arbitrary: p) auto

lemma segment_cong:
  "\<forall>a \<in> set as. mem' a = mem a \<Longrightarrow> segment mem' p as n = segment mem p as n"
  by (induction as arbitrary: p) auto

end
