(* ===== verification/Virtual_Events.thy ===== *)
theory Virtual_Events
  imports Runlog Run_Queries Event_Queue
begin

text \<open>
  Virtual contests: the events of a server and what it does with them (\<open>serve_2.c\<close>), the requests that
  start and stop the contest of a participant (\<open>new_server_html.c\<close>), and the events a restarted server
  puts into its queue (\<open>serve_collect_virtual_stop_events\<close>).  An operation is \<open>None\<close> when the process
  aborts.  Files of runs, audit records and messages are left out.
\<close>

section \<open>The server\<close>

text \<open>
  \<open>ct_olympiad\<close> is \<open>score_system == SCORE_OLYMPIAD\<close>; \<open>ct_probs\<close> is the table of problems by id, with
  \<open>None\<close> for a null pointer.  \<open>ct_clock\<close> is what \<open>gettimeofday\<close> gives, in seconds and microseconds, when
  an event is handled, \<open>ct_rnd\<close> the random number of the storage plugin, and \<open>ct_rejudge\<close> the effect on the
  log of queueing a run for testing, which the run's sources and the compile servers decide.
\<close>

record olympiad_problem =
  op_type :: int
  op_disable_testing :: int
  op_disable_auto_testing :: int

record contest =
  ct_olympiad :: bool
  ct_is_virtual :: int
  ct_disable_virtual_start :: int
  ct_disable_virtual_auto_judge :: int
  ct_open_time :: int
  ct_close_time :: int
  ct_max_prob :: int
  ct_probs :: "olympiad_problem option list"
  ct_clock :: "event \<Rightarrow> int \<times> int"
  ct_rnd :: nat
  ct_rejudge :: "int \<Rightarrow> runlog \<Rightarrow> runlog"

record server =
  sv_log :: runlog
  sv_queue :: queue
  sv_time :: int

definition SERVE_EVENT_VIRTUAL_STOP :: int where [simp]: "SERVE_EVENT_VIRTUAL_STOP = 1"
definition SERVE_EVENT_JUDGE_OLYMPIAD :: int where [simp]: "SERVE_EVENT_JUDGE_OLYMPIAD = 2"

text \<open>An operation on the queue of a server.\<close>

definition on_queue :: "(queue \<Rightarrow> queue option) \<Rightarrow> server \<Rightarrow> server option" where
  "on_queue f sv = map_option (\<lambda>q. sv\<lparr>sv_queue := q\<rparr>) (f (sv_queue sv))"

section \<open>The log of a server\<close>

definition serve_count_transient_runs :: "runlog \<Rightarrow> int" where
  "serve_count_transient_runs s =
     int (length (filter (\<lambda>r. transient_status (re_status (runs s ! r))) [0..<run_u s]))"

text \<open>
  The part of \<open>serve_move_files_to_insert_run\<close> that is about the log: for every moved run, unless the
  entry before it is stored by UUID, the list of the runs of its user becomes stale.
\<close>

definition move_step :: "nat \<Rightarrow> runlog \<Rightarrow> runlog" where
  "move_step i s = (if re_store_flags (runs s ! i) = 1 then s else snd (run_clear_index (int i + 1) s))"

definition serve_move_files_to_insert_run :: "int \<Rightarrow> runlog \<Rightarrow> runlog option" where
  "serve_move_files_to_insert_run rid s =
    (if rid < 0 \<or> rid \<ge> int (run_u s) then None
     else if rid = int (run_u s) - 1 then Some s
     else Some (fold move_step (rev [nat rid..<run_u s - 1]) s))"

section \<open>Judging the contest of an Olympiad participant\<close>

definition PROB_TYPE_STANDARD :: int where [simp]: "PROB_TYPE_STANDARD = 0"

text \<open>
  The search for the latest run of each problem, back from the stop event to the start event.
  \<open>None\<close> when there is no start event.
\<close>

definition judged_status :: "olympiad_problem \<Rightarrow> int \<Rightarrow> bool" where
  "judged_status prob s \<longleftrightarrow>
     s = RUN_OK \<or> s = RUN_PARTIAL \<or> s = RUN_ACCEPTED \<or> s = RUN_PENDING_REVIEW
       \<or> s = RUN_WRONG_ANSWER_ERR \<and> op_type prob \<noteq> PROB_TYPE_STANDARD"

definition contest_problem :: "contest \<Rightarrow> int \<Rightarrow> olympiad_problem option" where
  "contest_problem c pid = (if pid > 0 \<and> pid \<le> ct_max_prob c then ct_probs c ! nat pid else None)"

fun latest_runs :: "contest \<Rightarrow> int \<Rightarrow> (nat \<times> run_entry) list \<Rightarrow> int list \<Rightarrow> int list option" where
  "latest_runs c uid [] latest = None"
| "latest_runs c uid ((i, re) # es) latest =
    (if run_is_valid_status (re_status re) = 0 then latest_runs c uid es latest
     else if re_status re = RUN_EMPTY then latest_runs c uid es latest
     else if re_user_id re \<noteq> uid then latest_runs c uid es latest
     else if re_status re = RUN_VIRTUAL_START then Some latest
     else
       (case contest_problem c (re_prob_id re) of
          None \<Rightarrow> latest_runs c uid es latest
        | Some prob \<Rightarrow>
            if op_disable_testing prob \<noteq> 0 \<or> op_disable_auto_testing prob \<noteq> 0 then latest_runs c uid es latest
            else if \<not> judged_status prob (re_status re) then latest_runs c uid es latest
            else latest_runs c uid es
              (if latest ! nat (re_prob_id re) < 0 then latest[nat (re_prob_id re) := int i] else latest)))"

definition serve_judge_virtual_olympiad :: "contest \<Rightarrow> int \<Rightarrow> int \<Rightarrow> runlog \<Rightarrow> runlog option" where
  "serve_judge_virtual_olympiad c uid rid s =
    (let vs = run_get_virtual_start_entry uid s in
     if \<not> ct_olympiad c \<or> ct_is_virtual c = 0 then Some s
     else if uid \<le> 0 then Some s
     else if vs < 0 then Some s
     else if re_judge_id (runs s ! nat vs) > 0 then Some s
     else if rid < 0 then Some s
     else if fst (run_get_entry rid s) < 0 then Some s
     else if re_status (runs s ! nat rid) \<noteq> RUN_VIRTUAL_STOP then Some s
     else if ct_max_prob c \<le> 0 then Some s
     else
       (case latest_runs c uid (rev (take (nat rid) (enumerate 0 (log s))))
               (replicate (nat (ct_max_prob c) + 1) (-1)) of
          None \<Rightarrow> Some s
        | Some latest \<Rightarrow>
            map_option snd (run_set_judge_id (re_run_id (runs s ! nat vs)) 1
              (fold (ct_rejudge c) (filter (\<lambda>r. r \<ge> 0) (tl latest)) s))))"

section \<open>Handling an event\<close>

text \<open>The nanoseconds of a stop event: -1 when it is late.  \<open>None\<close> leaves the event in the queue.\<close>

definition stop_nsec :: "contest \<Rightarrow> event \<Rightarrow> server \<Rightarrow> int option" where
  "stop_nsec c e sv =
    (if ev_time e < sv_time sv then
       (if serve_count_transient_runs (sv_log sv) > 0 then None else Some (-1))
     else
       (case ct_clock c e of (sec, usec) \<Rightarrow> Some (if sec \<noteq> sv_time sv then -1 else usec * 1000)))"

definition handle_virtual_stop_event :: "contest \<Rightarrow> nat \<Rightarrow> event \<Rightarrow> server \<Rightarrow> server option" where
  "handle_virtual_stop_event c a e sv =
    (case stop_nsec c e sv of
       None \<Rightarrow> Some sv
     | Some nsec \<Rightarrow>
         (case run_virtual_stop (ct_rnd c) (ev_user e) (ev_time e) None 0 nsec (sv_log sv) of
            None \<Rightarrow> None
          | Some (rid, s) \<Rightarrow>
              if rid < 0 then on_queue (serve_event_remove a) (sv\<lparr>sv_log := s\<rparr>)
              else
                (case serve_move_files_to_insert_run rid s of
                   None \<Rightarrow> None
                 | Some s' \<Rightarrow>
                     Option.bind
                       (if ct_olympiad c \<and> ct_is_virtual c \<noteq> 0 \<and> ct_disable_virtual_auto_judge c \<le> 0
                        then on_queue (serve_event_add (ev_time e + 1) SERVE_EVENT_JUDGE_OLYMPIAD (ev_user e) False)
                               (sv\<lparr>sv_log := s'\<rparr>)
                        else Some (sv\<lparr>sv_log := s'\<rparr>))
                       (on_queue (serve_event_remove a)))))"

definition handle_judge_olympiad_event :: "contest \<Rightarrow> nat \<Rightarrow> event \<Rightarrow> server \<Rightarrow> server option" where
  "handle_judge_olympiad_event c a e sv =
    (if \<not> ct_olympiad c \<or> ct_is_virtual c = 0 then on_queue (serve_event_remove a) sv
     else
       (case run_get_virtual_info (ev_user e) (sv_log sv) of
          None \<Rightarrow> None
        | Some ((count, found), s) \<Rightarrow>
            if count < 0 then on_queue (serve_event_remove a) (sv\<lparr>sv_log := s\<rparr>)
            else if count > 0 then Some (sv\<lparr>sv_log := s\<rparr>)
            else
              (case found of
                 None \<Rightarrow> on_queue (serve_event_remove a) (sv\<lparr>sv_log := s\<rparr>)
               | Some (rs, re) \<Rightarrow>
                   if re_status rs \<noteq> RUN_VIRTUAL_START \<or> re_user_id rs \<noteq> ev_user e
                     \<or> re_status re \<noteq> RUN_VIRTUAL_STOP \<or> re_user_id re \<noteq> ev_user e \<or> re_judge_id rs > 0
                   then on_queue (serve_event_remove a) (sv\<lparr>sv_log := s\<rparr>)
                   else
                     (case serve_judge_virtual_olympiad c (ev_user e) (re_run_id re) s of
                        None \<Rightarrow> None
                      | Some s' \<Rightarrow> on_queue (serve_event_remove a) (sv\<lparr>sv_log := s'\<rparr>)))))"

definition handle_event :: "contest \<Rightarrow> nat \<Rightarrow> event \<Rightarrow> server \<Rightarrow> server option" where
  "handle_event c a e sv =
    (if ev_type e = SERVE_EVENT_VIRTUAL_STOP then handle_virtual_stop_event c a e sv
     else if ev_type e = SERVE_EVENT_JUDGE_OLYMPIAD then handle_judge_olympiad_event c a e sv
     else None)"

text \<open>The loop over the due events; the next event is read before this one is handled.\<close>

partial_function (option) handle_from :: "contest \<Rightarrow> nat option \<Rightarrow> server \<Rightarrow> server option" where
  "handle_from c p sv =
    (case p of
       None \<Rightarrow> Some sv
     | Some a \<Rightarrow>
         (case load_node (sv_queue sv) a of
            None \<Rightarrow> None
          | Some n \<Rightarrow>
              if ev_time (en_event n) > sv_time sv then Some sv
              else
                (case handle_event c a (en_event n) sv of
                   None \<Rightarrow> None
                 | Some sv' \<Rightarrow> handle_from c (en_next n) sv')))"

definition serve_handle_events :: "contest \<Rightarrow> server \<Rightarrow> server option" where
  "serve_handle_events c sv = handle_from c (q_first (sv_queue sv)) sv"

section \<open>The requests of a participant\<close>

datatype command_result =
    NEW_SRV_ERR_NOT_VIRTUAL | NEW_SRV_ERR_VIRTUAL_NOT_STARTED | NEW_SRV_ERR_PERMISSION_DENIED
  | NEW_SRV_ERR_CONTEST_ALREADY_STARTED | NEW_SRV_ERR_RUNLOG_UPDATE_FAILED
  | NEW_SRV_ERR_CONTEST_NOT_STARTED | NEW_SRV_ERR_CONTEST_ALREADY_FINISHED | Command_done

text \<open>The participant, the address of the request and \<open>gettimeofday\<close>.\<close>

record request =
  rq_user :: int
  rq_ip :: "ej_ip option"
  rq_ssl :: int
  rq_sec :: int
  rq_usec :: int

definition virtual_refused :: "contest \<Rightarrow> server \<Rightarrow> command_result option" where
  "virtual_refused c sv =
    (if ct_is_virtual c \<le> 0 then Some NEW_SRV_ERR_NOT_VIRTUAL
     else if rh_start_time (head (sv_log sv)) \<le> 0 then Some NEW_SRV_ERR_VIRTUAL_NOT_STARTED
     else None)"

definition start_refused :: "contest \<Rightarrow> server \<Rightarrow> bool" where
  "start_refused c sv \<longleftrightarrow> ct_disable_virtual_start c \<noteq> 0
     \<or> ct_open_time c > 0 \<and> sv_time sv < ct_open_time c \<or> ct_close_time c > 0 \<and> sv_time sv \<ge> ct_close_time c"

definition virtual_start_command :: "contest \<Rightarrow> request \<Rightarrow> server \<Rightarrow> (command_result \<times> server) option" where
  "virtual_start_command c rq sv =
    (case virtual_refused c sv of
       Some r \<Rightarrow> Some (r, sv)
     | None \<Rightarrow>
         if start_refused c sv then Some (NEW_SRV_ERR_PERMISSION_DENIED, sv)
         else
           (case run_get_virtual_start_time (rq_user rq) (sv_log sv) of
              None \<Rightarrow> None
            | Some (start_time, s) \<Rightarrow>
                if start_time > 0 then Some (NEW_SRV_ERR_CONTEST_ALREADY_STARTED, sv\<lparr>sv_log := s\<rparr>)
                else
                  (case run_virtual_start (ct_rnd c) (rq_user rq) (rq_sec rq) (rq_ip rq) (rq_ssl rq) (rq_usec rq * 1000) s of
                     None \<Rightarrow> None
                   | Some (rid, s1) \<Rightarrow>
                       if rid < 0 then Some (NEW_SRV_ERR_RUNLOG_UPDATE_FAILED, sv\<lparr>sv_log := s1\<rparr>)
                       else
                         (case serve_move_files_to_insert_run rid s1 of
                            None \<Rightarrow> None
                          | Some s2 \<Rightarrow>
                              map_option (Pair Command_done)
                                (on_queue (serve_event_add (rq_sec rq + rh_duration (head s2))
                                   SERVE_EVENT_VIRTUAL_STOP (rq_user rq) True) (sv\<lparr>sv_log := s2\<rparr>))))))"

definition stop_queue :: "contest \<Rightarrow> request \<Rightarrow> server \<Rightarrow> server option" where
  "stop_queue c rq sv =
    (if ct_olympiad c \<and> ct_is_virtual c > 0 then
       Option.bind (on_queue (\<lambda>q. map_option snd (serve_event_remove_matching 0 0 (rq_user rq) q)) sv)
         (\<lambda>sv1. if ct_disable_virtual_auto_judge c \<le> 0
            then on_queue (serve_event_add (rq_sec rq + 1) SERVE_EVENT_JUDGE_OLYMPIAD (rq_user rq) False) sv1
            else Some sv1)
     else Some sv)"

definition virtual_stop_command :: "contest \<Rightarrow> request \<Rightarrow> server \<Rightarrow> (command_result \<times> server) option" where
  "virtual_stop_command c rq sv =
    (case virtual_refused c sv of
       Some r \<Rightarrow> Some (r, sv)
     | None \<Rightarrow>
         (case run_get_virtual_start_time (rq_user rq) (sv_log sv) of
            None \<Rightarrow> None
          | Some (start_time, s) \<Rightarrow>
              if start_time \<le> 0 then Some (NEW_SRV_ERR_CONTEST_NOT_STARTED, sv\<lparr>sv_log := s\<rparr>)
              else
                (case run_get_virtual_stop_time (rq_user rq) (sv_time sv) s of
                   None \<Rightarrow> None
                 | Some (stop_time, s1) \<Rightarrow>
                     if stop_time > 0 then Some (NEW_SRV_ERR_CONTEST_ALREADY_FINISHED, sv\<lparr>sv_log := s1\<rparr>)
                     else
                       (case run_virtual_stop (ct_rnd c) (rq_user rq) (rq_sec rq) (rq_ip rq) (rq_ssl rq) (rq_usec rq * 1000) s1 of
                          None \<Rightarrow> None
                        | Some (rid, s2) \<Rightarrow>
                            if rid < 0 then Some (NEW_SRV_ERR_RUNLOG_UPDATE_FAILED, sv\<lparr>sv_log := s2\<rparr>)
                            else
                              Option.bind (serve_move_files_to_insert_run rid s2)
                                (\<lambda>s3. map_option (Pair Command_done) (stop_queue c rq (sv\<lparr>sv_log := s3\<rparr>)))))))"

section \<open>The events of a restarted server\<close>

text \<open>
  What the check of the start and stop events does with a run.  \<open>t\<close> is what is known of the user: the
  start of the contest, -1 once it is over, -2 for a user with runs outside a virtual contest, or 0.
\<close>

datatype run_fix = Keep | Clear | Hide

definition virtual_fix :: "int \<Rightarrow> run_entry \<Rightarrow> int \<Rightarrow> int \<times> run_fix" where
  "virtual_fix duration e t =
    (if re_status e = RUN_VIRTUAL_START then
       (if t = -2 then (t, Clear) else if t = -1 then (t, Clear) else if t > 0 then (t, Clear)
        else (re_time e, Keep))
     else if re_status e = RUN_VIRTUAL_STOP then
       (if t = -2 then (t, Clear) else if t = -1 then (t, Clear) else if t = 0 then (t, Clear)
        else if re_time e > t + duration then (t, Clear) else (-1, Keep))
     else if t = -2 then (t, Keep)
     else if t = -1 then (t, if re_is_hidden e = 0 then Hide else Keep)
     else if t = 0 then (-2, Keep)
     else if re_time e > t + duration then (t, if re_is_hidden e = 0 then Hide else Keep)
     else (t, Keep))"

definition skipped_run :: "run_entry \<Rightarrow> bool" where
  "skipped_run e \<longleftrightarrow> run_is_valid_status (re_status e) = 0 \<or> re_status e = RUN_EMPTY
     \<or> re_user_id e \<le> 0 \<or> re_user_id e \<ge> 100000"

definition grow_times :: "int \<Rightarrow> int list \<Rightarrow> int list" where
  "grow_times uid ts =
    (if uid \<ge> int (length ts)
     then ts @ replicate (double_upto (nat uid + 1) (length ts) - length ts) 0 else ts)"

definition collect_step ::
  "int \<Rightarrow> nat \<Rightarrow> int list \<times> bool \<times> runlog \<Rightarrow> (int list \<times> bool \<times> runlog) option" where
  "collect_step duration i st =
    (case st of (ts0, need_reload, s) \<Rightarrow>
       let e = runs s ! i in
       if skipped_run e then Some st
       else
         (let ts = grow_times (re_user_id e) ts0; u = nat (re_user_id e) in
          case virtual_fix duration e (ts ! u) of
            (t, Keep) \<Rightarrow> Some (ts[u := t], need_reload, s)
          | (t, Clear) \<Rightarrow>
              map_option (\<lambda>r. (ts, True, snd r)) (run_forced_clear_entry (int i) s)
          | (t, Hide) \<Rightarrow>
              map_option (\<lambda>r. (ts, True, snd r)) (run_set_hidden (int i) s)))"

fun collect_runs ::
  "int \<Rightarrow> nat list \<Rightarrow> int list \<times> bool \<times> runlog \<Rightarrow> (int list \<times> bool \<times> runlog) option" where
  "collect_runs duration [] st = Some st"
| "collect_runs duration (i # ks) st = Option.bind (collect_step duration i st) (collect_runs duration ks)"

fun add_stop_events :: "int \<Rightarrow> int list \<Rightarrow> nat list \<Rightarrow> server \<Rightarrow> server option" where
  "add_stop_events duration ts [] sv = Some sv"
| "add_stop_events duration ts (i # ks) sv =
    Option.bind
      (if ts ! i > 0
       then on_queue (serve_event_add (ts ! i + duration) SERVE_EVENT_VIRTUAL_STOP (int i) False) sv
       else Some sv)
      (add_stop_events duration ts ks)"

definition serve_collect_virtual_stop_events :: "contest \<Rightarrow> server \<Rightarrow> (int \<times> server) option" where
  "serve_collect_virtual_stop_events c sv =
    (let duration = rh_duration (head (sv_log sv)) in
     if ct_is_virtual c = 0 then Some (0, sv)
     else if duration = 0 then Some (0, sv)
     else
       (case collect_runs duration [0..<run_u (sv_log sv)] (replicate 128 0, False, sv_log sv) of
          None \<Rightarrow> None
        | Some (ts, need_reload, s) \<Rightarrow>
            if need_reload then Some (1, sv\<lparr>sv_log := s\<rparr>)
            else map_option (Pair 0) (add_stop_events duration ts [1..<length ts] (sv\<lparr>sv_log := s\<rparr>))))"

section \<open>An example\<close>

definition ex_virtual_contest :: contest where
  "ex_virtual_contest = \<lparr>ct_olympiad = False, ct_is_virtual = 1, ct_disable_virtual_start = 0,
     ct_disable_virtual_auto_judge = 0, ct_open_time = 0, ct_close_time = 0, ct_max_prob = 0, ct_probs = [],
     ct_clock = (\<lambda>e. (0, 0)), ct_rnd = 0, ct_rejudge = (\<lambda>r s. s)\<rparr>"

end
