(* ===== verification/Queue_Laws.thy ===== *)
theory Queue_Laws
  imports Event_Queue "HOL-Library.Multiset"
begin

text \<open>
  The linked list of \<open>Event_Queue\<close> implements a list of events ordered by time: what the operations on
  the pointers do to the list of addresses, and the interface of the queue that follows.
\<close>

section \<open>Single stores\<close>

lemma store_node_Some: "q_mem q a = Some n \<Longrightarrow> store_node a f q = Some (q\<lparr>q_mem := (q_mem q)(a \<mapsto> f n)\<rparr>)"
  by (simp add: store_node_def fun_upd_def)

lemma free_node_Some: "q_mem q a = Some n \<Longrightarrow> free_node a q = Some (q\<lparr>q_mem := (q_mem q)(a := None)\<rparr>)"
  by (simp add: free_node_def fun_upd_def)

lemma set_simps [simp]:
  "en_next (set_next p n) = p" "en_prev (set_next p n) = en_prev n" "en_event (set_next p n) = en_event n"
  "en_prev (set_prev p n) = p" "en_next (set_prev p n) = en_next n" "en_event (set_prev p n) = en_event n"
  by (simp_all add: set_next_def set_prev_def)

lemma segment_update [simp]: "a \<notin> set as \<Longrightarrow> segment (mem(a := x)) p as n = segment mem p as n"
  by (rule segment_cong) auto

section \<open>Adding an event\<close>

lemma seek_segment:
  "segment (q_mem q) p as None \<Longrightarrow>
    seek q t (first_of as None) = Some (first_of (dropWhile (\<lambda>a. ev_time (event_at q a) < t) as) None)"
proof (induction as arbitrary: p)
  case Nil
  show ?case by (subst seek.simps) simp
next
  case (Cons a as)
  then show ?case by (subst seek.simps) (auto simp: load_node_def event_at_def)
qed

text \<open>The list after a new node between two parts of it.\<close>

definition inserted :: "queue \<Rightarrow> nat list \<Rightarrow> nat list \<Rightarrow> event \<Rightarrow> queue \<Rightarrow> bool" where
  "inserted q xs ys ev q' \<longleftrightarrow> chained q' (xs @ q_fresh q # ys) \<and> event_at q' (q_fresh q) = ev \<and>
     (\<forall>a \<in> set (xs @ ys). event_at q' a = event_at q a) \<and> q_fresh q' = q_fresh q + 1"

lemma chained_fresh: "chained q as \<Longrightarrow> q_fresh q \<notin> set as"
  by (auto simp: chained_def)

lemma chained_new_node:
  assumes "chained q as" and "new_node ev q = (e, q1)"
  shows "e = q_fresh q" "q_mem q1 = (q_mem q)(e \<mapsto> \<lparr>en_next = None, en_prev = None, en_event = ev\<rparr>)"
    "q_first q1 = q_first q" "q_last q1 = q_last q" "q_fresh q1 = q_fresh q + 1"
  using assms(2) by (auto simp: new_node_def fun_upd_def)

lemma link_end_inserted:
  assumes q: "chained q as" and new: "new_node ev q = (e, q1)"
  shows "\<exists>q'. link_end e q1 = Some q' \<and> inserted q as [] ev q'"
proof (cases as rule: rev_cases)
  case Nil
  then show ?thesis
    using q chained_new_node [OF q new] by (auto simp: link_end_def chained_def inserted_def event_at_def)
next
  case (snoc bs l)
  note n = chained_new_node [OF q new]
  have e: "e \<notin> set as" using chained_fresh [OF q] n(1) by simp
  have fl: "q_first q1 \<noteq> None" "q_last q1 = Some l"
    using q n(3,4) snoc by (cases bs, auto simp: chained_def)
  obtain x where x: "q_mem q l = Some x" "en_prev x = last_of None bs"
    using q snoc by (auto simp: chained_def segment_append)
  let ?m = "((q_mem q1)(e \<mapsto> \<lparr>en_next = None, en_prev = Some l, en_event = ev\<rparr>))(l \<mapsto> set_next (Some e) x)"
  have "link_end e q1 = Some (q1\<lparr>q_mem := ?m, q_last := Some e\<rparr>)"
    using fl x e snoc n(2) by (auto simp: link_end_def store_node_Some set_prev_def)
  moreover have "inserted q as [] ev (q1\<lparr>q_mem := ?m, q_last := Some e\<rparr>)"
    using q n snoc e x by (auto simp: inserted_def chained_def segment_append event_at_def)
  ultimately show ?thesis by blast
qed

lemma link_before_inserted:
  assumes q: "chained q (xs @ p # ys)" and new: "new_node ev q = (e, q1)"
  shows "\<exists>q'. link_before e p q1 = Some q' \<and> inserted q xs (p # ys) ev q'"
proof -
  note n = chained_new_node [OF q new]
  have e: "e \<notin> set (xs @ p # ys)" using chained_fresh [OF q] n(1) by simp
  obtain x where x: "q_mem q p = Some x" "en_prev x = last_of None xs" "en_next x = first_of ys None"
    using q by (auto simp: chained_def segment_append)
  show ?thesis
  proof (cases xs rule: rev_cases)
    case Nil
    let ?m = "((q_mem q1)(p \<mapsto> set_prev (Some e) x))(e \<mapsto> \<lparr>en_next = Some p, en_prev = None, en_event = ev\<rparr>)"
    have "link_before e p q1 = Some (q1\<lparr>q_first := Some e, q_mem := ?m\<rparr>)"
      using x Nil e n(2) by (auto simp: link_before_def load_node_def store_node_Some set_next_def)
    moreover have "inserted q xs (p # ys) ev (q1\<lparr>q_first := Some e, q_mem := ?m\<rparr>)"
      using q n Nil e x by (auto simp: inserted_def chained_def event_at_def)
    ultimately show ?thesis by blast
  next
    case (snoc bs b)
    obtain y where y: "q_mem q b = Some y" "en_prev y = last_of None bs"
      using q snoc by (auto simp: chained_def segment_append)
    have ne: "b \<noteq> p" "b \<noteq> e" "p \<noteq> e" using q snoc e by (auto simp: chained_def)
    let ?m = "((q_mem q1)(b \<mapsto> set_next (Some e) y, p \<mapsto> set_prev (Some e) x,
        e \<mapsto> \<lparr>en_next = Some p, en_prev = Some b, en_event = ev\<rparr>))"
    have "link_before e p q1 = Some (q1\<lparr>q_mem := ?m\<rparr>)"
      using x y snoc ne n(2)
      by (simp add: link_before_def load_node_def store_node_Some set_next_def set_prev_def fun_upd_twist)
    moreover have "inserted q xs (p # ys) ev (q1\<lparr>q_mem := ?m\<rparr>)"
      using q n snoc e x y ne
      by (auto simp: inserted_def chained_def segment_append event_at_def intro: less_SucI)
    ultimately show ?thesis by blast
  qed
qed

lemma serve_event_add_chained:
  assumes "chained q as" and "t > 0" "ty > 0" "uid > 0"
  shows "\<exists>q'. serve_event_add t ty uid h q = Some q' \<and>
    inserted q (takeWhile (\<lambda>a. ev_time (event_at q a) < t) as) (dropWhile (\<lambda>a. ev_time (event_at q a) < t) as)
      (new_event t ty uid h) q'"
proof -
  let ?early = "\<lambda>a. ev_time (event_at q a) < t"
  obtain e q1 where new: "new_node (new_event t ty uid h) q = (e, q1)" by fastforce
  note n = chained_new_node [OF assms(1) new]
  have e: "e \<notin> set as" using chained_fresh [OF assms(1)] n(1) by simp
  have seg: "segment (q_mem q1) None as None" "q_first q1 = first_of as None"
    using assms(1) n(2,3) e by (auto simp: chained_def)
  have "event_at q1 a = event_at q a" if "a \<in> set as" for a
    using that e n(2) by (auto simp: event_at_def)
  then have "dropWhile (\<lambda>a. ev_time (event_at q1 a) < t) as = dropWhile ?early as"
    by (intro dropWhile_cong) auto
  then have seek: "seek q1 t (q_first q1) = Some (first_of (dropWhile ?early as) None)"
    using seek_segment [OF seg(1), of t] seg(2) by simp
  show ?thesis
  proof (cases "dropWhile ?early as")
    case Nil
    then have tw: "takeWhile ?early as = as" by (metis takeWhile_dropWhile_id append_Nil2)
    have "serve_event_add t ty uid h q = link_end e q1"
      using seek assms(2-4) new unfolding Nil by (simp add: serve_event_add_def)
    then show ?thesis using link_end_inserted [OF assms(1) new] unfolding Nil tw by simp
  next
    case (Cons p ys)
    then have "chained q (takeWhile ?early as @ p # ys)" using assms(1) by (metis takeWhile_dropWhile_id)
    then show ?thesis
      using link_before_inserted [OF _ new, of "takeWhile ?early as" p ys] Cons seek assms(2-4) new
      by (auto simp: serve_event_add_def)
  qed
qed

section \<open>Removing an event\<close>

lemma serve_event_remove_chained:
  assumes q: "chained q (xs @ a # ys)"
  shows "\<exists>q'. serve_event_remove a q = Some q' \<and> chained q' (xs @ ys) \<and>
    (\<forall>b \<in> set (xs @ ys). event_at q' b = event_at q b) \<and> q_fresh q' = q_fresh q"
proof -
  obtain x where x: "q_mem q a = Some x" "en_prev x = last_of None xs" "en_next x = first_of ys None"
    using q by (auto simp: chained_def segment_append)
  have d: "distinct (xs @ a # ys)" using q by (simp add: chained_def)
  obtain q1 where q1: "(case en_prev x of None \<Rightarrow> Some (q\<lparr>q_first := en_next x\<rparr>)
            | Some b \<Rightarrow> store_node b (set_next (en_next x)) q) = Some q1"
    and s1: "segment (q_mem q1) None xs (first_of ys None)" "segment (q_mem q1) (Some a) ys None" "q_mem q1 a = Some x"
    and f1: "q_first q1 = first_of (xs @ ys) None" "q_last q1 = q_last q" "q_fresh q1 = q_fresh q"
    and m1: "\<forall>b. event_at q1 b = event_at q b" "\<forall>b. q_mem q1 b \<noteq> None \<longleftrightarrow> q_mem q b \<noteq> None"
  proof (cases xs rule: rev_cases)
    case Nil
    then show ?thesis using q x by (intro that [of "q\<lparr>q_first := en_next x\<rparr>"]) (auto simp: chained_def event_at_def)
  next
    case (snoc bs b)
    then obtain y where y: "q_mem q b = Some y" "en_prev y = last_of None bs"
      using q by (auto simp: chained_def segment_append)
    show ?thesis
      using q x y snoc d
      by (intro that [of "q\<lparr>q_mem := (q_mem q)(b \<mapsto> set_next (first_of ys None) y)\<rparr>"])
        (auto simp: store_node_Some chained_def segment_append event_at_def)
  qed
  obtain q2 where q2: "(case en_next x of None \<Rightarrow> Some (q1\<lparr>q_last := en_prev x\<rparr>)
            | Some b \<Rightarrow> store_node b (set_prev (en_prev x)) q1) = Some q2"
    and s2: "segment (q_mem q2) None (xs @ ys) None" "q_mem q2 a = Some x"
    and f2: "q_first q2 = first_of (xs @ ys) None" "q_last q2 = last_of None (xs @ ys)" "q_fresh q2 = q_fresh q"
    and m2: "\<forall>b. event_at q2 b = event_at q b" "\<forall>b. q_mem q2 b \<noteq> None \<longleftrightarrow> q_mem q b \<noteq> None"
  proof (cases ys)
    case Nil
    then show ?thesis using s1 f1 m1 x q
      by (intro that [of "q1\<lparr>q_last := en_prev x\<rparr>"]) (auto simp: event_at_def chained_def)
  next
    case (Cons b bs)
    then obtain y where y: "q_mem q1 b = Some y" "en_next y = first_of bs None"
      using s1(2) by auto
    let ?q2 = "q1\<lparr>q_mem := (q_mem q1)(b \<mapsto> set_prev (last_of None xs) y)\<rparr>"
    have b: "b \<notin> set xs" "b \<notin> set bs" "b \<noteq> a" using d Cons by auto
    have "segment (q_mem ?q2) None xs (Some b)" using s1(1) b(1) Cons by simp
    moreover have "segment (q_mem ?q2) (last_of None xs) (b # bs) None" using s1(2) y(2) b(2) Cons by simp
    ultimately have 1: "segment (q_mem ?q2) None (xs @ ys) None" by (simp add: segment_append Cons)
    have 2: "q_mem ?q2 a = Some x" using s1(3) b(3) by simp
    have 3: "q_first ?q2 = first_of (xs @ ys) None" "q_fresh ?q2 = q_fresh q" using f1 by simp_all
    have 4: "q_last ?q2 = last_of None (xs @ ys)" using f1(2) q Cons by (simp add: chained_def)
    have 5: "\<forall>c. event_at ?q2 c = event_at q c"
    proof
      fix c
      show "event_at ?q2 c = event_at q c" using m1(1) [rule_format, of c] y(1) by (auto simp: event_at_def)
    qed
    have 6: "\<forall>c. q_mem ?q2 c \<noteq> None \<longleftrightarrow> q_mem q c \<noteq> None"
    proof
      fix c
      show "q_mem ?q2 c \<noteq> None \<longleftrightarrow> q_mem q c \<noteq> None" using m1(2) [rule_format, of c] y(1) by auto
    qed
    show ?thesis
      using 1 2 3 4 5 6 x(2,3) y(1) Cons by (intro that [of ?q2]) (simp_all add: store_node_Some)
  qed
  have "serve_event_remove a q = Some (q2\<lparr>q_mem := (q_mem q2)(a := None)\<rparr>)"
    using q1 q2 s2(2) x(1) by (simp add: serve_event_remove_def load_node_def free_node_Some)
  moreover have "chained (q2\<lparr>q_mem := (q_mem q2)(a := None)\<rparr>) (xs @ ys)"
    using d s2(1) f2 m2(2) q by (auto simp: chained_def)
  moreover have "\<forall>b \<in> set (xs @ ys). event_at (q2\<lparr>q_mem := (q_mem q2)(a := None)\<rparr>) b = event_at q b"
    using m2(1) d by (auto simp: event_at_def)
  ultimately show ?thesis using f2(3) by simp
qed

section \<open>Loops over the queue\<close>

lemma remove_from_chained:
  assumes "chained q (xs @ ys)"
  shows "\<exists>q'. remove_from m (first_of ys None) n q = Some (n + int (length (filter (\<lambda>a. m (event_at q a)) ys)), q') \<and>
    chained q' (xs @ filter (\<lambda>a. \<not> m (event_at q a)) ys) \<and>
    (\<forall>a \<in> set (xs @ filter (\<lambda>a. \<not> m (event_at q a)) ys). event_at q' a = event_at q a)"
  using assms
proof (induction ys arbitrary: xs n q)
  case Nil
  then show ?case by (subst remove_from.simps) simp
next
  case (Cons a ys)
  obtain x where x: "q_mem q a = Some x" "en_next x = first_of ys None"
    using Cons.prems by (auto simp: chained_def segment_append)
  have ev: "event_at q a = en_event x" using x(1) by (simp add: event_at_def)
  show ?case
  proof (cases "m (en_event x)")
    case True
    obtain q1 where q1: "serve_event_remove a q = Some q1" "chained q1 (xs @ ys)"
      "\<forall>b \<in> set (xs @ ys). event_at q1 b = event_at q b"
      using serve_event_remove_chained [OF Cons.prems] by blast
    have same: "filter (\<lambda>a. P (event_at q1 a)) ys = filter (\<lambda>a. P (event_at q a)) ys" for P
      using q1(3) by (intro filter_cong) auto
    show ?thesis
      using Cons.IH [OF q1(2), of "n + 1"] q1 x True ev same [of m] same [of "\<lambda>e. \<not> m e"]
      by (subst remove_from.simps) (auto simp: load_node_def)
  next
    case False
    then show ?thesis
      using Cons.IH [of q "xs @ [a]" n] Cons.prems x ev
      by (subst remove_from.simps) (auto simp: load_node_def)
  qed
qed

lemma remove_matching_chained:
  assumes "chained q as"
  shows "\<exists>q'. serve_event_remove_matching t ty uid q =
      Some (int (length (filter (\<lambda>a. event_matches t ty uid (event_at q a)) as)), q') \<and>
    chained q' (filter (\<lambda>a. \<not> event_matches t ty uid (event_at q a)) as) \<and>
    (\<forall>a \<in> set (filter (\<lambda>a. \<not> event_matches t ty uid (event_at q a)) as). event_at q' a = event_at q a)"
  using remove_from_chained [of q "[]" as "event_matches t ty uid" 0] assms
  by (simp add: serve_event_remove_matching_def chained_def)

lemma destroy_from_segment:
  "segment (q_mem q) p as None \<Longrightarrow> distinct as \<Longrightarrow>
    \<exists>q'. destroy_from (first_of as None) q = Some q' \<and> q_first q' = None \<and> q_last q' = None \<and>
      q_mem q' = (\<lambda>a. if a \<in> set as then None else q_mem q a)"
proof (induction as arbitrary: p q)
  case Nil
  then show ?case by (subst destroy_from.simps) simp
next
  case (Cons a as)
  then obtain x where x: "q_mem q a = Some x" "en_next x = first_of as None" by auto
  let ?q = "q\<lparr>q_mem := (q_mem q)(a := None)\<rparr>"
  have "segment (q_mem ?q) (Some a) as None" "distinct as" using Cons.prems by simp_all
  then obtain q' where "destroy_from (first_of as None) ?q = Some q'" "q_first q' = None" "q_last q' = None"
    "q_mem q' = (\<lambda>b. if b \<in> set as then None else q_mem ?q b)"
    using Cons.IH by blast
  then show ?case using x by (subst destroy_from.simps) (auto simp: load_node_def free_node_Some)
qed

section \<open>The interface\<close>

text \<open>The addresses in the list, read from the first one.\<close>

fun walk :: "(nat \<Rightarrow> node option) \<Rightarrow> nat option \<Rightarrow> nat \<Rightarrow> nat list" where
  "walk mem p 0 = []"
| "walk mem None (Suc n) = []"
| "walk mem (Some a) (Suc n) = a # (case mem a of None \<Rightarrow> [] | Some x \<Rightarrow> walk mem (en_next x) n)"

definition addresses :: "queue \<Rightarrow> nat list" where
  "addresses q = walk (q_mem q) (q_first q) (q_fresh q)"

definition queue_ok :: "queue \<Rightarrow> bool" where
  "queue_ok q \<longleftrightarrow> chained q (addresses q)"

definition queue_events :: "queue \<Rightarrow> event list" where
  "queue_events q = events_of q (addresses q)"

lemma walk_segment: "segment mem p as None \<Longrightarrow> length as \<le> n \<Longrightarrow> walk mem (first_of as None) n = as"
proof (induction as arbitrary: p n)
  case Nil
  then show ?case by (cases n) simp_all
next
  case (Cons a as)
  then show ?case by (cases n) auto
qed

lemma chained_addresses: "chained q as \<Longrightarrow> addresses q = as"
proof -
  assume l: "chained q as"
  then have "length as = card (set as)" "set as \<subseteq> {..<q_fresh q}" by (auto simp: chained_def distinct_card)
  then have "length as \<le> q_fresh q" using card_mono [of "{..<q_fresh q}" "set as"] by simp
  then show ?thesis using l walk_segment [of "q_mem q" None as "q_fresh q"] by (simp add: addresses_def chained_def)
qed

lemma chained_ok: "chained q as \<Longrightarrow> queue_ok q \<and> queue_events q = events_of q as"
  by (simp add: queue_ok_def queue_events_def chained_addresses)

text \<open>
  What the server relies on: an event goes before the first one that is not earlier, and the
  matching events are removed and counted, the others staying as they were.
\<close>

locale ordered_queue =
  fixes ok :: "'q \<Rightarrow> bool" and events :: "'q \<Rightarrow> event list"
    and add :: "int \<Rightarrow> int \<Rightarrow> int \<Rightarrow> bool \<Rightarrow> 'q \<Rightarrow> 'q option"
    and remove :: "int \<Rightarrow> int \<Rightarrow> int \<Rightarrow> 'q \<Rightarrow> (int \<times> 'q) option"
  assumes add_law: "ok q \<Longrightarrow> t > 0 \<Longrightarrow> ty > 0 \<Longrightarrow> uid > 0 \<Longrightarrow>
      \<exists>q'. add t ty uid h q = Some q' \<and> ok q' \<and> events q' =
        takeWhile (\<lambda>e. ev_time e < t) (events q) @ new_event t ty uid h # dropWhile (\<lambda>e. ev_time e < t) (events q)"
    and add_guard: "\<not> (t > 0 \<and> ty > 0 \<and> uid > 0) \<Longrightarrow> add t ty uid h q = None"
    and remove_law: "ok q \<Longrightarrow>
      \<exists>q'. remove t ty uid q = Some (int (length (filter (event_matches t ty uid) (events q))), q') \<and> ok q' \<and>
        events q' = filter (\<lambda>e. \<not> event_matches t ty uid e) (events q)"
begin

definition ordered :: "'q \<Rightarrow> bool" where
  "ordered q \<longleftrightarrow> ok q \<and> sorted (map ev_time (events q))"

lemma sorted_insert:
  "sorted (map ev_time es) \<Longrightarrow> ev_time e = t \<Longrightarrow>
    sorted (map ev_time (takeWhile (\<lambda>e. ev_time e < t) es @ e # dropWhile (\<lambda>e. ev_time e < t) es))"
proof (induction es)
  case (Cons x es)
  then show ?case by (fastforce simp: sorted_append dest: set_takeWhileD)
qed simp

lemma add_ordered:
  assumes "ordered q" and "t > 0" "ty > 0" "uid > 0"
  shows "\<exists>q'. add t ty uid h q = Some q' \<and> ordered q' \<and> mset (events q') = add_mset (new_event t ty uid h) (mset (events q))"
proof -
  obtain q' where q': "add t ty uid h q = Some q'" "ok q'" "events q' =
        takeWhile (\<lambda>e. ev_time e < t) (events q) @ new_event t ty uid h # dropWhile (\<lambda>e. ev_time e < t) (events q)"
    using add_law [of q t ty uid h] assms unfolding ordered_def by blast
  have "mset (takeWhile P xs @ x # dropWhile P xs) = add_mset x (mset xs)" for P and x :: event and xs
    by (induction xs) auto
  then show ?thesis
    using q' assms(1) sorted_insert [of "events q" "new_event t ty uid h" t] by (auto simp: ordered_def new_event_def)
qed

lemma add_abort: "ordered q \<Longrightarrow> add t ty uid h q = None \<longleftrightarrow> \<not> (t > 0 \<and> ty > 0 \<and> uid > 0)"
  using add_ordered add_guard by (metis option.distinct(1))

lemma remove_ordered:
  assumes "ordered q"
  shows "\<exists>n q'. remove t ty uid q = Some (n, q') \<and> ordered q' \<and>
    events q' = filter (\<lambda>e. \<not> event_matches t ty uid e) (events q)"
  using remove_law [of q t ty uid] assms sorted_filter [of ev_time] by (auto simp: ordered_def)

end

interpretation evq: ordered_queue queue_ok queue_events serve_event_add serve_event_remove_matching
proof
  fix q h and t ty uid :: int
  assume q: "queue_ok q" and pos: "t > 0" "ty > 0" "uid > 0"
  let ?early = "\<lambda>a. ev_time (event_at q a) < t"
  have l: "chained q (addresses q)" using q by (simp add: queue_ok_def)
  obtain q' where q': "serve_event_add t ty uid h q = Some q'"
    "inserted q (takeWhile ?early (addresses q)) (dropWhile ?early (addresses q)) (new_event t ty uid h) q'"
    using serve_event_add_chained [OF l pos] by blast
  have "event_at q' a = event_at q a" if "a \<in> set (addresses q)" for a
    using q'(2) that unfolding inserted_def takeWhile_dropWhile_id by blast
  then have l': "chained q' (takeWhile ?early (addresses q) @ q_fresh q # dropWhile ?early (addresses q))"
    and same: "map (event_at q') (takeWhile ?early (addresses q)) = map (event_at q) (takeWhile ?early (addresses q))"
    "map (event_at q') (dropWhile ?early (addresses q)) = map (event_at q) (dropWhile ?early (addresses q))"
    using q'(2) by (auto simp: inserted_def dest: set_takeWhileD set_dropWhileD)
  have "queue_ok q' \<and> queue_events q' = takeWhile (\<lambda>e. ev_time e < t) (queue_events q) @ new_event t ty uid h
      # dropWhile (\<lambda>e. ev_time e < t) (queue_events q)"
    using chained_ok [OF l'] q'(2) same
    by (simp add: inserted_def queue_events_def events_of_def takeWhile_map dropWhile_map comp_def)
  then show "\<exists>q'. serve_event_add t ty uid h q = Some q' \<and> queue_ok q' \<and> queue_events q' =
        takeWhile (\<lambda>e. ev_time e < t) (queue_events q) @ new_event t ty uid h # dropWhile (\<lambda>e. ev_time e < t) (queue_events q)"
    using q'(1) by blast
next
  fix q h and t ty uid :: int
  assume "\<not> (t > 0 \<and> ty > 0 \<and> uid > (0 :: int))"
  then show "serve_event_add t ty uid h q = None" by (auto simp: serve_event_add_def)
next
  fix q and t ty uid :: int
  assume q: "queue_ok q"
  have l: "chained q (addresses q)" using q by (simp add: queue_ok_def)
  let ?m = "event_matches t ty uid"
  obtain q' where q': "serve_event_remove_matching t ty uid q =
      Some (int (length (filter (\<lambda>a. ?m (event_at q a)) (addresses q))), q')"
    "chained q' (filter (\<lambda>a. \<not> ?m (event_at q a)) (addresses q))"
    "\<forall>a \<in> set (filter (\<lambda>a. \<not> ?m (event_at q a)) (addresses q)). event_at q' a = event_at q a"
    using remove_matching_chained [OF l] by blast
  have "map (event_at q') (filter (\<lambda>a. \<not> ?m (event_at q a)) (addresses q)) =
      map (event_at q) (filter (\<lambda>a. \<not> ?m (event_at q a)) (addresses q))"
    using q'(3) by (intro map_cong) auto
  then have "queue_ok q' \<and> queue_events q' = filter (\<lambda>e. \<not> ?m e) (queue_events q)"
    using chained_ok [OF q'(2)] by (simp add: queue_events_def events_of_def filter_map comp_def)
  moreover have "length (filter (\<lambda>a. ?m (event_at q a)) (addresses q)) = length (filter ?m (queue_events q))"
    by (simp add: queue_events_def events_of_def filter_map comp_def)
  ultimately show "\<exists>q'. serve_event_remove_matching t ty uid q =
      Some (int (length (filter ?m (queue_events q))), q') \<and> queue_ok q' \<and>
        queue_events q' = filter (\<lambda>e. \<not> ?m e) (queue_events q)"
    using q'(1) by auto
qed

text \<open>
  C38: adding an event to an ordered queue in memory implements insertion into a list: the event stands behind
  the events before its time and ahead of all others, also of those of the same time, and the queue stays
  well linked and ordered.
\<close>

theorem serve_event_add_refines:
  assumes "evq.ordered q" and "t > 0" "ty > 0" "uid > 0"
  shows "\<exists>q'. serve_event_add t ty uid h q = Some q' \<and> evq.ordered q' \<and>
    queue_events q' = takeWhile (\<lambda>e. ev_time e < t) (queue_events q) @ new_event t ty uid h
      # dropWhile (\<lambda>e. ev_time e < t) (queue_events q)"
proof -
  have "queue_ok q" "sorted (map ev_time (queue_events q))" using assms(1) by (simp_all add: evq.ordered_def)
  then show ?thesis
    using evq.add_law [of q t ty uid h] evq.sorted_insert [of "queue_events q" "new_event t ty uid h" t] assms
    by (auto simp: evq.ordered_def new_event_def)
qed

lemma empty_queue_ordered: "evq.ordered empty_queue" "queue_events empty_queue = []"
proof -
  have "chained empty_queue []" by (simp add: chained_def empty_queue_def)
  then show "evq.ordered empty_queue" "queue_events empty_queue = []"
    using chained_ok [of empty_queue "[]"] by (simp_all add: evq.ordered_def events_of_def)
qed

theorem serve_event_add_refines_witness:
  "\<exists>q1 q2. serve_event_add 20 1 5 False empty_queue = Some q1 \<and> serve_event_add 20 1 6 False q1 = Some q2 \<and>
    queue_events q2 = [new_event 20 1 6 False, new_event 20 1 5 False]"
proof -
  obtain q1 where 1: "serve_event_add 20 1 5 False empty_queue = Some q1" "evq.ordered q1"
    "queue_events q1 = [new_event 20 1 5 False]"
    using serve_event_add_refines [OF empty_queue_ordered(1), of 20 1 5 False] empty_queue_ordered(2) by auto
  show ?thesis using serve_event_add_refines [OF 1(2), of 20 1 6 False] 1 by (auto simp: new_event_def)
qed

end
