(* ===== verification/Virtual_Laws.thy ===== *)
theory Virtual_Laws
  imports Virtual_Events Queue_Laws Log_Steps
begin

text \<open>
  What the handling of events rests on in the log: a stop event of a virtual contest can always be
  inserted while no run is being tested and the seconds of the log have room, and it is recorded for its
  user.
\<close>

section \<open>The contest state of the users\<close>

text \<open>What \<open>get_user_entry\<close> keeps in any state, with a valid index or not.\<close>

lemma get_user_entry_virt:
  fixes s :: runlog
  assumes "uid > 0"
  shows "\<exists>ue s'. get_user_entry uid s = Some (ue, s') \<and> base s' = base s \<and> virt s' = virt s \<and>
    ut_lookup s' uid = Some ue \<and> uid < int (length (ut_table s')) \<and> virt s uid = (ue_status ue, ue_start_time ue, ue_stop_time ue)"
proof -
  let ?s1 = "ensure_user uid (grow_ut_table uid s)"
  note e = ensure_user_props [OF assms, of s]
  obtain ue where ue: "ut_lookup ?s1 uid = Some ue" using e(5) [of uid] by (cases "ut_lookup s uid") auto
  have v1: "virt ?s1 = virt s"
    by (rule ext) (auto simp: virt_def e(5) zero_user_entry_def split: option.splits)
  show ?thesis
  proof (cases "ue_run_id_valid ue \<le> 0")
    case True
    let ?x = "extend_run_extras ?s1"
    obtain ue' s' where r: "rebuild_list uid ue ?x = (ue', s')" by fastforce
    obtain ext first lst where ue': "ue' = ue\<lparr>ue_run_id_first := first, ue_run_id_last := lst, ue_run_id_valid := 1\<rparr>"
      and s': "s' = ut_store uid ue' (?x\<lparr>run_extras := ext\<rparr>)"
      using r by (auto simp: rebuild_list_def Let_def split: prod.splits)
    have lx: "ut_lookup ?x v = ut_lookup ?s1 v" for v by (rule ut_lookup_cong) simp
    have lk: "ut_lookup s' v = (if v = uid then Some ue' else ut_lookup ?s1 v)" for v
      unfolding s' ut_lookup_store using e(4) assms lx by (simp add: ut_lookup_def)
    have "virt s' = virt ?s1" by (rule ext) (auto simp: virt_def lk ue ue')
    moreover have "virt s uid = (ue_status ue', ue_start_time ue', ue_stop_time ue')"
      using v1 ue by (simp add: virt_def [of ?s1, symmetric] virt_def ue') (metis (no_types, lifting) option.simps(5) virt_def)
    moreover have "base s' = base s" using e(1) by (simp add: s')
    moreover have "uid < int (length (ut_table s'))" using e(4) by (simp add: s' ut_store_def)
    moreover have "get_user_entry uid s = Some (ue', s')"
      using assms ue True r by (simp add: get_user_entry_rebuild Let_def)
    ultimately show ?thesis using v1 lk by auto
  next
    case False
    have "virt s uid = (ue_status ue, ue_start_time ue, ue_stop_time ue)"
      using v1 ue by (metis (no_types, lifting) option.simps(5) virt_def)
    then show ?thesis using assms ue False e(1,4) v1 by (auto simp: get_user_entry_rebuild Let_def)
  qed
qed

lemma virt_store:
  "0 \<le> uid \<Longrightarrow> uid < int (length (ut_table s)) \<Longrightarrow>
    virt (ut_store uid ue s) = (virt s)(uid := (ue_status ue, ue_start_time ue, ue_stop_time ue))"
  by (rule ext) (auto simp: virt_def ut_lookup_store)

lemma virt_table: "ut_table s' = ut_table s \<Longrightarrow> virt s' = virt s"
  by (rule ext) (simp add: virt_def ut_lookup_def)

lemma virt_invalidate [simp]: "virt (invalidate_user uid s) = virt s"
proof (cases "uid > 0")
  case True
  then show ?thesis by (intro ext) (simp add: virt_def ut_lookup_invalidate split: option.splits)
next
  case False
  then show ?thesis by (simp add: invalidate_user_def try_user_entry_def)
qed

section \<open>Room for an event\<close>

text \<open>No run is being tested, and the seconds of the log have room for \<open>k\<close> more entries each.\<close>

definition quiet :: "nat \<Rightarrow> run_entry list \<Rightarrow> bool" where
  "quiet k es \<longleftrightarrow> (\<forall>e \<in> set es. \<not> transient_status (re_status e) \<and>
     (\<not> is_empty_entry e \<longrightarrow> re_nsec e + int k < NSEC_MAX))"

lemma quiet_append: "quiet k (xs @ ys) \<longleftrightarrow> quiet k xs \<and> quiet k ys"
  by (auto simp: quiet_def)

lemma quiet_renumber [simp]: "quiet k (renumber i es) = quiet k es"
  by (induction es arbitrary: i) (auto simp: quiet_def)

lemma quiet_Suc: "quiet (Suc k) es \<Longrightarrow> quiet k es"
  by (fastforce simp: quiet_def)

lemma quiet_sub: "quiet k es \<Longrightarrow> set es' \<subseteq> set es \<Longrightarrow> quiet k es'"
  by (auto simp: quiet_def)

lemma quiet_slot [simp]: "quiet k (empty_slot i t n # es) = quiet k es"
  by (auto simp: quiet_def empty_slot_def spare_entry_def transient_status_def)

text \<open>The search without nanoseconds ends before the last run, which is later than the event.\<close>

lemma skip_same_stops:
  "j < length es \<Longrightarrow> \<not> is_empty_entry (es ! j) \<Longrightarrow> re_time (es ! j) \<noteq> t \<Longrightarrow>
    \<exists>k \<le> j. skip_same t es i = Some (i + k) \<and> (is_empty_entry (es ! 0) \<or> re_time (es ! 0) = t \<longrightarrow> k > 0)"
proof (induction es arbitrary: i j)
  case (Cons e es)
  show ?case
  proof (cases "is_empty_entry e \<or> re_time e = t")
    case True
    then obtain j' where j: "j = Suc j'" "j' < length es" using Cons.prems by (cases j) auto
    then obtain k where "k \<le> j'" "skip_same t es (Suc i) = Some (Suc i + k)"
      using Cons.IH [of j' "Suc i"] Cons.prems by auto
    then show ?thesis using True j by (intro exI [of _ "Suc k"]) auto
  next
    case False
    then show ?thesis by (intro exI [of _ 0]) auto
  qed
qed simp

lemma last_used_found:
  "i < k \<Longrightarrow> \<not> is_empty_entry (arr ! i) \<Longrightarrow> \<exists>j. last_used arr k = Some j"
  by (induction k) (auto simp: less_Suc_eq)

lemma scan_neg_stops:
  assumes "j < n" "n \<le> length arr" "\<not> is_empty_entry (arr ! j)" "re_time (arr ! j) > t"
    and "\<forall>i < n. \<not> is_empty_entry (arr ! i) \<longrightarrow> re_nsec (arr ! i) + int (Suc k) < NSEC_MAX" "-1 + int k < NSEC_MAX"
  shows "es = drop i (take n arr) \<Longrightarrow> i \<le> j \<Longrightarrow>
    \<exists>p nsec. scan_neg arr n t uid rnd es i = Some (p, nsec) \<and> p \<le> n \<and> nsec + int k < NSEC_MAX"
proof (induction es arbitrary: i)
  case Nil
  then show ?case using assms(1,2) by simp
next
  case (Cons e es)
  have e: "e = arr ! i" and es: "es = drop (Suc i) (take n arr)"
  proof -
    have "drop i (take n arr) = take n arr ! i # drop (Suc i) (take n arr)"
      using Cons.prems assms(1,2) by (intro Cons_nth_drop_Suc [symmetric]) simp
    then show "e = arr ! i" "es = drop (Suc i) (take n arr)" using Cons.prems assms(1) by auto
  qed
  show ?case
  proof (cases "is_empty_entry e \<or> re_time e < t")
    case True
    then have "i \<noteq> j" using e assms(3,4) by auto
    then show ?thesis using Cons.IH [OF es] Cons.prems(2) True by (cases "is_empty_entry e") auto
  next
    case go: False
    show ?thesis
    proof (cases "re_time e > t")
      case True
      then show ?thesis using go Cons.prems(2) assms(1,6) by auto
    next
      case False
      then have et: "re_time e = t" "\<not> is_empty_entry e" using go by auto
      have "j - i < length (drop i arr)" "drop i arr ! (j - i) = arr ! j" "drop i arr ! 0 = arr ! i"
        using Cons.prems(2) assms(1,2) by auto
      then obtain q where q: "q \<le> j - i" "skip_same t (drop i arr) i = Some (i + q)" "q > 0"
        using skip_same_stops [of "j - i" "drop i arr" t i] assms(3,4) e et by auto
      then obtain j' where j': "last_used arr (i + q) = Some j'"
        using last_used_found [of i "i + q" arr] e et by auto
      have "j' < n" "\<not> is_empty_entry (arr ! j')"
        using last_used_Some [OF j'] q(1) Cons.prems(2) assms(1) by auto
      then have "re_nsec (arr ! j') + int (Suc k) < NSEC_MAX" using assms(5) by blast
      moreover have "i + q < n" using q(1) Cons.prems(2) assms(1) by simp
      ultimately show ?thesis using et q(2) j' by simp
    qed
  qed
qed

text \<open>Where the slot of an event goes: some place, or none on a disk that fails.\<close>

lemma slot_sign: "insert_slot i t nsec s = insert_slot i t (max 0 nsec) s"
  "append_to_end t nsec s = append_to_end t (max 0 nsec) s"
  by (auto simp: insert_slot_def append_to_end_def max_def)

lemma get_insert_room:
  assumes wf: "wf_runs s" and q: "quiet (Suc k) (log s)" and n: "nsec + int k < NSEC_MAX" "int k < NSEC_MAX"
    and io: "io_good s"
  shows "\<exists>i s1 p. get_insert_run_id rnd t uid nsec s = Some (int i, s1) \<and> i \<le> run_u s \<and> p + int k < NSEC_MAX \<and>
    log s1 = take i (log s) @ empty_slot (int i) t p # renumber (Suc i) (drop i (log s)) \<and>
    run_u s1 = Suc (run_u s) \<and> wf_runs s1 \<and> side s1 = side s \<and> head s1 = head s \<and> io_good s1"
proof -
  let ?g = "grow_runs s"
  note g = grow_runs_props [OF wf]
  have gl: "run_u ?g < length (runs ?g)" using g by simp
  have lg: "take (run_u s) (runs ?g) = log s" using g(1,2) by (simp add: log_def)
  have nth: "\<forall>i < run_u s. log s ! i = runs ?g ! i" using lg by (metis nth_take)
  have qn: "\<forall>i < run_u s. \<not> is_empty_entry (runs ?g ! i) \<longrightarrow> re_nsec (runs ?g ! i) + int (Suc k) < NSEC_MAX"
    using q nth wf unfolding quiet_def by (metis length_log nth_mem)
  have at_end: ?thesis if "get_insert_run_id rnd t uid nsec s = Some (append_to_end t x ?g)" "x + int k < NSEC_MAX" for x
  proof -
    obtain r s1 where a: "append_to_end t (max 0 x) ?g = (r, s1)" by fastforce
    have "max 0 x \<ge> 0" by simp
    note A = append_to_end_props [OF a gl this]
    show ?thesis
      using that A a g slot_sign(2) [of t x ?g] n(2) io wf
      by (intro exI [of _ "run_u s"] exI [of _ s1] exI [of _ "max 0 x"]) auto
  qed
  have inside: ?thesis if "get_insert_run_id rnd t uid nsec s = Some (insert_slot i t x ?g)" "i \<le> run_u s" "x + int k < NSEC_MAX" for i x
  proof -
    obtain r s1 where a: "insert_slot i t (max 0 x) ?g = (r, s1)" by fastforce
    have "max 0 x \<ge> 0" "i \<le> run_u ?g" using that(2) g(2) by simp_all
    note A = insert_slot_log [OF a this(2) gl this(1)]
    have "r = int i \<and> io_good s1"
      using a io g(9) unfolding insert_slot_def
      by (auto simp: Let_def write_entries_good split: prod.splits if_splits)
    then show ?thesis
      using that A a g slot_sign(1) [of i t x ?g] n(2)
      by (intro exI [of _ i] exI [of _ s1] exI [of _ "max 0 x"]) auto
  qed
  have calm: "\<not> (\<exists>e \<in> set (drop i (log s)). transient_status (re_status e))" for i
    using q by (auto simp: quiet_def dest: in_set_dropD)
  have wf': "\<not> length (runs s) < run_u s" using wf by (simp add: wf_runs_def)
  show ?thesis
  proof (cases "last_used (runs ?g) (run_u ?g)")
    case None
    then show ?thesis using wf' n by (intro at_end [of nsec]) (simp_all add: get_insert_run_id_def Let_def)
  next
    case (Some j)
    let ?e = "runs ?g ! j"
    have j: "j < run_u s" "\<not> is_empty_entry ?e" using last_used_Some [OF Some] g(2) by auto
    then have jn: "re_nsec ?e + int (Suc k) < NSEC_MAX" using qn by blast
    consider "t > re_time ?e" | "t = re_time ?e" "nsec < 0" | "t = re_time ?e" "nsec \<ge> 0" | "t < re_time ?e"
      by linarith
    then show ?thesis
    proof cases
      case 1
      then show ?thesis using wf' n Some by (intro at_end [of nsec]) (simp_all add: get_insert_run_id_def Let_def)
    next
      case 2
      then show ?thesis using wf' n Some jn
        by (intro at_end [of "re_nsec ?e + 1"]) (simp_all add: get_insert_run_id_def Let_def)
    next
      case 3
      then show ?thesis
        using wf' n Some jn lg g(2) calm [of "scan_pos t uid nsec (log s) 0"] scan_pos_log(1) [OF wf refl, of t uid nsec]
          at_end [of nsec] inside [of "scan_pos t uid nsec (log s) 0" nsec]
        unfolding get_insert_run_id_def by (auto simp: Let_def split: if_splits)
    next
      case 4
      show ?thesis
      proof (cases "nsec < 0")
        case True
        obtain p x where p: "scan_neg (runs ?g) (run_u s) t uid rnd (take (run_u s) (runs ?g)) 0 = Some (p, x)"
          "p \<le> run_u s" "x + int k < NSEC_MAX"
          using scan_neg_stops [OF j(1) _ j(2) 4 qn _ , of "take (run_u s) (runs ?g)" 0 uid rnd] gl g(2) n(2) by auto
        then show ?thesis
          using wf' Some 4 True lg g(2) calm [of p] inside [of p x]
          unfolding get_insert_run_id_def by (auto simp: Let_def split: if_splits)
      next
        case False
        then show ?thesis
          using wf' n Some 4 lg g(2) calm [of "scan_pos t uid nsec (log s) 0"] scan_pos_log(1) [OF wf refl, of t uid nsec]
            inside [of "scan_pos t uid nsec (log s) 0" nsec]
          unfolding get_insert_run_id_def by (auto simp: Let_def split: if_splits)
      qed
    qed
  qed
qed

section \<open>The end of a virtual contest\<close>

text \<open>
  What a server needs to insert the pending events: a working disk, room for them, and start times for
  all participants of virtual contests.
\<close>

definition event_room :: "nat \<Rightarrow> runlog \<Rightarrow> bool" where
  "event_room k s \<longleftrightarrow> wf_runs s \<and> io_good s \<and> run_fd s \<ge> 0 \<and> rh_start_time (head s) \<ge> 0 \<and> quiet k (log s) \<and>
     (\<forall>uid > 0. fst (virt s uid) = V_VIRTUAL_USER \<longrightarrow> fst (snd (virt s uid)) > 0)"

lemma event_room_core:
  assumes "core s' = core s" "virt s' = virt s"
  shows "event_room k s' = event_room k s"
  using coreD [OF assms(1)] assms(2) by (simp add: event_room_def)

lemma event_room_Suc: "event_room (Suc k) s \<Longrightarrow> event_room k s"
  by (auto simp: event_room_def intro: quiet_Suc)

lemma virt_frame [simp]:
  "virt (s\<lparr>user_count := c\<rparr>) = virt s" "virt (s\<lparr>max_user_id := c\<rparr>) = virt s" "virt (raise_max_user_id uid s) = virt s"
  by (rule virt_table, simp add: raise_max_user_id_def)+

lemma add_virtual_event_room:
  assumes r: "event_room (Suc k) s" and n: "nsec + int k < NSEC_MAX" "int k < NSEC_MAX"
    and uid: "0 < uid" "uid < int (length (ut_table s))" and st: "\<not> transient_status (re_status re)"
    and ue: "ue_status ue = V_VIRTUAL_USER \<longrightarrow> ue_start_time ue > 0"
  shows "\<exists>i s'. add_virtual_event rnd uid t nsec re ue s = Some (int i, s') \<and> i < run_u s' \<and> event_room k s' \<and>
    head s' = head s \<and> virt s' = (virt s)(uid := (ue_status ue, ue_start_time ue, ue_stop_time ue))"
proof -
  have R: "wf_runs s" "io_good s" "run_fd s \<ge> 0" "quiet (Suc k) (log s)" using r by (simp_all add: event_room_def)
  obtain i s1 p where I: "get_insert_run_id rnd t uid nsec s = Some (int i, s1)" "i \<le> run_u s" "p + int k < NSEC_MAX"
    "log s1 = take i (log s) @ empty_slot (int i) t p # renumber (Suc i) (drop i (log s))"
    "run_u s1 = Suc (run_u s)" "wf_runs s1" "side s1 = side s" "head s1 = head s" "io_good s1"
    using get_insert_room [OF R(1,4) n R(2)] by blast
  let ?s = "(raise_max_user_id uid (ut_store uid ue s1))\<lparr>user_count := -1\<rparr>"
  have c: "core ?s = core s1" by simp
  have v: "virt ?s = (virt s)(uid := (ue_status ue, ue_start_time ue, ue_stop_time ue))"
    using virt_store [of uid s1 ue] virt_table [of s1 s] uid sideD(1) [OF I(7)] by simp
  have in_l: "in_log ?s (int i)" using I(2,5) coreD(3) [OF c] by simp
  obtain r s2 where U: "update_entry (add_entry_fields virtual_mask re) (int i) ?s = Some (r, s2)"
    using entry_writer.op_total [OF update_entry_writer in_l] by blast
  note w = update_entry_writer [of "add_entry_fields virtual_mask re"]
  have a: "add_entry_func (int i) re virtual_mask ?s = Some (r, s2)"
    using U add_entry_is_update [of ?s "int i"] coreD(9) [OF c] I(6) in_l by simp
  have fd: "run_fd ?s \<ge> 0" using coreD(7) [OF c] sideD(12) [OF I(7)] R(3) by simp
  have D: "r = int i" "io_good s2"
    using entry_writer.op_disk [OF w U] coreD(9,11) [OF c] I(6,9) fd by simp_all
  note F = entry_writer.op_frame [OF w U]
  have v2: "virt s2 = virt ?s" by (rule virt_table) (use F sideD(1) in blast)
  have l2: "log s2 = (log s1)[i := add_entry_fields virtual_mask re (log s1 ! i)]"
    using entry_writer.op_log [OF w U] coreD(8) [OF c] by simp
  have slot: "log s1 ! i = empty_slot (int i) t p" using I(2,4) R(1) by (simp add: nth_append)
  have m: "has virtual_mask RE_STATUS" by (simp add: virtual_mask_def mask_defs has_def)
  let ?x = "add_entry_fields virtual_mask re (empty_slot (int i) t p)"
  have x: "re_status ?x = re_status re" "re_nsec ?x = p"
    using m by (simp_all add: add_entry_fields_get empty_slot_def)
  have "log s2 = take i (log s) @ ?x # renumber (Suc i) (drop i (log s))"
    using l2 slot I(2,4) R(1) by (simp add: list_update_append)
  moreover have "quiet k (take i (log s) @ renumber (Suc i) (drop i (log s)))"
    using quiet_Suc [OF R(4)] by (auto simp: quiet_append intro: quiet_sub dest: set_take_subset [THEN subsetD] set_drop_subset [THEN subsetD])
  moreover have "quiet k [?x]" using st x I(3) by (simp add: quiet_def)
  ultimately have q: "quiet k (log s2)"
    using quiet_append [of k "[?x]" "renumber (Suc i) (drop i (log s))"] by (simp add: quiet_append)
  let ?s' = "invalidate_user uid s2"
  have c2: "core ?s' = core s2" by simp
  have h: "head s2 = head s" "run_fd s2 = run_fd s" "run_u s2 = Suc (run_u s)" "wf_runs s2"
    using F coreD(1,3,7) [OF c] I(5,8) sideD(12) [OF I(7)] entry_writer.op_wf [OF w U] coreD(9) [OF c] I(6)
    by (simp_all add: side_def)
  have "event_room k s2"
    using r q h D(2) v v2 ue uid by (auto simp: event_room_def)
  then have "event_room k ?s'" using event_room_core [OF c2] by simp
  moreover have "add_virtual_event rnd uid t nsec re ue s = Some (int i, ?s')"
    using I(1) a D(1) by (simp add: add_virtual_event_def)
  moreover have "head ?s' = head s" "run_u ?s' = Suc (run_u s)" using h coreD(1,3) [OF c2] by simp_all
  moreover have "virt ?s' = (virt s)(uid := (ue_status ue, ue_start_time ue, ue_stop_time ue))" using v v2 by simp
  ultimately show ?thesis using I(2) by auto
qed

text \<open>Whether a user's contest is ended at \<open>t\<close>.\<close>

definition stoppable :: "run_header \<Rightarrow> int \<times> int \<times> int \<Rightarrow> int \<Rightarrow> bool" where
  "stoppable h v t \<longleftrightarrow> (case v of (status, start_time, stop_time) \<Rightarrow>
     rh_start_time h > 0 \<and> rh_start_time h \<le> t \<and> status = V_VIRTUAL_USER \<and> stop_time = 0 \<and>
     t \<le> (if rh_duration h > 0 then start_time + rh_duration h else 0))"

definition stopped :: "int \<Rightarrow> int \<times> int \<times> int \<Rightarrow> int \<times> int \<times> int" where
  "stopped t v = (fst v, fst (snd v), t)"

lemma run_virtual_stop_room:
  assumes r: "event_room (Suc k) s" and n: "nsec + int k < NSEC_MAX" "int k < NSEC_MAX" and uid: "uid > 0"
  shows "\<exists>rid s'. run_virtual_stop rnd uid t ip ssl nsec s = Some (rid, s') \<and> event_room k s' \<and> head s' = head s \<and>
    (if stoppable (head s) (virt s uid) t then 0 \<le> rid \<and> rid < int (run_u s') \<and> virt s' = (virt s)(uid := stopped t (virt s uid))
     else rid < 0 \<and> virt s' = virt s)"
proof -
  obtain ue s1 where G: "get_user_entry uid s = Some (ue, s1)" "base s1 = base s" "virt s1 = virt s"
    "uid < int (length (ut_table s1))" "virt s uid = (ue_status ue, ue_start_time ue, ue_stop_time ue)"
    using get_user_entry_virt [OF uid] by blast
  have h: "head s1 = head s" using baseD(1) [OF G(2)] .
  have r1: "event_room (Suc k) s1" using event_room_core [OF core_base [OF G(2)] G(3)] r by simp
  have pos: "ue_status ue = V_VIRTUAL_USER \<longrightarrow> ue_start_time ue > 0" "rh_start_time (head s) \<ge> 0"
    using r G(5) uid by (auto simp: event_room_def)
  show ?thesis
  proof (cases "stoppable (head s) (virt s uid) t")
    case True
    let ?re = "virtual_entry uid ip ssl RUN_VIRTUAL_STOP"
    have st: "\<not> transient_status (re_status ?re)" by (simp add: virtual_entry_def transient_status_def)
    have u: "ue_status (ue\<lparr>ue_stop_time := t\<rparr>) = V_VIRTUAL_USER \<longrightarrow> ue_start_time (ue\<lparr>ue_stop_time := t\<rparr>) > 0"
      using pos(1) by simp
    obtain i s' where A: "add_virtual_event rnd uid t nsec ?re (ue\<lparr>ue_stop_time := t\<rparr>) s1 = Some (int i, s')"
      "i < run_u s'" "event_room k s'" "head s' = head s1"
      "virt s' = (virt s1)(uid := (ue_status ue, ue_start_time ue, t))"
      using add_virtual_event_room [OF r1 n uid G(4) st u, of rnd t] by auto
    have "run_virtual_stop rnd uid t ip ssl nsec s = Some (int i, s')"
      using True G(1,5) h pos A(1) by (auto simp: run_virtual_stop_def stoppable_def Let_def split: if_splits)
    then show ?thesis using True A h G(3,5) by (auto simp: stopped_def)
  next
    case False
    have "run_virtual_stop rnd uid t ip ssl nsec s = Some (-1, s1)"
      using False G(1,5) h pos by (auto simp: run_virtual_stop_def stoppable_def Let_def split: if_splits)
    then show ?thesis using False event_room_Suc [OF r1] h G(3) by auto
  qed
qed

lemma run_virtual_start_room:
  assumes r: "event_room (Suc k) s" and n: "nsec \<ge> 0" "nsec + int k < NSEC_MAX" and uid: "uid > 0"
    and ok: "virt s uid = (0, 0, 0)" "rh_start_time (head s) > 0" "rh_start_time (head s) \<le> t"
  shows "\<exists>i s'. run_virtual_start rnd uid t ip ssl nsec s = Some (int i, s') \<and> i < run_u s' \<and> event_room k s' \<and>
    head s' = head s \<and> virt s' = (virt s)(uid := (V_VIRTUAL_USER, t, 0))"
proof -
  obtain ue s1 where G: "get_user_entry uid s = Some (ue, s1)" "base s1 = base s" "virt s1 = virt s"
    "uid < int (length (ut_table s1))" "virt s uid = (ue_status ue, ue_start_time ue, ue_stop_time ue)"
    using get_user_entry_virt [OF uid] by blast
  have h: "head s1 = head s" using baseD(1) [OF G(2)] .
  have r1: "event_room (Suc k) s1" using event_room_core [OF core_base [OF G(2)] G(3)] r by simp
  let ?re = "virtual_entry uid ip ssl RUN_VIRTUAL_START" and ?ue = "ue\<lparr>ue_start_time := t, ue_status := V_VIRTUAL_USER\<rparr>"
  have st: "\<not> transient_status (re_status ?re)" by (simp add: virtual_entry_def transient_status_def)
  have u: "ue_status ?ue = V_VIRTUAL_USER \<longrightarrow> ue_start_time ?ue > 0" using ok(2,3) by simp
  have k: "int k < NSEC_MAX" using n by linarith
  obtain i s' where A: "add_virtual_event rnd uid t nsec ?re ?ue s1 = Some (int i, s')" "i < run_u s'" "event_room k s'"
    "head s' = head s1" "virt s' = (virt s1)(uid := (V_VIRTUAL_USER, t, 0))"
    using add_virtual_event_room [OF r1 n(2) k uid G(4) st u, of rnd t] G(5) ok(1) by auto
  have "nsec \<le> NSEC_MAX" using n by linarith
  then have "run_virtual_start rnd uid t ip ssl nsec s = Some (int i, s')"
    using G(1,5) h ok n(1) A(1) by (simp add: run_virtual_start_def)
  then show ?thesis using A h G(3) by auto
qed

lemma event_room_mono: "event_room k s \<Longrightarrow> j \<le> k \<Longrightarrow> event_room j s"
  by (induction k) (auto simp: le_Suc_eq intro: event_room_Suc)

lemma run_clear_index_core:
  "core (snd (run_clear_index rid s)) = core s \<and> virt (snd (run_clear_index rid s)) = virt s"
  by (simp add: run_clear_index_def)

lemma move_files_core:
  assumes "0 \<le> rid" "rid < int (run_u s)"
  shows "\<exists>s'. serve_move_files_to_insert_run rid s = Some s' \<and> core s' = core s \<and> virt s' = virt s"
proof -
  have "core (fold move_step ks s) = core s \<and> virt (fold move_step ks s) = virt s" for ks
    by (induction ks arbitrary: s) (simp_all add: move_step_def run_clear_index_core)
  then show ?thesis using assms by (auto simp: serve_move_files_to_insert_run_def)
qed

lemma transient_none:
  assumes "quiet k (log s)" "wf_runs s"
  shows "serve_count_transient_runs s = 0"
proof -
  have "\<forall>r < run_u s. \<not> transient_status (re_status (runs s ! r))"
    using assms by (metis length_log log_nth nth_mem quiet_def)
  then show ?thesis by (auto simp: serve_count_transient_runs_def filter_empty_conv)
qed

end
