(* ===== verification/Event_Laws.thy ===== *)
theory Event_Laws
  imports Virtual_Laws
begin

text \<open>
  One pass of \<open>serve_handle_events\<close> over the queue: it returns, removes every due event and ends the
  virtual contests whose time is up.
\<close>

section \<open>One event\<close>

text \<open>What an event does to the contest states of the users.\<close>

definition stop_one :: "run_header \<Rightarrow> event \<Rightarrow> (int \<Rightarrow> int \<times> int \<times> int) \<Rightarrow> int \<Rightarrow> int \<times> int \<times> int" where
  "stop_one h e v =
    (if ev_type e = SERVE_EVENT_VIRTUAL_STOP \<and> stoppable h (v (ev_user e)) (ev_time e)
     then v(ev_user e := stopped (ev_time e) (v (ev_user e))) else v)"

definition plain_contest :: "contest \<Rightarrow> bool" where
  "plain_contest c \<longleftrightarrow> \<not> (ct_olympiad c \<and> ct_is_virtual c \<noteq> 0)"

definition served_event :: "event \<Rightarrow> bool" where
  "served_event e \<longleftrightarrow> (ev_type e = SERVE_EVENT_VIRTUAL_STOP \<or> ev_type e = SERVE_EVENT_JUDGE_OLYMPIAD) \<and> ev_user e > 0"

definition clock_room :: "contest \<Rightarrow> nat \<Rightarrow> bool" where
  "clock_room c k \<longleftrightarrow> (\<forall>e. 0 \<le> snd (ct_clock c e) \<and> snd (ct_clock c e) * 1000 + int k < NSEC_MAX)"

lemma clock_room_mono: "clock_room c k \<Longrightarrow> j \<le> k \<Longrightarrow> clock_room c j"
  unfolding clock_room_def by (meson add_left_mono le_less_trans of_nat_mono)

lemma stop_nsec_quiet:
  assumes "event_room k (sv_log sv)" "clock_room c j"
  shows "\<exists>nsec. stop_nsec c e sv = Some nsec \<and> nsec + int j < NSEC_MAX"
proof -
  have "serve_count_transient_runs (sv_log sv) = 0"
    using assms(1) transient_none by (auto simp: event_room_def)
  moreover have "0 \<le> snd (ct_clock c e)" "snd (ct_clock c e) * 1000 + int j < NSEC_MAX"
    using assms(2) by (auto simp: clock_room_def)
  ultimately show ?thesis by (auto simp: stop_nsec_def split: prod.split)
qed

lemma on_queue_remove:
  assumes "chained (sv_queue sv) (a # as)"
  shows "\<exists>q'. on_queue (serve_event_remove a) sv = Some (sv\<lparr>sv_queue := q'\<rparr>) \<and> chained q' as \<and>
    (\<forall>b \<in> set as. event_at q' b = event_at (sv_queue sv) b)"
  using serve_event_remove_chained [of "sv_queue sv" "[]" a as] assms by (auto simp: on_queue_def)

lemma handle_event_removes:
  assumes q: "chained (sv_queue sv) (a # as)" and e: "event_at (sv_queue sv) a = e" "served_event e"
    and r: "event_room (Suc k) (sv_log sv)" and c: "plain_contest c" "clock_room c k"
  shows "\<exists>sv'. handle_event c a e sv = Some sv' \<and> chained (sv_queue sv') as \<and>
    (\<forall>b \<in> set as. event_at (sv_queue sv') b = event_at (sv_queue sv) b) \<and> sv_time sv' = sv_time sv \<and>
    event_room k (sv_log sv') \<and> head (sv_log sv') = head (sv_log sv) \<and>
    virt (sv_log sv') = stop_one (head (sv_log sv)) e (virt (sv_log sv))"
proof (cases "ev_type e = SERVE_EVENT_VIRTUAL_STOP")
  case False
  then have t: "ev_type e = SERVE_EVENT_JUDGE_OLYMPIAD" using e(2) by (simp add: served_event_def)
  have "handle_event c a e sv = on_queue (serve_event_remove a) sv"
    using False t c(1) by (auto simp: handle_event_def handle_judge_olympiad_event_def plain_contest_def)
  then show ?thesis using on_queue_remove [OF q] event_room_Suc [OF r] False by (auto simp: stop_one_def)
next
  case True
  let ?s = "sv_log sv" and ?stops = "stoppable (head (sv_log sv)) (virt (sv_log sv) (ev_user e)) (ev_time e)"
  have uid: "ev_user e > 0" using e(2) by (simp add: served_event_def)
  obtain nsec where n: "stop_nsec c e sv = Some nsec" "nsec + int k < NSEC_MAX" using stop_nsec_quiet [OF r c(2)] by blast
  have "0 \<le> snd (ct_clock c e)" "snd (ct_clock c e) * 1000 + int k < NSEC_MAX" using c(2) by (auto simp: clock_room_def)
  then have k: "int k < NSEC_MAX" by linarith
  obtain rid s where S: "run_virtual_stop (ct_rnd c) (ev_user e) (ev_time e) None 0 nsec ?s = Some (rid, s)"
    "event_room k s" "head s = head ?s"
    "if ?stops then 0 \<le> rid \<and> rid < int (run_u s) \<and> virt s = (virt ?s)(ev_user e := stopped (ev_time e) (virt ?s (ev_user e)))
     else rid < 0 \<and> virt s = virt ?s"
    using run_virtual_stop_room [OF r n(2) k uid] by blast
  have v: "virt s = stop_one (head ?s) e (virt ?s)" using S(4) True by (simp add: stop_one_def)
  obtain s' where s': "core s' = core s" "virt s' = virt s"
    "handle_event c a e sv = on_queue (serve_event_remove a) (sv\<lparr>sv_log := s'\<rparr>)"
  proof (cases ?stops)
    case yes: True
    then obtain s' where "serve_move_files_to_insert_run rid s = Some s'" "core s' = core s" "virt s' = virt s"
      using S(4) move_files_core [of rid s] by auto
    then show thesis
      using that [of s'] yes True n(1) S(1,4) c(1)
      by (auto simp: handle_event_def handle_virtual_stop_event_def plain_contest_def)
  next
    case no: False
    then show thesis
      using that [of s] True n(1) S(1,4) by (simp add: handle_event_def handle_virtual_stop_event_def)
  qed
  have "chained (sv_queue (sv\<lparr>sv_log := s'\<rparr>)) (a # as)" using q by simp
  then obtain q' where Q: "handle_event c a e sv = Some (sv\<lparr>sv_log := s', sv_queue := q'\<rparr>)" "chained q' as"
    "\<forall>b \<in> set as. event_at q' b = event_at (sv_queue sv) b"
    using on_queue_remove [of "sv\<lparr>sv_log := s'\<rparr>" a as] s'(3) by auto
  have "head s' = head ?s" "event_room k s'" using coreD(1) [OF s'(1)] S(2,3) event_room_core [OF s'(1,2)] by simp_all
  then show ?thesis using Q v s'(2) by simp
qed

section \<open>A pass over the queue\<close>

definition stop_all :: "run_header \<Rightarrow> event list \<Rightarrow> (int \<Rightarrow> int \<times> int \<times> int) \<Rightarrow> int \<Rightarrow> int \<times> int \<times> int" where
  "stop_all h es v = fold (stop_one h) es v"

lemma handle_from_due:
  assumes "chained (sv_queue sv) as" "\<forall>a \<in> set as. served_event (event_at (sv_queue sv) a)"
    and "event_room (length (takeWhile (\<lambda>a. ev_time (event_at (sv_queue sv) a) \<le> sv_time sv) as)) (sv_log sv)"
    and "plain_contest c" "clock_room c (length (takeWhile (\<lambda>a. ev_time (event_at (sv_queue sv) a) \<le> sv_time sv) as))"
  shows "\<exists>sv'. handle_from c (first_of as None) sv = Some sv' \<and>
    chained (sv_queue sv') (dropWhile (\<lambda>a. ev_time (event_at (sv_queue sv) a) \<le> sv_time sv) as) \<and>
    (\<forall>b \<in> set (dropWhile (\<lambda>a. ev_time (event_at (sv_queue sv) a) \<le> sv_time sv) as).
      event_at (sv_queue sv') b = event_at (sv_queue sv) b) \<and>
    virt (sv_log sv') = stop_all (head (sv_log sv))
      (events_of (sv_queue sv) (takeWhile (\<lambda>a. ev_time (event_at (sv_queue sv) a) \<le> sv_time sv) as)) (virt (sv_log sv))"
  using assms
proof (induction as arbitrary: sv)
  case Nil
  then show ?case by (subst handle_from.simps) (simp add: events_of_def stop_all_def)
next
  case (Cons a as)
  let ?q = "sv_queue sv" and ?due = "\<lambda>a. ev_time (event_at (sv_queue sv) a) \<le> sv_time sv"
  let ?e = "event_at ?q a" and ?k = "length (takeWhile ?due as)"
  obtain n where n: "q_mem ?q a = Some n" "en_next n = first_of as None" using Cons.prems(1) by (auto simp: chained_def)
  have en: "en_event n = ?e" using n(1) by (simp add: event_at_def)
  show ?case
  proof (cases "?due a")
    case False
    then show ?thesis using n en by (subst handle_from.simps) (auto simp: load_node_def events_of_def stop_all_def Cons.prems)
  next
    case True
    have r: "event_room (Suc ?k) (sv_log sv)" "clock_room c ?k"
      using Cons.prems(3) clock_room_mono [OF Cons.prems(5), of ?k] True by simp_all
    have se: "served_event ?e" using Cons.prems(2) by simp
    obtain sv1 where H: "handle_event c a ?e sv = Some sv1" "chained (sv_queue sv1) as"
      "\<forall>b \<in> set as. event_at (sv_queue sv1) b = event_at ?q b" "sv_time sv1 = sv_time sv"
      "event_room ?k (sv_log sv1)" "head (sv_log sv1) = head (sv_log sv)"
      "virt (sv_log sv1) = stop_one (head (sv_log sv)) ?e (virt (sv_log sv))"
      using handle_event_removes [OF Cons.prems(1) refl se r(1) Cons.prems(4) r(2)] by blast
    let ?due1 = "\<lambda>a. ev_time (event_at (sv_queue sv1) a) \<le> sv_time sv1"
    have tw: "takeWhile ?due1 as = takeWhile ?due as" "dropWhile ?due1 as = dropWhile ?due as"
      using H(3,4) by (auto intro!: takeWhile_cong dropWhile_cong)
    have ev: "events_of (sv_queue sv1) (takeWhile ?due as) = events_of ?q (takeWhile ?due as)"
      using H(3) by (auto simp: events_of_def dest: set_takeWhileD)
    have "\<forall>a \<in> set as. served_event (event_at (sv_queue sv1) a)" using H(3) Cons.prems(2) by simp
    then obtain sv2 where L: "handle_from c (first_of as None) sv1 = Some sv2"
      "chained (sv_queue sv2) (dropWhile ?due as)"
      "\<forall>b \<in> set (dropWhile ?due as). event_at (sv_queue sv2) b = event_at (sv_queue sv1) b"
      "virt (sv_log sv2) = stop_all (head (sv_log sv1)) (events_of ?q (takeWhile ?due as)) (virt (sv_log sv1))"
      using Cons.IH [OF H(2)] H(5) Cons.prems(4) r(2) tw ev by auto
    have "handle_from c (first_of (a # as) None) sv = Some sv2"
      using n en True H(1) L(1) by (subst handle_from.simps) (simp add: load_node_def)
    moreover have "virt (sv_log sv2) = stop_all (head (sv_log sv)) (?e # events_of ?q (takeWhile ?due as)) (virt (sv_log sv))"
      using L(4) H(6,7) by (simp add: stop_all_def)
    ultimately show ?thesis
      using L(2,3) H(3) True by (auto simp: events_of_def dest: set_dropWhileD)
  qed
qed

definition due :: "server \<Rightarrow> event list" where
  "due sv = filter (\<lambda>e. ev_time e \<le> sv_time sv) (queue_events (sv_queue sv))"

lemma due_split:
  "sorted (map ev_time es) \<Longrightarrow> takeWhile (\<lambda>e. ev_time e \<le> t) es = filter (\<lambda>e. ev_time e \<le> t) es \<and>
    dropWhile (\<lambda>e. ev_time e \<le> t) es = filter (\<lambda>e. ev_time e > t) es"
proof (induction es)
  case (Cons e es)
  show ?case
  proof (cases "ev_time e \<le> t")
    case False
    then have "\<forall>x \<in> set es. t < ev_time x" using Cons.prems by auto
    then have "filter (\<lambda>e. ev_time e \<le> t) es = []" "filter (\<lambda>e. t < ev_time e) es = es"
      by (auto simp: filter_empty_conv not_le)
    then show ?thesis using False by simp
  qed (use Cons in auto)
qed simp

lemma due_events:
  assumes "evq.ordered (sv_queue sv)" "\<forall>e \<in> set (queue_events (sv_queue sv)). served_event e"
    and "event_room (length (due sv)) (sv_log sv)" "plain_contest c" "clock_room c (length (due sv))"
  shows "\<exists>sv'. serve_handle_events c sv = Some sv' \<and> evq.ordered (sv_queue sv') \<and>
    queue_events (sv_queue sv') = filter (\<lambda>e. ev_time e > sv_time sv) (queue_events (sv_queue sv)) \<and>
    virt (sv_log sv') = stop_all (head (sv_log sv)) (due sv) (virt (sv_log sv))"
proof -
  let ?q = "sv_queue sv"
  let ?as = "addresses ?q" and ?late = "\<lambda>a. ev_time (event_at ?q a) \<le> sv_time sv"
  have l: "chained ?q ?as" and s: "sorted (map ev_time (queue_events ?q))"
    using assms(1) by (simp_all add: evq.ordered_def queue_ok_def)
  note sp = due_split [OF s, of "sv_time sv"]
  have d: "due sv = events_of ?q (takeWhile ?late ?as)"
    using sp by (simp add: due_def queue_events_def events_of_def takeWhile_map comp_def)
  have f: "q_first ?q = first_of ?as None" using l by (simp add: chained_def)
  obtain sv' where H: "serve_handle_events c sv = Some sv'" "chained (sv_queue sv') (dropWhile ?late ?as)"
    "\<forall>b \<in> set (dropWhile ?late ?as). event_at (sv_queue sv') b = event_at ?q b"
    "virt (sv_log sv') = stop_all (head (sv_log sv)) (due sv) (virt (sv_log sv))"
    using handle_from_due [OF l, of c] assms(2-5) d f
    by (auto simp: serve_handle_events_def queue_events_def events_of_def)
  have "queue_events (sv_queue sv') = events_of ?q (dropWhile ?late ?as)"
    using chained_ok [OF H(2)] H(3) by (simp add: events_of_def)
  also have "\<dots> = filter (\<lambda>e. ev_time e > sv_time sv) (queue_events ?q)"
    using sp by (simp add: queue_events_def events_of_def dropWhile_map comp_def)
  finally have e: "queue_events (sv_queue sv') = filter (\<lambda>e. ev_time e > sv_time sv) (queue_events ?q)" .
  have "evq.ordered (sv_queue sv')"
    unfolding evq.ordered_def e using chained_ok [OF H(2)] sorted_filter [OF s] by blast
  then show ?thesis using H(1,4) e by blast
qed


text \<open>Participant 7 started at 100 for 50 seconds; at 200 the stop event of 150 is due, the one of 300 is not.\<close>

definition ex_queue :: queue where
  "ex_queue = \<lparr>q_mem = [0 \<mapsto> \<lparr>en_next = Some 1, en_prev = None, en_event = new_event 150 1 7 True\<rparr>,
      1 \<mapsto> \<lparr>en_next = None, en_prev = Some 0, en_event = new_event 300 1 8 True\<rparr>],
    q_first = Some 0, q_last = Some 1, q_fresh = 2\<rparr>"

definition ex_virtual_log :: runlog where
  "ex_virtual_log = run_init\<lparr>run_fd := 3, head := zero_header\<lparr>rh_start_time := 90, rh_duration := 50\<rparr>,
     ut_table := (replicate 16 None)[7 := Some (zero_user_entry\<lparr>ue_status := 2, ue_start_time := 100\<rparr>)]\<rparr>"

definition ex_server :: server where
  "ex_server = \<lparr>sv_log = ex_virtual_log, sv_queue = ex_queue, sv_time = 200\<rparr>"

lemma ex_queue_chained: "chained ex_queue [0, 1]"
  by (auto simp: chained_def ex_queue_def)

lemma ex_queue_events: "queue_ok ex_queue" "queue_events ex_queue = [new_event 150 1 7 True, new_event 300 1 8 True]"
  using chained_ok [OF ex_queue_chained] by (simp_all add: events_of_def event_at_def ex_queue_def)

lemma ex_virtual_virt: "virt ex_virtual_log uid = (if uid = 7 then (2, 100, 0) else (0, 0, 0))"
proof -
  have "ut_lookup ex_virtual_log uid = (if uid = 7 then Some (zero_user_entry\<lparr>ue_status := 2, ue_start_time := 100\<rparr>) else None)"
    by (auto simp: ut_lookup_def ex_virtual_log_def nth_list_update)
  then show ?thesis by (simp add: virt_def zero_user_entry_def)
qed


section \<open>From the start of a virtual contest to its end\<close>

text \<open>A request to start a virtual contest that is granted.\<close>

lemma virtual_start_granted:
  assumes "ct_is_virtual c > 0" "\<not> start_refused c sv" "rh_start_time (head (sv_log sv)) > 0"
    and "event_room (Suc k) (sv_log sv)" "0 \<le> rq_usec rq" "rq_usec rq * 1000 + int k < NSEC_MAX"
    and "rq_user rq > 0" "virt (sv_log sv) (rq_user rq) = (0, 0, 0)" "rh_start_time (head (sv_log sv)) \<le> rq_sec rq"
    and "rh_duration (head (sv_log sv)) \<ge> 0" "evq.ordered (sv_queue sv)"
  shows "\<exists>sv'. virtual_start_command c rq sv = Some (Command_done, sv') \<and> sv_time sv' = sv_time sv \<and>
    head (sv_log sv') = head (sv_log sv) \<and> event_room k (sv_log sv') \<and>
    virt (sv_log sv') = (virt (sv_log sv))(rq_user rq := (V_VIRTUAL_USER, rq_sec rq, 0)) \<and> evq.ordered (sv_queue sv') \<and>
    mset (queue_events (sv_queue sv')) = add_mset
      (new_event (rq_sec rq + rh_duration (head (sv_log sv))) SERVE_EVENT_VIRTUAL_STOP (rq_user rq) True)
      (mset (queue_events (sv_queue sv)))"
proof -
  let ?s = "sv_log sv" and ?u = "rq_user rq"
  obtain ue s where G: "get_user_entry ?u ?s = Some (ue, s)" "base s = base ?s" "virt s = virt ?s"
    "virt ?s ?u = (ue_status ue, ue_start_time ue, ue_stop_time ue)"
    using get_user_entry_virt [OF assms(7)] by blast
  have st: "run_get_virtual_start_time ?u ?s = Some (0, s)" using G(1,4) assms(8) by (simp add: run_get_virtual_start_time_def)
  have h: "head s = head ?s" by (rule baseD(1) [OF G(2)])
  have r: "event_room (Suc k) s" using event_room_core [OF core_base [OF G(2)] G(3)] assms(4) by simp
  obtain i s1 where S: "run_virtual_start (ct_rnd c) ?u (rq_sec rq) (rq_ip rq) (rq_ssl rq) (rq_usec rq * 1000) s = Some (int i, s1)"
    "i < run_u s1" "event_room k s1" "head s1 = head s" "virt s1 = (virt s)(?u := (V_VIRTUAL_USER, rq_sec rq, 0))"
    using run_virtual_start_room [OF r _ assms(6,7), of "rq_sec rq" "ct_rnd c" "rq_ip rq" "rq_ssl rq"] assms(3,5,8,9) G(3) h by auto
  obtain s2 where M: "serve_move_files_to_insert_run (int i) s1 = Some s2" "core s2 = core s1" "virt s2 = virt s1"
    using move_files_core [of "int i" s1] S(2) by auto
  have h2: "head s2 = head ?s" "event_room k s2" using coreD(1) [OF M(2)] S(3,4) h event_room_core [OF M(2,3)] by simp_all
  have "rq_sec rq + rh_duration (head s2) > 0" using assms(3,9,10) h2 by simp
  then obtain q' where Q: "serve_event_add (rq_sec rq + rh_duration (head s2)) SERVE_EVENT_VIRTUAL_STOP ?u True (sv_queue sv) = Some q'"
    "evq.ordered q'" "mset (queue_events q') =
      add_mset (new_event (rq_sec rq + rh_duration (head s2)) SERVE_EVENT_VIRTUAL_STOP ?u True) (mset (queue_events (sv_queue sv)))"
    using evq.add_ordered [OF assms(11), of "rq_sec rq + rh_duration (head s2)" SERVE_EVENT_VIRTUAL_STOP ?u True] assms(7) by auto
  have "virtual_start_command c rq sv = Some (Command_done, sv\<lparr>sv_log := s2, sv_queue := q'\<rparr>)"
    using assms(1-3) st S(1) M(1) Q(1) by (simp add: virtual_start_command_def virtual_refused_def on_queue_def)
  then show ?thesis using h2 M(3) S(5) G(3) Q(2,3) by simp
qed

lemma stop_all_others: "\<forall>e \<in> set es. ev_user e \<noteq> u \<Longrightarrow> stop_all h es v u = v u"
  by (induction es arbitrary: v) (auto simp: stop_all_def stop_one_def)

lemma stop_all_append: "stop_all h (xs @ ys) v = stop_all h ys (stop_all h xs v)"
  by (simp add: stop_all_def)

lemma stop_all_single:
  assumes "mset (filter (\<lambda>e. ev_user e = u) es) = {#e#}" "ev_type e = SERVE_EVENT_VIRTUAL_STOP" "stoppable h (v u) (ev_time e)"
  shows "stop_all h es v u = stopped (ev_time e) (v u)"
proof -
  have f: "filter (\<lambda>e. ev_user e = u) es = [e]" using assms(1) unfolding mset_single_iff .
  then have "e \<in> set (filter (\<lambda>e. ev_user e = u) es)" by simp
  then have e: "e \<in> set es" "ev_user e = u" by simp_all
  obtain xs ys where es: "es = xs @ e # ys" using split_list [OF e(1)] by blast
  have "filter (\<lambda>e. ev_user e = u) xs = [] \<and> filter (\<lambda>e. ev_user e = u) ys = []"
    using f e(2) unfolding es by (auto simp: append_eq_Cons_conv)
  then have o: "\<forall>x \<in> set xs. ev_user x \<noteq> u" "\<forall>x \<in> set ys. ev_user x \<noteq> u" by (simp_all add: filter_empty_conv)
  have "es = xs @ [e] @ ys" by (simp add: es)
  then have "stop_all h es v u = stop_all h [e] (stop_all h xs v) u"
    using stop_all_others [OF o(2)] by (simp only: stop_all_append)
  also have "\<dots> = stopped (ev_time e) (v u)"
    using stop_all_others [OF o(1), of h v] assms(2,3) e(2) by (simp add: stop_all_def stop_one_def)
  finally show ?thesis .
qed


definition ex_start_server :: server where
  "ex_start_server = \<lparr>sv_log = run_init\<lparr>run_fd := 3, head := zero_header\<lparr>rh_start_time := 90, rh_duration := 50\<rparr>\<rparr>,
     sv_queue = empty_queue, sv_time = 100\<rparr>"

definition ex_request :: request where
  "ex_request = \<lparr>rq_user = 9, rq_ip = None, rq_ssl = 0, rq_sec = 100, rq_usec = 5\<rparr>"


end
