(* ===== verification/Restart_Laws.thy ===== *)
theory Restart_Laws
  imports Virtual_Events Queue_Laws Log_Steps
begin

text \<open>
  The check of the start and stop events at the start of a server: what it makes of the log, that one
  repair is enough, and which stop events it puts into the queue.
\<close>

section \<open>The check as a fold over the entries\<close>

text \<open>The table of users as a function, and the check of one entry on it.\<close>

definition user_time :: "int list \<Rightarrow> int \<Rightarrow> int" where
  "user_time ts u = (if 0 \<le> u \<and> u < int (length ts) then ts ! nat u else 0)"

definition check_virtual_run :: "int \<Rightarrow> run_entry \<Rightarrow> (int \<Rightarrow> int) \<Rightarrow> (int \<Rightarrow> int) \<times> run_fix" where
  "check_virtual_run d e v =
    (if skipped_run e then (v, Keep)
     else case virtual_fix d e (v (re_user_id e)) of (t, f) \<Rightarrow> (v(re_user_id e := t), f))"

definition user_times :: "int \<Rightarrow> run_entry list \<Rightarrow> int \<Rightarrow> int" where
  "user_times d es = fold (\<lambda>e v. fst (check_virtual_run d e v)) es (\<lambda>_. 0)"

definition fix_at :: "int \<Rightarrow> run_entry list \<Rightarrow> nat \<Rightarrow> run_fix" where
  "fix_at d es i = snd (check_virtual_run d (es ! i) (user_times d (take i es)))"

definition repair :: "run_fix \<Rightarrow> nat \<Rightarrow> run_entry \<Rightarrow> run_entry" where
  "repair f i e = (case f of Keep \<Rightarrow> e | Clear \<Rightarrow> spare_entry\<lparr>re_run_id := int i\<rparr> | Hide \<Rightarrow> e\<lparr>re_is_hidden := 1\<rparr>)"

definition repaired :: "int \<Rightarrow> run_entry list \<Rightarrow> run_entry list" where
  "repaired d es = map (\<lambda>i. repair (fix_at d es i) i (es ! i)) [0..<length es]"

text \<open>A cleared last entry leaves the log.\<close>

definition checked_log :: "int \<Rightarrow> run_entry list \<Rightarrow> run_entry list" where
  "checked_log d es =
    (if es \<noteq> [] \<and> fix_at d es (length es - 1) = Clear then butlast (repaired d es) else repaired d es)"

lemma virtual_fix_same: "virtual_fix d e t = (t', f) \<Longrightarrow> f \<noteq> Keep \<Longrightarrow> t' = t"
  by (auto simp: virtual_fix_def split: if_splits)

lemma user_times_Suc: "i < length es \<Longrightarrow> user_times d (take (Suc i) es) = fst (check_virtual_run d (es ! i) (user_times d (take i es)))"
  by (simp add: user_times_def take_Suc_conv_app_nth)

lemma grow_times_props:
  assumes "ts \<noteq> []" "0 < u"
  shows "user_time (grow_times u ts) = user_time ts" "u < int (length (grow_times u ts))" "length ts \<le> length (grow_times u ts)"
proof -
  have d: "nat u + 1 \<le> double_upto (nat u + 1) (length ts)" using assms(1) by (intro double_upto_ge) simp
  show "user_time (grow_times u ts) = user_time ts"
    by (rule ext) (auto simp: user_time_def grow_times_def nth_append)
  show "u < int (length (grow_times u ts))" "length ts \<le> length (grow_times u ts)"
    using d assms(2) by (auto simp: grow_times_def)
qed

lemma user_time_update:
  "0 \<le> u \<Longrightarrow> u < int (length ts) \<Longrightarrow> user_time (ts[nat u := t]) = (user_time ts)(u := t)"
  by (rule ext) (auto simp: user_time_def nth_list_update)

text \<open>Clearing and hiding in memory, whatever the disk does.\<close>

lemma forced_clear_runs:
  assumes "i < run_u s"
  shows "\<exists>r s' e. run_forced_clear_entry (int i) s = Some (r, s') \<and> head s' = head s \<and> length (runs s') = length (runs s) \<and>
    (run_u s' = run_u s \<and> i \<noteq> run_u s - 1 \<or> run_u s' = i \<and> i = run_u s - 1) \<and> runs s' = (runs s)[i := e] \<and>
    (i \<noteq> run_u s - 1 \<longrightarrow> e = spare_entry\<lparr>re_run_id := int i\<rparr>)"
proof -
  have c: "core (forget_users u s) = core s" for u by simp
  note C = coreD [OF c]
  have "\<not> (int i < 0 \<or> int i \<ge> int (run_u s))" using assms by simp
  then have f: "run_forced_clear_entry (int i) s = clear_entry_func (int i) (forget_users (re_user_id (runs s ! i)) s)"
    by (simp add: run_forced_clear_entry_def)
  let ?s = "forget_users (re_user_id (runs s ! i)) s"
  have l: "in_log ?s (int i)" using assms C(3) by (simp add: in_log_def)
  show ?thesis
  proof (cases "i = run_u s - 1")
    case True
    obtain r s' where "do_truncate (?s\<lparr>run_u := i, runs := (runs ?s)[i := spare_entry]\<rparr>) = (r, s')" by fastforce
    then show ?thesis
      using f l True C(1,2,3) by (auto simp: clear_entry_func_def dest!: do_truncate_frame)
  next
    case False
    obtain r s' where U: "update_entry (\<lambda>_. spare_entry\<lparr>re_run_id := int i\<rparr>) (int i) ?s = Some (r, s')"
      using entry_writer.op_total [OF update_entry_writer l] by blast
    then have "run_forced_clear_entry (int i) s = Some (r, s')" using f clear_middle [OF l] False C(3) by simp
    then show ?thesis
      using entry_writer.op_runs [OF update_entry_writer U] entry_writer.op_frame [OF update_entry_writer U] False C(1,2,3)
      by auto
  qed
qed

lemma set_hidden_runs:
  assumes "i < run_u s"
  shows "\<exists>r s'. run_set_hidden (int i) s = Some (r, s') \<and> head s' = head s \<and> run_u s' = run_u s \<and>
    runs s' = (runs s)[i := (runs s ! i)\<lparr>re_is_hidden := 1\<rparr>]"
proof -
  have l: "in_log s (int i)" using assms by (simp add: in_log_def)
  obtain r s' where U: "set_hidden_func 1 (int i) s = Some (r, s')" using set_hidden.op_total [OF l] by blast
  then show ?thesis
    using set_hidden.op_runs [OF U] set_hidden.op_frame [OF U] assms by (simp add: run_set_hidden_def)
qed

text \<open>The state of the loop before run \<open>k\<close>, started with the entries \<open>es\<close> in memory.\<close>

definition checked_upto :: "int \<Rightarrow> run_entry list \<Rightarrow> nat \<Rightarrow> runlog \<Rightarrow> int list \<times> bool \<times> runlog \<Rightarrow> bool" where
  "checked_upto d es k s0 st \<longleftrightarrow> (case st of (ts, nr, s) \<Rightarrow>
     ts \<noteq> [] \<and> user_time ts = user_times d (take k es) \<and> nr = (\<exists>i < k. fix_at d es i \<noteq> Keep) \<and> head s = head s0 \<and>
     length (runs s) = length (runs s0) \<and>
     run_u s = (if 0 < k \<and> k = length es \<and> fix_at d es (k - 1) = Clear then k - 1 else length es) \<and>
     (\<forall>i < run_u s. runs s ! i = (if i < k then repair (fix_at d es i) i (es ! i) else es ! i)) \<and> (live s0 \<longrightarrow> live s))"

lemma collect_step_upto:
  assumes st: "checked_upto d es k s0 st" and k: "k < length es" and len: "length es \<le> length (runs s0)"
  shows "\<exists>st'. collect_step d k st = Some st' \<and> checked_upto d es (Suc k) s0 st'"
proof -
  obtain ts nr s where "st = (ts, nr, s)" by (cases st) auto
  then have I: "ts \<noteq> []" "user_time ts = user_times d (take k es)" "nr = (\<exists>i < k. fix_at d es i \<noteq> Keep)"
    "head s = head s0" "length (runs s) = length (runs s0)" "run_u s = length es" "live s0 \<longrightarrow> live s"
    "\<forall>i < length es. runs s ! i = (if i < k then repair (fix_at d es i) i (es ! i) else es ! i)"
    using st k by (auto simp: checked_upto_def)
  note st = \<open>st = _\<close>
  let ?e = "es ! k" and ?v = "user_times d (take k es)"
  have e: "runs s ! k = ?e" using I(8) k by simp
  have v': "user_times d (take (Suc k) es) = fst (check_virtual_run d ?e ?v)" by (rule user_times_Suc [OF k])
  have f: "fix_at d es k = snd (check_virtual_run d ?e ?v)" by (simp add: fix_at_def)
  have nr': "(\<exists>i < Suc k. fix_at d es i \<noteq> Keep) \<longleftrightarrow> nr \<or> fix_at d es k \<noteq> Keep" using I(3) by (auto simp: less_Suc_eq)
  show ?thesis
  proof (cases "skipped_run ?e")
    case True
    then have "fix_at d es k = Keep" "user_times d (take (Suc k) es) = ?v" by (simp_all add: f v' check_virtual_run_def)
    then have "checked_upto d es (Suc k) s0 st"
      using I nr' st by (auto simp: checked_upto_def less_Suc_eq repair_def)
    then show ?thesis using True e st by (simp add: collect_step_def Let_def)
  next
    case False
    let ?u = "re_user_id ?e" and ?ts = "grow_times (re_user_id ?e) ts"
    have u: "0 < ?u" using False by (simp add: skipped_run_def)
    note g = grow_times_props [OF I(1) u]
    have at: "?ts ! nat ?u = ?v ?u" using g(1,2) I(2) u by (metis less_le user_time_def)
    obtain t x where tx: "virtual_fix d ?e (?v ?u) = (t, x)" by fastforce
    then have fx: "fix_at d es k = x" "user_times d (take (Suc k) es) = ?v(?u := t)"
      using False by (simp_all add: f v' check_virtual_run_def)
    have ne: "?ts \<noteq> []" using g(3) I(1) by auto
    show ?thesis
    proof (cases x)
      case Keep
      have "collect_step d k st = Some (?ts[nat ?u := t], nr, s)"
        using False st e at tx Keep by (simp add: collect_step_def Let_def)
      moreover have "user_time (?ts[nat ?u := t]) = ?v(?u := t)" using user_time_update [of ?u ?ts t] u g(1,2) I(2) by simp
      then have "checked_upto d es (Suc k) s0 (?ts[nat ?u := t], nr, s)"
        using I nr' fx ne Keep by (auto simp: checked_upto_def less_Suc_eq repair_def)
      ultimately show ?thesis by blast
    next
      case Clear
      have tv: "?v(?u := t) = ?v" using virtual_fix_same [OF tx] Clear by simp
      obtain r s' y where C: "run_forced_clear_entry (int k) s = Some (r, s')" "head s' = head s"
        "length (runs s') = length (runs s)"
        "run_u s' = run_u s \<and> k \<noteq> run_u s - 1 \<or> run_u s' = k \<and> k = run_u s - 1" "runs s' = (runs s)[k := y]"
        "k \<noteq> run_u s - 1 \<longrightarrow> y = spare_entry\<lparr>re_run_id := int k\<rparr>"
        using forced_clear_runs [of k s] k I(6) by metis
      have "collect_step d k st = Some (?ts, True, s')"
        using False st e at tx Clear C(1) by (simp add: collect_step_def Let_def)
      moreover have "checked_upto d es (Suc k) s0 (?ts, True, s')"
      proof -
        have "live s0 \<longrightarrow> live s'" using I(7) live_clear(2) C(1) by blast
        moreover have "run_u s' = (if Suc k = length es then k else length es)" using C(4) I(6) k by auto
        moreover have "\<forall>i < run_u s'. runs s' ! i = (if i < Suc k then repair (fix_at d es i) i (es ! i) else es ! i)"
        proof (intro allI impI)
          fix i assume i: "i < run_u s'"
          then have "i < length es" "i = k \<longrightarrow> k \<noteq> run_u s - 1" using C(4) I(6) by auto
          then show "runs s' ! i = (if i < Suc k then repair (fix_at d es i) i (es ! i) else es ! i)"
            using C(5,6) I(5,8) len k fx(1) Clear by (auto simp: nth_list_update repair_def)
        qed
        ultimately show ?thesis
          using I(2,4,5) C(2,3) nr' fx ne Clear tv g(1) by (auto simp: checked_upto_def)
      qed
      ultimately show ?thesis by blast
    next
      case Hide
      have tv: "?v(?u := t) = ?v" using virtual_fix_same [OF tx] Hide by simp
      obtain r s' where C: "run_set_hidden (int k) s = Some (r, s')" "head s' = head s" "run_u s' = run_u s"
        "runs s' = (runs s)[k := (runs s ! k)\<lparr>re_is_hidden := 1\<rparr>]"
        using set_hidden_runs [of k s] k I(6) by auto
      have "collect_step d k st = Some (?ts, True, s')"
        using False st e at tx Hide C(1) by (simp add: collect_step_def Let_def)
      moreover have "checked_upto d es (Suc k) s0 (?ts, True, s')"
      proof -
        have "live s0 \<longrightarrow> live s'" using I(7) live_status(5) C(1) by blast
        moreover have "\<forall>i < run_u s'. runs s' ! i = (if i < Suc k then repair (fix_at d es i) i (es ! i) else es ! i)"
          using C(3,4) I(5,6,8) len k fx(1) Hide e by (auto simp: nth_list_update repair_def less_Suc_eq)
        ultimately show ?thesis
          using I(2,4,5,6) C(2,3,4) nr' fx ne Hide tv g(1) by (simp add: checked_upto_def)
      qed
      ultimately show ?thesis by blast
    qed
  qed
qed

lemma collect_runs_upto:
  "checked_upto d es k s0 st \<Longrightarrow> k \<le> length es \<Longrightarrow> length es \<le> length (runs s0) \<Longrightarrow>
    \<exists>st'. collect_runs d [k..<length es] st = Some st' \<and> checked_upto d es (length es) s0 st'"
proof (induction "length es - k" arbitrary: k st)
  case 0
  then show ?case by auto
next
  case (Suc n)
  then obtain st1 where "collect_step d k st = Some st1" "checked_upto d es (Suc k) s0 st1"
    using collect_step_upto [of d es k s0 st] Suc.hyps(2) by (metis zero_less_Suc zero_less_diff)
  moreover have "[k..<length es] = k # [Suc k..<length es]" using Suc.hyps(2) by (intro upt_conv_Cons) simp
  ultimately show ?case using Suc.hyps(1) [of "Suc k" st1] Suc.hyps(2) Suc.prems by auto
qed

lemma collect_runs_result:
  assumes "wf_runs s"
  shows "\<exists>ts s'. collect_runs d [0..<run_u s] (replicate 128 0, False, s)
      = Some (ts, (\<exists>i < run_u s. fix_at d (log s) i \<noteq> Keep), s') \<and> ts \<noteq> [] \<and> user_time ts = user_times d (log s) \<and>
    head s' = head s \<and> log s' = checked_log d (log s) \<and> wf_runs s' \<and> (live s \<longrightarrow> live s')"
proof -
  let ?es = "log s" and ?st = "(replicate 128 0, False, s)"
  have n: "length ?es = run_u s" "length ?es \<le> length (runs s)" using assms by (simp_all add: wf_runs_def)
  have "user_time (replicate 128 0) = user_times d (take 0 ?es)"
  proof
    fix u :: int
    have "nat u < 128" if "u < 128" using that by simp
    then show "user_time (replicate 128 0) u = user_times d (take 0 ?es) u"
      by (simp add: user_time_def user_times_def)
  qed
  then have "checked_upto d ?es 0 s ?st" using n by (simp add: checked_upto_def)
  then obtain st where st: "collect_runs d [0..<run_u s] ?st = Some st" "checked_upto d ?es (length ?es) s st"
    using collect_runs_upto [of d ?es 0 s ?st] n by auto
  obtain ts nr s' where "st = (ts, nr, s')" by (cases st) auto
  then have ts: "ts \<noteq> []" and I: "user_time ts = user_times d ?es" "nr = (\<exists>i < run_u s. fix_at d ?es i \<noteq> Keep)" "head s' = head s"
    "length (runs s') = length (runs s)" "run_u s' = (if 0 < run_u s \<and> fix_at d ?es (run_u s - 1) = Clear then run_u s - 1 else run_u s)"
    "\<forall>i < run_u s'. runs s' ! i = repair (fix_at d ?es i) i (?es ! i)" "live s \<longrightarrow> live s'"
    using st(2) n by (auto simp: checked_upto_def split: if_splits)
  have ne: "?es \<noteq> [] \<longleftrightarrow> 0 < run_u s" by (metis length_greater_0_conv n(1))
  have "log s' = checked_log d ?es"
    using I(4-6) n ne by (intro nth_equalityI) (auto simp: log_def checked_log_def repaired_def nth_butlast)
  moreover have "run_u s' \<le> run_u s" using I(5) by auto
  then have "wf_runs s'" using I(4) n by (simp add: wf_runs_def)
  ultimately show ?thesis using st(1) ts I \<open>st = _\<close> by auto
qed

section \<open>One repair is enough\<close>

lemma repair_skipped: "skipped_run (spare_entry\<lparr>re_run_id := i\<rparr>)"
  by (simp add: skipped_run_def spare_entry_def)

text \<open>A repaired entry passes the check and leaves the table as the check of the entry did.\<close>

lemma check_repaired: "check_virtual_run d (repair (snd (check_virtual_run d e v)) i e) v = (fst (check_virtual_run d e v), Keep)"
proof (cases "skipped_run e")
  case True
  then show ?thesis by (simp add: check_virtual_run_def repair_def)
next
  case False
  obtain t f where tf: "virtual_fix d e (v (re_user_id e)) = (t, f)" by fastforce
  show ?thesis
  proof (cases f)
    case Keep
    then show ?thesis using False tf by (simp add: check_virtual_run_def repair_def)
  next
    case Clear
    then show ?thesis using False tf virtual_fix_same [OF tf] by (simp add: check_virtual_run_def repair_def repair_skipped)
  next
    case Hide
    have h: "skipped_run (e\<lparr>re_is_hidden := 1\<rparr>) = skipped_run e" by (simp add: skipped_run_def)
    have "virtual_fix d (e\<lparr>re_is_hidden := 1\<rparr>) (v (re_user_id e)) = (t, Keep)"
      using tf Hide by (auto simp: virtual_fix_def split: if_splits)
    then show ?thesis using False tf Hide h by (simp add: check_virtual_run_def repair_def)
  qed
qed

lemma length_repaired [simp]: "length (repaired d es) = length es"
  by (simp add: repaired_def)

lemma repaired_times: "k \<le> length es \<Longrightarrow> user_times d (take k (repaired d es)) = user_times d (take k es)"
proof (induction k)
  case (Suc k)
  have "repaired d es ! k = repair (fix_at d es k) k (es ! k)" using Suc.prems by (simp add: repaired_def)
  then show ?case
    using Suc check_repaired [of d "es ! k" "user_times d (take k es)" k]
    by (simp add: user_times_Suc fix_at_def)
qed (simp add: user_times_def)

lemma repaired_fixes:
  assumes "i < length es"
  shows "fix_at d (repaired d es) i = Keep"
proof -
  have "repaired d es ! i = repair (fix_at d es i) i (es ! i)" using assms by (simp add: repaired_def)
  then show ?thesis
    using assms repaired_times [of i es d] check_repaired [of d "es ! i" "user_times d (take i es)" i]
    by (simp add: fix_at_def)
qed

lemma fix_at_butlast: "i < length es - 1 \<Longrightarrow> fix_at d (butlast es) i = fix_at d es i"
  by (simp add: fix_at_def nth_butlast take_butlast)

lemma checked_fixes: "i < length (checked_log d es) \<Longrightarrow> fix_at d (checked_log d es) i = Keep"
  using repaired_fixes [of i es d] fix_at_butlast [of i "repaired d es" d] by (auto simp: checked_log_def split: if_splits)

lemma checked_times: "user_times d (checked_log d es) = user_times d es"
proof (cases "es \<noteq> [] \<and> fix_at d es (length es - 1) = Clear")
  case False
  then show ?thesis using repaired_times [of "length es" es d] by (auto simp: checked_log_def)
next
  case True
  then obtain n where n: "length es = Suc n" by (cases es) auto
  have "repaired d es ! n = repair (fix_at d es n) n (es ! n)" using n by (simp add: repaired_def del: upt_Suc)
  then have "repaired d es ! n = spare_entry\<lparr>re_run_id := int n\<rparr>" using True n by (simp add: repair_def)
  then have "user_times d (repaired d es) = user_times d (take n (repaired d es))"
    using n user_times_Suc [of n "repaired d es" d] by (simp add: check_virtual_run_def repair_skipped)
  then show ?thesis
    using True n repaired_times [of "Suc n" es d] by (simp add: checked_log_def butlast_conv_take)
qed

section \<open>The events of a restarted server\<close>

text \<open>The stop events for the users whose contest is open.\<close>

lemma on_queue_add:
  assumes "evq.ordered (sv_queue sv)" "t > 0" "uid > 0"
  shows "\<exists>q'. on_queue (serve_event_add t SERVE_EVENT_VIRTUAL_STOP uid h) sv = Some (sv\<lparr>sv_queue := q'\<rparr>) \<and> evq.ordered q' \<and>
    mset (queue_events q') = add_mset (new_event t SERVE_EVENT_VIRTUAL_STOP uid h) (mset (queue_events (sv_queue sv)))"
  using evq.add_ordered [OF assms(1,2), of SERVE_EVENT_VIRTUAL_STOP uid h] assms(3) by (auto simp: on_queue_def)

definition stop_events :: "int \<Rightarrow> (int \<Rightarrow> int) \<Rightarrow> nat list \<Rightarrow> event multiset" where
  "stop_events d v us =
     mset (map (\<lambda>u. new_event (v (int u) + d) SERVE_EVENT_VIRTUAL_STOP (int u) False) (filter (\<lambda>u. v (int u) > 0) us))"

lemma add_stop_events_result:
  assumes "evq.ordered (sv_queue sv)" "d > 0" "\<forall>u \<in> set us. 0 < u \<and> u < length ts"
  shows "\<exists>q'. add_stop_events d ts us sv = Some (sv\<lparr>sv_queue := q'\<rparr>) \<and> evq.ordered q' \<and>
    mset (queue_events q') = mset (queue_events (sv_queue sv)) + stop_events d (user_time ts) us"
  using assms
proof (induction us arbitrary: sv)
  case Nil
  then show ?case by (auto simp: stop_events_def intro!: exI [of _ "sv_queue sv"])
next
  case (Cons u us)
  have ut: "user_time ts (int u) = ts ! u" using Cons.prems(3) by (simp add: user_time_def)
  show ?case
  proof (cases "ts ! u > 0")
    case False
    then show ?thesis using Cons.IH [OF Cons.prems(1)] Cons.prems(2,3) ut by (simp add: stop_events_def)
  next
    case True
    then have p: "ts ! u + d > 0" "int u > 0" using Cons.prems(2,3) by auto
    obtain q1 where q1: "on_queue (serve_event_add (ts ! u + d) SERVE_EVENT_VIRTUAL_STOP (int u) False) sv = Some (sv\<lparr>sv_queue := q1\<rparr>)"
      "evq.ordered q1" "mset (queue_events q1) =
        add_mset (new_event (ts ! u + d) SERVE_EVENT_VIRTUAL_STOP (int u) False) (mset (queue_events (sv_queue sv)))"
      using on_queue_add [OF Cons.prems(1) p, of False] by blast
    have "evq.ordered (sv_queue (sv\<lparr>sv_queue := q1\<rparr>))" using q1(2) by simp
    then obtain q2 where "add_stop_events d ts us (sv\<lparr>sv_queue := q1\<rparr>) = Some (sv\<lparr>sv_queue := q2\<rparr>)" "evq.ordered q2"
      "mset (queue_events q2) = mset (queue_events q1) + stop_events d (user_time ts) us"
      using Cons.IH [of "sv\<lparr>sv_queue := q1\<rparr>"] Cons.prems(2,3) by auto
    then show ?thesis using True q1 ut by (auto simp: stop_events_def)
  qed
qed

lemma filter_upt_beyond: "(\<And>u. n \<le> u \<Longrightarrow> \<not> P u) \<Longrightarrow> 0 < n \<Longrightarrow> n \<le> m \<Longrightarrow> filter P [1..<m] = filter P [1..<n]"
  using upt_add_eq_append [of 1 n "m - n"] by (simp add: filter_empty_conv)

text \<open>No user from 100000 on is watched.\<close>

lemma user_times_beyond: "u \<ge> 100000 \<Longrightarrow> user_times d es u = 0"
  by (induction es rule: rev_induct)
    (auto simp: user_times_def check_virtual_run_def skipped_run_def split: prod.split)

lemma stop_events_table:
  assumes "user_time ts = user_times d es" "ts \<noteq> []"
  shows "stop_events d (user_time ts) [1..<length ts] = stop_events d (user_times d es) [1..<100000]"
proof -
  let ?P = "\<lambda>u. user_times d es (int u) > 0" and ?m = "max (length ts) 100000"
  have "\<not> ?P u" if "length ts \<le> u" for u using that assms(1) [symmetric] by (simp add: user_time_def)
  then have "filter ?P [1..<?m] = filter ?P [1..<length ts]" using assms(2) by (intro filter_upt_beyond) auto
  moreover have "\<not> ?P u" if "100000 \<le> u" for u using user_times_beyond [of "int u" d es] that by simp
  then have "filter ?P [1..<?m] = filter ?P [1..<100000]" by (intro filter_upt_beyond) auto
  ultimately show ?thesis unfolding stop_events_def assms(1) by argo
qed

lemma collect_result:
  assumes "ct_is_virtual c \<noteq> 0" "rh_duration (head (sv_log sv)) = d" "d > 0" "wf_runs (sv_log sv)"
    "evq.ordered (sv_queue sv)" "log (sv_log sv) = es"
  shows "\<exists>r sv'. serve_collect_virtual_stop_events c sv = Some (r, sv') \<and>
    head (sv_log sv') = head (sv_log sv) \<and> log (sv_log sv') = checked_log d es \<and>
    (live (sv_log sv) \<longrightarrow> live (sv_log sv')) \<and> evq.ordered (sv_queue sv') \<and>
    (if \<exists>i < length es. fix_at d es i \<noteq> Keep then r = 1 \<and> sv_queue sv' = sv_queue sv
     else r = 0 \<and> mset (queue_events (sv_queue sv')) = mset (queue_events (sv_queue sv)) + stop_events d (user_times d es) [1..<100000])"
proof -
  let ?s = "sv_log sv" and ?bad = "\<exists>i < length es. fix_at d es i \<noteq> Keep"
  have n: "length es = run_u ?s" using assms(4,6) by auto
  obtain ts s' where C: "collect_runs d [0..<run_u ?s] (replicate 128 0, False, ?s) = Some (ts, ?bad, s')" "ts \<noteq> []"
    "user_time ts = user_times d es" "head s' = head ?s" "log s' = checked_log d es" "live ?s \<longrightarrow> live s'"
    using collect_runs_result [OF assms(4), of d] unfolding assms(6) n by blast
  have eq: "serve_collect_virtual_stop_events c sv =
      (if ?bad then Some (1, sv\<lparr>sv_log := s'\<rparr>) else map_option (Pair 0) (add_stop_events d ts [1..<length ts] (sv\<lparr>sv_log := s'\<rparr>)))"
    using C(1) assms(1,3) unfolding serve_collect_virtual_stop_events_def assms(2) Let_def by simp
  show ?thesis
  proof (cases ?bad)
    case True
    then have "serve_collect_virtual_stop_events c sv = Some (1, sv\<lparr>sv_log := s'\<rparr>)" using eq by (simp only: if_P)
    then show ?thesis unfolding if_P [OF True] using C(4-6) assms(5) by (intro exI [of _ 1] exI [of _ "sv\<lparr>sv_log := s'\<rparr>"]) simp
  next
    case False
    have o: "evq.ordered (sv_queue (sv\<lparr>sv_log := s'\<rparr>))" using assms(5) by simp
    have "\<forall>u \<in> set [1..<length ts]. 0 < u \<and> u < length ts" by simp
    then obtain q' where Q: "add_stop_events d ts [1..<length ts] (sv\<lparr>sv_log := s'\<rparr>) = Some (sv\<lparr>sv_log := s', sv_queue := q'\<rparr>)"
      "evq.ordered q'" "mset (queue_events q') = mset (queue_events (sv_queue sv)) + stop_events d (user_times d es) [1..<100000]"
      using add_stop_events_result [OF o assms(3), of "[1..<length ts]" ts] stop_events_table [OF C(3,2)] by auto
    have "serve_collect_virtual_stop_events c sv = Some (0, sv\<lparr>sv_log := s', sv_queue := q'\<rparr>)"
      unfolding eq if_not_P [OF False] Q(1) by simp
    then show ?thesis
      unfolding if_not_P [OF False] using C(4-6) Q(2,3) by (intro exI [of _ 0] exI [of _ "sv\<lparr>sv_log := s', sv_queue := q'\<rparr>"]) simp
  qed
qed

section \<open>The loop of the start\<close>

lemma checked_clean: "\<forall>i < length es. fix_at d es i = Keep \<Longrightarrow> checked_log d es = es"
proof -
  assume k: "\<forall>i < length es. fix_at d es i = Keep"
  then have "repaired d es = es" by (intro nth_equalityI) (simp_all add: repaired_def repair_def)
  moreover have "es \<noteq> [] \<Longrightarrow> fix_at d es (length es - 1) = Keep" using k by simp
  ultimately show ?thesis by (auto simp: checked_log_def)
qed

text \<open>
  C37: the start of a server opens the log again after the check of the start and stop events has repaired it.
  With the disk working this happens once: what the second opening reads from the file passes the check,
  which changes nothing in it any more.
\<close>

theorem restart_repairs_once:
  assumes "ct_is_virtual c \<noteq> 0" "rh_duration (head (sv_log sv)) > 0" "live (sv_log sv)" "evq.ordered (sv_queue sv)"
    and "serve_collect_virtual_stop_events c sv = Some (r, sv1)"
    and "disk_head f = disk_head (sv_log sv1)" "disk_runs f = disk_runs (sv_log sv1)" "read_runlog d sc 0 f = (r', f')"
    and "core s2 = core f'" "wf_runs s2"
  shows "\<exists>sv2. serve_collect_virtual_stop_events c (sv1\<lparr>sv_log := s2\<rparr>) = Some (0, sv2) \<and>
    log (sv_log sv2) = log (sv_log sv1) \<and> live (sv_log sv1) \<and> evq.ordered (sv_queue sv2)"
proof -
  let ?d = "rh_duration (head (sv_log sv))" and ?es = "log (sv_log sv)"
  have A: "head (sv_log sv1) = head (sv_log sv)" "log (sv_log sv1) = checked_log ?d ?es" "live (sv_log sv1)"
    "evq.ordered (sv_queue sv1)"
    using collect_result [OF assms(1) refl assms(2) liveD(4) [OF assms(3)] assms(4) refl] assms(3,5) by auto
  have "head s2 = head (sv_log sv1)" "log s2 = log (sv_log sv1)"
    using live_reread [OF A(3) assms(6-8)] coreD(1,8) [OF assms(9)] by simp_all
  then have B: "rh_duration (head (sv_log (sv1\<lparr>sv_log := s2\<rparr>))) = ?d" "log (sv_log (sv1\<lparr>sv_log := s2\<rparr>)) = checked_log ?d ?es"
    "wf_runs (sv_log (sv1\<lparr>sv_log := s2\<rparr>))" "evq.ordered (sv_queue (sv1\<lparr>sv_log := s2\<rparr>))"
    using A assms(10) by simp_all
  have clean: "\<not> (\<exists>i < length (checked_log ?d ?es). fix_at ?d (checked_log ?d ?es) i \<noteq> Keep)"
    using checked_fixes by blast
  have "checked_log ?d (checked_log ?d ?es) = checked_log ?d ?es" using checked_clean clean by blast
  then show ?thesis
    using collect_result [OF assms(1) B(1) assms(2) B(3,4,2), unfolded if_not_P [OF clean]] A(2,3) by auto
qed

section \<open>The contests that are open\<close>

definition start_of :: "int \<Rightarrow> run_entry \<Rightarrow> bool" where
  "start_of u e \<longleftrightarrow> re_status e = RUN_VIRTUAL_START \<and> re_user_id e = u"

definition stop_of :: "int \<Rightarrow> run_entry \<Rightarrow> bool" where
  "stop_of u e \<longleftrightarrow> re_status e = RUN_VIRTUAL_STOP \<and> re_user_id e = u"

text \<open>What the value in the table tells of the entries of a user.\<close>

definition traced :: "int \<Rightarrow> run_entry list \<Rightarrow> int \<Rightarrow> bool" where
  "traced u es t \<longleftrightarrow>
     t > 0 \<and> (\<exists>e \<in> set es. start_of u e) \<and> (\<forall>e \<in> set es. start_of u e \<longrightarrow> re_time e = t) \<and> \<not> (\<exists>e \<in> set es. stop_of u e)
     \<or> t = -1 \<and> (\<exists>e \<in> set es. stop_of u e)
     \<or> (t = 0 \<or> t = -2) \<and> \<not> (\<exists>e \<in> set es. start_of u e) \<and> \<not> (\<exists>e \<in> set es. stop_of u e)"

lemma traced_step:
  assumes "traced u es (v u)" "snd (check_virtual_run d e v) = Keep" "0 < u" "u < 100000" "re_time e > 0"
  shows "traced u (es @ [e]) (fst (check_virtual_run d e v) u)"
proof (cases "skipped_run e \<or> re_user_id e \<noteq> u")
  case True
  have "run_is_valid_status 20 = 1" "run_is_valid_status 21 = 1" by code_simp+
  then have "\<not> start_of u e" "\<not> stop_of u e" using True assms(3,4) by (auto simp: start_of_def stop_of_def skipped_run_def)
  moreover have "fst (check_virtual_run d e v) u = v u" using True by (auto simp: check_virtual_run_def split: prod.split)
  ultimately show ?thesis using assms(1) by (auto simp: traced_def)
next
  case False
  obtain t f where tf: "virtual_fix d e (v u) = (t, f)" by fastforce
  then have "f = Keep" "fst (check_virtual_run d e v) u = t" using False assms(2) by (auto simp: check_virtual_run_def)
  then show ?thesis
    using assms(1,5) tf False by (auto simp: traced_def virtual_fix_def start_of_def stop_of_def split: if_splits)
qed

lemma traced_all:
  assumes "\<forall>i < length es. fix_at d es i = Keep" "\<forall>e \<in> set es. re_time e > 0" "0 < u" "u < 100000"
  shows "traced u es (user_times d es u)"
proof -
  have "k \<le> length es \<Longrightarrow> traced u (take k es) (user_times d (take k es) u)" for k
  proof (induction k)
    case 0
    then show ?case by (simp add: traced_def user_times_def)
  next
    case (Suc k)
    have "snd (check_virtual_run d (es ! k) (user_times d (take k es))) = Keep" using assms(1) Suc.prems by (simp add: fix_at_def)
    then show ?case
      using traced_step [of u "take k es" "user_times d (take k es)" d "es ! k"] Suc assms(2-4) user_times_Suc [of k es d]
      by (simp add: take_Suc_conv_app_nth)
  qed
  from this [of "length es"] show ?thesis by simp
qed

text \<open>The users watched are those whose contest is open.\<close>

lemma open_contests:
  assumes "\<forall>i < length es. fix_at d es i = Keep" "\<forall>e \<in> set es. re_time e > 0"
  shows "(\<lambda>u. new_event (user_times d es (int u) + d) SERVE_EVENT_VIRTUAL_STOP (int u) False)
      ` {u. 0 < u \<and> u < 100000 \<and> user_times d es (int u) > 0} =
    {new_event (re_time e + d) SERVE_EVENT_VIRTUAL_STOP (re_user_id e) False | e.
      e \<in> set es \<and> start_of (re_user_id e) e \<and> 0 < re_user_id e \<and> re_user_id e < 100000 \<and>
      \<not> (\<exists>x \<in> set es. stop_of (re_user_id e) x)}" (is "?ev ` ?U = ?R")
proof
  have tr: "traced u es (user_times d es u)" if "0 < u" "u < 100000" for u by (rule traced_all [OF assms that])
  show "?ev ` ?U \<subseteq> ?R"
  proof (rule image_subsetI)
    fix u assume "u \<in> ?U"
    then have u: "0 < int u" "int u < 100000" "user_times d es (int u) > 0" by auto
    then obtain e where "e \<in> set es" "start_of (int u) e" "re_time e = user_times d es (int u)" "\<not> (\<exists>x \<in> set es. stop_of (int u) x)"
      using tr [OF u(1,2)] unfolding traced_def by auto
    moreover from this have "re_user_id e = int u" by (simp add: start_of_def)
    ultimately show "?ev u \<in> ?R" using u by (intro CollectI exI [of _ e]) simp
  qed
  show "?R \<subseteq> ?ev ` ?U"
  proof
    fix x assume "x \<in> ?R"
    then obtain e where e: "x = new_event (re_time e + d) SERVE_EVENT_VIRTUAL_STOP (re_user_id e) False" "e \<in> set es"
      "start_of (re_user_id e) e" "0 < re_user_id e" "re_user_id e < 100000" "\<not> (\<exists>x \<in> set es. stop_of (re_user_id e) x)"
      by blast
    then have "user_times d es (re_user_id e) > 0 \<and> user_times d es (re_user_id e) = re_time e"
      using tr [OF e(4,5)] unfolding traced_def by auto
    then have "x = ?ev (nat (re_user_id e))" "nat (re_user_id e) \<in> ?U" using e(1,4,5) by auto
    then show "x \<in> ?ev ` ?U" by (rule image_eqI)
  qed
qed


section \<open>Examples\<close>

definition ex_virtual_run :: "int \<Rightarrow> run_entry" where
  "ex_virtual_run st = zero_entry\<lparr>re_status := st, re_user_id := 7, re_time := 100\<rparr>"

text \<open>A server with one event of participant 7 in its log.\<close>

definition ex_restart :: "int \<Rightarrow> server" where
  "ex_restart st =
     (let h = zero_header\<lparr>rh_version := 2, rh_start_time := 90, rh_duration := 50\<rparr>
      in \<lparr>sv_log = run_init\<lparr>run_fd := 3, head := h, disk_head := Some h, runs := [ex_virtual_run st], run_u := 1,
            disk_runs := [ex_virtual_run st]\<rparr>, sv_queue = empty_queue, sv_time = 200\<rparr>)"

lemma ex_restart_parts:
  "rh_duration (head (sv_log (ex_restart st))) = 50" "log (sv_log (ex_restart st)) = [ex_virtual_run st]"
  "sv_queue (ex_restart st) = empty_queue" "wf_runs (sv_log (ex_restart st))"
  by (simp_all add: ex_restart_def Let_def log_def wf_runs_def zero_header_def)

lemma ex_restart_live: "live (sv_log (ex_restart st))"
  by (simp add: live_def file_ok_def log_base_def ex_restart_parts)
    (simp add: ex_restart_def Let_def numbered_def time_sorted_def used_def synced_def io_good_def log_def run_init_def
      ex_virtual_run_def zero_entry_def)

lemma ex_fix: "fix_at 50 [ex_virtual_run 20] 0 = Keep" "fix_at 50 [ex_virtual_run 21] 0 = Clear"
proof -
  have "run_is_valid_status 20 = 1" "run_is_valid_status 21 = 1" by code_simp+
  then show "fix_at 50 [ex_virtual_run 20] 0 = Keep" "fix_at 50 [ex_virtual_run 21] 0 = Clear"
    by (simp_all add: fix_at_def user_times_def check_virtual_run_def skipped_run_def ex_virtual_run_def virtual_fix_def)
qed

lemma ex_restart_collect:
  "\<exists>sv'. serve_collect_virtual_stop_events ex_virtual_contest (ex_restart 20) = Some (0, sv')"
  "\<exists>sv'. serve_collect_virtual_stop_events ex_virtual_contest (ex_restart 21) = Some (1, sv') \<and> log (sv_log sv') = []"
proof -
  have c: "ct_is_virtual ex_virtual_contest \<noteq> 0" by (simp add: ex_virtual_contest_def)
  have "evq.ordered (sv_queue (ex_restart st))" for st by (simp add: ex_restart_parts empty_queue_ordered)
  note R = collect_result [OF c ex_restart_parts(1) _ ex_restart_parts(4) this ex_restart_parts(2)]
  show "\<exists>sv'. serve_collect_virtual_stop_events ex_virtual_contest (ex_restart 20) = Some (0, sv')"
    using R [of 20] by (auto simp: ex_fix)
  have "checked_log 50 [ex_virtual_run 21] = []" by (simp add: checked_log_def ex_fix repaired_def)
  then show "\<exists>sv'. serve_collect_virtual_stop_events ex_virtual_contest (ex_restart 21) = Some (1, sv') \<and> log (sv_log sv') = []"
    using R [of 21] by (auto simp: ex_fix)
qed

theorem restart_repairs_once_witness:
  "\<exists>sv1 f' sv2. serve_collect_virtual_stop_events ex_virtual_contest (ex_restart 21) = Some (1, sv1) \<and>
    read_runlog 0 0 0 (run_init\<lparr>disk_head := disk_head (sv_log sv1), disk_runs := disk_runs (sv_log sv1)\<rparr>) = (0, f') \<and>
    serve_collect_virtual_stop_events ex_virtual_contest (sv1\<lparr>sv_log := f'\<rparr>) = Some (0, sv2) \<and> log (sv_log sv2) = []"
proof -
  obtain sv1 where sv1: "serve_collect_virtual_stop_events ex_virtual_contest (ex_restart 21) = Some (1, sv1)" "log (sv_log sv1) = []"
    using ex_restart_collect(2) by blast
  have c: "ct_is_virtual ex_virtual_contest \<noteq> 0" by (simp add: ex_virtual_contest_def)
  have d: "rh_duration (head (sv_log (ex_restart 21))) > 0" by (simp add: ex_restart_parts)
  have q: "evq.ordered (sv_queue (ex_restart 21))" by (simp add: ex_restart_parts empty_queue_ordered)
  let ?f = "run_init\<lparr>disk_head := disk_head (sv_log sv1), disk_runs := disk_runs (sv_log sv1)\<rparr>"
  obtain r' f' where f': "read_runlog 0 0 0 ?f = (r', f')" by fastforce
  have f: "disk_head ?f = disk_head (sv_log sv1)" "disk_runs ?f = disk_runs (sv_log sv1)" by simp_all
  have "wf_runs f'"
    using f' by (auto simp: read_runlog_def Let_def wf_runs_def run_init_def run_flush_header_def disk_op_def io_next_def
        split: option.splits if_splits prod.splits)
  then obtain sv2 where sv2: "serve_collect_virtual_stop_events ex_virtual_contest (sv1\<lparr>sv_log := f'\<rparr>) = Some (0, sv2)"
    "log (sv_log sv2) = log (sv_log sv1)" "live (sv_log sv1)"
    using restart_repairs_once [OF c d ex_restart_live q sv1(1) f f' refl] by blast
  have "r' = 0" by (rule live_reread(1) [OF sv2(3) f f'])
  then show ?thesis using sv1 f' sv2 by auto
qed


end
