(* ===== verification/Clar_Log.thy ===== *)
theory Clar_Log
  imports C_Text Run_Entry
begin

text \<open>
  The messages of a contest: \<open>clarlog.c\<close> with the storage plugin \<open>cldb_plugin_file.c\<close> and the names of
  character sets of \<open>charsets.c\<close>.  A result is the C return value, -1 for an error.
\<close>

section \<open>The state\<close>

record clar_entry =
  ce_id :: int
  ce_size :: int
  ce_time :: int
  ce_nsec :: int
  ce_from :: int
  ce_to :: int
  ce_j_from :: int
  ce_flags :: int
  ce_ipv6_flag :: int
  ce_hide_flag :: int
  ce_ssl_flag :: int
  ce_appeal_flag :: int
  ce_a :: quad
  ce_locale_id :: int
  ce_in_reply_to :: int
  ce_run_id :: int
  ce_charset :: string
  ce_subj :: string

definition CLAR_ENTRY_SUBJ_SIZE :: nat where [simp]: "CLAR_ENTRY_SUBJ_SIZE = 32"
definition CLAR_ENTRY_CHARSET_SIZE :: nat where [simp]: "CLAR_ENTRY_CHARSET_SIZE = 16"

text \<open>\<open>INTERNAL_CHARSET\<close> of a build without \<open>EJUDGE_CHARSET\<close>.\<close>

definition INTERNAL_CHARSET :: string where "INTERNAL_CHARSET = ''utf-8''"

definition zero_clar :: clar_entry where
  "zero_clar = \<lparr>ce_id = 0, ce_size = 0, ce_time = 0, ce_nsec = 0, ce_from = 0, ce_to = 0, ce_j_from = 0,
     ce_flags = 0, ce_ipv6_flag = 0, ce_hide_flag = 0, ce_ssl_flag = 0, ce_appeal_flag = 0, ce_a = zero_quad,
     ce_locale_id = 0, ce_in_reply_to = 0, ce_run_id = 0, ce_charset = [], ce_subj = []\<rparr>"

definition free_clar :: clar_entry where
  "free_clar = zero_clar\<lparr>ce_id := -1\<rparr>"

text \<open>
  \<open>cl_v\<close> is the allocated array, of which \<open>cl_u\<close> elements are in use; \<open>cl_subjects\<close> and \<open>cl_codes\<close> are the
  caches of recoded subjects and of character sets, of the same length.  \<open>cl_names\<close> are the registered
  character sets, from the id 1 on.  \<open>cl_file\<close> holds the records behind the header, \<open>None\<close> for an empty
  file, \<open>cl_texts\<close> the files of the archive by id, and \<open>cl_io\<close> the outcomes of the coming disk
  operations, all successful once it is empty.
\<close>

record clarlog =
  cl_v :: "clar_entry list"
  cl_u :: nat
  cl_subjects :: "string option list"
  cl_codes :: "int list"
  cl_names :: "string list"
  cl_file :: "clar_entry list option"
  cl_texts :: "int \<Rightarrow> string option"
  cl_io :: "bool list"

definition clar_init :: clarlog where
  "clar_init = \<lparr>cl_v = [], cl_u = 0, cl_subjects = [], cl_codes = [], cl_names = [], cl_file = None,
     cl_texts = (\<lambda>_. None), cl_io = []\<rparr>"

definition clar_io :: "(clarlog \<Rightarrow> clarlog) \<Rightarrow> clarlog \<Rightarrow> bool \<times> clarlog" where
  "clar_io f s =
    (let s' = s\<lparr>cl_io := tl (cl_io s)\<rparr> in if cl_io s \<noteq> [] \<and> \<not> hd (cl_io s) then (False, s') else (True, f s'))"

section \<open>The storage plugin\<close>

text \<open>
  One entry is written to its place behind the header; a place beyond the end leaves a hole.  A file without
  a header counts as one of no records here: the plugin writes the header when it opens it.
\<close>

definition clar_flush_entry :: "nat \<Rightarrow> clarlog \<Rightarrow> int \<times> clarlog" where
  "clar_flush_entry i s =
    (case clar_io (\<lambda>s. s\<lparr>cl_file := map_option (write_at zero_clar i [cl_v s ! i]) (cl_file s)\<rparr>) s of
       (ok, s') \<Rightarrow> (if ok then 0 else -1, s'))"

definition create_new_clar_log :: "bool \<Rightarrow> clarlog \<Rightarrow> int \<times> clarlog" where
  "create_new_clar_log readonly s =
    (let s1 = s\<lparr>cl_v := replicate 128 free_clar, cl_u := (if cl_v s = [] then cl_u s else 0)\<rparr> in
     if readonly then (0, s1)
     else
       (case clar_io (\<lambda>s. s\<lparr>cl_file := None\<rparr>) s1 of
          (False, s2) \<Rightarrow> (-1, s2)
        | (True, s2) \<Rightarrow>
            (case clar_io (\<lambda>s. s\<lparr>cl_file := Some []\<rparr>) s2 of (ok, s3) \<Rightarrow> (if ok then 0 else -1, s3))))"

text \<open>The repair of senders and receivers stored as -1.\<close>

definition fix_parties :: "clar_entry \<Rightarrow> clar_entry" where
  "fix_parties e =
     e\<lparr>ce_from := (if ce_from e = -1 then 0 else ce_from e), ce_to := (if ce_to e = -1 then 0 else ce_to e)\<rparr>"

definition fix_step :: "bool \<Rightarrow> nat \<Rightarrow> clarlog \<Rightarrow> clarlog" where
  "fix_step readonly i s =
    (let e = cl_v s ! i in
     if ce_from e = -1 \<or> ce_to e = -1 then
       (let s1 = s\<lparr>cl_v := (cl_v s)[i := fix_parties e]\<rparr> in if readonly then s1 else snd (clar_flush_entry i s1))
     else s)"

text \<open>A file with a valid header of version 1, or an empty one.\<close>

definition do_clar_open :: "bool \<Rightarrow> clarlog \<Rightarrow> int \<times> clarlog" where
  "do_clar_open readonly s0 =
    (let s = s0\<lparr>cl_v := [], cl_u := (if cl_v s0 = [] then cl_u s0 else 0)\<rparr> in
     case cl_file s of
       None \<Rightarrow> create_new_clar_log readonly s
     | Some es \<Rightarrow>
         (let n = length es;
              s1 = s\<lparr>cl_u := n, cl_v := es @ replicate (double_upto n 128 - n) free_clar\<rparr>
          in (0, fold (fix_step readonly) [0..<n] s1)))"

definition clar_reset :: "clarlog \<Rightarrow> clarlog" where
  "clar_reset s =
     (snd (create_new_clar_log False s))\<lparr>cl_texts := (\<lambda>_. None), cl_subjects := [], cl_codes := []\<rparr>"

section \<open>Adding a message\<close>

definition ipv6_to_clar_entry :: "ej_ip \<Rightarrow> clar_entry \<Rightarrow> clar_entry" where
  "ipv6_to_clar_entry ip e =
    (if ip_ipv6_flag ip \<noteq> 0 then e\<lparr>ce_ipv6_flag := 1, ce_a := ip_u ip\<rparr>
     else e\<lparr>ce_ipv6_flag := 0, ce_a := (quad3 (ip_u ip), 0, 0, 0)\<rparr>)"

definition clar_entry_to_ipv6 :: "clar_entry \<Rightarrow> ej_ip" where
  "clar_entry_to_ipv6 e =
    (if ce_ipv6_flag e \<noteq> 0 then \<lparr>ip_ipv6_flag = 1, ip_u = ce_a e\<rparr>
     else \<lparr>ip_ipv6_flag = 0, ip_u = (0, 0, 0, quad0 (ce_a e))\<rparr>)"

text \<open>\<open>tolower\<close> of the C locale.\<close>

definition tolower :: "char \<Rightarrow> char" where
  "tolower c = (if 65 \<le> ascii c \<and> ascii c \<le> 90 then char_of (ascii c + 32) else c)"

text \<open>A continuation byte of UTF-8, and the search back for a byte that is not one.\<close>

definition utf8_cont :: "char \<Rightarrow> bool" where
  "utf8_cont c \<longleftrightarrow> 128 \<le> ascii c \<and> ascii c \<le> 191"

fun cut_back :: "string \<Rightarrow> nat \<Rightarrow> nat" where
  "cut_back s 0 = 0"
| "cut_back s (Suc j) = (if utf8_cont (s ! Suc j) then cut_back s j else Suc j)"

definition stored_subject :: "int \<Rightarrow> string \<Rightarrow> string" where
  "stored_subject utf8_mode subj =
    (if length subj \<ge> CLAR_ENTRY_SUBJ_SIZE then
       (let j = CLAR_ENTRY_SUBJ_SIZE - 4 in take (if utf8_mode \<noteq> 0 then cut_back subj j else j) subj @ ''...'')
     else subj)"

definition grow_clars :: "nat \<Rightarrow> clarlog \<Rightarrow> clarlog" where
  "grow_clars n s =
    (let a = length (cl_v s)
     in s\<lparr>cl_v := cl_v s @ replicate (double_upto (n + 1) (if a = 0 then 128 else a) - a) free_clar\<rparr>)"

record clar_args =
  cg_time :: int
  cg_nsec :: int
  cg_size :: int
  cg_ip :: ej_ip
  cg_ssl_flag :: int
  cg_from :: int
  cg_to :: int
  cg_flags :: int
  cg_j_from :: int
  cg_hide_flag :: int
  cg_locale_id :: int
  cg_in_reply_to :: int
  cg_run_id :: int
  cg_appeal_flag :: int
  cg_utf8_mode :: int
  cg_charset :: "string option"
  cg_subj :: "string option"

definition new_clar :: "clar_args \<Rightarrow> int \<Rightarrow> clar_entry" where
  "new_clar g i =
     (ipv6_to_clar_entry (cg_ip g)
       (zero_clar\<lparr>ce_id := i, ce_time := cg_time g, ce_nsec := cg_nsec g, ce_size := to_u32 (cg_size g),
         ce_from := cg_from g, ce_to := cg_to g, ce_flags := to_u32 (cg_flags g), ce_j_from := cg_j_from g,
         ce_hide_flag := to_u8 (cg_hide_flag g)\<rparr>))
     \<lparr>ce_ssl_flag := to_u8 (cg_ssl_flag g), ce_locale_id := to_u16 (cg_locale_id g),
      ce_in_reply_to := cg_in_reply_to g, ce_run_id := cg_run_id g, ce_appeal_flag := to_u8 (cg_appeal_flag g),
      ce_charset := map tolower (take (CLAR_ENTRY_CHARSET_SIZE - 1)
        (case cg_charset g of None \<Rightarrow> INTERNAL_CHARSET | Some c \<Rightarrow> c)),
      ce_subj := stored_subject (cg_utf8_mode g) (case cg_subj g of None \<Rightarrow> [] | Some t \<Rightarrow> t)\<rparr>"

definition clar_add_record :: "clar_args \<Rightarrow> clarlog \<Rightarrow> int \<times> clarlog" where
  "clar_add_record g s0 =
    (let s = (if cl_u s0 \<ge> length (cl_v s0) then grow_clars (cl_u s0) s0 else s0);
         i = cl_u s;
         s1 = s\<lparr>cl_u := Suc i, cl_v := (cl_v s)[i := new_clar g (int i)]\<rparr>
     in case clar_flush_entry i s1 of (r, s2) \<Rightarrow> (if r < 0 then -1 else int i, s2))"

text \<open>\<open>pclar\<close> is \<open>None\<close> for a null pointer.\<close>

definition clar_put_record :: "int \<Rightarrow> clar_entry option \<Rightarrow> clarlog \<Rightarrow> int \<times> clarlog" where
  "clar_put_record cid pclar s =
    (if cid < 0 then (-1, s)
     else
       (case pclar of
          None \<Rightarrow> (-1, s)
        | Some e \<Rightarrow>
            if ce_id e < 0 then (-1, s)
            else
              (let i = nat cid;
                   s1 = (if i \<ge> cl_u s then (grow_clars i s)\<lparr>cl_u := Suc i\<rparr> else s)
               in if ce_id (cl_v s1 ! i) \<ge> 0 then (-1, s1)
                  else
                    (case clar_flush_entry i (s1\<lparr>cl_v := (cl_v s1)[i := e\<lparr>ce_id := cid\<rparr>]\<rparr>) of
                       (r, s2) \<Rightarrow> (if r < 0 then -1 else cid, s2)))))"

section \<open>Reading and changing a message\<close>

definition has_clar :: "clarlog \<Rightarrow> int \<Rightarrow> bool" where
  "has_clar s cid \<longleftrightarrow> 0 \<le> cid \<and> cid < int (cl_u s)"

definition clar_get_record :: "int \<Rightarrow> clarlog \<Rightarrow> clar_entry option" where
  "clar_get_record cid s =
    (if \<not> has_clar s cid then None
     else
       (let e = cl_v s ! nat cid in if ce_id e \<ge> 0 \<and> ce_id e \<noteq> cid then None else Some e))"

text \<open>The checks shared by the operations on one message: \<open>Some None\<close> is a message that is not there.\<close>

definition used_clar :: "int \<Rightarrow> clarlog \<Rightarrow> clar_entry option option" where
  "used_clar cid s =
    (if \<not> has_clar s cid then None
     else
       (let e = cl_v s ! nat cid in
        if ce_id e < 0 then Some None else if ce_id e \<noteq> cid then None else Some (Some e)))"

definition store_clar :: "int \<Rightarrow> clar_entry \<Rightarrow> clarlog \<Rightarrow> int \<times> clarlog" where
  "store_clar cid e s =
    (case clar_flush_entry (nat cid) (s\<lparr>cl_v := (cl_v s)[nat cid := e]\<rparr>) of (r, s') \<Rightarrow> (if r < 0 then -1 else 0, s'))"

definition clar_update_flags :: "int \<Rightarrow> int \<Rightarrow> clarlog \<Rightarrow> int \<times> clarlog" where
  "clar_update_flags cid flags s =
    (case used_clar cid s of
       None \<Rightarrow> (-1, s)
     | Some None \<Rightarrow> (0, s)
     | Some (Some e) \<Rightarrow> if flags < 0 \<or> flags > 255 then (-1, s) else store_clar cid (e\<lparr>ce_flags := flags\<rparr>) s)"

definition clar_set_charset :: "int \<Rightarrow> string \<Rightarrow> clarlog \<Rightarrow> int \<times> clarlog" where
  "clar_set_charset cid charset s =
    (case used_clar cid s of
       None \<Rightarrow> (-1, s)
     | Some None \<Rightarrow> (0, s)
     | Some (Some e) \<Rightarrow> store_clar cid (e\<lparr>ce_charset := take (CLAR_ENTRY_CHARSET_SIZE - 1) charset\<rparr>) s)"

text \<open>\<open>mask & (1 << CLAR_FIELD_...)\<close>.\<close>

definition clar_field :: "mask \<Rightarrow> nat \<Rightarrow> bool" where
  "clar_field m k \<longleftrightarrow> has m (push_bit k 1)"

definition modify_clar :: "mask \<Rightarrow> clar_entry \<Rightarrow> clar_entry \<Rightarrow> clar_entry" where
  "modify_clar m p e =
    fold (\<lambda>(k, f). apply_if (clar_field m k) f)
      [(1, ce_size_update (\<lambda>_. ce_size p)),
       (4, ce_from_update (\<lambda>_. ce_from p)),
       (5, ce_to_update (\<lambda>_. ce_to p)),
       (6, ce_j_from_update (\<lambda>_. ce_j_from p)),
       (7, ce_flags_update (\<lambda>_. ce_flags p)),
       (8, ce_hide_flag_update (\<lambda>_. ce_hide_flag p)),
       (9, ce_ssl_flag_update (\<lambda>_. ce_ssl_flag p)),
       (10, ce_appeal_flag_update (\<lambda>_. ce_appeal_flag p)),
       (11, \<lambda>e. e\<lparr>ce_ipv6_flag := ce_ipv6_flag p, ce_a := ce_a p\<rparr>),
       (12, ce_locale_id_update (\<lambda>_. ce_locale_id p)),
       (13, ce_in_reply_to_update (\<lambda>_. ce_in_reply_to p)),
       (14, ce_run_id_update (\<lambda>_. ce_run_id p)),
       (15, ce_charset_update (\<lambda>_. take (CLAR_ENTRY_CHARSET_SIZE - 1) (ce_charset p))),
       (16, ce_subj_update (\<lambda>_. take (CLAR_ENTRY_SUBJ_SIZE - 1) (ce_subj p)))] e"

definition clar_modify_record :: "int \<Rightarrow> mask \<Rightarrow> clar_entry \<Rightarrow> clarlog \<Rightarrow> int \<times> clarlog" where
  "clar_modify_record cid m p s =
    (if \<not> has_clar s cid then (-1, s) else store_clar cid (modify_clar m p (cl_v s ! nat cid)) s)"

definition clar_get_total :: "clarlog \<Rightarrow> int" where
  "clar_get_total s = int (cl_u s)"

definition clar_get_user_usage :: "int \<Rightarrow> clarlog \<Rightarrow> int \<times> int" where
  "clar_get_user_usage uid s =
     fold (\<lambda>i (n, total). if ce_from (cl_v s ! i) = uid then (n + 1, to_u64 (total + ce_size (cl_v s ! i))) else (n, total))
       [0..<cl_u s] (0, 0)"

text \<open>The buffer of \<open>clar_flags_html\<close> is \<open>None\<close> or has a length.\<close>

definition clar_flags_html :: "int \<Rightarrow> int \<Rightarrow> int option \<Rightarrow> string" where
  "clar_flags_html flags uid buf =
    (let t = (if uid = 0 then ''&nbsp;'' else if flags = 0 then ''N'' else if flags = 1 then ''R''
              else if flags = 2 then ''A'' else ''?'')
     in case buf of None \<Rightarrow> t | Some len \<Rightarrow> if len \<le> 0 then t else take (nat len - 1) t)"

section \<open>Character sets\<close>

definition strcasecmp_eq :: "string \<Rightarrow> string \<Rightarrow> bool" where
  "strcasecmp_eq a b \<longleftrightarrow> map tolower a = map tolower b"

fun name_index :: "string \<Rightarrow> string list \<Rightarrow> nat option" where
  "name_index c [] = None"
| "name_index c (n # ns) = (if strcasecmp_eq n c then Some 0 else map_option Suc (name_index c ns))"

definition charset_get_id :: "string \<Rightarrow> clarlog \<Rightarrow> int \<times> clarlog" where
  "charset_get_id c s =
    (if c = [] \<or> strcasecmp_eq c INTERNAL_CHARSET then (0, s)
     else case name_index c (cl_names s) of
       Some i \<Rightarrow> (int i + 1, s)
     | None \<Rightarrow> (int (length (cl_names s)) + 1, s\<lparr>cl_names := cl_names s @ [c]\<rparr>))"

definition extend_charset_ids :: "clarlog \<Rightarrow> clarlog" where
  "extend_charset_ids s =
    (let a = length (cl_codes s) in
     if cl_u s = 0 \<or> cl_u s \<le> a then s
     else
       (let n = double_upto (cl_u s) 128
        in s\<lparr>cl_codes := cl_codes s @ replicate (n - a) (-1), cl_subjects := cl_subjects s @ replicate (n - a) None\<rparr>))"

definition ensure_code :: "nat \<Rightarrow> clarlog \<Rightarrow> clarlog" where
  "ensure_code i s =
    (if cl_codes s ! i < 0 then
       (case charset_get_id (ce_charset (cl_v s ! i)) s of (c, s') \<Rightarrow> s'\<lparr>cl_codes := (cl_codes s')[i := c]\<rparr>)
     else s)"

text \<open>\<open>decode\<close> is the conversion of the iconv library, by the id of the character set.\<close>

definition clar_get_subject :: "(int \<Rightarrow> string \<Rightarrow> string) \<Rightarrow> int \<Rightarrow> clarlog \<Rightarrow> string option \<times> clarlog" where
  "clar_get_subject decode cid s0 =
    (if \<not> has_clar s0 cid then (None, s0)
     else
       (let i = nat cid; s = extend_charset_ids s0 in
        case cl_subjects s ! i of
          Some t \<Rightarrow> (Some t, s)
        | None \<Rightarrow>
            (let s1 = ensure_code i s; code = cl_codes s1 ! i; subj = ce_subj (cl_v s1 ! i) in
             if code = 0 then (Some subj, s1)
             else if code > 0 then (Some (decode code subj), s1\<lparr>cl_subjects := (cl_subjects s1)[i := Some (decode code subj)]\<rparr>)
             else (Some ''invalid subject'', s1))))"

definition clar_get_charset_id :: "int \<Rightarrow> clarlog \<Rightarrow> int \<times> clarlog" where
  "clar_get_charset_id cid s0 =
    (if \<not> has_clar s0 cid then (0, s0)
     else
       (let i = nat cid; s = ensure_code i (extend_charset_ids s0);
            s1 = (if cl_codes s ! i < 0 then s\<lparr>cl_codes := (cl_codes s)[i := 0]\<rparr> else s)
        in (cl_codes s1 ! i, s1)))"

section \<open>Texts\<close>

definition clar_get_raw_text :: "int \<Rightarrow> clarlog \<Rightarrow> string option" where
  "clar_get_raw_text cid s =
    (case used_clar cid s of None \<Rightarrow> None | Some None \<Rightarrow> Some [] | Some (Some _) \<Rightarrow> cl_texts s cid)"

definition clar_get_text :: "(int \<Rightarrow> string \<Rightarrow> string) \<Rightarrow> int \<Rightarrow> clarlog \<Rightarrow> string option \<times> clarlog" where
  "clar_get_text decode cid s =
    (case used_clar cid s of
       None \<Rightarrow> (None, s)
     | Some None \<Rightarrow> (Some [], s)
     | Some (Some _) \<Rightarrow>
         (case cl_texts s cid of
            None \<Rightarrow> (None, s)
          | Some raw \<Rightarrow>
              (case clar_get_charset_id cid s of (code, s1) \<Rightarrow> (Some (if code = 0 then raw else decode code raw), s1))))"

definition clar_add_text :: "int \<Rightarrow> string \<Rightarrow> clarlog \<Rightarrow> int \<times> clarlog" where
  "clar_add_text cid txt s =
    (case clar_io (\<lambda>s. s\<lparr>cl_texts := (cl_texts s)(cid \<mapsto> txt)\<rparr>) s of (ok, s') \<Rightarrow> (if ok then 0 else -1, s'))"

definition clar_modify_text :: "int \<Rightarrow> string \<Rightarrow> clarlog \<Rightarrow> int \<times> clarlog" where
  "clar_modify_text cid txt s = clar_add_text cid txt s"

end
