(* ===== verification/Clar_Laws.thy ===== *)
theory Clar_Laws
  imports Clar_Log
begin

text \<open>
  The messages of a contest as a state machine over the disk: what a restarted server reads back, where
  it does not, and how a long subject is cut.
\<close>

section \<open>Long subjects\<close>

text \<open>A text as a sequence of UTF-8 characters: a first byte and continuation bytes.\<close>

definition utf8_char :: "string \<Rightarrow> bool" where
  "utf8_char c \<longleftrightarrow> c \<noteq> [] \<and> \<not> utf8_cont (hd c) \<and> (\<forall>b \<in> set (tl c). utf8_cont b)"

lemma cut_back_le: "cut_back s j \<le> j"
  by (induction j) auto

lemma cut_back_skips: "cut_back s j < i \<Longrightarrow> i \<le> j \<Longrightarrow> utf8_cont (s ! i)"
  by (induction j) (auto simp: le_Suc_eq split: if_splits)

lemma cut_back_stops: "\<not> utf8_cont (s ! 0) \<Longrightarrow> \<not> utf8_cont (s ! cut_back s j)"
  by (induction j) auto

lemma cut_back_mono: "\<not> utf8_cont (s ! i) \<Longrightarrow> i \<le> j \<Longrightarrow> i \<le> cut_back s j"
  using cut_back_skips not_le by blast

text \<open>In a sequence of characters the bytes that are no continuation bytes are the boundaries.\<close>

lemma boundary:
  "\<forall>c \<in> set cs. utf8_char c \<Longrightarrow> i < length (concat cs) \<Longrightarrow> \<not> utf8_cont (concat cs ! i) \<Longrightarrow>
    \<exists>k < length cs. i = length (concat (take k cs))"
proof (induction cs arbitrary: i)
  case (Cons c cs)
  show ?case
  proof (cases "i < length c")
    case True
    have "i = 0"
    proof (rule ccontr)
      assume "i \<noteq> 0"
      then have "c ! i \<in> set (tl c)" using True by (cases i; cases c) auto
      then show False using Cons.prems(1,3) True by (simp add: utf8_char_def nth_append)
    qed
    then show ?thesis by (intro exI [of _ 0]) simp
  next
    case False
    then have "i - length c < length (concat cs)" "\<not> utf8_cont (concat cs ! (i - length c))"
      using Cons.prems(2,3) by (simp_all add: nth_append)
    then obtain k where "k < length cs" "i - length c = length (concat (take k cs))" using Cons.IH Cons.prems(1) by auto
    then show ?thesis using False by (intro exI [of _ "Suc k"]) auto
  qed
qed simp

lemma boundary_start:
  "\<forall>c \<in> set cs. utf8_char c \<Longrightarrow> k < length cs \<Longrightarrow> \<not> utf8_cont (concat cs ! length (concat (take k cs)))"
proof (induction cs arbitrary: k)
  case (Cons c cs)
  show ?case
  proof (cases k)
    case 0
    then show ?thesis using Cons.prems(1) by (cases c) (auto simp: utf8_char_def)
  next
    case (Suc n)
    then show ?thesis using Cons.IH [of n] Cons.prems by (simp add: nth_append)
  qed
qed simp

text \<open>
  C39: in UTF-8 mode a subject that does not fit is cut between two characters: what is stored is the
  longest run of whole characters within 28 bytes and three dots, and it fits into the record.
\<close>

theorem subject_cut_between_characters:
  assumes "\<forall>c \<in> set cs. utf8_char c" "length (concat cs) \<ge> CLAR_ENTRY_SUBJ_SIZE" "utf8_mode \<noteq> 0"
  shows "\<exists>k < length cs. stored_subject utf8_mode (concat cs) = concat (take k cs) @ ''...''
    \<and> length (stored_subject utf8_mode (concat cs)) < CLAR_ENTRY_SUBJ_SIZE
    \<and> length (concat (take (Suc k) cs)) > CLAR_ENTRY_SUBJ_SIZE - 4"
proof -
  let ?s = "concat cs" and ?j = "CLAR_ENTRY_SUBJ_SIZE - 4"
  let ?i = "cut_back ?s ?j"
  have le: "?i \<le> ?j" by (rule cut_back_le)
  then have lt: "?i < length ?s" using assms(2) by simp
  have ne: "cs \<noteq> []" using assms(2) by auto
  have "\<not> utf8_cont (?s ! 0)" using boundary_start [OF assms(1), of 0] ne by simp
  then obtain k where k: "k < length cs" "?i = length (concat (take k cs))"
    using boundary [OF assms(1) lt cut_back_stops] by blast
  have split: "?s = concat (take k cs) @ concat (drop k cs)" by (metis append_take_drop_id concat_append)
  have "take ?i ?s = concat (take k cs)" unfolding k(2) by (subst split) simp
  then have st: "stored_subject utf8_mode ?s = concat (take k cs) @ ''...''"
    using assms(2,3) by (simp add: stored_subject_def Let_def)
  have "length (concat (take (Suc k) cs)) > ?j"
  proof (rule ccontr)
    assume "\<not> length (concat (take (Suc k) cs)) > ?j"
    then have short: "length (concat (take (Suc k) cs)) \<le> ?j" by simp
    have "Suc k < length cs"
    proof (rule ccontr)
      assume "\<not> Suc k < length cs"
      then have "length ?s \<le> ?j" using short by simp
      then show False using assms(2) by simp
    qed
    then have "length (concat (take (Suc k) cs)) \<le> ?i"
      using boundary_start [OF assms(1)] short by (intro cut_back_mono) blast+
    moreover have "concat (take (Suc k) cs) = concat (take k cs) @ cs ! k" using k(1) by (simp add: take_Suc_conv_app_nth)
    moreover have "cs ! k \<noteq> []" using assms(1) k(1) nth_mem [of k cs] by (auto simp: utf8_char_def)
    ultimately show False using k(2) by simp
  qed
  then show ?thesis using k le st by auto
qed

theorem subject_cut_between_characters_witness:
  "stored_subject 1 (concat (replicate 14 [char_of (208 :: nat), char_of (176 :: nat)] @ replicate 4 ''a''))
     = concat (replicate 14 [char_of (208 :: nat), char_of (176 :: nat)]) @ ''...''"
proof -
  let ?cs = "replicate 14 [char_of (208 :: nat), char_of (176 :: nat)] @ replicate 4 ''a''"
  have "\<forall>c \<in> set ?cs. utf8_char c" by (auto simp: utf8_char_def utf8_cont_def ascii_def)
  moreover have "length (concat ?cs) = 32" by (simp add: length_concat sum_list_replicate)
  ultimately obtain k where k: "stored_subject 1 (concat ?cs) = concat (take k ?cs) @ ''...''" "k < length ?cs"
    "length (concat (take k ?cs)) + 3 < 32" "length (concat (take (Suc k) ?cs)) > 28"
    using subject_cut_between_characters [of ?cs 1] by fastforce
  have L: "length (concat (take n ?cs)) = (if n \<le> 14 then 2 * n else 28 + min (n - 14) 4)" for n
    by (auto simp: length_concat sum_list_replicate)
  have "k = 14" using k(3,4) unfolding L by (auto split: if_splits)
  then show ?thesis using k(1) by simp
qed

section \<open>The messages and their file\<close>

text \<open>
  An element of the array and its record in the file: equal, or an element never used over the hole in
  the file that stands for it.
\<close>

definition same_clar :: "clar_entry \<Rightarrow> clar_entry \<Rightarrow> bool" where
  "same_clar e f \<longleftrightarrow> e = f \<or> e = free_clar \<and> f = zero_clar"

definition clar_live :: "clarlog \<Rightarrow> bool" where
  "clar_live s \<longleftrightarrow> (False \<notin> set (cl_io s)) \<and> cl_u s \<le> length (cl_v s) \<and>
     (\<exists>f. cl_file s = Some f \<and> list_all2 same_clar (take (cl_u s) (cl_v s)) f) \<and>
     (set (drop (cl_u s) (cl_v s)) \<subseteq> {free_clar})"

lemma clar_liveE:
  assumes "clar_live s"
  obtains f where "False \<notin> set (cl_io s)" "cl_u s \<le> length (cl_v s)" "cl_file s = Some f"
    "list_all2 same_clar (take (cl_u s) (cl_v s)) f" "set (drop (cl_u s) (cl_v s)) \<subseteq> {free_clar}" "length f = cl_u s"
proof -
  note L = assms [unfolded clar_live_def]
  obtain f where f: "cl_file s = Some f" "list_all2 same_clar (take (cl_u s) (cl_v s)) f" using L by blast
  have "length f = cl_u s" using list_all2_lengthD [OF f(2)] L by simp
  then show thesis using that [OF _ _ f] L by blast
qed

lemma clar_live_cong:
  "cl_v s' = cl_v s \<Longrightarrow> cl_u s' = cl_u s \<Longrightarrow> cl_file s' = cl_file s \<Longrightarrow> cl_io s' = cl_io s \<Longrightarrow> clar_live s' = clar_live s"
  by (simp add: clar_live_def)

lemma clar_io_good:
  "False \<notin> set (cl_io s) \<Longrightarrow> clar_io f s = (True, f (s\<lparr>cl_io := tl (cl_io s)\<rparr>)) \<and> (False \<notin> set (tl (cl_io s)))"
  by (cases "cl_io s") (auto simp: clar_io_def Let_def)

lemma clar_flush_good:
  assumes "False \<notin> set (cl_io s)"
  shows "\<exists>s'. clar_flush_entry i s = (0, s') \<and> cl_v s' = cl_v s \<and> cl_u s' = cl_u s \<and> (False \<notin> set (cl_io s')) \<and>
    cl_file s' = map_option (write_at zero_clar i [cl_v s ! i]) (cl_file s) \<and>
    cl_names s' = cl_names s \<and> cl_codes s' = cl_codes s \<and> cl_subjects s' = cl_subjects s \<and> cl_texts s' = cl_texts s"
proof -
  let ?f = "\<lambda>s. s\<lparr>cl_file := map_option (write_at zero_clar i [cl_v s ! i]) (cl_file s)\<rparr>"
  have "clar_flush_entry i s = (0, ?f (s\<lparr>cl_io := tl (cl_io s)\<rparr>))"
    unfolding clar_flush_entry_def clar_io_good [OF assms, of ?f, THEN conjunct1] by simp
  moreover have "False \<notin> set (tl (cl_io s))" by (rule clar_io_good [OF assms, THEN conjunct2])
  ultimately show ?thesis by simp
qed

lemma same_clar_refl [simp]: "same_clar e e" "same_clar free_clar zero_clar"
  by (simp_all add: same_clar_def)

text \<open>Writing an element in use, and one behind all elements in use.\<close>

lemma flush_inside:
  assumes "clar_live s" "i < cl_u s" "clar_flush_entry i (s\<lparr>cl_v := (cl_v s)[i := e]\<rparr>) = (r, s')"
  shows "r = 0 \<and> clar_live s' \<and> cl_v s' = (cl_v s)[i := e] \<and> cl_u s' = cl_u s"
proof -
  obtain f where L: "False \<notin> set (cl_io s)" "cl_u s \<le> length (cl_v s)" "cl_file s = Some f"
    "list_all2 same_clar (take (cl_u s) (cl_v s)) f" "set (drop (cl_u s) (cl_v s)) \<subseteq> {free_clar}" "length f = cl_u s"
    using clar_liveE [OF assms(1)] by blast
  let ?s = "s\<lparr>cl_v := (cl_v s)[i := e]\<rparr>"
  have F: "r = 0" "cl_v s' = cl_v ?s" "cl_u s' = cl_u s" "False \<notin> set (cl_io s')"
    "cl_file s' = Some (write_at zero_clar i [cl_v ?s ! i] f)"
    using clar_flush_good [of ?s i] L(1,3) assms(3) by auto
  have w: "write_at zero_clar i [cl_v ?s ! i] f = f[i := e]" using assms(2) L(2,6) by (simp add: write_at_update)
  have "list_all2 same_clar ((take (cl_u s) (cl_v s))[i := e]) (f[i := e])" using L(4) by (rule list_all2_update_cong) simp
  then show ?thesis
    using F w L(2,5) assms(2) by (simp add: clar_live_def take_update_swap drop_update_cancel)
qed

lemma live_behind:
  assumes "clar_live s" "cl_u s \<le> j" "j < length (cl_v s)"
  shows "cl_v s ! j = free_clar"
proof -
  have "cl_v s ! j = drop (cl_u s) (cl_v s) ! (j - cl_u s)" using assms(2,3) by simp
  also have "\<dots> \<in> set (drop (cl_u s) (cl_v s))" using assms(2,3) by (intro nth_mem) simp
  finally show ?thesis using assms(1) unfolding clar_live_def by blast
qed

lemma flush_behind:
  assumes "clar_live s" "cl_u s \<le> i" "i < length (cl_v s)"
    "clar_flush_entry i (s\<lparr>cl_u := Suc i, cl_v := (cl_v s)[i := e]\<rparr>) = (r, s')"
  shows "r = 0 \<and> clar_live s' \<and> cl_v s' = (cl_v s)[i := e] \<and> cl_u s' = Suc i"
proof -
  obtain f where L: "False \<notin> set (cl_io s)" "cl_u s \<le> length (cl_v s)" "cl_file s = Some f"
    "list_all2 same_clar (take (cl_u s) (cl_v s)) f" "set (drop (cl_u s) (cl_v s)) \<subseteq> {free_clar}" "length f = cl_u s"
    using clar_liveE [OF assms(1)] by blast
  let ?s = "s\<lparr>cl_u := Suc i, cl_v := (cl_v s)[i := e]\<rparr>"
  have F: "r = 0" "cl_v s' = cl_v ?s" "cl_u s' = Suc i" "False \<notin> set (cl_io s')"
    "cl_file s' = Some (write_at zero_clar i [cl_v ?s ! i] f)"
    using clar_flush_good [of ?s i] L(1,3) assms(4) by auto
  have w: "write_at zero_clar i [cl_v ?s ! i] f = f @ replicate (i - cl_u s) zero_clar @ [e]"
    using assms(2,3) L(6) by (simp add: write_at_def)
  note fr = live_behind [OF assms(1)]
  have "take i (cl_v s) = take (cl_u s) (cl_v s) @ replicate (i - cl_u s) free_clar"
    using assms(2,3) fr by (intro nth_equalityI) (auto simp: nth_append)
  then have t: "take (Suc i) ((cl_v s)[i := e]) = take (cl_u s) (cl_v s) @ replicate (i - cl_u s) free_clar @ [e]"
    using assms(3) by (simp add: take_Suc_conv_app_nth)
  have "list_all2 same_clar (replicate (i - cl_u s) free_clar) (replicate (i - cl_u s) zero_clar)"
    by (simp add: list_all2_conv_all_nth)
  then have "list_all2 same_clar (take (Suc i) ((cl_v s)[i := e])) (f @ replicate (i - cl_u s) zero_clar @ [e])"
    unfolding t using L(4) by (intro list_all2_appendI) simp_all
  moreover have "set (drop (Suc i) ((cl_v s)[i := e])) \<subseteq> {free_clar}"
    using fr assms(2) by (auto simp: in_set_conv_nth)
  ultimately show ?thesis using F w assms(3) by (simp add: clar_live_def)
qed

lemma grow_clars_live:
  assumes "clar_live s"
  shows "clar_live (grow_clars n s) \<and> n < length (cl_v (grow_clars n s)) \<and> cl_u (grow_clars n s) = cl_u s"
proof -
  let ?a = "length (cl_v s)"
  have "n + 1 \<le> double_upto (n + 1) (if ?a = 0 then 128 else ?a)" by (rule double_upto_ge) simp
  then have "n < length (cl_v (grow_clars n s))" by (simp add: grow_clars_def Let_def)
  then show ?thesis using assms by (auto simp: clar_live_def grow_clars_def Let_def)
qed

section \<open>The operations keep the file\<close>

lemma add_live:
  assumes "clar_live s" "clar_add_record g s = (r, s')"
  shows "clar_live s' \<and> r = int (cl_u s) \<and> clar_get_record r s' = Some (new_clar g r)"
proof -
  define t where "t = (if cl_u s \<ge> length (cl_v s) then grow_clars (cl_u s) s else s)"
  have g: "clar_live t" "cl_u s < length (cl_v t)" "cl_u t = cl_u s"
    using grow_clars_live [OF assms(1)] assms(1) by (auto simp: t_def)
  obtain r1 s1 where f: "clar_flush_entry (cl_u s) (t\<lparr>cl_u := Suc (cl_u s), cl_v := (cl_v t)[cl_u s := new_clar g (int (cl_u s))]\<rparr>) = (r1, s1)"
    by fastforce
  have B: "r1 = 0 \<and> clar_live s1 \<and> cl_v s1 = (cl_v t)[cl_u s := new_clar g (int (cl_u s))] \<and> cl_u s1 = Suc (cl_u s)"
    by (rule flush_behind [OF g(1) _ g(2) f]) (simp add: g(3))
  have "clar_add_record g s = (if r1 < 0 then -1 else int (cl_u s), s1)"
    unfolding clar_add_record_def t_def [symmetric] Let_def g(3) f by simp
  then have "r = int (cl_u s)" "s' = s1" using assms(2) B by auto
  moreover have "ce_id (new_clar g i) = i" for i by (simp add: new_clar_def ipv6_to_clar_entry_def zero_clar_def)
  ultimately show ?thesis using B g(2) by (simp add: clar_get_record_def has_clar_def)
qed

lemma put_live:
  assumes "clar_live s" "clar_put_record cid p s = (r, s')"
  shows "clar_live s'"
proof (cases "cid < 0 \<or> p = None \<or> (\<exists>e. p = Some e \<and> ce_id e < 0)")
  case True
  then show ?thesis using assms by (auto simp: clar_put_record_def split: option.splits if_splits)
next
  case False
  then obtain e where e: "\<not> cid < 0" "p = Some e" "\<not> ce_id e < 0" by (cases p) auto
  let ?i = "nat cid"
  let ?e = "e\<lparr>ce_id := cid\<rparr>"
  show ?thesis
  proof (cases "?i \<ge> cl_u s")
    case False
    have "?i < cl_u s" using False by simp
    obtain r1 s1 where f: "clar_flush_entry ?i (s\<lparr>cl_v := (cl_v s)[?i := ?e]\<rparr>) = (r1, s1)" by fastforce
    note B = flush_inside [OF assms(1) \<open>?i < cl_u s\<close> f]
    show ?thesis using assms e False f B unfolding clar_put_record_def Let_def by (auto split: if_splits)
  next
    case True
    note g = grow_clars_live [OF assms(1), of ?i]
    obtain r1 s1 where f: "clar_flush_entry ?i ((grow_clars ?i s)\<lparr>cl_u := Suc ?i, cl_v := (cl_v (grow_clars ?i s))[?i := ?e]\<rparr>) = (r1, s1)"
      by fastforce
    have B: "r1 = 0 \<and> clar_live s1" using flush_behind [of "grow_clars ?i s" ?i ?e r1 s1] g True f by simp
    have "cl_v (grow_clars ?i s) ! ?i = free_clar" using live_behind [of "grow_clars ?i s" ?i] g True by simp
    then show ?thesis using assms(2) e True f B unfolding clar_put_record_def Let_def by (simp add: free_clar_def)
  qed
qed

lemma store_live:
  assumes "clar_live s" "has_clar s cid" "store_clar cid e s = (r, s')"
  shows "clar_live s' \<and> r = 0"
proof -
  have i: "nat cid < cl_u s" using assms(2) by (auto simp: has_clar_def)
  obtain r1 s1 where f: "clar_flush_entry (nat cid) (s\<lparr>cl_v := (cl_v s)[nat cid := e]\<rparr>) = (r1, s1)" by fastforce
  show ?thesis using flush_inside [OF assms(1) i f] assms(3) f by (auto simp: store_clar_def)
qed

lemma used_clar_has: "used_clar cid s = Some (Some e) \<Longrightarrow> has_clar s cid"
  by (auto simp: used_clar_def split: if_splits)

lemma change_live:
  assumes "clar_live s"
  shows "clar_update_flags cid flags s = (r, s') \<Longrightarrow> clar_live s'"
    "clar_set_charset cid cs s = (r, s') \<Longrightarrow> clar_live s'"
    "clar_modify_record cid m p s = (r, s') \<Longrightarrow> clar_live s'"
proof -
  have st: "clar_live s'" if "used_clar cid s = Some (Some e)" "store_clar cid e' s = (r, s')" for e e'
    using store_live [OF assms used_clar_has [OF that(1)] that(2)] by blast
  show "clar_update_flags cid flags s = (r, s') \<Longrightarrow> clar_live s'" "clar_set_charset cid cs s = (r, s') \<Longrightarrow> clar_live s'"
    using assms by (auto simp: clar_update_flags_def clar_set_charset_def split: option.splits if_splits intro: st)
  show "clar_modify_record cid m p s = (r, s') \<Longrightarrow> clar_live s'"
    using assms store_live [OF assms, of cid] by (auto simp: clar_modify_record_def split: if_splits)
qed

lemma create_live:
  assumes "False \<notin> set (cl_io s)" "cl_u s \<le> length (cl_v s)" "create_new_clar_log False s = (r, s')"
  shows "clar_live s' \<and> r = 0 \<and> cl_u s' = 0"
proof -
  let ?s1 = "s\<lparr>cl_v := replicate 128 free_clar, cl_u := (if cl_v s = [] then cl_u s else 0)\<rparr>"
  have u: "cl_u ?s1 = 0" using assms(2) by auto
  have 1: "False \<notin> set (cl_io ?s1)" using assms(1) by simp
  let ?s2 = "?s1\<lparr>cl_io := tl (cl_io ?s1), cl_file := None\<rparr>"
  have i1: "clar_io (\<lambda>s. s\<lparr>cl_file := None\<rparr>) ?s1 = (True, ?s2)" "False \<notin> set (cl_io ?s2)"
    using clar_io_good [OF 1, of "\<lambda>s. s\<lparr>cl_file := None\<rparr>", THEN conjunct1]
      clar_io_good [OF 1, of id, THEN conjunct2] by simp_all
  have "clar_io (\<lambda>s. s\<lparr>cl_file := Some []\<rparr>) ?s2 = (True, ?s2\<lparr>cl_io := tl (cl_io ?s2), cl_file := Some []\<rparr>)"
    "False \<notin> set (tl (cl_io ?s2))"
    using clar_io_good [OF i1(2), of "\<lambda>s. s\<lparr>cl_file := Some []\<rparr>", THEN conjunct1]
      clar_io_good [OF i1(2), of id, THEN conjunct2] by simp_all
  then have "s' = ?s2\<lparr>cl_io := tl (cl_io ?s2), cl_file := Some []\<rparr>" "r = 0"
    using assms(3) i1(1) unfolding create_new_clar_log_def Let_def by auto
  then show ?thesis using u \<open>False \<notin> set (tl (cl_io ?s2))\<close> by (simp add: clar_live_def)
qed

lemma reset_live: "clar_live s \<Longrightarrow> clar_live (clar_reset s)"
  using create_live [of s] clar_live_cong [of "clar_reset s" "snd (create_new_clar_log False s)"]
  by (cases "create_new_clar_log False s") (auto simp: clar_reset_def clar_live_def)

lemma charset_parts [simp]:
  "cl_v (snd (charset_get_id c s)) = cl_v s" "cl_u (snd (charset_get_id c s)) = cl_u s"
  "cl_file (snd (charset_get_id c s)) = cl_file s" "cl_io (snd (charset_get_id c s)) = cl_io s"
  "cl_codes (snd (charset_get_id c s)) = cl_codes s" "cl_subjects (snd (charset_get_id c s)) = cl_subjects s"
  by (auto simp: charset_get_id_def split: option.splits)

lemma ensure_code_live: "clar_live (ensure_code i s) = clar_live s"
  by (rule clar_live_cong) (simp_all add: ensure_code_def case_prod_unfold)

lemma extend_live: "clar_live (extend_charset_ids s) = clar_live s"
  by (rule clar_live_cong) (simp_all add: extend_charset_ids_def Let_def)

lemma read_live:
  "clar_live s \<Longrightarrow> clar_live (snd (clar_get_subject dec cid s))"
  "clar_live s \<Longrightarrow> clar_live (snd (clar_get_charset_id cid s))"
proof -
  show sub: "clar_live s \<Longrightarrow> clar_live (snd (clar_get_subject dec cid s))"
    using clar_live_cong [of "ensure_code (nat cid) (extend_charset_ids s)\<lparr>cl_subjects := x\<rparr>" "ensure_code (nat cid) (extend_charset_ids s)" for x]
    by (simp add: clar_get_subject_def Let_def ensure_code_live extend_live split: option.splits)
  show "clar_live s \<Longrightarrow> clar_live (snd (clar_get_charset_id cid s))"
    using clar_live_cong [of "ensure_code (nat cid) (extend_charset_ids s)\<lparr>cl_codes := x\<rparr>" "ensure_code (nat cid) (extend_charset_ids s)" for x]
    by (simp add: clar_get_charset_id_def Let_def ensure_code_live extend_live)
qed

lemma text_live:
  "clar_live s \<Longrightarrow> clar_live (snd (clar_get_text dec cid s))"
  "clar_live s \<Longrightarrow> clar_live (snd (clar_add_text cid txt s))"
proof -
  assume s: "clar_live s"
  show "clar_live (snd (clar_get_text dec cid s))"
    using s read_live(2) [OF s, of cid] by (auto simp: clar_get_text_def case_prod_unfold split: option.splits)
  have io: "False \<notin> set (cl_io s)" using s by (simp add: clar_live_def)
  show "clar_live (snd (clar_add_text cid txt s))"
    using s clar_io_good [OF io, of "\<lambda>s. s\<lparr>cl_texts := (cl_texts s)(cid \<mapsto> txt)\<rparr>"]
    by (simp add: clar_add_text_def clar_live_def)
qed

text \<open>What the server does with the log of a running contest.\<close>

inductive clar_step :: "clarlog \<Rightarrow> clarlog \<Rightarrow> bool" where
  "clar_step s (snd (clar_add_record g s))"
| "clar_step s (snd (clar_put_record cid p s))"
| "clar_step s (snd (clar_update_flags cid flags s))"
| "clar_step s (snd (clar_set_charset cid cs s))"
| "clar_step s (snd (clar_modify_record cid m p s))"
| "clar_step s (clar_reset s)"
| "clar_step s (snd (clar_get_subject dec cid s))"
| "clar_step s (snd (clar_get_charset_id cid s))"
| "clar_step s (snd (clar_get_text dec cid s))"
| "clar_step s (snd (clar_add_text cid txt s))"
| "clar_step s (snd (clar_modify_text cid txt s))"

lemma clar_step_live: "clar_step s s' \<Longrightarrow> clar_live s \<Longrightarrow> clar_live s'"
proof (induction rule: clar_step.induct)
  case (1 s g) then show ?case using add_live [of s g] by (metis prod.collapse)
next
  case (2 s cid p) then show ?case using put_live [of s cid p] by (metis prod.collapse)
next
  case (3 s cid flags) then show ?case using change_live(1) [of s cid flags] by (metis prod.collapse)
next
  case (4 s cid cs) then show ?case using change_live(2) [of s cid cs] by (metis prod.collapse)
next
  case (5 s cid m p) then show ?case using change_live(3) [of s cid m p] by (metis prod.collapse)
next
  case (6 s) then show ?case by (rule reset_live)
next
  case (7 s dec cid) then show ?case by (rule read_live)
next
  case (8 s cid) then show ?case by (rule read_live)
next
  case (9 s dec cid) then show ?case by (rule text_live)
next
  case (10 s cid x) then show ?case by (rule text_live)
next
  case (11 s cid x) then show ?case unfolding clar_modify_text_def by (rule text_live)
qed

section \<open>A restart\<close>

lemma fix_parties_id: "\<not> (ce_from e = -1 \<or> ce_to e = -1) \<Longrightarrow> fix_parties e = e"
  by (simp add: fix_parties_def)

lemma fix_steps:
  assumes "clar_live s" "n \<le> cl_u s"
  shows "let t = fold (fix_step False) [0..<n] s in
    clar_live t \<and> cl_u t = cl_u s \<and> cl_v t = map fix_parties (take n (cl_v s)) @ drop n (cl_v s)"
  using assms(2)
proof (induction n)
  case 0
  then show ?case using assms(1) by simp
next
  case (Suc n)
  define t where "t = fold (fix_step False) [0..<n] s"
  have t: "clar_live t" "cl_u t = cl_u s" "cl_v t = map fix_parties (take n (cl_v s)) @ drop n (cl_v s)"
    using Suc by (simp_all add: t_def Let_def)
  have n: "n < length (cl_v s)" "n < cl_u t" using Suc.prems assms(1) t(2) by (auto simp: clar_live_def)
  then have e: "cl_v t ! n = cl_v s ! n" using t(3) by (simp add: nth_append)
  have v: "(cl_v t)[n := fix_parties (cl_v s ! n)] = map fix_parties (take (Suc n) (cl_v s)) @ drop (Suc n) (cl_v s)"
    using n(1) t(3) by (intro nth_equalityI) (auto simp: nth_append nth_list_update min_def less_Suc_eq)
  have step: "fold (fix_step False) [0..<Suc n] s = fix_step False n t" by (simp add: t_def)
  show ?case
  proof (cases "ce_from (cl_v s ! n) = -1 \<or> ce_to (cl_v s ! n) = -1")
    case True
    obtain r s' where f: "clar_flush_entry n (t\<lparr>cl_v := (cl_v t)[n := fix_parties (cl_v s ! n)]\<rparr>) = (r, s')" by fastforce
    have "fix_step False n t = s'" using True f by (simp add: fix_step_def e Let_def)
    then show ?thesis using flush_inside [OF t(1) n(2) f] v t(2) unfolding step Let_def by simp
  next
    case False
    have "(cl_v t)[n := fix_parties (cl_v s ! n)] = cl_v t" using fix_parties_id [OF False] e by (metis list_update_id)
    moreover have "fix_step False n t = t" using False by (simp add: fix_step_def e Let_def)
    ultimately show ?thesis using v t unfolding step Let_def by simp
  qed
qed

lemma open_records:
  assumes "cl_file s = Some es" "False \<notin> set (cl_io s)" "do_clar_open False s = (r, t)"
  shows "r = 0 \<and> clar_live t \<and> cl_u t = length es \<and> take (length es) (cl_v t) = map fix_parties es"
proof -
  let ?n = "length es"
  define s1 where "s1 = s\<lparr>cl_u := ?n, cl_v := es @ replicate (double_upto ?n 128 - ?n) free_clar\<rparr>"
  have "clar_live s1" using assms(1,2) by (auto simp: s1_def clar_live_def list_all2_conv_all_nth)
  moreover have "cl_u s1 = ?n" by (simp add: s1_def)
  ultimately have "let t = fold (fix_step False) [0..<?n] s1 in
      clar_live t \<and> cl_u t = ?n \<and> cl_v t = map fix_parties (take ?n (cl_v s1)) @ drop ?n (cl_v s1)"
    using fix_steps [of s1 ?n] by simp
  moreover have "do_clar_open False s = (0, fold (fix_step False) [0..<?n] s1)"
    using assms(1) by (simp add: do_clar_open_def s1_def Let_def)
  ultimately show ?thesis using assms(3) by (simp add: s1_def Let_def)
qed

lemma clar_open_live:
  assumes "False \<notin> set (cl_io s)" "cl_u s \<le> length (cl_v s)" "do_clar_open False s = (r, t)"
  shows "clar_live t"
proof (cases "cl_file s")
  case None
  let ?s = "s\<lparr>cl_v := [], cl_u := (if cl_v s = [] then cl_u s else 0)\<rparr>"
  have u: "(if cl_v s = [] then cl_u s else 0) = 0" using assms(2) by auto
  have "create_new_clar_log False ?s = (r, t)" using assms(3) None by (simp add: do_clar_open_def Let_def)
  then show ?thesis using assms(1) create_live [OF _ _ \<open>create_new_clar_log False ?s = (r, t)\<close>] u by simp
next
  case (Some es)
  then show ?thesis using open_records [OF Some assms(1,3)] by simp
qed

text \<open>
  The program of a server and its successor: the log is opened from a file, the operations follow in any
  order, and the file is opened again.
\<close>

definition clar_start :: "clar_entry list option \<Rightarrow> clarlog" where
  "clar_start f = snd (do_clar_open False (clar_init\<lparr>cl_file := f\<rparr>))"

lemma start_live: "clar_live (clar_start f)"
proof -
  obtain r t where t: "do_clar_open False (clar_init\<lparr>cl_file := f\<rparr>) = (r, t)" by fastforce
  have "False \<notin> set (cl_io (clar_init\<lparr>cl_file := f\<rparr>))"
    "cl_u (clar_init\<lparr>cl_file := f\<rparr>) \<le> length (cl_v (clar_init\<lparr>cl_file := f\<rparr>))"
    by (simp_all add: clar_init_def)
  from clar_open_live [OF this t] show ?thesis by (simp add: clar_start_def t)
qed

lemma clar_steps_live: "clar_step\<^sup>*\<^sup>* s s' \<Longrightarrow> clar_live s \<Longrightarrow> clar_live s'"
  by (induction rule: rtranclp_induct) (auto intro: clar_step_live)

lemma start_records:
  "cl_u (clar_start (Some es)) = length es \<and> take (length es) (cl_v (clar_start (Some es))) = map fix_parties es"
proof -
  obtain r t where t: "do_clar_open False (clar_init\<lparr>cl_file := Some es\<rparr>) = (r, t)" by fastforce
  have "cl_file (clar_init\<lparr>cl_file := Some es\<rparr>) = Some es" "False \<notin> set (cl_io (clar_init\<lparr>cl_file := Some es\<rparr>))"
    by (simp_all add: clar_init_def)
  from open_records [OF this t] show ?thesis by (simp add: clar_start_def t)
qed


definition sample_clar :: clar_args where
  "sample_clar = \<lparr>cg_time = 100, cg_nsec = 0, cg_size = 5, cg_ip = \<lparr>ip_ipv6_flag = 0, ip_u = zero_quad\<rparr>, cg_ssl_flag = 0,
     cg_from = 7, cg_to = -1, cg_flags = 0, cg_j_from = 0, cg_hide_flag = 0, cg_locale_id = 0, cg_in_reply_to = 0,
     cg_run_id = 0, cg_appeal_flag = 0, cg_utf8_mode = 1, cg_charset = None, cg_subj = Some ''Question''\<rparr>"


section \<open>What a gap becomes\<close>


section \<open>Caches and changes\<close>

text \<open>
  A change of the character set is not seen by the subject: the cached character set stays.
\<close>

lemma set_charset_keeps_cache:
  assumes "clar_set_charset cid cs s = (r, s')"
  shows "cl_codes s' = cl_codes s \<and> cl_subjects s' = cl_subjects s"
proof -
  have F: "cl_codes (snd (clar_flush_entry i s)) = cl_codes s \<and> cl_subjects (snd (clar_flush_entry i s)) = cl_subjects s" for i s
    by (simp add: clar_flush_entry_def clar_io_def Let_def)
  show ?thesis using assms F [of "nat cid" "s\<lparr>cl_v := (cl_v s)[nat cid := e]\<rparr>" for e]
    by (auto simp: clar_set_charset_def store_clar_def case_prod_unfold split: option.splits if_splits)
qed

end
