(* ===== verification/Spec2Isabelle.thy ===== *)
theory Spec2Isabelle
  imports Log_Steps Fix_Time Xml_Date Filter_Range Filter_Fold Packet_Safety Kirov_Cells Moscow_Laws
    Event_Laws Restart_Laws Clar_Laws
begin

text \<open>
  Verification library of ejudge, the contest management system: the run log, the filters over it, the
  standings computed from it, virtual contests and their events, the messages of a contest, the text forms of its addresses and
  dates, and the packets to the compile and run servers.

  \<^bold>\<open>The program.\<close>  A contest server (\<open>new-server.c\<close>, \<open>serve_2.c\<close>) keeps the submitted runs of a
  contest in a log.  \<open>runlog.c\<close> holds the log in memory with two indices, the list of the runs of
  every user and a hash table of run UUIDs, and delegates storage to a plugin; the default plugin
  \<open>rldb_plugin_file.c\<close> keeps an array of entries and a file of fixed-size records.
  \<open>runlog_static.c\<close> holds the status tables and the helpers that need no state.

  \<^bold>\<open>Theories.\<close>
  \<^item> \<open>Prelude\<close>: stores into narrow C fields, flag masks, growing arrays, files of records, loops with
    an early exit.
  \<^item> \<open>Run_Status\<close>: status codes and tables (\<open>runlog.h\<close>, \<open>runlog_static.c\<close>), status names.
  \<^item> \<open>Run_Entry\<close>: \<open>struct run_entry\<close>, \<open>struct run_header\<close>, the masks, the address layouts.
  \<^item> \<open>Runlog_State\<close>: \<open>struct runlog_state\<close> and the file of the plugin.
  \<^item> \<open>Rldb_File\<close>, \<open>Rldb_Laws\<close>: the operations of the storage plugin and their laws: where a new run is
    placed, what else moves, that the file follows the memory (locale \<open>entry_writer\<close>).
  \<^item> \<open>User_Index\<close>: the per-user lists; the locale \<open>user_index\<close> states that a traversal visits exactly
    the indexed runs of the user, and is interpreted on \<open>get_user_entry\<close>.
  \<^item> \<open>Run_Queries\<close>, \<open>Query_Laws\<close>: the questions asked about the log and their meaning on the log read as
    a list.
  \<^item> \<open>Uuid_Hash\<close>: the open-addressing table of UUIDs; the locale \<open>uuid_table\<close> is the map it implements.
  \<^item> \<open>Runlog\<close>, \<open>Runlog_Laws\<close>: the operations that change the log, and what adding a run does.
  \<^item> \<open>Runlog_Check\<close>: the consistency check, the building of the indices, opening and replacing a log.
  \<^item> \<open>Check_Laws\<close>: what \<open>runlog_check\<close> accepts, stated on the list of entries, and that the indices built
    from an accepted log are right.
  \<^item> \<open>Log_Steps\<close>: the operations as the steps of a relation; a live log stays numbered, ordered and equal to
    its file, so a restarted server reads back what it had.
  \<^item> \<open>Fix_Time\<close>: the repair of a log whose clock was set back.

  \<^item> \<open>C_Text\<close>, \<open>Xml_Ip\<close>: the C library's text functions; IP addresses as text (\<open>xml_utils/\<close>).
  \<^item> \<open>Xml_Date\<close>: dates as text (\<open>xml_utils/\<close>) and the fallback UUID functions of \<open>ej_uuid.c\<close>.

  \<^item> \<open>Filter_Tree\<close>, \<open>Filter_Eval\<close>, \<open>Filter_Parse\<close>: the filter expressions over runs: values and operations
    (\<open>filter_tree.c\<close>), evaluation (\<open>filter_eval.c\<close>), the actions of the parser (\<open>filter_expr.y\<close>), and the
    selection of the runs a judge sees (\<open>new_server_html_2.c\<close>).
  \<^item> \<open>Filter_Laws\<close>: a typing of the trees under which evaluation never aborts; the faults of the program
    that break it.  \<open>Filter_Range\<close>: values stay within the widths of their C types, and the runs shown.
    \<open>Filter_Fold\<close>: folding of constants preserves the meaning.

  \<^item> \<open>Packets\<close>: the binary packets between the contest server and the compile and run servers
    (\<open>compile_packet_*.c\<close>, \<open>run_packet_*.c\<close>).  \<open>Packet_Laws\<close>: what is written is read back.
    \<open>Packet_Safety\<close>: no reader or writer leaves its buffer, except when a size overflows.

  \<^item> \<open>Ranking\<close>: the counting and bubble sorts of the standings (\<open>html.c\<close>) and the places of ties; the
    locale \<open>bucket_starts\<close> is what a sort needs of its table of starting positions and is interpreted on
    the four tables the program builds.
  \<^item> \<open>Stand_Data\<close>: the rows and columns of a table.  \<open>Stand_Acm\<close>, \<open>Stand_Kirov\<close>, \<open>Stand_Moscow\<close>: the scan of
    the log, the totals and the ranking of the ACM, Kirov and olympiad, and Moscow standings.
  \<^item> \<open>Acm_Laws\<close>, \<open>Kirov_Laws\<close>, \<open>Kirov_Cells\<close>, \<open>Moscow_Laws\<close>: the cells and totals in terms of the log, the
    order and the places, and which tables can abort.

  \<^item> \<open>Event_Queue\<close>, \<open>Queue_Laws\<close>: the queue of events of a server as a doubly linked list in memory
    (\<open>serve_state.c\<close>) and the ordered list it implements (locale \<open>ordered_queue\<close>).
  \<^item> \<open>Virtual_Events\<close>: starting, stopping and ending virtual contests, handling the due events, and the check
    at the start of a server (\<open>serve_2.c\<close>, \<open>new_server_html.c\<close>).  \<open>Virtual_Laws\<close>: a stop event can always be
    inserted and is recorded.  \<open>Event_Laws\<close>: due events are served, a virtual contest ends.  \<open>Restart_Laws\<close>:
    a restart repairs the log at most once and puts the right events into the queue.

  \<^item> \<open>Clar_Log\<close>, \<open>Clar_Laws\<close>: the messages between participants and judges (\<open>clarlog.c\<close>), their file
    (\<open>cldb_plugin_file.c\<close>) and the names of character sets (\<open>charsets.c\<close>): messages survive a restart,
    what becomes of gaps, and the cut of a long subject between two characters.

  \<^bold>\<open>Conventions.\<close>  An operation returns \<open>(C result, state) option\<close>; \<open>None\<close> is a failed ASSERT, an access
  out of an array or a loop that does not end (\<open>partial_function (option)\<close>), so a theorem that an
  operation returns \<open>Some\<close> is a theorem that none of these happens.  Pointers into tables are the
  entries themselves, written back where the C code writes through them.  \<open>io\<close> in the state is the
  plan of outcomes of the disk operations, so a failing disk is part of the model.

  \<^bold>\<open>Parameters.\<close>  The UUID generator, the random number of the plugin, \<open>gettext\<close>, the conversion of the iconv library, and the refresh of the
  user database over its connection are arguments of the definitions that use them.

  \<^bold>\<open>Not modelled.\<close>  Padding bytes, log messages, the conversion of old log file formats, the choice and
  loading of plugins, \<open>run_backup\<close>, and the rest of the program: the listed components of the manifest.
\<close>

end
